(* ===== verification/Prelude.thy ===== *)
theory Prelude
  imports Complex_Main "HOL-Library.List_Lexorder" "HOL-Library.Char_ord"
begin

text \<open>
  What every component shares: Go's int64 arithmetic with its wrap-around, Go's truncating
  division, the result type of fallible operations, finite maps as association lists, and the
  stable sort by a comparison that stands for both \<open>sort.Slice\<close> and an SQL \<open>ORDER BY\<close>.
\<close>

named_theorems i64_simps \<open>reading int64 expressions as mathematical integers\<close>
named_theorems sort_facts \<open>what sorting by a comparison keeps\<close>

section \<open>int64\<close>

definition max_i64 :: int where
  "max_i64 = 9223372036854775807"

definition min_i64 :: int where
  "min_i64 = - 9223372036854775808"

definition in_i64 :: "int \<Rightarrow> bool" where
  "in_i64 x \<longleftrightarrow> min_i64 \<le> x \<and> x \<le> max_i64"

text \<open>The value an int64 expression has in Go: the mathematical value modulo 2 to the 64.\<close>

definition i64 :: "int \<Rightarrow> int" where
  "i64 x = (x + 9223372036854775808) mod 18446744073709551616 - 9223372036854775808"

lemma i64_id [i64_simps]: "in_i64 x \<Longrightarrow> i64 x = x"
  by (simp add: i64_def in_i64_def max_i64_def min_i64_def)

lemma in_i64_i64 [simp, intro]: "in_i64 (i64 x)"
proof -
  have "0 \<le> (x + 9223372036854775808) mod 18446744073709551616"
    and "(x + 9223372036854775808) mod 18446744073709551616 < 18446744073709551616"
    by simp_all
  then show ?thesis
    by (simp add: i64_def in_i64_def max_i64_def min_i64_def)
qed

lemma i64_idem [simp]: "i64 (i64 x) = i64 x"
  by (simp add: i64_id)

lemma in_i64_nonneg [i64_simps]: "0 \<le> x \<Longrightarrow> in_i64 x \<longleftrightarrow> x \<le> max_i64"
  by (auto simp: in_i64_def min_i64_def)

lemma i64_nonneg_id [i64_simps]: "0 \<le> x \<Longrightarrow> x \<le> max_i64 \<Longrightarrow> i64 x = x"
  by (simp add: i64_id in_i64_nonneg)

lemma i64_diff_id [i64_simps]: "0 \<le> y \<Longrightarrow> y \<le> x \<Longrightarrow> x \<le> max_i64 \<Longrightarrow> i64 (x - y) = x - y"
  by (simp add: i64_nonneg_id)

text \<open>Go's integer division truncates towards zero.\<close>

definition go_div :: "int \<Rightarrow> int \<Rightarrow> int" where
  "go_div a b = sgn a * sgn b * (\<bar>a\<bar> div \<bar>b\<bar>)"

definition go_rem :: "int \<Rightarrow> int \<Rightarrow> int" where
  "go_rem a b = a - b * go_div a b"

lemma go_div_nonneg: "0 \<le> a \<Longrightarrow> 0 < b \<Longrightarrow> go_div a b = a div b"
  by (cases "a = 0") (auto simp: go_div_def)

lemma go_rem_nonneg: "0 \<le> a \<Longrightarrow> 0 < b \<Longrightarrow> go_rem a b = a mod b"
  by (simp add: go_rem_def go_div_nonneg minus_mult_div_eq_mod)

section \<open>Results\<close>

text \<open>A fallible operation returns \<open>Inl e\<close> for a non-nil error and \<open>Inr v\<close> otherwise.\<close>

definition is_ok :: "'e + 'a \<Rightarrow> bool" where
  "is_ok r = (case r of Inl _ \<Rightarrow> False | Inr _ \<Rightarrow> True)"

lemma is_ok_simps [simp]: "is_ok (Inr v)" "\<not> is_ok (Inl e)"
  by (simp_all add: is_ok_def)

lemma is_ok_iff: "is_ok r \<longleftrightarrow> (\<exists>v. r = Inr v)"
  by (cases r) simp_all

text \<open>A guard: the error when the condition fails.\<close>

definition require :: "bool \<Rightarrow> 'e \<Rightarrow> 'e + unit" where
  "require b e = (if b then Inr () else Inl e)"

section \<open>Finite maps as association lists\<close>

text \<open>
  A Go map is an association list with distinct keys. \<open>map_of\<close> reads it; Go leaves the order of
  iteration open, so what a component computes from a map is stated over \<open>map_of\<close>.
\<close>

type_synonym ('k, 'v) go_map = "('k \<times> 'v) list"

definition wf_map :: "('k, 'v) go_map \<Rightarrow> bool" where
  "wf_map m = distinct (map fst m)"

definition get_or :: "'v \<Rightarrow> ('k, 'v) go_map \<Rightarrow> 'k \<Rightarrow> 'v" where
  "get_or d m k = (case map_of m k of None \<Rightarrow> d | Some v \<Rightarrow> v)"

fun put_key :: "'k \<Rightarrow> 'v \<Rightarrow> ('k, 'v) go_map \<Rightarrow> ('k, 'v) go_map" where
  "put_key k v [] = [(k, v)]"
| "put_key k v ((k', v') # m) = (if k' = k then (k, v) # m else (k', v') # put_key k v m)"

lemma map_of_put_key [simp]: "map_of (put_key k v m) = (map_of m)(k \<mapsto> v)"
  by (induction k v m rule: put_key.induct) auto

lemma keys_put_key [simp]: "fst ` set (put_key k v m) = insert k (fst ` set m)"
  by (induction k v m rule: put_key.induct) auto

lemma wf_map_put_key [simp]: "wf_map (put_key k v m) = wf_map m"
proof (induction k v m rule: put_key.induct)
  case (2 k v k' v' m)
  have "k' \<notin> fst ` set (put_key k v m) \<longleftrightarrow> k' \<notin> fst ` set m" if "k' \<noteq> k"
    using that by simp
  with 2 show ?case by (auto simp: wf_map_def simp del: keys_put_key)
qed (simp add: wf_map_def)

lemma wf_map_map_of: "wf_map m \<Longrightarrow> (k, v) \<in> set m \<longleftrightarrow> map_of m k = Some v"
  by (auto simp: wf_map_def dest: map_of_SomeD)

section \<open>Sorting by a comparison\<close>

fun insert_by :: "('a \<Rightarrow> 'a \<Rightarrow> bool) \<Rightarrow> 'a \<Rightarrow> 'a list \<Rightarrow> 'a list" where
  "insert_by le x [] = [x]"
| "insert_by le x (y # ys) = (if le x y then x # y # ys else y # insert_by le x ys)"

definition sort_by :: "('a \<Rightarrow> 'a \<Rightarrow> bool) \<Rightarrow> 'a list \<Rightarrow> 'a list" where
  "sort_by le xs = foldr (insert_by le) xs []"

lemma sort_by_simps [simp]:
  "sort_by le [] = []"
  "sort_by le (x # xs) = insert_by le x (sort_by le xs)"
  by (simp_all add: sort_by_def)

lemma set_insert_by [sort_facts]: "set (insert_by le x ys) = insert x (set ys)"
  by (induction le x ys rule: insert_by.induct) auto

lemma set_sort_by [simp, sort_facts]: "set (sort_by le xs) = set xs"
  by (induction xs) (auto simp: set_insert_by)

lemma length_insert_by [sort_facts]: "length (insert_by le x ys) = Suc (length ys)"
  by (induction le x ys rule: insert_by.induct) auto

lemma length_sort_by [simp, sort_facts]: "length (sort_by le xs) = length xs"
  by (induction xs) (auto simp: length_insert_by)

lemma distinct_insert_by: "distinct (insert_by le x ys) \<longleftrightarrow> x \<notin> set ys \<and> distinct ys"
  by (induction le x ys rule: insert_by.induct) (auto simp: set_insert_by)

lemma distinct_sort_by [simp, sort_facts]: "distinct (sort_by le xs) = distinct xs"
  by (induction xs) (auto simp: distinct_insert_by)

text \<open>
  The contract of a comparison function: what Go's \<open>sort\<close> package and an \<open>ORDER BY\<close> clause rely on.
\<close>

locale comparison =
  fixes le :: "'a \<Rightarrow> 'a \<Rightarrow> bool"
  assumes le_total: "le x y \<or> le y x"
    and le_trans: "le x y \<Longrightarrow> le y z \<Longrightarrow> le x z"
begin

lemma sorted_insert_by: "sorted_wrt le ys \<Longrightarrow> sorted_wrt le (insert_by le x ys)"
proof (induction ys)
  case (Cons y ys)
  show ?case
  proof (cases "le x y")
    case True
    with Cons.prems show ?thesis by (auto intro: le_trans)
  next
    case False
    then have "le y x" using le_total by blast
    with Cons False show ?thesis by (auto simp: set_insert_by)
  qed
qed simp

lemma sorted_sort_by: "sorted_wrt le (sort_by le xs)"
  by (induction xs) (auto intro: sorted_insert_by)

lemma filter_insert_by:
  "sorted_wrt le ys \<Longrightarrow> filter P (insert_by le x ys) = (if P x then insert_by le x (filter P ys) else filter P ys)"
proof (induction ys)
  case (Cons y ys)
  show ?case
  proof (cases "le x y")
    case True
    have "insert_by le x (filter P ys) = x # filter P ys"
    proof (cases "filter P ys")
      case (Cons z zs)
      then have "z \<in> set ys" by (metis filter_is_subset list.set_intros(1) subsetD)
      with Cons.prems True have "le x z" using le_trans by auto
      with Cons show ?thesis by simp
    qed simp
    with True show ?thesis by simp
  next
    case False
    with Cons show ?thesis by simp
  qed
qed simp

lemma filter_sort_by: "filter P (sort_by le xs) = sort_by le (filter P xs)"
  by (induction xs) (simp_all add: filter_insert_by sorted_sort_by)

text \<open>
  Two sorted lists with the same elements, each once, agree when no two elements tie: the
  order in which a map was iterated cannot be seen in the sorted keys.
\<close>

lemma sorted_unique:
  assumes "sorted_wrt le xs" "sorted_wrt le ys" "distinct xs" "distinct ys" "set xs = set ys"
    and "\<And>x y. x \<in> set xs \<Longrightarrow> y \<in> set xs \<Longrightarrow> le x y \<Longrightarrow> le y x \<Longrightarrow> x = y"
  shows "xs = ys"
  using assms
proof (induction xs arbitrary: ys)
  case (Cons x xs)
  then obtain y ys' where ys: "ys = y # ys'" by (cases ys) auto
  have "x = y"
  proof (rule ccontr)
    assume "x \<noteq> y"
    have "x \<in> set (y # ys')" and "y \<in> set (x # xs)"
      using Cons.prems(5) ys by auto
    with \<open>x \<noteq> y\<close> have "x \<in> set ys'" and "y \<in> set xs" by auto
    with Cons.prems ys have "le x y" and "le y x" by auto
    with Cons.prems(6) [of x y] \<open>x \<noteq> y\<close> \<open>y \<in> set xs\<close> show False by auto
  qed
  moreover have "xs = ys'"
  proof (rule Cons.IH)
    have "set xs = set (x # xs) - {x}" using Cons.prems(3) by auto
    also have "\<dots> = set (y # ys') - {y}" using Cons.prems(5) ys \<open>x = y\<close> by simp
    also have "\<dots> = set ys'" using Cons.prems(4) ys by auto
    finally show "set xs = set ys'" .
    show "u = v" if "u \<in> set xs" "v \<in> set xs" "le u v" "le v u" for u v
      using that Cons.prems(6) by auto
  qed (use Cons.prems ys in auto)
  ultimately show ?case by (simp add: ys)
qed simp

lemma sort_by_same_set:
  assumes "distinct xs" "distinct ys" "set xs = set ys"
    and "\<And>x y. x \<in> set xs \<Longrightarrow> y \<in> set xs \<Longrightarrow> le x y \<Longrightarrow> le y x \<Longrightarrow> x = y"
  shows "sort_by le xs = sort_by le ys"
  by (rule sorted_unique) (use assms sorted_sort_by in auto)

end

section \<open>Lists\<close>

lemma sum_list_filter_nonneg:
  "(\<And>x. x \<in> set xs \<Longrightarrow> 0 \<le> f x) \<Longrightarrow> 0 \<le> (\<Sum>x\<leftarrow>filter P xs. (f x :: int))"
  by (rule sum_list_nonneg) auto

lemma find_None_iff_ball: "find P xs = None \<longleftrightarrow> (\<forall>x \<in> set xs. \<not> P x)"
  by (induction xs) auto

lemma find_SomeD: "find P xs = Some x \<Longrightarrow> x \<in> set xs \<and> P x"
  by (auto simp: find_Some_iff)

lemma find_distinct_key:
  "distinct (map k xs) \<Longrightarrow> x \<in> set xs \<Longrightarrow> find (\<lambda>y. k y = k x) xs = Some x"
  by (induction xs) (auto simp: rev_image_eqI)

end
