(* ===== verification/GoStrings.thy ===== *)
theory GoStrings
  imports Prelude
begin

text \<open>
  The parts of Go's \<open>strings\<close>, \<open>strconv\<close> and \<open>fmt\<close> that the program uses, on strings as
  lists of bytes: decimal numbers and their digits, \<open>TrimSpace\<close>, prefixes, cutting, joining.
\<close>

section \<open>Decimal digits\<close>

abbreviation in_range :: "char \<Rightarrow> char \<Rightarrow> char \<Rightarrow> bool" where
  "in_range lo hi c \<equiv> lo \<le> c \<and> c \<le> hi"

definition digit :: "nat \<Rightarrow> char" where
  "digit d = char_of (48 + d)"

definition digit_val :: "char \<Rightarrow> nat" where
  "digit_val c = of_char c - 48"

definition is_digit :: "char \<Rightarrow> bool" where
  "is_digit c \<longleftrightarrow> CHR ''0'' \<le> c \<and> c \<le> CHR ''9''"

lemma is_digit_of_char: "is_digit c \<longleftrightarrow> 48 \<le> (of_char c :: nat) \<and> (of_char c :: nat) \<le> 57"
  by (simp add: is_digit_def less_eq_char_def)

lemma of_char_digit [simp]: "d < 10 \<Longrightarrow> (of_char (digit d) :: nat) = 48 + d"
  by (simp add: digit_def)

lemma digit_val_digit [simp]: "d < 10 \<Longrightarrow> digit_val (digit d) = d"
  by (simp add: digit_val_def)

lemma is_digit_digit [simp]: "d < 10 \<Longrightarrow> is_digit (digit d)"
  by (simp add: is_digit_of_char)

lemma digit_val_less [simp]: "is_digit c \<Longrightarrow> digit_val c < 10"
  unfolding is_digit_of_char digit_val_def by arith

lemma digit_digit_val [simp]: "is_digit c \<Longrightarrow> digit (digit_val c) = c"
  by (simp add: is_digit_of_char digit_val_def digit_def)

lemma digit_inject [simp]: "a < 10 \<Longrightarrow> b < 10 \<Longrightarrow> digit a = digit b \<longleftrightarrow> a = b"
  by (metis digit_val_digit)

lemma digit_less_iff: "a < 10 \<Longrightarrow> b < 10 \<Longrightarrow> digit a < digit b \<longleftrightarrow> a < b"
  by (simp add: less_char_def)

text \<open>\<open>strconv.Itoa\<close> and \<open>FormatInt(_, 10)\<close>.\<close>

fun nat_str :: "nat \<Rightarrow> string" where
  "nat_str n = (if n < 10 then [digit n] else nat_str (n div 10) @ [digit (n mod 10)])"

declare nat_str.simps [simp del]

definition int_str :: "int \<Rightarrow> string" where
  "int_str n = (if n < 0 then CHR ''-'' # nat_str (nat (- n)) else nat_str (nat n))"

text \<open>The value of a string of digits, and the fixed-width decimal \<open>%0wd\<close> of a value that fits.\<close>

definition digits_val :: "string \<Rightarrow> nat" where
  "digits_val s = foldl (\<lambda>a c. 10 * a + digit_val c) 0 s"

fun fixed :: "nat \<Rightarrow> nat \<Rightarrow> string" where
  "fixed 0 n = []"
| "fixed (Suc w) n = fixed w (n div 10) @ [digit (n mod 10)]"

lemma digits_val_Nil [simp]: "digits_val [] = 0"
  by (simp add: digits_val_def)

lemma digits_val_snoc [simp]: "digits_val (s @ [c]) = 10 * digits_val s + digit_val c"
  by (simp add: digits_val_def)

lemma foldl_digits_acc:
  "foldl (\<lambda>a c. 10 * a + digit_val c) k s = k * 10 ^ length s + foldl (\<lambda>a c. 10 * a + digit_val c) 0 s"
proof (induction s arbitrary: k)
  case (Cons c s)
  show ?case
    using Cons [of "10 * k + digit_val c"] Cons [of "digit_val c"] by (simp add: algebra_simps)
qed simp

lemma digits_val_append: "digits_val (s @ t) = digits_val s * 10 ^ length t + digits_val t"
  using foldl_digits_acc [of "digits_val s" t] by (simp add: digits_val_def)

lemma digits_val_Cons: "digits_val (c # s) = digit_val c * 10 ^ length s + digits_val s"
  using digits_val_append [of "[c]" s] digits_val_snoc [of "[]" c] by simp

lemma digits_val_nat_str [simp]: "digits_val (nat_str n) = n"
proof (induction n rule: nat_str.induct)
  case (1 n)
  show ?case
    using 1 digits_val_snoc [of "[]" "digit n"] by (subst nat_str.simps) (auto simp: div_mod_decomp)
qed

lemma nat_str_nonempty [simp]: "nat_str n \<noteq> []"
  by (subst nat_str.simps) simp

lemma nat_str_digits: "c \<in> set (nat_str n) \<Longrightarrow> is_digit c"
proof (induction n rule: nat_str.induct)
  case (1 n)
  then show ?case by (subst (asm) nat_str.simps) (auto split: if_splits)
qed

lemma nat_str_inject [simp]: "nat_str m = nat_str n \<longleftrightarrow> m = n"
  by (metis digits_val_nat_str)

lemma fixed_length [simp]: "length (fixed w n) = w"
  by (induction w arbitrary: n) auto

lemma fixed_digits: "c \<in> set (fixed w n) \<Longrightarrow> is_digit c"
  by (induction w arbitrary: n) auto

lemma digits_val_fixed: "digits_val (fixed w n) = n mod 10 ^ w"
proof (induction w arbitrary: n)
  case (Suc w)
  then show ?case using mod_mult2_eq [of n 10 "10 ^ w"] by simp
qed simp

lemma fixed_inject: "a < 10 ^ w \<Longrightarrow> b < 10 ^ w \<Longrightarrow> fixed w a = fixed w b \<longleftrightarrow> a = b"
  by (metis digits_val_fixed mod_less)

lemma digits_val_less: "(\<And>c. c \<in> set s \<Longrightarrow> is_digit c) \<Longrightarrow> digits_val s < 10 ^ length s"
proof (induction s rule: rev_induct)
  case (snoc c s)
  then have "digits_val s < 10 ^ length s" and "digit_val c < 10" by auto
  then show ?case by simp
qed simp

lemma fixed_digits_val:
  "(\<And>c. c \<in> set s \<Longrightarrow> is_digit c) \<Longrightarrow> fixed (length s) (digits_val s) = s"
proof (induction s rule: rev_induct)
  case (snoc c s)
  then have c: "is_digit c" by simp
  then have "(10 * digits_val s + digit_val c) div 10 = digits_val s"
    and "(10 * digits_val s + digit_val c) mod 10 = digit_val c"
    using digit_val_less [OF c] by (auto simp: div_mult_self4)
  with snoc c show ?case by simp
qed simp

lemma int_str_nonempty [simp]: "int_str n \<noteq> []"
  by (simp add: int_str_def)

lemma is_digit_minus [simp]: "\<not> is_digit CHR ''-''"
  by (simp add: is_digit_def less_eq_char_def)

lemma hd_nat_str_digit: "is_digit (hd (nat_str n))"
  by (rule nat_str_digits [where n = n]) simp

lemma nat_str_not_minus: "nat_str n \<noteq> CHR ''-'' # s"
  using hd_nat_str_digit [of n] by auto

lemma int_str_inject [simp]: "int_str m = int_str n \<longleftrightarrow> m = n"
  using nat_str_not_minus nat_str_not_minus [THEN not_sym] by (auto simp: int_str_def)

text \<open>\<open>strconv.ParseInt(s, 10, 64)\<close> on a string of digits: an error out of range.\<close>

definition parse_digits_i64 :: "string \<Rightarrow> int option" where
  "parse_digits_i64 s = (let v = int (digits_val s) in if v \<le> max_i64 then Some v else None)"

section \<open>Trimming and cutting\<close>

text \<open>The UTF-8 encodings of the code points \<open>unicode.IsSpace\<close> accepts.\<close>

definition go_spaces :: "string list" where
  "go_spaces =
    [[CHR 0x09], [CHR 0x0A], [CHR 0x0B], [CHR 0x0C], [CHR 0x0D], [CHR 0x20],
     [CHR 0xC2, CHR 0x85], [CHR 0xC2, CHR 0xA0], [CHR 0xE1, CHR 0x9A, CHR 0x80],
     [CHR 0xE2, CHR 0x80, CHR 0x80], [CHR 0xE2, CHR 0x80, CHR 0x81], [CHR 0xE2, CHR 0x80, CHR 0x82],
     [CHR 0xE2, CHR 0x80, CHR 0x83], [CHR 0xE2, CHR 0x80, CHR 0x84], [CHR 0xE2, CHR 0x80, CHR 0x85],
     [CHR 0xE2, CHR 0x80, CHR 0x86], [CHR 0xE2, CHR 0x80, CHR 0x87], [CHR 0xE2, CHR 0x80, CHR 0x88],
     [CHR 0xE2, CHR 0x80, CHR 0x89], [CHR 0xE2, CHR 0x80, CHR 0x8A], [CHR 0xE2, CHR 0x80, CHR 0xA8],
     [CHR 0xE2, CHR 0x80, CHR 0xA9], [CHR 0xE2, CHR 0x80, CHR 0xAF], [CHR 0xE2, CHR 0x81, CHR 0x9F],
     [CHR 0xE3, CHR 0x80, CHR 0x80]]"

fun has_prefix :: "string \<Rightarrow> string \<Rightarrow> bool" where
  "has_prefix s [] = True"
| "has_prefix [] (c # p) = False"
| "has_prefix (d # s) (c # p) = (d = c \<and> has_prefix s p)"

lemma has_prefix_iff: "has_prefix s p \<longleftrightarrow> (\<exists>r. s = p @ r)"
  by (induction s p rule: has_prefix.induct) auto

lemma has_prefix_append [simp]: "has_prefix (p @ r) p"
  by (simp add: has_prefix_iff)

text \<open>Drop one of the given non-empty words from the front as often as one is there.\<close>

function trim_words :: "string list \<Rightarrow> string \<Rightarrow> string" where
  "trim_words ws s =
     (case find (\<lambda>w. w \<noteq> [] \<and> has_prefix s w) ws of
        None \<Rightarrow> s
      | Some w \<Rightarrow> trim_words ws (drop (length w) s))"
  by pat_completeness auto
termination
proof (relation "measure (\<lambda>(ws, s). length s)", goal_cases)
  case (2 ws s w)
  then have "w \<noteq> []" "has_prefix s w" by (auto dest!: find_SomeD)
  then show ?case by (auto simp: has_prefix_iff)
qed simp

declare trim_words.simps [simp del]

definition trim_space :: "string \<Rightarrow> string" where
  "trim_space s = rev (trim_words (map rev go_spaces) (rev (trim_words go_spaces s)))"

text \<open>A byte that begins or ends the encoding of a space.\<close>

definition space_byte :: "char \<Rightarrow> bool" where
  "space_byte c \<longleftrightarrow> (\<exists>w \<in> set go_spaces. hd w = c \<or> last w = c)"

lemma trim_words_id: "(\<And>w. w \<in> set ws \<Longrightarrow> w \<noteq> [] \<Longrightarrow> \<not> has_prefix s w) \<Longrightarrow> trim_words ws s = s"
  by (subst trim_words.simps) (auto split: option.split dest!: find_SomeD)

lemma trim_words_hd:
  assumes "s = [] \<or> (\<forall>w \<in> set ws. w \<noteq> [] \<longrightarrow> hd w \<noteq> hd s)"
  shows "trim_words ws s = s"
proof (rule trim_words_id)
  fix w assume "w \<in> set ws" "w \<noteq> []"
  from \<open>w \<noteq> []\<close> obtain a w' where w: "w = a # w'" by (cases w) auto
  then have "s = [] \<or> hd s \<noteq> a"
    using assms \<open>w \<in> set ws\<close> by fastforce
  then show "\<not> has_prefix s w"
    using w by (cases s) auto
qed

lemma go_spaces_nonempty: "w \<in> set go_spaces \<Longrightarrow> w \<noteq> []"
  by (auto simp: go_spaces_def)

lemma trim_space_id:
  assumes "s = [] \<or> \<not> space_byte (hd s) \<and> \<not> space_byte (last s)"
  shows "trim_space s = s"
proof -
  have front: "trim_words go_spaces s = s"
    by (rule trim_words_hd) (use assms in \<open>auto simp: space_byte_def\<close>)
  have "trim_words (map rev go_spaces) (rev s) = rev s"
    by (rule trim_words_hd)
      (use assms in \<open>auto simp: space_byte_def hd_rev dest: go_spaces_nonempty\<close>)
  with front show ?thesis by (simp add: trim_space_def)
qed

lemma trim_space_Nil [simp]: "trim_space [] = []"
  by (rule trim_space_id) simp

lemma space_byte_code: "space_byte c \<longleftrightarrow>
  c \<in> set (map hd go_spaces @ map last go_spaces)"
  by (auto simp: space_byte_def)

lemma digit_not_space [simp]: "is_digit c \<Longrightarrow> \<not> space_byte c"
  by (auto simp: space_byte_code go_spaces_def is_digit_of_char)

lemma minus_not_space [simp]: "\<not> space_byte CHR ''-''"
  by (simp add: space_byte_code go_spaces_def)

definition trim_prefix :: "string \<Rightarrow> string \<Rightarrow> string" where
  "trim_prefix s p = (if has_prefix s p then drop (length p) s else s)"

definition has_suffix :: "string \<Rightarrow> string \<Rightarrow> bool" where
  "has_suffix s p = has_prefix (rev s) (rev p)"

definition trim_suffix :: "string \<Rightarrow> string \<Rightarrow> string" where
  "trim_suffix s p = (if has_suffix s p then take (length s - length p) s else s)"

text \<open>\<open>strings.CutPrefix\<close>.\<close>

definition cut_prefix :: "string \<Rightarrow> string \<Rightarrow> string option" where
  "cut_prefix s p = (if has_prefix s p then Some (drop (length p) s) else None)"

text \<open>\<open>strings.Cut\<close> at a one-byte separator: the parts around its first occurrence.\<close>

definition cut :: "char \<Rightarrow> string \<Rightarrow> string \<times> string \<times> bool" where
  "cut c s =
     (case dropWhile (\<lambda>d. d \<noteq> c) s of
        [] \<Rightarrow> (s, [], False)
      | _ # r \<Rightarrow> (takeWhile (\<lambda>d. d \<noteq> c) s, r, True))"

lemma cut_append: "c \<notin> set s \<Longrightarrow> cut c (s @ c # r) = (s, r, True)"
proof -
  assume "c \<notin> set s"
  then have "dropWhile (\<lambda>d. d \<noteq> c) (s @ c # r) = c # r"
    and "takeWhile (\<lambda>d. d \<noteq> c) (s @ c # r) = s"
    by (induction s) auto
  then show ?thesis by (simp add: cut_def)
qed

lemma cut_none: "c \<notin> set s \<Longrightarrow> cut c s = (s, [], False)"
proof -
  assume "c \<notin> set s"
  then have "dropWhile (\<lambda>d. d \<noteq> c) s = []"
    by (induction s) auto
  then show ?thesis unfolding cut_def by (simp only: list.case)
qed

text \<open>\<open>strings.TrimRight\<close> with a one-byte cutset.\<close>

definition trim_right :: "char \<Rightarrow> string \<Rightarrow> string" where
  "trim_right c s = rev (dropWhile (\<lambda>d. d = c) (rev s))"

lemma trim_right_replicate: "\<exists>k. s = trim_right c s @ replicate k c"
proof -
  have "rev s = takeWhile (\<lambda>d. d = c) (rev s) @ dropWhile (\<lambda>d. d = c) (rev s)"
    by simp
  then have "s = trim_right c s @ rev (takeWhile (\<lambda>d. d = c) (rev s))"
    by (metis rev_append rev_rev_ident trim_right_def)
  moreover have "rev (takeWhile (\<lambda>d. d = c) (rev s))
      = replicate (length (takeWhile (\<lambda>d. d = c) (rev s))) c"
    by (metis (mono_tags, lifting) length_rev replicate_length_same set_rev set_takeWhileD)
  ultimately show ?thesis by metis
qed

text \<open>\<open>strings.Join\<close> and \<open>strings.Split\<close> with a one-byte separator.\<close>

fun join :: "char \<Rightarrow> string list \<Rightarrow> string" where
  "join c [] = []"
| "join c [s] = s"
| "join c (s # t # ss) = s @ c # join c (t # ss)"

fun split_at :: "char \<Rightarrow> string \<Rightarrow> string list" where
  "split_at c [] = [[]]"
| "split_at c (d # s) =
     (if d = c then [] # split_at c s
      else (case split_at c s of [] \<Rightarrow> [[d]] | w # ws \<Rightarrow> (d # w) # ws))"

lemma split_at_nonempty [simp]: "split_at c s \<noteq> []"
  by (induction c s rule: split_at.induct) (auto split: list.split)

lemma split_at_append:
  "c \<notin> set s \<Longrightarrow> split_at c (s @ c # t) = s # split_at c t"
  by (induction s) auto

lemma split_at_single: "c \<notin> set s \<Longrightarrow> split_at c s = [s]"
  by (induction s) auto

lemma split_join: "ss \<noteq> [] \<Longrightarrow> (\<forall>s \<in> set ss. c \<notin> set s) \<Longrightarrow> split_at c (join c ss) = ss"
  by (induction c ss rule: join.induct) (auto simp: split_at_append split_at_single)

text \<open>\<open>strings.ToLower\<close> on ASCII letters; other bytes are unchanged.\<close>

definition to_lower :: "string \<Rightarrow> string" where
  "to_lower s = map (\<lambda>c. if CHR ''A'' \<le> c \<and> c \<le> CHR ''Z'' then char_of (of_char c + (32 :: nat)) else c) s"

section \<open>Lexicographic order of strings\<close>

lemma less_append_same_length:
  fixes xs ys :: string
  assumes "length xs = length ys"
  shows "xs @ us < ys @ vs \<longleftrightarrow> xs < ys \<or> xs = ys \<and> us < vs"
  using assms by (induction xs ys rule: list_induct2) auto

lemma append_less_cancel [simp]: "(xs @ us < xs @ vs) = (us < (vs :: string))"
  by (induction xs) auto

lemma less_by_tens: "(a :: nat) < b \<longleftrightarrow> a div 10 < b div 10 \<or> a div 10 = b div 10 \<and> a mod 10 < b mod 10"
proof -
  have "a = 10 * (a div 10) + a mod 10" "b = 10 * (b div 10) + b mod 10" by simp_all
  moreover have "a mod 10 < 10" "b mod 10 < 10" by simp_all
  ultimately show ?thesis by linarith
qed

lemma fixed_less_iff: "a < 10 ^ w \<Longrightarrow> b < 10 ^ w \<Longrightarrow> fixed w a < fixed w b \<longleftrightarrow> a < b"
proof (induction w arbitrary: a b)
  case (Suc w)
  have ab: "a div 10 < 10 ^ w" "b div 10 < 10 ^ w" using Suc.prems by auto
  have "fixed (Suc w) a < fixed (Suc w) b \<longleftrightarrow>
    fixed w (a div 10) < fixed w (b div 10) \<or>
    fixed w (a div 10) = fixed w (b div 10) \<and> [digit (a mod 10)] < [digit (b mod 10)]"
    by (simp add: less_append_same_length)
  also have "\<dots> \<longleftrightarrow> a div 10 < b div 10 \<or> a div 10 = b div 10 \<and> a mod 10 < b mod 10"
    using Suc.IH [OF ab] fixed_inject [OF ab] by (simp add: digit_less_iff)
  also have "\<dots> \<longleftrightarrow> a < b" by (rule less_by_tens [symmetric])
  finally show ?case .
qed simp

section \<open>Signed decimals and substrings\<close>

text \<open>\<open>strconv.ParseInt(s, 10, 64)\<close>.\<close>

definition parse_int :: "string \<Rightarrow> int option" where
  "parse_int s =
     (let digits = (if has_prefix s ''-'' \<or> has_prefix s ''+'' then tl s else s);
          n = int (digits_val digits);
          v = (if has_prefix s ''-'' then - n else n)
      in if digits = [] \<or> \<not> list_all is_digit digits \<or> \<not> in_i64 v then None else Some v)"

text \<open>\<open>strings.Contains\<close>.\<close>

fun contains_text :: "string \<Rightarrow> string \<Rightarrow> bool" where
  "contains_text [] t \<longleftrightarrow> t = []"
| "contains_text (c # s) t \<longleftrightarrow> has_prefix (c # s) t \<or> contains_text s t"

lemma contains_text_iff: "contains_text s t \<longleftrightarrow> (\<exists>u v. s = u @ t @ v)"
proof
  assume "\<exists>u v. s = u @ t @ v"
  then obtain u v where "s = u @ t @ v" by blast
  moreover have "contains_text (u @ t @ v) t" for u
  proof (induction u)
    case Nil
    have "has_prefix (t @ v) t" by simp
    then show ?case by (cases "t @ v") auto
  qed simp
  ultimately show "contains_text s t" by simp
next
  show "contains_text s t \<Longrightarrow> \<exists>u v. s = u @ t @ v"
  proof (induction s)
    case (Cons c s)
    then show ?case
      by (metis append_Cons append_Nil contains_text.simps(2) has_prefix_iff)
  qed simp
qed

end
