(* ===== verification/Money.thy ===== *)
theory Money
  imports GoStrings
begin

text \<open>
  Monetary amounts (\<open>internal/money/money.go\<close>): \<open>Nanos\<close> is an int64 count of nanodollars, here an
  \<open>int\<close> with the wrap-around of \<open>i64\<close> wherever the code computes. \<open>parse_usd\<close> and \<open>nanos_str\<close> are
  \<open>ParseUSD\<close> and \<open>Nanos.String\<close>.
\<close>

type_synonym nanos = int

datatype money_error = ErrInvalidAmount

definition dollar :: nanos where
  "dollar = 1000000000"

definition max_integer_dollars :: int where
  "max_integer_dollars = 9223372035"

definition all_digits :: "string \<Rightarrow> bool" where
  "all_digits s \<longleftrightarrow> s \<noteq> [] \<and> list_all is_digit s"

definition take_sign :: "string \<Rightarrow> bool \<times> string" where
  "take_sign s =
     (if s \<noteq> [] \<and> hd s = CHR ''-'' then (True, tl s)
      else if s \<noteq> [] \<and> hd s = CHR ''+'' then (False, tl s)
      else (False, s))"

definition parse_decimal :: "bool \<Rightarrow> string \<Rightarrow> money_error + nanos" where
  "parse_decimal neg s =
     (let (whole0, frac, has_frac) = cut CHR ''.'' s;
          whole = (if whole0 = [] then ''0'' else whole0)
      in if has_frac \<and> frac = [] then Inl ErrInvalidAmount
         else if \<not> all_digits whole then Inl ErrInvalidAmount
         else if has_frac \<and> \<not> all_digits frac then Inl ErrInvalidAmount
         else if 9 < length frac then Inl ErrInvalidAmount
         else (case parse_digits_i64 whole of
             None \<Rightarrow> Inl ErrInvalidAmount
           | Some dollars \<Rightarrow>
               if max_integer_dollars < dollars then Inl ErrInvalidAmount
               else (case parse_digits_i64 (frac @ replicate (9 - length frac) CHR ''0'') of
                   None \<Rightarrow> Inl ErrInvalidAmount
                 | Some nanos \<Rightarrow>
                     (let total = i64 (i64 (dollars * dollar) + nanos)
                      in if total < 0 then Inl ErrInvalidAmount
                         else Inr (if neg then i64 (- total) else total)))))"

definition parse_usd :: "string \<Rightarrow> money_error + nanos" where
  "parse_usd raw =
     (let s = trim_space (trim_prefix (trim_space raw) ''$'')
      in if s = [] then Inl ErrInvalidAmount
         else (let (neg, s') = take_sign s
               in if s' = [] then Inl ErrInvalidAmount else parse_decimal neg s'))"

text \<open>\<open>fmt.Sprintf\<close> with \<open>%09d\<close>: zero padding to nine bytes, the sign included.\<close>

definition pad :: "nat \<Rightarrow> string \<Rightarrow> string" where
  "pad w s = replicate (w - length s) CHR ''0'' @ s"

definition fmt_09d :: "int \<Rightarrow> string" where
  "fmt_09d x = (if x < 0 then CHR ''-'' # pad 8 (nat_str (nat (- x))) else pad 9 (nat_str (nat x)))"

definition nanos_str :: "nanos \<Rightarrow> string" where
  "nanos_str n =
     (let neg = n < 0;
          v = (if neg then i64 (- n) else n);
          whole = go_div v dollar;
          frac = go_rem v dollar;
          digits0 = trim_right CHR ''0'' (fmt_09d frac);
          digits = digits0 @ replicate (2 - length digits0) CHR ''0'';
          out = int_str whole @ CHR ''.'' # digits
      in if neg then CHR ''-'' # out else out)"

definition is_zero_nanos :: "nanos \<Rightarrow> bool" where
  "is_zero_nanos n \<longleftrightarrow> n = 0"

section \<open>Digits of an amount\<close>

lemma all_digits_iff: "all_digits s \<longleftrightarrow> s \<noteq> [] \<and> (\<forall>c \<in> set s. is_digit c)"
  by (simp add: all_digits_def list_all_iff)

lemma is_digit_zero [simp]: "is_digit CHR ''0''" and is_digit_dot [simp]: "\<not> is_digit CHR ''.''"
  and is_digit_dollar [simp]: "\<not> is_digit CHR ''$''" and is_digit_plus [simp]: "\<not> is_digit CHR ''+''"
  by (simp_all add: is_digit_def less_eq_char_def)

lemma digit_val_zero [simp]: "digit_val CHR ''0'' = 0"
  by (simp add: digit_val_def)

lemma digits_val_zeros [simp]: "digits_val (replicate k CHR ''0'') = 0"
  by (induction k) (auto simp: digits_val_Cons)

lemma digits_val_pad [simp]: "digits_val (pad w s) = digits_val s"
  by (simp add: pad_def digits_val_append)

lemma length_nat_str_le: "n < 10 ^ w \<Longrightarrow> 0 < w \<Longrightarrow> length (nat_str n) \<le> w"
proof (induction n arbitrary: w rule: nat_str.induct)
  case (1 n)
  show ?case
  proof (cases "n < 10")
    case True
    with "1.prems" show ?thesis by (subst nat_str.simps) simp
  next
    case False
    with "1.prems" have "w \<noteq> 1" by (auto simp: not_less)
    then obtain w' where w: "w = Suc w'" "0 < w'"
      using "1.prems" by (cases w) auto
    with "1.prems" have "n div 10 < 10 ^ w'" by (simp add: less_mult_imp_div_less mult.commute)
    with 1 False w show ?thesis by (subst nat_str.simps) simp
  qed
qed

lemma pad_nat_str: "n < 10 ^ w \<Longrightarrow> 0 < w \<Longrightarrow> pad w (nat_str n) = fixed w n"
proof -
  assume n: "n < 10 ^ w" "0 < w"
  have "length (pad w (nat_str n)) = w"
    using length_nat_str_le [OF n] by (simp add: pad_def)
  moreover have "is_digit c" if "c \<in> set (pad w (nat_str n))" for c
    using that nat_str_digits by (auto simp: pad_def)
  ultimately show ?thesis
    using fixed_digits_val [of "pad w (nat_str n)"] by simp
qed

text \<open>The fraction \<open>nanos_str\<close> prints: between two and nine digits that stand for the same nanos.\<close>

definition frac_digits :: "nat \<Rightarrow> string" where
  "frac_digits f = (let d = trim_right CHR ''0'' (fixed 9 f) in d @ replicate (2 - length d) CHR ''0'')"

lemma frac_digits_shape:
  obtains k where "k \<le> 7" "length (frac_digits f) = 9 - k"
    "frac_digits f @ replicate k CHR ''0'' = fixed 9 f"
proof -
  obtain j where j: "fixed 9 f = trim_right CHR ''0'' (fixed 9 f) @ replicate j CHR ''0''"
    using trim_right_replicate by blast
  let ?d = "trim_right CHR ''0'' (fixed 9 f)"
  have len: "length ?d + j = 9"
    using arg_cong [OF j, of length] by simp
  have "frac_digits f @ replicate (j - (2 - length ?d)) CHR ''0'' = fixed 9 f"
    using j len by (simp add: frac_digits_def Let_def flip: replicate_add)
  moreover have "length (frac_digits f) = 9 - (j - (2 - length ?d))"
    using len by (auto simp: frac_digits_def Let_def)
  ultimately show thesis
    using that [of "j - (2 - length ?d)"] len by auto
qed

lemma frac_digits_digits: "all_digits (frac_digits f)"
proof -
  obtain k where k: "k \<le> 7" "length (frac_digits f) = 9 - k"
    "frac_digits f @ replicate k CHR ''0'' = fixed 9 f"
    by (rule frac_digits_shape)
  then have "frac_digits f \<noteq> []" by auto
  moreover have "set (frac_digits f) \<subseteq> set (fixed 9 f)"
    unfolding k(3) [symmetric] by simp
  ultimately show ?thesis using fixed_digits by (auto simp: all_digits_iff)
qed

lemma nanos_str_nonneg:
  assumes "0 \<le> n"
  shows "nanos_str n = nat_str (nat n div 1000000000) @ CHR ''.'' # frac_digits (nat n mod 1000000000)"
proof -
  have "nat (n mod 1000000000) = nat n mod 1000000000"
    using assms by (simp add: nat_mod_distrib)
  moreover have "nat n mod 1000000000 < 10 ^ 9" by simp
  moreover have "\<not> n mod 1000000000 < 0" "\<not> n div 1000000000 < 0"
    using assms by (simp_all add: pos_imp_zdiv_nonneg_iff not_less)
  ultimately show ?thesis
    using assms
    by (simp add: nanos_str_def Let_def dollar_def go_div_nonneg go_rem_nonneg fmt_09d_def
        pad_nat_str frac_digits_def int_str_def nat_div_distrib)
qed

lemma nanos_str_neg:
  assumes "n < 0" "min_i64 < n"
  shows "nanos_str n = CHR ''-'' # nanos_str (- n)"
proof -
  have "i64 (- n) = - n"
    using assms by (simp add: i64_id in_i64_def min_i64_def max_i64_def)
  with assms show ?thesis by (simp add: nanos_str_def Let_def)
qed

section \<open>Parsing a decimal\<close>

lemma parse_digits_i64_Some:
  "parse_digits_i64 s = Some v \<Longrightarrow> v = int (digits_val s) \<and> 0 \<le> v \<and> v \<le> max_i64"
  by (auto simp: parse_digits_i64_def Let_def split: if_splits)

lemma nine_digits_small: "list_all is_digit s \<Longrightarrow> length s \<le> 9 \<Longrightarrow>
  int (digits_val (s @ replicate (9 - length s) CHR ''0'')) < 1000000000"
proof -
  assume s: "list_all is_digit s" "length s \<le> 9"
  have "digits_val (s @ replicate (9 - length s) CHR ''0'') < 10 ^ length (s @ replicate (9 - length s) CHR ''0'')"
    by (rule digits_val_less) (use s in \<open>auto simp: list_all_iff\<close>)
  with s show ?thesis by simp
qed

lemma parse_decimal_exact:
  assumes "all_digits w" "all_digits f" "length f \<le> 9" "int (digits_val w) \<le> max_integer_dollars"
  shows "parse_decimal neg (w @ CHR ''.'' # f) =
    Inr ((if neg then -1 else 1) *
      (int (digits_val w) * 1000000000 + int (digits_val f * 10 ^ (9 - length f))))"
proof -
  let ?z = "f @ replicate (9 - length f) CHR ''0''"
  have no_dot: "CHR ''.'' \<notin> set w"
    using assms(1) by (auto simp: all_digits_iff)
  have z: "int (digits_val ?z) = int (digits_val f * 10 ^ (9 - length f))"
    by (simp add: digits_val_append)
  have small: "int (digits_val ?z) < 1000000000"
    using assms(2,3) by (intro nine_digits_small) (auto simp: all_digits_def)
  let ?t = "int (digits_val w) * 1000000000 + int (digits_val ?z)"
  have bounds: "0 \<le> ?t" "?t \<le> max_i64" "int (digits_val w) * 1000000000 \<le> max_i64"
    using assms(4) small by (auto simp: max_integer_dollars_def max_i64_def)
  have "i64 (i64 (int (digits_val w) * 1000000000) + int (digits_val ?z)) = ?t"
    using bounds by (simp add: i64_simps)
  moreover have "i64 (- ?t) = - ?t"
    using bounds by (intro i64_id) (simp add: in_i64_def min_i64_def max_i64_def)
  moreover have "parse_digits_i64 w = Some (int (digits_val w))" "parse_digits_i64 ?z = Some (int (digits_val ?z))"
    using assms(4) small by (auto simp: parse_digits_i64_def max_integer_dollars_def max_i64_def)
  ultimately show ?thesis
    using assms bounds z
    by (simp add: parse_decimal_def cut_append no_dot all_digits_def Let_def dollar_def)
qed

lemma parse_decimal_bounds:
  assumes "parse_decimal neg s = Inr n"
  shows "\<bar>n\<bar> \<le> 9223372035999999999"
proof -
  obtain w0 f hf where c: "cut CHR ''.'' s = (w0, f, hf)" by (metis prod_cases3)
  let ?w = "if w0 = [] then ''0'' else w0"
  let ?z = "f @ replicate (9 - length f) CHR ''0''"
  from assms c obtain d v where d: "parse_digits_i64 ?w = Some d" "d \<le> max_integer_dollars"
    and v: "parse_digits_i64 ?z = Some v" and len: "length f \<le> 9"
    and fd: "hf \<longrightarrow> all_digits f"
    and n: "n = (if neg then i64 (- i64 (i64 (d * dollar) + v)) else i64 (i64 (d * dollar) + v))"
    by (auto simp: parse_decimal_def Let_def split: if_splits option.splits)
  have "f = [] \<or> all_digits f"
    using c fd by (auto simp: cut_def split: list.splits)
  then have "list_all is_digit f" by (auto simp: all_digits_def)
  then have "v < 1000000000" "0 \<le> v" "0 \<le> d"
    using nine_digits_small [OF _ len] parse_digits_i64_Some [OF v] parse_digits_i64_Some [OF d(1)] by auto
  then have b: "0 \<le> d * dollar + v" "d * dollar + v \<le> 9223372035999999999" "0 \<le> d * dollar"
    "d * dollar \<le> max_i64"
    using d(2) by (auto simp: dollar_def max_integer_dollars_def max_i64_def)
  then have "i64 (i64 (d * dollar) + v) = d * dollar + v"
    by (simp add: i64_nonneg_id max_i64_def)
  moreover have "i64 (- (d * dollar + v)) = - (d * dollar + v)"
    using b by (intro i64_id) (simp add: in_i64_def min_i64_def max_i64_def)
  ultimately show ?thesis using n b by (simp split: if_splits)
qed

lemma parse_usd_plain:
  assumes "s \<noteq> []" "is_digit (hd s)" "is_digit (last s)"
  shows "parse_usd s = parse_decimal False s"
    and "parse_usd (CHR ''-'' # s) = parse_decimal True s"
proof -
  have ts: "trim_space s = s" "trim_space (CHR ''-'' # s) = CHR ''-'' # s"
    using assms by (auto intro!: trim_space_id)
  have "hd s \<noteq> CHR ''-''" "hd s \<noteq> CHR ''+''" "hd s \<noteq> CHR ''$''"
    using assms(2) by (metis is_digit_minus, metis is_digit_plus, metis is_digit_dollar)
  moreover from this have "trim_prefix s ''$'' = s"
    using assms(1) by (cases s) (auto simp: trim_prefix_def)
  ultimately show "parse_usd s = parse_decimal False s"
    and "parse_usd (CHR ''-'' # s) = parse_decimal True s"
    using assms ts by (auto simp: parse_usd_def take_sign_def trim_prefix_def)
qed

section \<open>Properties of amounts\<close>

text \<open>
  The text \<open>nanos_str\<close> prints reads back as the same amount: for every amount whose whole part
  is at most \<open>max_integer_dollars\<close>, positive or negative.
\<close>

lemma parse_nanos_str_nonneg:
  assumes "0 \<le> n" "n \<le> 9223372035999999999"
  shows "parse_usd (nanos_str n) = Inr n" and "parse_usd (CHR ''-'' # nanos_str n) = Inr (- n)"
proof -
  let ?w = "nat_str (nat n div 1000000000)" and ?f = "frac_digits (nat n mod 1000000000)"
  have s: "nanos_str n = ?w @ CHR ''.'' # ?f"
    using assms(1) by (rule nanos_str_nonneg)
  obtain k where k: "k \<le> 7" "length ?f = 9 - k" "?f @ replicate k CHR ''0'' = fixed 9 (nat n mod 1000000000)"
    by (rule frac_digits_shape)
  have "digits_val ?f * 10 ^ k = digits_val (?f @ replicate k CHR ''0'')"
    by (simp add: digits_val_append)
  also have "\<dots> = nat n mod 1000000000"
    unfolding k(3) by (simp add: digits_val_fixed)
  finally have val: "digits_val ?f * 10 ^ (9 - length ?f) = nat n mod 1000000000"
    using k by simp
  have wd: "all_digits ?w" by (auto simp: all_digits_iff dest: nat_str_digits)
  have wb: "int (digits_val ?w) \<le> max_integer_dollars"
    using assms by (simp add: max_integer_dollars_def zdiv_int)
  have len: "length ?f \<le> 9" using k by simp
  have sum: "int (digits_val ?w) * 1000000000 + int (digits_val ?f * 10 ^ (9 - length ?f)) = n"
    unfolding val using assms by (simp add: zdiv_int zmod_int)
  note parsed = parse_decimal_exact [OF wd frac_digits_digits len wb, unfolded sum]
  have ends: "is_digit (hd (nanos_str n))" "is_digit (last (nanos_str n))" "nanos_str n \<noteq> []"
    using frac_digits_digits [of "nat n mod 1000000000"] hd_nat_str_digit
    by (auto simp: s all_digits_iff)
  show "parse_usd (nanos_str n) = Inr n"
    using parse_usd_plain(1) [OF ends(3,1,2)] parsed [of False] s by simp
  show "parse_usd (CHR ''-'' # nanos_str n) = Inr (- n)"
    using parse_usd_plain(2) [OF ends(3,1,2)] parsed [of True] s by simp
qed

lemma parse_usd_bounds:
  assumes "parse_usd s = Inr n"
  shows "\<bar>n\<bar> \<le> 9223372035999999999"
proof -
  obtain neg t where "parse_decimal neg t = Inr n"
    using assms by (auto simp: parse_usd_def Let_def split: if_splits prod.splits)
  then show ?thesis by (rule parse_decimal_bounds)
qed

lemma parse_usd_in_i64: "parse_usd s = Inr n \<Longrightarrow> in_i64 n"
  using parse_usd_bounds [of s n] unfolding in_i64_def min_i64_def max_i64_def by arith

lemma parse_usd_nanos_str_small:
  assumes "\<bar>n\<bar> \<le> 9223372035999999999"
  shows "parse_usd (nanos_str n) = Inr n"
proof (cases "0 \<le> n")
  case True
  with assms show ?thesis by (intro parse_nanos_str_nonneg) auto
next
  case False
  then have "nanos_str n = CHR ''-'' # nanos_str (- n)"
    using assms by (intro nanos_str_neg) (auto simp: min_i64_def)
  with False assms show ?thesis using parse_nanos_str_nonneg(2) [of "- n"] by simp
qed

text \<open>
  The text \<open>String\<close> prints for an amount reads back as that amount, whatever zeros the printer
  trimmed, exactly when its absolute value is at most 9223372035.999999999 dollars. The comment on
  \<open>String\<close> promises the round trip for every amount; \<open>ParseUSD\<close> refuses the int64 amounts above that
  bound, which the ledger and the budgets can hold.
\<close>

theorem parse_usd_nanos_str:
  "parse_usd (nanos_str n) = Inr n \<longleftrightarrow> \<bar>n\<bar> \<le> 9223372035999999999"
  using parse_usd_bounds parse_usd_nanos_str_small by blast

end
