(* ===== verification/Billing.thy ===== *)
theory Billing
  imports Money
begin

text \<open>
  Billable quantities (\<open>internal/billing/usage.go\<close>). \<open>Usage\<close> is a Go map from unit names to int64
  quantities; an absent unit reads as zero, which is \<open>get_or 0\<close> here. The canonical JSON text is what
  the ledger stores and hashes.
\<close>

type_synonym usage = "(string, int) go_map"

datatype billing_error = InvalidUsageUnit string | NegativeQuantity string int

text \<open>\<open>fmt\<close>'s \<open>%q\<close> on bytes outside multi-byte UTF-8, and the text of an error.\<close>

definition hex_digit :: "nat \<Rightarrow> char" where
  "hex_digit d = char_of (if d < 10 then 48 + d else 87 + d)"

definition quote_byte :: "char \<Rightarrow> string" where
  "quote_byte c =
     (let n = of_char c :: nat in
      if n = 34 \<or> n = 92 then [CHR 0x5C, c]
      else if 32 \<le> n \<and> n < 127 then [c]
      else if n = 7 then CHR 0x5C # ''a'' else if n = 8 then CHR 0x5C # ''b''
      else if n = 9 then CHR 0x5C # ''t'' else if n = 10 then CHR 0x5C # ''n''
      else if n = 11 then CHR 0x5C # ''v'' else if n = 12 then CHR 0x5C # ''f''
      else if n = 13 then CHR 0x5C # ''r''
      else [CHR 0x5C, CHR ''x'', hex_digit (n div 16), hex_digit (n mod 16)])"

definition go_quote :: "string \<Rightarrow> string" where
  "go_quote s = CHR 0x22 # concat (map quote_byte s) @ [CHR 0x22]"

fun billing_error_text :: "billing_error \<Rightarrow> string" where
  "billing_error_text (InvalidUsageUnit name) = ''billing: invalid usage unit '' @ go_quote name"
| "billing_error_text (NegativeQuantity name q) =
     ''billing: usage unit '' @ go_quote name @ '' has negative quantity '' @ int_str q"

definition unit_input_tokens :: string where
  "unit_input_tokens = ''input_tokens''"

definition unit_cached_input_tokens :: string where
  "unit_cached_input_tokens = ''cached_input_tokens''"

definition unit_cache_write_5m_tokens :: string where
  "unit_cache_write_5m_tokens = ''cache_write_5m_tokens''"

definition unit_cache_write_1h_tokens :: string where
  "unit_cache_write_1h_tokens = ''cache_write_1h_tokens''"

definition unit_output_tokens :: string where
  "unit_output_tokens = ''output_tokens''"

definition normalized :: "usage \<Rightarrow> usage" where
  "normalized u = filter (\<lambda>(_, q). q \<noteq> 0) u"

definition token_usage :: "int \<Rightarrow> int \<Rightarrow> int \<Rightarrow> int \<Rightarrow> int \<Rightarrow> usage" where
  "token_usage input cached write5m write1h output =
     normalized
       [(unit_input_tokens, input), (unit_cached_input_tokens, cached),
        (unit_cache_write_5m_tokens, write5m), (unit_cache_write_1h_tokens, write1h),
        (unit_output_tokens, output)]"

definition unit_byte :: "nat \<Rightarrow> char \<Rightarrow> bool" where
  "unit_byte i c \<longleftrightarrow>
     CHR ''a'' \<le> c \<and> c \<le> CHR ''z'' \<or> 0 < i \<and> CHR ''0'' \<le> c \<and> c \<le> CHR ''9'' \<or>
     0 < i \<and> (c = CHR ''_'' \<or> c = CHR ''.'')"

definition valid_unit :: "string \<Rightarrow> bool" where
  "valid_unit name \<longleftrightarrow>
     \<not> (name = [] \<or> 64 < length name \<or> trim_space name \<noteq> name) \<and>
     list_all (\<lambda>(i, c). unit_byte i c) (enumerate 0 name)"

fun usage_validate :: "usage \<Rightarrow> billing_error + unit" where
  "usage_validate [] = Inr ()"
| "usage_validate ((name, quantity) # u) =
     (if \<not> valid_unit name then Inl (InvalidUsageUnit name)
      else if quantity < 0 then Inl (NegativeQuantity name quantity)
      else usage_validate u)"

text \<open>\<open>u[unit] += quantity\<close> for every entry of the other map, at int64.\<close>

fun usage_add :: "usage \<Rightarrow> usage \<Rightarrow> usage" where
  "usage_add u [] = u"
| "usage_add u ((name, quantity) # other) =
     usage_add (put_key name (i64 (get_or 0 u name + quantity)) u) other"

text \<open>
  \<open>json.Marshal\<close> of a validated unit name: its bytes are lower-case letters, digits, underscores and
  dots, none of which JSON escapes.
\<close>

definition json_name :: "string \<Rightarrow> string" where
  "json_name s = CHR 0x22 # s @ [CHR 0x22]"

definition json_member :: "usage \<Rightarrow> string \<Rightarrow> string" where
  "json_member u name = json_name name @ CHR '':'' # int_str (get_or 0 u name)"

definition canonical_json :: "usage \<Rightarrow> billing_error + string" where
  "canonical_json u =
     (case usage_validate u of
        Inl e \<Rightarrow> Inl e
      | Inr _ \<Rightarrow>
          (let normal = normalized u;
               keys = sort_by (\<le>) (map fst normal)
           in Inr (CHR ''{'' # join CHR '','' (map (json_member normal) keys) @ [CHR ''}''])))"

interpretation string_order: comparison "(\<le>) :: string \<Rightarrow> string \<Rightarrow> bool"
  by unfold_locales auto

section \<open>Quantities\<close>

lemma usage_validate_ok: "usage_validate u = Inr () \<longleftrightarrow> (\<forall>(name, q) \<in> set u. valid_unit name \<and> 0 \<le> q)"
  by (induction u rule: usage_validate.induct) auto

lemma get_or_Nil [simp]: "get_or d [] k = d"
  by (simp add: get_or_def)

lemma get_or_put_key [simp]: "get_or d (put_key k v m) k' = (if k' = k then v else get_or d m k')"
  by (simp add: get_or_def)

lemma get_or_filter:
  "wf_map m \<Longrightarrow> get_or d (filter (\<lambda>(_, v). v \<noteq> d) m) k = get_or d m k"
  by (induction m) (auto simp: get_or_def wf_map_def split: option.splits dest: map_of_SomeD intro: rev_image_eqI)

lemma wf_map_filter: "wf_map m \<Longrightarrow> wf_map (filter P m)"
  by (simp add: wf_map_def distinct_map_filter)

lemma get_or_normalized [simp]: "wf_map u \<Longrightarrow> get_or 0 (normalized u) k = get_or 0 u k"
  by (simp add: normalized_def get_or_filter)

lemma wf_map_normalized [simp]: "wf_map u \<Longrightarrow> wf_map (normalized u)"
  by (simp add: normalized_def wf_map_filter)

lemma keys_normalized: "wf_map u \<Longrightarrow> k \<in> set (map fst (normalized u)) \<longleftrightarrow> get_or 0 u k \<noteq> 0"
  by (induction u) (auto simp: normalized_def get_or_def wf_map_def split: option.splits
      intro: rev_image_eqI dest: map_of_SomeD)

lemma get_or_token_usage:
  "get_or 0 (token_usage i c w5 w1 out) k =
     (if k = unit_input_tokens then i else if k = unit_cached_input_tokens then c
      else if k = unit_cache_write_5m_tokens then w5 else if k = unit_cache_write_1h_tokens then w1
      else if k = unit_output_tokens then out else 0)"
proof -
  let ?m = "[(unit_input_tokens, i), (unit_cached_input_tokens, c), (unit_cache_write_5m_tokens, w5),
    (unit_cache_write_1h_tokens, w1), (unit_output_tokens, out)]"
  have "wf_map ?m"
    by (simp add: wf_map_def unit_input_tokens_def unit_cached_input_tokens_def
        unit_cache_write_5m_tokens_def unit_cache_write_1h_tokens_def unit_output_tokens_def)
  then have "get_or 0 (token_usage i c w5 w1 out) k = get_or 0 ?m k"
    by (simp only: token_usage_def get_or_normalized)
  then show ?thesis by (simp add: get_or_def)
qed


lemma get_or_usage_add:
  "wf_map other \<Longrightarrow>
   get_or 0 (usage_add u other) k = (if k \<in> fst ` set other then i64 (get_or 0 u k + get_or 0 other k) else get_or 0 u k)"
proof (induction u other rule: usage_add.induct)
  case (2 u name q other)
  then have "wf_map other" "name \<notin> fst ` set other" by (auto simp: wf_map_def)
  with 2 show ?case by (auto simp: get_or_def)
qed simp

section \<open>The canonical text\<close>

definition json_plain :: "char \<Rightarrow> bool" where
  "json_plain c \<longleftrightarrow> CHR ''a'' \<le> c \<and> c \<le> CHR ''z'' \<or> is_digit c \<or> c = CHR ''_'' \<or> c = CHR ''.''"

lemma valid_unit_plain: "valid_unit s \<Longrightarrow> c \<in> set s \<Longrightarrow> json_plain c"
proof -
  assume valid: "valid_unit s" and "c \<in> set s"
  from \<open>c \<in> set s\<close> obtain i where "i < length s" "s ! i = c"
    by (auto simp: in_set_conv_nth)
  then have "(i, c) \<in> set (enumerate 0 s)"
    by (simp add: in_set_enumerate_eq)
  with valid have "unit_byte i c"
    by (auto simp: valid_unit_def list_all_iff)
  then show ?thesis by (auto simp: unit_byte_def json_plain_def is_digit_def)
qed

lemma json_plain_special [simp]:
  "\<not> json_plain CHR '',''" "\<not> json_plain CHR 0x22"
  by (simp_all add: json_plain_def is_digit_def less_eq_char_def)

lemma is_digit_special [simp]: "\<not> is_digit CHR '',''"
  by (simp add: is_digit_def less_eq_char_def)

lemma int_str_comma: "CHR '','' \<notin> set (int_str n)"
  using nat_str_digits is_digit_special by (fastforce simp: int_str_def split: if_splits)

lemma json_member_comma: "valid_unit k \<Longrightarrow> CHR '','' \<notin> set (json_member u k)"
  using valid_unit_plain [of k "CHR '',''"] int_str_comma by (auto simp: json_member_def json_name_def)

lemma json_member_inject:
  assumes "valid_unit j" "valid_unit k" "json_member u j = json_member v k"
  shows "j = k \<and> get_or 0 u j = get_or 0 v k"
proof -
  have "CHR 0x22 \<notin> set j" "CHR 0x22 \<notin> set k"
    using assms(1,2) valid_unit_plain json_plain_special(2) by blast+
  moreover have "j @ CHR 0x22 # CHR '':'' # int_str (get_or 0 u j)
      = k @ CHR 0x22 # CHR '':'' # int_str (get_or 0 v k)"
    using assms(3) by (simp add: json_member_def json_name_def)
  ultimately show ?thesis using cut_append [of "CHR 0x22"] by (metis int_str_inject list.inject prod.inject)
qed

lemma json_members_inject:
  assumes "map (json_member u) ks = map (json_member v) ls"
    and "\<forall>k \<in> set ks. valid_unit k" "\<forall>l \<in> set ls. valid_unit l"
  shows "ks = ls \<and> (\<forall>k \<in> set ks. get_or 0 u k = get_or 0 v k)"
  using assms
proof (induction ks arbitrary: ls)
  case (Cons k ks)
  then obtain l ls' where "ls = l # ls'" by (cases ls) auto
  with Cons.prems Cons.IH [of ls'] json_member_inject [of k l u v] show ?case by auto
qed simp

lemma join_inject:
  assumes "\<forall>s \<in> set ss. c \<notin> set s \<and> s \<noteq> []" "\<forall>t \<in> set ts. c \<notin> set t \<and> t \<noteq> []" "join c ss = join c ts"
  shows "ss = ts"
proof -
  have empty: "join c us = [] \<longleftrightarrow> us = []" if "\<forall>s \<in> set us. s \<noteq> []" for us
    using that by (induction c us rule: join.induct) auto
  show ?thesis
  proof (cases "ss = [] \<or> ts = []")
    case True
    then show ?thesis using assms empty [of ss] empty [of ts] by auto
  next
    case False
    then show ?thesis using assms split_join [of ss c] split_join [of ts c] by metis
  qed
qed

definition sorted_units :: "usage \<Rightarrow> string list" where
  "sorted_units u = sort_by (\<le>) (map fst (normalized u))"

lemma set_sorted_units: "wf_map u \<Longrightarrow> k \<in> set (sorted_units u) \<longleftrightarrow> get_or 0 u k \<noteq> 0"
  using keys_normalized [of u k] by (simp add: sorted_units_def)

lemma canonical_json_ok:
  "usage_validate u = Inr () \<Longrightarrow> canonical_json u =
     Inr (CHR ''{'' # join CHR '','' (map (json_member (normalized u)) (sorted_units u)) @ [CHR ''}''])"
  by (simp add: canonical_json_def sorted_units_def Let_def)

lemma sorted_units_valid:
  "usage_validate u = Inr () \<Longrightarrow> k \<in> set (sorted_units u) \<Longrightarrow> valid_unit k"
  by (auto simp: sorted_units_def normalized_def usage_validate_ok)

lemma canonical_json_same:
  assumes "wf_map u" "wf_map v" "usage_validate u = Inr ()" "usage_validate v = Inr ()"
  shows "canonical_json u = canonical_json v \<longleftrightarrow> (\<forall>k. get_or 0 u k = get_or 0 v k)"
proof
  assume "canonical_json u = canonical_json v"
  then have "join CHR '','' (map (json_member (normalized u)) (sorted_units u))
      = join CHR '','' (map (json_member (normalized v)) (sorted_units v))"
    using assms by (simp add: canonical_json_ok)
  then have eq: "map (json_member (normalized u)) (sorted_units u) = map (json_member (normalized v)) (sorted_units v)"
    by (rule join_inject [rotated -1])
      (use assms in \<open>auto dest!: sorted_units_valid simp: json_member_comma\<close>,
        simp_all add: json_member_def json_name_def)
  have "sorted_units u = sorted_units v \<and> (\<forall>k \<in> set (sorted_units u). get_or 0 u k = get_or 0 v k)"
    using json_members_inject [OF eq] assms sorted_units_valid by simp
  then show "\<forall>k. get_or 0 u k = get_or 0 v k"
    using set_sorted_units assms by metis
next
  assume same: "\<forall>k. get_or 0 u k = get_or 0 v k"
  have "sorted_units u = sorted_units v"
    unfolding sorted_units_def
  proof (rule string_order.sort_by_same_set)
    show "distinct (map fst (normalized u))" "distinct (map fst (normalized v))"
      using assms by (simp_all flip: wf_map_def)
    show "set (map fst (normalized u)) = set (map fst (normalized v))"
      using assms same by (intro set_eqI) (simp only: keys_normalized)
  qed auto
  moreover have "json_member (normalized u) = json_member (normalized v)"
    using same assms by (simp add: json_member_def fun_eq_iff)
  ultimately show "canonical_json u = canonical_json v"
    using assms by (simp add: canonical_json_ok)
qed

text \<open>
  The canonical JSON of two valid usages is the same text exactly when they have the same quantity
  for every unit: the text does not depend on the order Go iterates the map or on explicit zeros, and
  no two different usages share it, so hashing the text fixes the usage.
\<close>

theorem canonical_json_eq_iff:
  assumes "wf_map u" "wf_map v" "usage_validate u = Inr ()" "usage_validate v = Inr ()"
  shows "canonical_json u = canonical_json v \<longleftrightarrow> (\<forall>k. get_or 0 u k = get_or 0 v k)"
  using assms by (rule canonical_json_same)

theorem canonical_json_eq_iff_witness:
  "canonical_json [(''output_tokens'', 3), (''input_tokens'', 0)] = canonical_json [(''output_tokens'', 3)]"
proof -
  have "trim_space ''output_tokens'' = ''output_tokens''" "trim_space ''input_tokens'' = ''input_tokens''"
    by (rule trim_space_id, simp add: space_byte_code go_spaces_def)+
  then have "valid_unit ''output_tokens''" "valid_unit ''input_tokens''"
    by (simp_all add: valid_unit_def unit_byte_def less_eq_char_def)
  then show ?thesis
    by (subst canonical_json_eq_iff) (simp_all add: wf_map_def get_or_def)
qed

end
