(* ===== verification/Clock.thy ===== *)
theory Clock
  imports Billing
begin

text \<open>
  Instants and their RFC 3339 text. An instant is the number of nanoseconds since Go's zero time
  (January 1, year 1, UTC), so \<open>IsZero\<close> is equality with 0. \<open>format_time\<close> is
  \<open>t.UTC().Format(time.RFC3339Nano)\<close>, the form in which the stores keep every timestamp and in which
  the ledger hashes it; the calendar is the cycle arithmetic of Go's \<open>time\<close> package, for the years
  1 to 9999 the format covers.
\<close>

type_synonym instant = int

definition ns_per_second :: int where "ns_per_second = 1000000000"
definition ns_per_minute :: int where "ns_per_minute = 60 * ns_per_second"
definition ns_per_hour :: int where "ns_per_hour = 60 * ns_per_minute"

definition time_is_zero :: "instant \<Rightarrow> bool" where
  "time_is_zero t \<longleftrightarrow> t = 0"

section \<open>The calendar\<close>

text \<open>Days since January 1 of year 1 as a year (counted from 0) and a day of that year (from 0).\<close>

definition year_day :: "nat \<Rightarrow> nat \<times> nat" where
  "year_day d =
     (let n400 = d div 146097; d = d mod 146097;
          n100 = min 3 (d div 36524); d = d - 36524 * n100;
          n4 = d div 1461; d = d mod 1461;
          n1 = min 3 (d div 365); d = d - 365 * n1
      in (400 * n400 + 100 * n100 + 4 * n4 + n1, d))"

definition is_leap :: "nat \<Rightarrow> bool" where
  "is_leap y \<longleftrightarrow> y mod 4 = 0 \<and> (y mod 100 \<noteq> 0 \<or> y mod 400 = 0)"

definition month_starts :: "bool \<Rightarrow> nat list" where
  "month_starts leap =
     (if leap then [0, 31, 60, 91, 121, 152, 182, 213, 244, 274, 305, 335]
      else [0, 31, 59, 90, 120, 151, 181, 212, 243, 273, 304, 334])"

definition month_day :: "bool \<Rightarrow> nat \<Rightarrow> nat \<times> nat" where
  "month_day leap yday =
     (let m = length (filter (\<lambda>s. s \<le> yday) (month_starts leap))
      in (m, Suc yday - month_starts leap ! (m - 1)))"

definition date_text :: "nat \<Rightarrow> string" where
  "date_text d =
     (let (y0, yday) = year_day d; y = Suc y0; (m, day) = month_day (is_leap y) yday
      in fixed 4 y @ CHR ''-'' # fixed 2 m @ CHR ''-'' # fixed 2 day)"

definition clock_text :: "nat \<Rightarrow> string" where
  "clock_text s = fixed 2 (s div 3600) @ CHR '':'' # fixed 2 (s mod 3600 div 60) @ CHR '':'' # fixed 2 (s mod 60)"

definition seconds_text :: "nat \<Rightarrow> string" where
  "seconds_text s = date_text (s div 86400) @ CHR ''T'' # clock_text (s mod 86400)"

text \<open>The fraction of a second: nothing when it is zero, otherwise without its trailing zeros.\<close>

definition fraction_text :: "nat \<Rightarrow> string" where
  "fraction_text ns = (if ns = 0 then [] else CHR ''.'' # trim_right CHR ''0'' (fixed 9 ns))"

definition format_time :: "instant \<Rightarrow> string" where
  "format_time t =
     seconds_text (nat t div 1000000000) @ fraction_text (nat t mod 1000000000) @ ''Z''"

text \<open>The instants whose year has four digits: up to the end of year 9999.\<close>

definition valid_instant :: "instant \<Rightarrow> bool" where
  "valid_instant t \<longleftrightarrow> 0 \<le> t \<and> t < 3652059 * 86400 * 1000000000"

section \<open>The calendar orders days\<close>

text \<open>The day on which a year begins.\<close>

definition year_start :: "nat \<Rightarrow> nat" where
  "year_start y = 146097 * (y div 400) + 36524 * (y mod 400 div 100) + 1461 * (y mod 100 div 4) + 365 * (y mod 4)"

lemma year_start_parts:
  assumes "b \<le> 3" "c \<le> 24" "e \<le> 3"
  shows "year_start (400 * a + 100 * b + 4 * c + e) = 146097 * a + 36524 * b + 1461 * c + 365 * e"
proof -
  let ?y = "400 * a + 100 * b + 4 * c + e"
  have "?y = 400 * a + (100 * b + 4 * c + e)" "100 * b + 4 * c + e < 400" using assms by simp_all
  then have "?y div 400 = a" "?y mod 400 = 100 * b + (4 * c + e)"
    by (simp_all only: div_mult_self4 mod_mult_self4 add.assoc) simp_all
  moreover have "(100 * b + (4 * c + e)) div 100 = b"
    using assms by simp
  moreover have "?y = 100 * (4 * a + b) + (4 * c + e)" "4 * c + e < 100" using assms by simp_all
  then have "?y mod 100 = 4 * c + e"
    by (simp only: mod_mult_self4) simp
  moreover have "(4 * c + e) div 4 = c" using assms by simp
  moreover have "?y = 4 * (100 * a + 25 * b + c) + e" by simp
  then have "?y mod 4 = e" using assms by (simp only: mod_mult_self4) simp
  ultimately show ?thesis by (simp add: year_start_def)
qed

lemma year_start_next:
  assumes "b \<le> 3" "c \<le> 24" "e \<le> 3"
  shows "year_start (Suc (400 * a + 100 * b + 4 * c + e)) = 146097 * a + 36524 * b + 1461 * c + 365 * e +
    (if e < 3 then 365 else if c < 24 then 366 else if b < 3 then 365 else 366)"
proof -
  consider "e < 3" | "e = 3" "c < 24" | "e = 3" "c = 24" "b < 3" | "e = 3" "c = 24" "b = 3"
    using assms by linarith
  then show ?thesis
  proof cases
    case 1
    then show ?thesis using assms year_start_parts [of b c "Suc e" a] by simp
  next
    case 2
    then show ?thesis using assms year_start_parts [of b "Suc c" 0 a] by (simp add: algebra_simps)
  next
    case 3
    then show ?thesis using assms year_start_parts [of "Suc b" 0 0 a] by (simp add: algebra_simps)
  next
    case 4
    then show ?thesis using year_start_parts [of 0 0 0 "Suc a"] by (simp add: algebra_simps)
  qed
qed

lemma year_start_less: "y < y' \<Longrightarrow> year_start y < year_start y'"
proof -
  assume "y < y'"
  have "year_start n < year_start (Suc n)" for n
  proof -
  define m where "m = n mod 400"
  define k where "k = m mod 100"
  have "n = 400 * (n div 400) + 100 * (m div 100) + 4 * (k div 4) + k mod 4"
    using mult_div_mod_eq [of 400 n] mult_div_mod_eq [of 100 m] mult_div_mod_eq [of 4 k]
    unfolding m_def [symmetric] k_def [symmetric] by linarith
  moreover have "m div 100 \<le> 3" "k div 4 \<le> 24" "k mod 4 \<le> 3"
    using mod_less_divisor [of 400 n] mod_less_divisor [of 100 m] by (auto simp: m_def k_def)
  ultimately show ?thesis
    using year_start_parts [of "m div 100" "k div 4" "k mod 4" "n div 400"]
      year_start_next [of "m div 100" "k div 4" "k mod 4" "n div 400"] by simp
  qed
  then show ?thesis using \<open>y < y'\<close> by (rule lift_Suc_mono_less)
qed

lemma year_start_le: "y \<le> y' \<Longrightarrow> year_start y \<le> year_start y'"
  using year_start_less [of y y'] by (cases "y = y'") auto

text \<open>The cycle arithmetic finds the year that contains the day.\<close>

lemma year_day_start:
  assumes "year_day d = (y, yd)"
  shows "d = year_start y + yd" and "d < year_start (Suc y)" and "yd < 366"
proof -
  define r where "r = d mod 146097"
  define b where "b = min 3 (r div 36524)"
  define r2 where "r2 = r - 36524 * b"
  define r3 where "r3 = r2 mod 1461"
  define e where "e = min 3 (r3 div 365)"
  let ?a = "d div 146097" and ?c = "r2 div 1461"
  have r: "r < 146097" "d = 146097 * ?a + r" by (simp_all add: r_def)
  have r2: "r = 36524 * b + r2" "b \<le> 3" "b < 3 \<longrightarrow> r2 < 36524" "r2 < 36525"
    using r(1) unfolding r2_def b_def by (auto simp: min_def)
  have c: "r2 = 1461 * ?c + r3" "r3 < 1461" "?c \<le> 24"
    using r2(4) by (auto simp: r3_def)
  have e: "r3 = 365 * e + yd" "e \<le> 3" "e < 3 \<longrightarrow> yd < 365"
    and y: "y = 400 * ?a + 100 * b + 4 * ?c + e"
    using c(2) assms unfolding year_day_def Let_def r_def [symmetric] b_def [symmetric] r2_def [symmetric]
      r3_def [symmetric] e_def [symmetric] by (auto simp: e_def min_def)
  note nexty = year_start_next [OF r2(2) c(3) e(2), of ?a]
  show "d = year_start y + yd"
    using r r2 c e y year_start_parts [OF r2(2) c(3) e(2), of ?a] by simp
  show "yd < 366" using e c(2) by (cases "e < 3") auto
  show "d < year_start (Suc y)"
    unfolding y nexty using r r2 c e by (auto split: if_split)
qed

lemma year_day_mono:
  assumes "year_day d = (y, yd)" "year_day d' = (y', yd')"
  shows "d < d' \<longleftrightarrow> y < y' \<or> y = y' \<and> yd < yd'"
  using year_day_start [OF assms(1)] year_day_start [OF assms(2)]
    year_start_le [of "Suc y" y'] year_start_le [of "Suc y'" y]
  by (cases y y' rule: linorder_cases) auto

lemma year_day_bound:
  assumes "year_day d = (y, yd)" "d < 3652059"
  shows "Suc y < 10000"
proof (rule ccontr)
  assume "\<not> Suc y < 10000"
  then have "year_start 9999 \<le> year_start y" by (intro year_start_le) simp
  moreover have "year_start 9999 = 3652059" by (simp add: year_start_def)
  ultimately show False using year_day_start(1) [OF assms(1)] assms(2) by simp
qed

section \<open>Months order the days of a year\<close>

lemma month_starts_facts:
  "length (month_starts l) = 12" "hd (month_starts l) = 0" "sorted (month_starts l)"
  by (simp_all add: month_starts_def)

lemma month_starts_gap: "Suc i < 12 \<Longrightarrow> month_starts l ! Suc i \<le> month_starts l ! i + 31"
  by (auto simp: month_starts_def less_Suc_eq numeral_eq_Suc)

lemma month_starts_last: "334 \<le> month_starts l ! 11"
  by (simp add: month_starts_def)

lemma filter_le_sorted:
  fixes xs :: "nat list"
  assumes "sorted xs"
  shows "filter (\<lambda>s. s \<le> k) xs = takeWhile (\<lambda>s. s \<le> k) xs"
  using assms by (induction xs) (force simp: takeWhile_eq_Nil_iff dest: hd_in_set)+

lemma month_day_start:
  assumes "month_day l yd = (m, day)"
  shows "0 < m" "m \<le> 12" "month_starts l ! (m - 1) \<le> yd" "day = Suc yd - month_starts l ! (m - 1)"
    "m < 12 \<Longrightarrow> yd < month_starts l ! m"
proof -
  let ?f = "takeWhile (\<lambda>s. s \<le> yd) (month_starts l)"
  note f = filter_le_sorted [OF month_starts_facts(3), of yd l]
  have m: "m = length ?f" and d: "day = Suc yd - month_starts l ! (m - 1)"
    using assms by (auto simp: month_day_def Let_def f)
  show "day = Suc yd - month_starts l ! (m - 1)" by (rule d)
  show pos: "0 < m" using m by (simp add: month_starts_def)
  show "m \<le> 12" using m month_starts_facts(1) [of l] by (metis length_takeWhile_le)
  have "?f ! (m - 1) \<in> set ?f" using m pos by (intro nth_mem) simp
  then show "month_starts l ! (m - 1) \<le> yd"
    using m pos by (metis diff_less set_takeWhileD takeWhile_nth zero_less_one)
  show "yd < month_starts l ! m" if "m < 12"
    using that m nth_length_takeWhile [of "\<lambda>s. s \<le> yd" "month_starts l"] month_starts_facts(1) [of l]
    by simp
qed

lemma month_mono:
  assumes "month_day l yd = (m, day)" "month_day l yd' = (m', day')"
  shows "yd < yd' \<longleftrightarrow> m < m' \<or> m = m' \<and> day < day'"
proof -
  have less: "x < z" if "month_day l x = (i, u)" "month_day l z = (j, v)" "i < j" for i j u v x z
  proof -
    have "i < 12" using that(3) month_day_start(2) [OF that(2)] by simp
    then have "x < month_starts l ! i" by (rule month_day_start(5) [OF that(1)])
    also have "\<dots> \<le> month_starts l ! (j - 1)"
      using month_starts_facts [of l] that(3) month_day_start(1,2) [OF that(2)]
      by (intro sorted_nth_mono) auto
    also have "\<dots> \<le> z" by (rule month_day_start(3) [OF that(2)])
    finally show ?thesis .
  qed
  have "Suc yd = day + month_starts l ! (m - 1)" "Suc yd' = day' + month_starts l ! (m' - 1)"
    using month_day_start(3,4) [OF assms(1)] month_day_start(3,4) [OF assms(2)] by simp_all
  then have "yd < yd' \<longleftrightarrow> day < day'" if "m = m'"
    unfolding that by linarith
  then show ?thesis
    using less [OF assms] less [OF assms(2,1)] by (cases m m' rule: linorder_cases) auto
qed

lemma month_day_bounds:
  assumes "month_day l yd = (m, day)" "yd < 366"
  shows "m < 100" "day < 100"
proof -
  show "m < 100" using month_day_start(2) [OF assms(1)] by simp
  have "yd < month_starts l ! (m - 1) + 32"
  proof (cases "m < 12")
    case True
    then show ?thesis
      using month_day_start(1,5) [OF assms(1)] month_starts_gap [of "m - 1" l] by simp
  next
    case False
    then have "m = 12" using month_day_start(2) [OF assms(1)] by simp
    then show ?thesis using assms(2) month_starts_last [of l] by simp
  qed
  then show "day < 100" using month_day_start(3,4) [OF assms(1)] by linarith
qed

section \<open>The text orders whole seconds and determines the instant\<close>

lemma cons_append_less:
  fixes xs ys :: string
  shows "length xs = length ys \<Longrightarrow> xs @ c # us < ys @ c # vs \<longleftrightarrow> xs < ys \<or> xs = ys \<and> us < vs"
  by (simp add: less_append_same_length)

lemma date_text_length [simp]: "length (date_text d) = 10"
  by (simp add: date_text_def split: prod.split)

lemma date_text_less:
  assumes "d < 3652059" "d' < 3652059"
  shows "date_text d < date_text d' \<longleftrightarrow> d < d'"
proof -
  obtain y yd y' yd' where y: "year_day d = (y, yd)" "year_day d' = (y', yd')"
    by (metis surj_pair)
  obtain m k m' k' where m: "month_day (is_leap (Suc y)) yd = (m, k)" "month_day (is_leap (Suc y')) yd' = (m', k')"
    by (metis surj_pair)
  have yb: "Suc y < 10 ^ 4" "Suc y' < 10 ^ 4"
    using year_day_bound [OF y(1) assms(1)] year_day_bound [OF y(2) assms(2)] by simp_all
  have mb: "m < 10\<^sup>2" "k < 10\<^sup>2" "m' < 10\<^sup>2" "k' < 10\<^sup>2"
    using month_day_bounds [OF m(1) year_day_start(3) [OF y(1)]]
      month_day_bounds [OF m(2) year_day_start(3) [OF y(2)]] by simp_all
  have "date_text d < date_text d' \<longleftrightarrow> y < y' \<or> y = y' \<and> (m < m' \<or> m = m' \<and> k < k')"
    using yb mb by (simp add: date_text_def y m cons_append_less less_append_same_length
        fixed_less_iff fixed_inject del: fixed.simps power_Suc One_nat_def)
  also have "\<dots> \<longleftrightarrow> d < d'"
    using month_mono [of "is_leap (Suc y)" yd m k yd' m' k'] m year_day_mono [OF y] by auto
  finally show ?thesis .
qed

lemma clock_text_length [simp]: "length (clock_text s) = 8"
  by (simp add: clock_text_def del: fixed.simps)

lemma clock_parts:
  assumes "s < (86400 :: nat)"
  shows "s = 3600 * (s div 3600) + 60 * (s mod 3600 div 60) + s mod 60"
    and "s mod 60 < 60" "s mod 3600 div 60 < 60" "s div 3600 < 24"
proof -
  have "s mod 3600 mod 60 = s mod 60" by (simp add: mod_mod_cancel)
  then show "s = 3600 * (s div 3600) + 60 * (s mod 3600 div 60) + s mod 60"
    using mult_div_mod_eq [of 3600 s] mult_div_mod_eq [of 60 "s mod 3600"] by linarith
qed (use assms in \<open>simp_all add: less_mult_imp_div_less\<close>)

lemma clock_text_less:
  assumes "s < 86400" "s' < 86400"
  shows "clock_text s < clock_text s' \<longleftrightarrow> s < s'"
proof -
  note parts = clock_parts [OF assms(1)] clock_parts [OF assms(2)]
  have "clock_text s < clock_text s' \<longleftrightarrow> s div 3600 < s' div 3600 \<or> s div 3600 = s' div 3600 \<and>
    (s mod 3600 div 60 < s' mod 3600 div 60 \<or> s mod 3600 div 60 = s' mod 3600 div 60 \<and> s mod 60 < s' mod 60)"
    using parts(2-4,6-8)
    by (simp add: clock_text_def cons_append_less fixed_less_iff fixed_inject del: fixed.simps power_Suc)
  also have "\<dots> \<longleftrightarrow> s < s'" using parts by linarith
  finally show ?thesis .
qed

lemma seconds_text_length [simp]: "length (seconds_text s) = 19"
  by (simp add: seconds_text_def)

lemma seconds_text_less:
  assumes "s < 3652059 * 86400" "s' < 3652059 * 86400"
  shows "seconds_text s < seconds_text s' \<longleftrightarrow> s < s'"
proof -
  have d: "s div 86400 < 3652059" "s' div 86400 < 3652059" using assms by simp_all
  have eq: "date_text (s div 86400) = date_text (s' div 86400) \<longleftrightarrow> s div 86400 = s' div 86400"
    using date_text_less [OF d] date_text_less [OF d(2,1)] by (metis less_irrefl linorder_neqE_nat)
  have "seconds_text s < seconds_text s' \<longleftrightarrow>
    s div 86400 < s' div 86400 \<or> s div 86400 = s' div 86400 \<and> s mod 86400 < s' mod 86400"
    by (simp add: seconds_text_def cons_append_less date_text_less [OF d] eq clock_text_less)
  also have "\<dots> \<longleftrightarrow> s < s'"
    using mult_div_mod_eq [of 86400 s] mult_div_mod_eq [of 86400 s']
      mod_less_divisor [of 86400 s] mod_less_divisor [of 86400 s'] by linarith
  finally show ?thesis .
qed

lemma fraction_text_inject:
  assumes "a < 1000000000" "b < 1000000000"
    and "fraction_text a @ ''Z'' = fraction_text b @ ''Z''"
  shows "a = b"
proof -
  have pad: "trim_right CHR ''0'' s @ replicate (9 - length (trim_right CHR ''0'' s)) CHR ''0'' = s"
    if "length s = 9" for s
  proof -
    obtain k where k: "s = trim_right CHR ''0'' s @ replicate k CHR ''0''"
      using trim_right_replicate by blast
    then have "k = 9 - length (trim_right CHR ''0'' s)"
      using that by (metis add_diff_cancel_left' length_append length_replicate)
    with k show ?thesis by simp
  qed
  have "fraction_text a = fraction_text b" using assms(3) by simp
  then consider "a = b" | "trim_right CHR ''0'' (fixed 9 a) = trim_right CHR ''0'' (fixed 9 b)"
    by (auto simp: fraction_text_def split: if_splits)
  then show ?thesis
  proof cases
    case 2
    then have "fixed 9 a = fixed 9 b" using pad fixed_length by metis
    then show ?thesis using assms(1,2) fixed_inject [of a 9 b] by simp
  qed
qed

lemma valid_instant_seconds:
  assumes "valid_instant t"
  shows "nat t div 1000000000 < 3652059 * 86400"
  using assms by (simp add: valid_instant_def less_mult_imp_div_less nat_less_iff)

lemma seconds_text_inject:
  "s < 3652059 * 86400 \<Longrightarrow> s' < 3652059 * 86400 \<Longrightarrow> seconds_text s = seconds_text s' \<longleftrightarrow> s = s'"
  using seconds_text_less [of s s'] seconds_text_less [of s' s] by (metis less_irrefl linorder_neqE_nat)

lemma format_time_nonempty [simp]: "format_time t \<noteq> []"
  by (simp add: format_time_def)

lemma format_time_inject:
  assumes "valid_instant a" "valid_instant b" "format_time a = format_time b"
  shows "a = b"
proof -
  let ?s = "nat a div 1000000000" and ?t = "nat b div 1000000000"
  have "seconds_text ?s = seconds_text ?t \<and>
    fraction_text (nat a mod 1000000000) @ ''Z'' = fraction_text (nat b mod 1000000000) @ ''Z''"
    using assms(3) append_eq_append_conv [of "seconds_text ?s" "seconds_text ?t"] by (simp add: format_time_def)
  then have "?s = ?t" "nat a mod 1000000000 = nat b mod 1000000000"
    using seconds_text_inject valid_instant_seconds assms(1,2) fraction_text_inject by auto
  then have "nat a = nat b" by (metis div_mult_mod_eq)
  then show ?thesis using assms by (simp add: valid_instant_def nat_eq_iff split: if_splits)
qed

text \<open>Between instants of different seconds the text orders as time does.\<close>

lemma format_time_less_seconds:
  assumes "valid_instant a" "valid_instant b" "nat a div 1000000000 \<noteq> nat b div 1000000000"
  shows "format_time a < format_time b \<longleftrightarrow> a < b"
proof -
  let ?s = "nat a div 1000000000" and ?t = "nat b div 1000000000"
  note d = valid_instant_seconds [OF assms(1)] valid_instant_seconds [OF assms(2)]
  have "format_time a < format_time b \<longleftrightarrow> ?s < ?t"
    using assms(3) by (simp add: format_time_def less_append_same_length seconds_text_inject [OF d] seconds_text_less [OF d])
  also have "\<dots> \<longleftrightarrow> nat a < nat b"
    using assms(3) by (metis div_le_mono le_less linorder_not_le)
  finally show ?thesis using assms by (auto simp: valid_instant_def)
qed

text \<open>Inside a second the text order reverses between a whole second and what follows it.\<close>

lemma format_time_whole_second:
  assumes "0 \<le> a" "nat a mod 1000000000 = 0" "a < b" "nat b div 1000000000 = nat a div 1000000000"
  shows "format_time b < format_time a"
proof -
  have "nat b mod 1000000000 \<noteq> 0"
  proof
    assume "nat b mod 1000000000 = 0"
    then have "nat b = nat a" using assms(2,4) by (metis div_mult_mod_eq)
    then show False using assms(1,3) by simp
  qed
  then have "fraction_text (nat b mod 1000000000) @ ''Z'' < ''Z''"
    by (simp add: fraction_text_def less_char_def)
  then show ?thesis using assms(2,4) by (simp add: format_time_def fraction_text_def)
qed

text \<open>
  Text order of stored timestamps is time order for any two instants of the years 1 to 9999 that lie
  in different seconds: \<open>ORDER BY\<close> and range comparisons on the stored text agree with the clock at
  the resolution of a second.
\<close>

theorem format_time_order:
  assumes "valid_instant a" "valid_instant b" "nat a div 1000000000 \<noteq> nat b div 1000000000"
  shows "format_time a < format_time b \<longleftrightarrow> a < b"
  using assms by (rule format_time_less_seconds)

theorem format_time_order_witness:
  "format_time 1000000000 < format_time 2500000000"
  using format_time_order [of 1000000000 2500000000] by (simp add: valid_instant_def)

text \<open>
  Within a second text order is not time order: every instant strictly inside a second is stored as a
  smaller text than the whole second it follows, because the layout drops the trailing zeros of the
  fraction and a full stop is below \<open>Z\<close>. The comment on \<open>timeLayout\<close> (\<open>store/sqlite/helpers.go\<close>) claims
  the lexicographic order for every instant, and the comparisons in the queries rely on it.
\<close>

theorem format_time_reversed:
  assumes "0 \<le> a" "nat a mod 1000000000 = 0" "a < b" "nat b div 1000000000 = nat a div 1000000000"
  shows "format_time b < format_time a"
  using assms by (rule format_time_whole_second)

theorem format_time_reversed_witness:
  "format_time 1500000000 < format_time 1000000000"
  by (rule format_time_reversed) simp_all

end
