(* ===== verification/Ledger.thy ===== *)
theory Ledger
  imports Clock
begin

text \<open>
  The tamper-evident ledger (\<open>internal/ledger/entry.go\<close> and \<open>export.go\<close>). The digest
  (\<open>sha256.Sum256\<close>, printed in hexadecimal) is the argument \<open>sha\<close> of every definition that hashes;
  the theorems say what follows unless the digest collides on the very texts that were hashed.
\<close>

definition genesis_hash :: string where
  "genesis_hash = replicate 64 CHR ''0''"

definition hash_version_legacy :: int where "hash_version_legacy = 1"
definition hash_version_usage :: int where "hash_version_usage = 2"
definition current_hash_version :: int where "current_hash_version = hash_version_usage"

record entry =
  e_version :: int
  e_seq :: int
  e_run :: string
  e_principal :: string
  e_provider :: string
  e_model :: string
  e_input :: int
  e_output :: int
  e_usage :: usage
  e_external :: string
  e_revision :: string
  e_effective :: instant
  e_cost :: nanos
  e_estimated :: bool
  e_created :: instant
  e_prev :: string
  e_hash :: string

definition itemized_usage :: "entry \<Rightarrow> usage" where
  "itemized_usage e =
     (if e_usage e = [] then token_usage (e_input e) 0 0 0 (e_output e) else normalized (e_usage e))"

definition hash_version :: "entry \<Rightarrow> int" where
  "hash_version e = (if e_version e = 0 then hash_version_legacy else e_version e)"

datatype ledger_error = UnsupportedHashVersion int | LedgerUsage billing_error

definition entry_validate :: "entry \<Rightarrow> ledger_error + unit" where
  "entry_validate e =
     (let version = (if e_version e = 0 then current_hash_version else e_version e)
      in if version \<noteq> hash_version_legacy \<and> version \<noteq> hash_version_usage
         then Inl (UnsupportedHashVersion version)
         else if hash_version_usage \<le> version
         then (case usage_validate (itemized_usage e) of Inl err \<Rightarrow> Inl (LedgerUsage err) | Inr _ \<Rightarrow> Inr ())
         else Inr ())"

section \<open>The hashed text\<close>

text \<open>One length-prefixed field: the decimal length, a colon, the bytes.\<close>

definition frame :: "string \<Rightarrow> string" where
  "frame s = nat_str (length s) @ CHR '':'' # s"

definition bool_str :: "bool \<Rightarrow> string" where
  "bool_str b = (if b then ''true'' else ''false'')"

definition usage_text :: "entry \<Rightarrow> string" where
  "usage_text e =
     (case canonical_json (itemized_usage e) of
        Inl err \<Rightarrow> ''!invalid:'' @ billing_error_text err
      | Inr s \<Rightarrow> s)"

definition effective_text :: "instant \<Rightarrow> string" where
  "effective_text t = (if time_is_zero t then [] else format_time t)"

definition hash_fields :: "entry \<Rightarrow> string \<Rightarrow> string list" where
  "hash_fields e prev =
     [int_str (e_seq e), e_run e, e_principal e, e_provider e, e_model e, int_str (e_input e),
      int_str (e_output e), int_str (e_cost e), bool_str (e_estimated e)]
     @ (if hash_version_usage \<le> hash_version e
        then [int_str (hash_version e), usage_text e, e_external e, e_revision e, effective_text (e_effective e)]
        else [])
     @ [format_time (e_created e), prev]"

definition hash_input :: "entry \<Rightarrow> string \<Rightarrow> string" where
  "hash_input e prev = concat (map frame (hash_fields e prev))"

definition compute_hash :: "(string \<Rightarrow> string) \<Rightarrow> entry \<Rightarrow> string \<Rightarrow> string" where
  "compute_hash sha e prev = sha (hash_input e prev)"

definition seal_entry :: "(string \<Rightarrow> string) \<Rightarrow> entry \<Rightarrow> string \<Rightarrow> entry" where
  "seal_entry sha e0 prev =
     (let e1 = (if e_version e0 = 0 then e0\<lparr>e_version := current_hash_version\<rparr> else e0);
          e2 = (if hash_version_usage \<le> e_version e1 then e1\<lparr>e_usage := itemized_usage e1\<rparr> else e1);
          e3 = e2\<lparr>e_prev := prev\<rparr>
      in e3\<lparr>e_hash := compute_hash sha e3 prev\<rparr>)"

section \<open>Verification\<close>

datatype chain_reason = PrevMismatch | ContentMismatch
datatype chain_error = ChainError (chain_seq: int) (chain_why: chain_reason)

fun verify_from :: "(string \<Rightarrow> string) \<Rightarrow> string \<Rightarrow> entry list \<Rightarrow> chain_error + unit" where
  "verify_from sha prev [] = Inr ()"
| "verify_from sha prev (e # es) =
     (if e_prev e \<noteq> prev then Inl (ChainError (e_seq e) PrevMismatch)
      else if e_hash e \<noteq> compute_hash sha e (e_prev e) then Inl (ChainError (e_seq e) ContentMismatch)
      else verify_from sha (e_hash e) es)"

definition verify_chain :: "(string \<Rightarrow> string) \<Rightarrow> entry list \<Rightarrow> chain_error + unit" where
  "verify_chain sha es = verify_from sha genesis_hash es"

section \<open>Export\<close>

record export_entry =
  x_version :: int
  x_seq :: int
  x_run :: string
  x_principal :: string
  x_provider :: string
  x_model :: string
  x_input :: int
  x_output :: int
  x_usage :: usage
  x_cost_usd :: string
  x_estimated :: bool
  x_external :: string
  x_revision :: string
  x_effective :: string
  x_created :: instant
  x_prev :: string
  x_hash :: string

definition export_entries :: "entry list \<Rightarrow> export_entry list" where
  "export_entries es = map (\<lambda>e. \<lparr>
     x_version = e_version e, x_seq = e_seq e, x_run = e_run e, x_principal = e_principal e,
     x_provider = e_provider e, x_model = e_model e, x_input = e_input e, x_output = e_output e,
     x_usage = itemized_usage e, x_cost_usd = nanos_str (e_cost e), x_estimated = e_estimated e,
     x_external = e_external e, x_revision = e_revision e, x_effective = effective_text (e_effective e),
     x_created = e_created e, x_prev = e_prev e, x_hash = e_hash e\<rparr>) es"

text \<open>The records \<open>WriteCSV\<close> hands to the CSV writer, the header first.\<close>

definition csv_header :: "string list" where
  "csv_header =
     [''sequence'', ''run_id'', ''principal_id'', ''provider'', ''model'', ''input_tokens'', ''output_tokens'',
      ''usage_json'', ''cost_usd'', ''estimated'', ''external_id'', ''pricing_revision'', ''price_effective'',
      ''created_at'', ''hash_version'', ''prev_hash'', ''hash'']"

fun csv_rows :: "entry list \<Rightarrow> billing_error + string list list" where
  "csv_rows [] = Inr []"
| "csv_rows (e # es) =
     (case canonical_json (itemized_usage e) of
        Inl err \<Rightarrow> Inl err
      | Inr usage_json \<Rightarrow>
          (case csv_rows es of
             Inl err \<Rightarrow> Inl err
           | Inr rows \<Rightarrow> Inr (
               [int_str (e_seq e), e_run e, e_principal e, e_provider e, e_model e, int_str (e_input e),
                int_str (e_output e), usage_json, nanos_str (e_cost e), bool_str (e_estimated e),
                e_external e, e_revision e, effective_text (e_effective e), format_time (e_created e),
                int_str (e_version e), e_prev e, e_hash e] # rows)))"

definition write_csv :: "entry list \<Rightarrow> billing_error + string list list" where
  "write_csv es = (case csv_rows es of Inl err \<Rightarrow> Inl err | Inr rows \<Rightarrow> Inr (csv_header # rows))"

section \<open>The hashed text determines the entry\<close>

lemma colon_not_digit [simp]: "\<not> is_digit CHR '':''"
  by (simp add: is_digit_def less_eq_char_def)

lemma nat_str_no_colon: "CHR '':'' \<notin> set (nat_str n)"
  using nat_str_digits colon_not_digit by blast

lemma frame_append_inject: "frame s @ x = frame t @ y \<longleftrightarrow> s = t \<and> x = y"
proof
  assume "frame s @ x = frame t @ y"
  then have "nat_str (length s) @ CHR '':'' # (s @ x) = nat_str (length t) @ CHR '':'' # (t @ y)"
    by (simp add: frame_def)
  then have "cut CHR '':'' (nat_str (length s) @ CHR '':'' # (s @ x))
      = cut CHR '':'' (nat_str (length t) @ CHR '':'' # (t @ y))"
    by (rule arg_cong)
  then have "nat_str (length s) = nat_str (length t)" "s @ x = t @ y"
    by (simp_all add: cut_append nat_str_no_colon)
  then show "s = t \<and> x = y" by simp
qed simp

lemma frame_nonempty [simp]: "frame s \<noteq> []"
  by (simp add: frame_def)

lemma frames_inject: "concat (map frame ss) = concat (map frame ts) \<longleftrightarrow> ss = ts"
proof (induction ss arbitrary: ts)
  case Nil
  show ?case by (cases ts) simp_all
next
  case (Cons s ss)
  show ?case by (cases ts) (simp_all add: frame_append_inject Cons.IH)
qed

lemma bool_str_inject [simp]: "bool_str a = bool_str b \<longleftrightarrow> a = b"
  by (simp add: bool_str_def)

lemma effective_text_inject:
  "valid_instant a \<Longrightarrow> valid_instant b \<Longrightarrow> effective_text a = effective_text b \<longleftrightarrow> a = b"
  using format_time_inject [of a b] format_time_nonempty [THEN not_sym]
  by (auto simp: effective_text_def time_is_zero_def)

text \<open>What the stores guarantee of every row: a version they write, valid dimensions, years 1 to 9999.\<close>

definition entry_wf :: "entry \<Rightarrow> bool" where
  "entry_wf e \<longleftrightarrow> e_version e \<in> {hash_version_legacy, hash_version_usage} \<and> wf_map (e_usage e) \<and>
     (e_version e = hash_version_usage \<longrightarrow> usage_validate (itemized_usage e) = Inr ()) \<and>
     valid_instant (e_created e) \<and> valid_instant (e_effective e)"

text \<open>The entries agree in everything their format binds; a legacy entry does not bind its usage.\<close>

definition same_content :: "entry \<Rightarrow> entry \<Rightarrow> bool" where
  "same_content e f \<longleftrightarrow>
     e_version e = e_version f \<and> e_seq e = e_seq f \<and> e_run e = e_run f \<and> e_principal e = e_principal f \<and>
     e_provider e = e_provider f \<and> e_model e = e_model f \<and> e_input e = e_input f \<and>
     e_output e = e_output f \<and> e_cost e = e_cost f \<and> e_estimated e = e_estimated f \<and>
     e_created e = e_created f \<and>
     (e_version e = hash_version_usage \<longrightarrow>
        (\<forall>unit. get_or 0 (itemized_usage e) unit = get_or 0 (itemized_usage f) unit) \<and>
        e_external e = e_external f \<and> e_revision e = e_revision f \<and> e_effective e = e_effective f)"

lemma wf_map_token_usage [simp]: "wf_map (token_usage i c w5 w1 out)"
  by (auto simp: token_usage_def normalized_def wf_map_def unit_input_tokens_def unit_cached_input_tokens_def
      unit_cache_write_5m_tokens_def unit_cache_write_1h_tokens_def unit_output_tokens_def)

lemma wf_map_itemized: "wf_map (e_usage e) \<Longrightarrow> wf_map (itemized_usage e)"
  by (simp add: itemized_usage_def)

lemma usage_text_inject:
  assumes "entry_wf e" "entry_wf f" "e_version e = hash_version_usage" "e_version f = hash_version_usage"
  shows "usage_text e = usage_text f \<longleftrightarrow>
    (\<forall>unit. get_or 0 (itemized_usage e) unit = get_or 0 (itemized_usage f) unit)"
proof -
  have ok: "usage_validate (itemized_usage e) = Inr ()" "usage_validate (itemized_usage f) = Inr ()"
    and wf: "wf_map (itemized_usage e)" "wf_map (itemized_usage f)"
    using assms by (auto simp: entry_wf_def intro: wf_map_itemized)
  have "usage_text e = usage_text f \<longleftrightarrow> canonical_json (itemized_usage e) = canonical_json (itemized_usage f)"
    using canonical_json_ok [OF ok(1)] canonical_json_ok [OF ok(2)] by (simp add: usage_text_def)
  then show ?thesis using canonical_json_same [OF wf ok] by simp
qed

lemma hash_fields_inject:
  assumes "entry_wf e" "entry_wf f"
  shows "hash_fields e p = hash_fields f q \<longleftrightarrow> same_content e f \<and> p = q"
proof -
  have v: "e_version e = 1 \<or> e_version e = 2" "e_version f = 1 \<or> e_version f = 2"
    using assms by (auto simp: entry_wf_def hash_version_legacy_def hash_version_usage_def)
  have "format_time (e_created e) = format_time (e_created f) \<longleftrightarrow> e_created e = e_created f"
    and "effective_text (e_effective e) = effective_text (e_effective f) \<longleftrightarrow> e_effective e = e_effective f"
    using assms format_time_inject effective_text_inject by (auto simp: entry_wf_def)
  with v usage_text_inject [OF assms] show ?thesis
    by (auto simp: hash_fields_def same_content_def hash_version_def hash_version_usage_def hash_version_legacy_def)
qed

lemma hash_input_inject:
  "entry_wf e \<Longrightarrow> entry_wf f \<Longrightarrow> hash_input e p = hash_input f q \<longleftrightarrow> same_content e f \<and> p = q"
  by (simp add: hash_input_def frames_inject hash_fields_inject)

section \<open>Chains\<close>

definition head_hash :: "string \<Rightarrow> entry list \<Rightarrow> string" where
  "head_hash prev es = (if es = [] then prev else e_hash (last es))"

lemma head_hash_simps [simp]: "head_hash p [] = p" "head_hash p (es @ [e]) = e_hash e"
  "head_hash p (e # es) = head_hash (e_hash e) es"
  by (simp_all add: head_hash_def)

lemma verify_from_append:
  "verify_from sha p (xs @ ys) =
     (case verify_from sha p xs of Inl err \<Rightarrow> Inl err | Inr _ \<Rightarrow> verify_from sha (head_hash p xs) ys)"
  by (induction sha p xs rule: verify_from.induct) (auto split: sum.split)

lemma verify_from_snoc_ok:
  "verify_from sha p (es @ [e]) = Inr () \<longleftrightarrow>
     verify_from sha p es = Inr () \<and> e_prev e = head_hash p es \<and> e_hash e = compute_hash sha e (e_prev e)"
  by (auto simp: verify_from_append split: sum.splits)

lemma seal_entry_fields [simp]:
  "e_prev (seal_entry sha e p) = p"
  "e_seq (seal_entry sha e p) = e_seq e"
  by (simp_all add: seal_entry_def Let_def)

lemma hash_input_update_hash [simp]:
  "hash_input (e\<lparr>e_hash := h\<rparr>) p = hash_input e p"
  by (simp add: hash_input_def hash_fields_def hash_version_def usage_text_def itemized_usage_def)

lemma seal_entry_hash [simp]: "e_hash (seal_entry sha e p) = compute_hash sha (seal_entry sha e p) p"
  by (simp add: seal_entry_def Let_def compute_hash_def)

lemma verify_chain_seal:
  "verify_chain sha es = Inr () \<Longrightarrow>
   verify_chain sha (es @ [seal_entry sha e (head_hash genesis_hash es)]) = Inr ()"
  by (simp add: verify_chain_def verify_from_snoc_ok)

text \<open>
  No digest of a row of either ledger is the genesis value, and a row of one and a row of the other
  that share a digest hashed the same text: what SHA-256 is used for.
\<close>

definition digest_safe :: "(string \<Rightarrow> string) \<Rightarrow> entry list \<Rightarrow> entry list \<Rightarrow> bool" where
  "digest_safe sha es fs \<longleftrightarrow>
     (\<forall>e \<in> set (es @ fs). compute_hash sha e (e_prev e) \<noteq> genesis_hash) \<and>
     (\<forall>e \<in> set es. \<forall>f \<in> set fs. compute_hash sha e (e_prev e) = compute_hash sha f (e_prev f) \<longrightarrow>
        hash_input e (e_prev e) = hash_input f (e_prev f))"

lemma digest_safe_snoc:
  "digest_safe sha (es @ [e]) (fs @ [f]) \<Longrightarrow> digest_safe sha es fs"
  by (simp add: digest_safe_def)

lemma verify_head_genesis:
  assumes "verify_chain sha es = Inr ()" "head_hash genesis_hash es = genesis_hash"
    and "\<forall>e \<in> set es. compute_hash sha e (e_prev e) \<noteq> genesis_hash"
  shows "es = []"
proof (rule ccontr)
  assume "es \<noteq> []"
  then obtain xs x where "es = xs @ [x]" by (metis rev_exhaust)
  with assms show False by (auto simp: verify_chain_def verify_from_snoc_ok)
qed

lemma same_head_same_ledger:
  assumes "verify_chain sha es = Inr ()" "verify_chain sha fs = Inr ()"
    and "head_hash genesis_hash es = head_hash genesis_hash fs"
    and "\<forall>e \<in> set (es @ fs). entry_wf e" "digest_safe sha es fs"
  shows "list_all2 (\<lambda>e f. same_content e f \<and> e_prev e = e_prev f \<and> e_hash e = e_hash f) es fs"
  using assms
proof (induction es arbitrary: fs rule: rev_induct)
  case Nil
  then have "fs = []" using verify_head_genesis [of sha fs] by (auto simp: digest_safe_def)
  then show ?case by simp
next
  case (snoc e es)
  have "fs \<noteq> []"
    using verify_head_genesis [OF snoc.prems(1)] snoc.prems(3,5) by (auto simp: digest_safe_def)
  then obtain gs f where fs: "fs = gs @ [f]" by (metis rev_exhaust)
  have ok: "verify_chain sha es = Inr ()" "verify_chain sha gs = Inr ()"
    "e_prev e = head_hash genesis_hash es" "e_prev f = head_hash genesis_hash gs"
    "e_hash e = compute_hash sha e (e_prev e)" "e_hash f = compute_hash sha f (e_prev f)"
    using snoc.prems(1,2) by (simp_all add: fs verify_chain_def verify_from_snoc_ok)
  have "compute_hash sha e (e_prev e) = compute_hash sha f (e_prev f)"
    using ok snoc.prems(3) fs by simp
  then have "hash_input e (e_prev e) = hash_input f (e_prev f)"
    using snoc.prems(5) fs by (simp add: digest_safe_def)
  then have "same_content e f" "e_prev e = e_prev f"
    using snoc.prems(4) fs by (simp_all add: hash_input_inject)
  moreover have "list_all2 (\<lambda>e f. same_content e f \<and> e_prev e = e_prev f \<and> e_hash e = e_hash f) es gs"
    using snoc.IH [of gs] ok \<open>e_prev e = e_prev f\<close> snoc.prems(4,5) fs digest_safe_snoc by simp
  moreover have "e_hash e = e_hash f" using snoc.prems(3) fs by simp
  ultimately show ?case by (simp add: fs list_all2_appendI)
qed

lemma verify_edit:
  assumes "verify_chain sha (xs @ e # ys) = Inr ()" "entry_wf e" "entry_wf f"
    and "e_prev f = e_prev e" "e_hash f = e_hash e" "\<not> same_content e f" "digest_safe sha [e] [f]"
  shows "verify_chain sha (xs @ f # ys) = Inl (ChainError (e_seq f) ContentMismatch)"
proof -
  have ok: "verify_from sha genesis_hash xs = Inr ()" "e_prev e = head_hash genesis_hash xs"
    "e_hash e = compute_hash sha e (e_prev e)"
    using assms(1) by (auto simp: verify_chain_def verify_from_append split: sum.splits if_splits)
  have "compute_hash sha e (e_prev e) \<noteq> compute_hash sha f (e_prev f)"
    using assms hash_input_inject by (auto simp: digest_safe_def)
  then show ?thesis using ok assms(4,5) by (simp add: verify_chain_def verify_from_append)
qed

lemma verify_from_error_iff:
  "verify_from sha p es = Inl err \<longleftrightarrow>
     (\<exists>xs e ys. es = xs @ e # ys \<and> verify_from sha p xs = Inr () \<and> chain_seq err = e_seq e \<and>
        (if e_prev e \<noteq> head_hash p xs then chain_why err = PrevMismatch
         else chain_why err = ContentMismatch \<and> e_hash e \<noteq> compute_hash sha e (e_prev e)))"
  (is "_ \<longleftrightarrow> (\<exists>xs e ys. ?at xs e ys)")
proof
  show "\<exists>xs e ys. ?at xs e ys" if "verify_from sha p es = Inl err"
    using that
  proof (induction sha p es rule: verify_from.induct)
    case (2 sha prev e es)
    show ?case
    proof (cases "e_prev e = prev \<and> e_hash e = compute_hash sha e (e_prev e)")
      case True
      with 2 obtain xs f ys where "es = xs @ f # ys" "verify_from sha (e_hash e) xs = Inr ()" "chain_seq err = e_seq f"
        "if e_prev f \<noteq> head_hash (e_hash e) xs then chain_why err = PrevMismatch
         else chain_why err = ContentMismatch \<and> e_hash f \<noteq> compute_hash sha f (e_prev f)"
        by auto
      with True show ?thesis by (intro exI [of _ "e # xs"] exI [of _ f] exI [of _ ys]) simp
    next
      case False
      with 2 show ?thesis by (intro exI [of _ "[]"] exI [of _ e] exI [of _ es]) (auto split: if_splits)
    qed
  qed simp
  show "verify_from sha p es = Inl err" if "\<exists>xs e ys. ?at xs e ys"
    using that by (cases err) (auto simp: verify_from_append split: if_splits)
qed

section \<open>Properties of the ledger\<close>

text \<open>
  The text that is hashed for a row determines the row: two well-formed rows, each chained onto a
  previous hash, are serialized to the same text exactly when they agree in every field their format
  binds and in the previous hash. No choice of separators inside a model or provider name makes two
  different rows collide before the digest is applied.
\<close>

theorem hash_input_binds:
  assumes "entry_wf e" "entry_wf f"
  shows "hash_input e p = hash_input f q \<longleftrightarrow> same_content e f \<and> p = q"
  using assms by (rule hash_input_inject)

text \<open>
  C39. The hash of the last row commits to the whole ledger: two ledgers that both verify and end in the
  same hash have the same number of rows and agree row by row, unless the digest collides on two
  of their rows or yields the genesis value. So no row can be edited, removed, inserted or moved
  and the chain recomputed without changing the last hash.
\<close>

theorem last_hash_commits_to_ledger:
  assumes "verify_chain sha es = Inr ()" "verify_chain sha fs = Inr ()"
    and "head_hash genesis_hash es = head_hash genesis_hash fs"
    and "\<forall>e \<in> set (es @ fs). entry_wf e" "digest_safe sha es fs"
  shows "list_all2 (\<lambda>e f. same_content e f \<and> e_prev e = e_prev f \<and> e_hash e = e_hash f) es fs"
  using assms by (rule same_head_same_ledger)

text \<open>
  Editing any field of a historical row is reported at that row: when a verified ledger has one row
  replaced by a row with other content but the stored hashes kept, verification fails with the sequence
  number of that row and the content mismatch.
\<close>

theorem edited_row_is_reported:
  assumes "verify_chain sha (xs @ e # ys) = Inr ()" "entry_wf e" "entry_wf f"
    and "e_prev f = e_prev e" "e_hash f = e_hash e" "\<not> same_content e f" "digest_safe sha [e] [f]"
  shows "verify_chain sha (xs @ f # ys) = Inl (ChainError (e_seq f) ContentMismatch)"
  using assms by (rule verify_edit)

text \<open>
  Verification fails exactly when some row is the first bad one: everything before it verifies, and it
  does not chain onto its predecessor or its stored hash is not the hash of its contents; the error
  names that row and that reason, a broken link being reported before a bad hash.
\<close>

theorem verify_chain_reports_first:
  "verify_chain sha es = Inl err \<longleftrightarrow>
     (\<exists>xs e ys. es = xs @ e # ys \<and> verify_chain sha xs = Inr () \<and> chain_seq err = e_seq e \<and>
        (if e_prev e \<noteq> head_hash genesis_hash xs then chain_why err = PrevMismatch
         else chain_why err = ContentMismatch \<and> e_hash e \<noteq> compute_hash sha e (e_prev e)))"
  unfolding verify_chain_def by (rule verify_from_error_iff)

text \<open>A row, a digest for which the hypotheses hold, and the properties on them.\<close>

definition sample_row :: "nanos \<Rightarrow> entry" where
  "sample_row cost = \<lparr>
     e_version = 2, e_seq = 1, e_run = ''run_1'', e_principal = ''prin_1'', e_provider = ''openai'',
     e_model = ''m'', e_input = 3, e_output = 4, e_usage = [], e_external = [], e_revision = [],
     e_effective = 0, e_cost = cost, e_estimated = False, e_created = 63000000000000000000,
     e_prev = genesis_hash, e_hash = []\<rparr>"

definition sample_sha :: "string \<Rightarrow> string" where
  "sample_sha s = CHR ''x'' # s"

definition sealed_row :: "nanos \<Rightarrow> entry" where
  "sealed_row cost = (sample_row cost)\<lparr>e_hash := compute_hash sample_sha (sample_row cost) genesis_hash\<rparr>"

lemma token_names_valid [simp]:
  "valid_unit unit_input_tokens" "valid_unit unit_output_tokens"
proof -
  have "trim_space unit_input_tokens = unit_input_tokens" "trim_space unit_output_tokens = unit_output_tokens"
    by (rule trim_space_id, simp add: space_byte_code go_spaces_def unit_input_tokens_def unit_output_tokens_def)+
  then show "valid_unit unit_input_tokens" "valid_unit unit_output_tokens"
    by (simp_all add: valid_unit_def unit_byte_def less_eq_char_def)
      (simp_all add: unit_input_tokens_def unit_output_tokens_def unit_byte_def less_eq_char_def)
qed

lemma sample_row_wf [simp]: "entry_wf (sample_row c)"
  by (auto simp: entry_wf_def sample_row_def hash_version_usage_def itemized_usage_def wf_map_def
      usage_validate_ok token_usage_def normalized_def valid_instant_def)

lemma sealed_row_simps [simp]:
  "entry_wf (sealed_row c)" "e_seq (sealed_row c) = 1" "e_prev (sealed_row c) = genesis_hash"
  "e_hash (sealed_row c) = compute_hash sample_sha (sealed_row c) genesis_hash"
  "e_cost (sealed_row c) = c"
  using sample_row_wf [of c]
  by (simp_all add: sealed_row_def entry_wf_def itemized_usage_def compute_hash_def) (simp_all add: sample_row_def)

lemma sample_sha_safe [simp]: "digest_safe sample_sha es fs"
  by (simp add: digest_safe_def compute_hash_def sample_sha_def genesis_hash_def numeral_eq_Suc)

lemma sealed_row_verifies [simp]: "verify_chain sample_sha [sealed_row c] = Inr ()"
  by (simp add: verify_chain_def)

theorem hash_input_binds_witness:
  "hash_input (sample_row 5) [] \<noteq> hash_input (sample_row 6) []"
  by (simp add: hash_input_binds) (simp add: same_content_def sample_row_def)

theorem last_hash_commits_to_ledger_witness:
  "\<exists>es fs. length es = 1 \<and> list_all2 (\<lambda>e f. same_content e f \<and> e_prev e = e_prev f \<and> e_hash e = e_hash f) es fs"
  using last_hash_commits_to_ledger [of sample_sha "[sealed_row 5]" "[sealed_row 5]"]
  by (intro exI [of _ "[sealed_row 5]"]) simp

theorem edited_row_is_reported_witness:
  "verify_chain sample_sha [(sealed_row 5)\<lparr>e_cost := 4\<rparr>] = Inl (ChainError 1 ContentMismatch)"
proof -
  have "entry_wf ((sealed_row 5)\<lparr>e_cost := 4\<rparr>)"
    using sealed_row_simps(1) [of 5] by (auto simp: entry_wf_def itemized_usage_def split: if_splits)
  then show ?thesis
    using edited_row_is_reported [of sample_sha "[]" "sealed_row 5" "[]" "(sealed_row 5)\<lparr>e_cost := 4\<rparr>"]
    by (simp add: same_content_def)
qed

end
