(* ===== verification/Pricing.thy ===== *)
theory Pricing
  imports Ledger
begin

text \<open>
  The price book (\<open>internal/pricing\<close>): what a usage costs (\<open>cost.go\<close>), how many tokens a request
  reserves (\<open>estimate.go\<close>), and how a model's price is found in dated files (\<open>book.go\<close>). Rates
  are nanodollars per million tokens; every product and sum is computed at int64. Decoding YAML is a
  third-party package: the decoder is an argument of \<open>read_dir\<close>.
\<close>

section \<open>Costs\<close>

record token_counts =
  tc_input :: int
  tc_cached :: int
  tc_write5m :: int
  tc_write1h :: int
  tc_output :: int

record price =
  p_provider :: string
  p_model :: string
  p_input :: nanos
  p_output :: nanos
  p_cached :: nanos
  p_write5m :: nanos
  p_write1h :: nanos
  p_long_threshold :: int
  p_long_input :: nanos
  p_long_cached :: nanos
  p_long_write :: nanos
  p_long_output :: nanos
  p_free :: bool
  p_default_max :: int
  p_effective :: instant
  p_verified :: instant
  p_source :: string
  p_estimated :: bool

definition tokens_per_unit :: int where
  "tokens_per_unit = 1000000"

definition rate :: "int \<Rightarrow> nanos \<Rightarrow> nanos" where
  "rate tokens per_million =
     (if tokens \<le> 0 \<or> per_million = 0 then 0
      else (let whole = go_div tokens tokens_per_unit;
                rem = go_rem tokens tokens_per_unit;
                cost = i64 (whole * per_million)
            in if 0 < rem
               then (let scaled = i64 (rem * per_million)
                     in i64 (cost + go_div (i64 (scaled + go_div tokens_per_unit 2)) tokens_per_unit))
               else cost))"

definition price_cost :: "price \<Rightarrow> token_counts \<Rightarrow> nanos" where
  "price_cost p u =
     (let total_input = i64 (i64 (i64 (tc_input u + tc_cached u) + tc_write5m u) + tc_write1h u);
          long = 0 < p_long_threshold p \<and> p_long_threshold p \<le> total_input;
          input_rate = (if long then p_long_input p else p_input p);
          cached_rate = (if long then p_long_cached p else p_cached p);
          write5m_rate = (if long then p_long_write p else p_write5m p);
          write1h_rate = (if long then p_long_write p else p_write1h p);
          output_rate = (if long then p_long_output p else p_output p)
      in i64 (i64 (i64 (i64 (rate (tc_input u) input_rate + rate (tc_cached u) cached_rate)
           + rate (tc_write5m u) write5m_rate) + rate (tc_write1h u) write1h_rate)
           + rate (tc_output u) output_rate))"

section \<open>Reservations\<close>

definition default_chars_per_token :: int where "default_chars_per_token = 4"
definition reservation_input_overhead :: int where "reservation_input_overhead = 1024"

definition estimate_from_chars :: "int \<Rightarrow> int" where
  "estimate_from_chars chars =
     (if chars \<le> 0 then 0
      else (let tokens = go_div (i64 (i64 (chars + default_chars_per_token) - 1)) default_chars_per_token
            in if tokens < 1 then 1 else tokens))"

definition reservation_input_tokens :: "int \<Rightarrow> int" where
  "reservation_input_tokens request_bytes =
     i64 ((if request_bytes < 0 then 0 else request_bytes) + reservation_input_overhead)"

record fallback =
  fb_input :: nanos
  fb_output :: nanos
  fb_default_max :: int

definition default_fallback :: fallback where
  "default_fallback = \<lparr>fb_input = 15 * dollar, fb_output = 75 * dollar, fb_default_max = 4096\<rparr>"

definition reservation_tokens :: "int \<Rightarrow> price \<Rightarrow> int" where
  "reservation_tokens requested p =
     (if 0 < requested then requested
      else if 0 < p_default_max p then p_default_max p
      else fb_default_max default_fallback)"

section \<open>Price files\<close>

record price_model =
  m_input :: nanos
  m_output :: nanos
  m_cached :: "nanos option"
  m_write5m :: "nanos option"
  m_write1h :: "nanos option"
  m_long_threshold :: int
  m_long_input :: "nanos option"
  m_long_cached :: "nanos option"
  m_long_write :: "nanos option"
  m_long_output :: "nanos option"
  m_free :: bool
  m_default_max :: int
  m_aliases :: "string list"

record price_provider =
  pp_source :: string
  pp_models :: "(string, price_model) go_map"

record price_file =
  f_version :: int
  f_effective :: instant
  f_verified :: instant
  f_providers :: "(string, price_provider) go_map"
  f_name :: string
  f_digest :: string

datatype pricing_error =
    RateNotScalar | RateInvalid | RateNegative
  | ErrReadDir | ErrReadFile string | ErrParse string | ErrNoPrices | ErrUnknownModel
  | BadVersion | NoEffectiveDate | NoProviders | NoSource | NoModels
  | FreeButPriced | MissingBaseRate | BadDefaultMaxTokens | NeedsVersion2
  | IncompleteLongRates | LongRatesWithoutThreshold

text \<open>\<open>Rate.UnmarshalYAML\<close>: \<open>None\<close> is a node that is not a scalar.\<close>

definition unmarshal_rate :: "string option \<Rightarrow> pricing_error + nanos" where
  "unmarshal_rate node =
     (case node of
        None \<Rightarrow> Inl RateNotScalar
      | Some s \<Rightarrow>
          (case parse_usd s of
             Inl _ \<Rightarrow> Inl RateInvalid
           | Inr n \<Rightarrow> if n < 0 then Inl RateNegative else Inr n))"

definition non_zero_rate :: "nanos option \<Rightarrow> bool" where
  "non_zero_rate r = (case r of None \<Rightarrow> False | Some n \<Rightarrow> n \<noteq> 0)"

definition rate_or :: "nanos option \<Rightarrow> nanos \<Rightarrow> nanos" where
  "rate_or r d = (case r of None \<Rightarrow> d | Some n \<Rightarrow> n)"

definition supported_version :: int where "supported_version = 2"

definition validate_model :: "int \<Rightarrow> price_model \<Rightarrow> pricing_error + unit" where
  "validate_model version m =
     (if m_free m \<and> (m_input m \<noteq> 0 \<or> m_output m \<noteq> 0 \<or> non_zero_rate (m_cached m) \<or>
           non_zero_rate (m_write5m m) \<or> non_zero_rate (m_write1h m) \<or> m_long_threshold m \<noteq> 0 \<or>
           non_zero_rate (m_long_input m) \<or> non_zero_rate (m_long_cached m) \<or>
           non_zero_rate (m_long_write m) \<or> non_zero_rate (m_long_output m)) then Inl FreeButPriced
      else if \<not> m_free m \<and> (m_input m \<le> 0 \<or> m_output m \<le> 0) then Inl MissingBaseRate
      else if m_default_max m \<le> 0 then Inl BadDefaultMaxTokens
      else if version = 1 \<and> (m_free m \<or> m_cached m \<noteq> None \<or> m_write5m m \<noteq> None \<or> m_write1h m \<noteq> None \<or>
           m_long_threshold m \<noteq> 0 \<or> m_long_input m \<noteq> None \<or> m_long_cached m \<noteq> None \<or>
           m_long_write m \<noteq> None \<or> m_long_output m \<noteq> None) then Inl NeedsVersion2
      else (let long_count = length (filter (\<lambda>r. r \<noteq> None) [m_long_input m, m_long_cached m, m_long_output m])
            in if 0 < m_long_threshold m \<and> long_count \<noteq> 3 then Inl IncompleteLongRates
               else if m_long_threshold m = 0 \<and> (0 < long_count \<or> m_long_write m \<noteq> None)
               then Inl LongRatesWithoutThreshold
               else Inr ()))"

fun first_error :: "('a \<Rightarrow> 'e + unit) \<Rightarrow> 'a list \<Rightarrow> 'e + unit" where
  "first_error check [] = Inr ()"
| "first_error check (x # xs) = (case check x of Inl e \<Rightarrow> Inl e | Inr _ \<Rightarrow> first_error check xs)"

definition validate_provider :: "int \<Rightarrow> price_provider \<Rightarrow> pricing_error + unit" where
  "validate_provider version p =
     (if trim_space (pp_source p) = [] then Inl NoSource
      else if pp_models p = [] then Inl NoModels
      else first_error (\<lambda>(_, m). validate_model version m) (pp_models p))"

definition validate_file :: "price_file \<Rightarrow> pricing_error + unit" where
  "validate_file f =
     (if f_version f < 1 \<or> supported_version < f_version f then Inl BadVersion
      else if time_is_zero (f_effective f) then Inl NoEffectiveDate
      else if f_providers f = [] then Inl NoProviders
      else first_error (\<lambda>(_, p). validate_provider (f_version f) p) (f_providers f))"

text \<open>
  A directory entry: its name, whether it is a directory, and the bytes reading it gives. The decoder
  \<open>yaml\<close> yields the document without the name and digest, which \<open>readDir\<close> fills in.
\<close>

type_synonym dir_entry = "string \<times> bool \<times> string option"

fun read_files :: "(string \<Rightarrow> price_file option) \<Rightarrow> (string \<Rightarrow> string) \<Rightarrow> dir_entry list \<Rightarrow> pricing_error + price_file list" where
  "read_files yaml sha [] = Inr []"
| "read_files yaml sha ((name, is_dir, content) # entries) =
     (if is_dir \<or> \<not> has_suffix name ''.yaml'' \<and> \<not> has_suffix name ''.yml'' then read_files yaml sha entries
      else (case content of
          None \<Rightarrow> Inl (ErrReadFile name)
        | Some raw \<Rightarrow>
            (case yaml raw of
               None \<Rightarrow> Inl (ErrParse name)
             | Some f0 \<Rightarrow>
                 (let f = f0\<lparr>f_name := name, f_digest := sha raw\<rparr>
                  in case validate_file f of
                       Inl e \<Rightarrow> Inl e
                     | Inr _ \<Rightarrow>
                         (case read_files yaml sha entries of
                            Inl e \<Rightarrow> Inl e
                          | Inr fs \<Rightarrow> Inr (f # fs))))))"

definition read_dir :: "(string \<Rightarrow> price_file option) \<Rightarrow> (string \<Rightarrow> string) \<Rightarrow> dir_entry list option \<Rightarrow> pricing_error + price_file list" where
  "read_dir yaml sha dir = (case dir of None \<Rightarrow> Inl ErrReadDir | Some entries \<Rightarrow> read_files yaml sha entries)"

section \<open>The book\<close>

record snapshot =
  sn_files :: "price_file list"
  sn_loaded_at :: instant

record book =
  b_snapshot :: "snapshot option"
  b_fallback :: fallback
  b_disable_fallback :: bool
  b_warn :: bool
  b_warned :: "string list"

text \<open>The order of \<open>sort.SliceStable\<close> in \<open>Reload\<close>: by effective date, then by name.\<close>

definition file_le :: "price_file \<Rightarrow> price_file \<Rightarrow> bool" where
  "file_le f g \<longleftrightarrow> f_effective f < f_effective g \<or> f_effective f = f_effective g \<and> f_name f \<le> f_name g"

interpretation file_order: comparison file_le
  by unfold_locales (auto simp: file_le_def)

definition reload :: "(string \<Rightarrow> price_file option) \<Rightarrow> (string \<Rightarrow> string) \<Rightarrow> dir_entry list option \<Rightarrow> instant \<Rightarrow> book
    \<Rightarrow> pricing_error + book" where
  "reload yaml sha dir now b =
     (case read_dir yaml sha dir of
        Inl e \<Rightarrow> Inl e
      | Inr files \<Rightarrow>
          if files = [] then Inl ErrNoPrices
          else Inr (b\<lparr>b_snapshot := Some \<lparr>sn_files = sort_by file_le files, sn_loaded_at = now\<rparr>, b_warned := []\<rparr>))"

definition load :: "(string \<Rightarrow> price_file option) \<Rightarrow> (string \<Rightarrow> string) \<Rightarrow> dir_entry list option \<Rightarrow> instant
    \<Rightarrow> fallback \<Rightarrow> bool \<Rightarrow> bool \<Rightarrow> pricing_error + book" where
  "load yaml sha dir now fb disable warn =
     (let fb' = (if fb = \<lparr>fb_input = 0, fb_output = 0, fb_default_max = 0\<rparr> then default_fallback else fb)
      in reload yaml sha dir now
           \<lparr>b_snapshot = None, b_fallback = fb', b_disable_fallback = disable, b_warn = warn, b_warned = []\<rparr>)"

section \<open>Lookup\<close>

definition resolve_price :: "string \<Rightarrow> string \<Rightarrow> price_model \<Rightarrow> price_file \<Rightarrow> string \<Rightarrow> price" where
  "resolve_price provider model m f source =
     (let cached = rate_or (m_cached m) (m_input m);
          write5m = rate_or (m_write5m m) (m_input m);
          write1h = rate_or (m_write1h m) write5m
      in \<lparr>p_provider = provider, p_model = model, p_input = m_input m, p_output = m_output m,
          p_cached = cached, p_write5m = write5m, p_write1h = write1h,
          p_long_threshold = m_long_threshold m,
          p_long_input = rate_or (m_long_input m) (m_input m),
          p_long_cached = rate_or (m_long_cached m) cached,
          p_long_write = rate_or (m_long_write m) write5m,
          p_long_output = rate_or (m_long_output m) (m_output m),
          p_free = m_free m, p_default_max = m_default_max m,
          p_effective = f_effective f, p_verified = f_verified f, p_source = source,
          p_estimated = False\<rparr>)"

text \<open>One file's answer: the exact identifier first, then the first model in the map that lists the alias.\<close>

definition file_price :: "string \<Rightarrow> string \<Rightarrow> price_file \<Rightarrow> price option" where
  "file_price provider model f =
     (case map_of (f_providers f) provider of
        None \<Rightarrow> None
      | Some p \<Rightarrow>
          (case map_of (pp_models p) model of
             Some m \<Rightarrow> Some (resolve_price provider model m f (pp_source p))
           | None \<Rightarrow>
               (case find (\<lambda>(_, m). model \<in> set (m_aliases m)) (pp_models p) of
                  Some (name, m) \<Rightarrow> Some (resolve_price provider name m f (pp_source p))
                | None \<Rightarrow> None)))"

text \<open>The loop over the files, newest first, skipping those not yet in effect.\<close>

fun lookup_files :: "string \<Rightarrow> string \<Rightarrow> instant \<Rightarrow> price_file list \<Rightarrow> price option" where
  "lookup_files provider model moment [] = None"
| "lookup_files provider model moment (f # fs) =
     (if moment < f_effective f then lookup_files provider model moment fs
      else (case file_price provider model f of
              Some p \<Rightarrow> Some p
            | None \<Rightarrow> lookup_files provider model moment fs))"

definition lookup_known :: "book \<Rightarrow> string \<Rightarrow> string \<Rightarrow> instant \<Rightarrow> price option" where
  "lookup_known b provider model moment =
     (case b_snapshot b of None \<Rightarrow> None | Some sn \<Rightarrow> lookup_files provider model moment (rev (sn_files sn)))"

definition fallback_price :: "book \<Rightarrow> string \<Rightarrow> string \<Rightarrow> price" where
  "fallback_price b provider model =
     \<lparr>p_provider = provider, p_model = model, p_input = fb_input (b_fallback b), p_output = fb_output (b_fallback b),
      p_cached = fb_input (b_fallback b), p_write5m = fb_input (b_fallback b), p_write1h = fb_input (b_fallback b),
      p_long_threshold = 0, p_long_input = 0, p_long_cached = 0, p_long_write = 0, p_long_output = 0,
      p_free = False, p_default_max = fb_default_max (b_fallback b), p_effective = 0, p_verified = 0,
      p_source = [], p_estimated = True\<rparr>"

definition lookup_price :: "book \<Rightarrow> string \<Rightarrow> string \<Rightarrow> instant \<Rightarrow> price \<times> bool" where
  "lookup_price b provider model moment =
     (case lookup_known b provider model moment of
        Some p \<Rightarrow> (p, True)
      | None \<Rightarrow> (fallback_price b provider model, False))"

text \<open>
  \<open>warnUnknown\<close>: the book with the key remembered, and whether \<open>opts.Warn\<close> was called.
  \<open>lookup_step\<close> is \<open>Lookup\<close> with that effect.
\<close>

definition warn_unknown :: "book \<Rightarrow> string \<Rightarrow> string \<Rightarrow> book \<times> bool" where
  "warn_unknown b provider model =
     (let key = provider @ CHR ''/'' # model
      in if \<not> b_warn b \<or> b_snapshot b = None \<or> key \<in> set (b_warned b) then (b, False)
         else (b\<lparr>b_warned := key # b_warned b\<rparr>, True))"

definition lookup_step :: "book \<Rightarrow> string \<Rightarrow> string \<Rightarrow> instant \<Rightarrow> (price \<times> bool) \<times> book \<times> bool" where
  "lookup_step b provider model moment =
     (case lookup_known b provider model moment of
        Some p \<Rightarrow> ((p, True), b, False)
      | None \<Rightarrow> ((fallback_price b provider model, False), warn_unknown b provider model))"

definition price_or_error :: "book \<Rightarrow> string \<Rightarrow> string \<Rightarrow> instant \<Rightarrow> pricing_error + price" where
  "price_or_error b provider model moment =
     (let (p, known) = lookup_price b provider model moment
      in if \<not> known \<and> b_disable_fallback b then Inl ErrUnknownModel else Inr p)"

definition book_cost :: "book \<Rightarrow> string \<Rightarrow> string \<Rightarrow> token_counts \<Rightarrow> instant \<Rightarrow> nanos \<times> bool" where
  "book_cost b provider model u moment = (let (p, known) = lookup_price b provider model moment in (price_cost p u, known))"

section \<open>Listings\<close>

definition book_models :: "book \<Rightarrow> string \<Rightarrow> instant \<Rightarrow> string list" where
  "book_models b provider moment =
     (case b_snapshot b of
        None \<Rightarrow> []
      | Some sn \<Rightarrow> sort_by (\<le>) (remdups (concat (map
          (\<lambda>f. if moment < f_effective f then []
               else (case map_of (f_providers f) provider of None \<Rightarrow> [] | Some p \<Rightarrow> map fst (pp_models p)))
          (sn_files sn)))))"

definition book_providers :: "book \<Rightarrow> string list" where
  "book_providers b =
     (case b_snapshot b of
        None \<Rightarrow> []
      | Some sn \<Rightarrow> sort_by (\<le>) (remdups (concat (map (\<lambda>f. map fst (f_providers f)) (sn_files sn)))))"

definition book_entries :: "book \<Rightarrow> instant \<Rightarrow> price list" where
  "book_entries b moment =
     concat (map (\<lambda>provider.
        List.map_filter (\<lambda>model. lookup_known b provider model moment) (book_models b provider moment)) (book_providers b))"

record book_metadata =
  md_revision :: string
  md_loaded_at :: instant
  md_latest_effective :: instant
  md_oldest_verified :: instant
  md_unverified :: int
  md_future_verified :: int
  md_providers :: int
  md_models :: int

definition revision_text :: "price_file list \<Rightarrow> string" where
  "revision_text fs = concat (map (\<lambda>f. f_name f @ CHR 0x00 # f_digest f @ [CHR 0x00]) fs)"

definition count_entry :: "instant \<Rightarrow> book_metadata \<Rightarrow> price \<Rightarrow> book_metadata" where
  "count_entry moment md e =
     (let md = md\<lparr>md_models := md_models md + 1\<rparr>
      in if time_is_zero (p_verified e) then md\<lparr>md_unverified := md_unverified md + 1\<rparr>
         else (let md = (if moment < p_verified e then md\<lparr>md_future_verified := md_future_verified md + 1\<rparr> else md)
               in if time_is_zero (md_oldest_verified md) \<or> p_verified e < md_oldest_verified md
                  then md\<lparr>md_oldest_verified := p_verified e\<rparr> else md))"

definition metadata :: "(string \<Rightarrow> string) \<Rightarrow> book \<Rightarrow> instant \<Rightarrow> book_metadata" where
  "metadata sha b moment =
     (case b_snapshot b of
        None \<Rightarrow> \<lparr>md_revision = [], md_loaded_at = 0, md_latest_effective = 0, md_oldest_verified = 0,
          md_unverified = 0, md_future_verified = 0, md_providers = 0, md_models = 0\<rparr>
      | Some sn \<Rightarrow>
          (let active = filter (\<lambda>f. f_effective f \<le> moment) (sn_files sn)
           in foldl (count_entry moment)
                \<lparr>md_revision = sha (revision_text active), md_loaded_at = sn_loaded_at sn,
                 md_latest_effective = foldl (\<lambda>t f. if t < f_effective f then f_effective f else t) 0 active,
                 md_oldest_verified = 0, md_unverified = 0, md_future_verified = 0,
                 md_providers = int (length (remdups (concat (map (\<lambda>f. map fst (f_providers f)) active)))),
                 md_models = 0\<rparr>
                (book_entries b moment)))"

section \<open>Exactness of costs\<close>

text \<open>The exact price of a number of tokens: rounded half up to the nanodollar, in unbounded integers.\<close>

definition exact_rate :: "int \<Rightarrow> int \<Rightarrow> int" where
  "exact_rate tokens per_million = (tokens * per_million + 500000) div 1000000"

lemma exact_rate_split:
  assumes "t = 1000000 * w + r"
  shows "exact_rate t p = w * p + (r * p + 500000) div 1000000"
proof -
  have "t * p + 500000 = (r * p + 500000) + (w * p) * 1000000"
    by (simp add: assms algebra_simps)
  then show ?thesis unfolding exact_rate_def by (simp only: div_mult_self1)
qed

lemma rate_exact:
  assumes "0 \<le> t" "0 \<le> p" "t mod 1000000 * p + 500000 \<le> max_i64" "exact_rate t p \<le> max_i64"
  shows "rate t p = exact_rate t p"
proof -
  define w r where "w = t div 1000000" and "r = t mod 1000000"
  have wr: "t = 1000000 * w + r" "0 \<le> w" "0 \<le> r"
    using assms(1) by (simp_all add: w_def r_def pos_imp_zdiv_nonneg_iff)
  note split = exact_rate_split [OF wr(1), of p]
  have nn: "0 \<le> w * p" "0 \<le> r * p" "0 \<le> (r * p + 500000) div 1000000"
    using wr assms(2) by (simp_all add: pos_imp_zdiv_nonneg_iff)
  have b: "w * p \<le> max_i64" "r * p + 500000 \<le> max_i64" "r * p \<le> max_i64"
    using split nn assms(3,4) r_def by simp_all
  have gd: "go_div t tokens_per_unit = w" "go_rem t tokens_per_unit = r"
    using assms(1) by (simp_all add: tokens_per_unit_def go_div_nonneg go_rem_nonneg w_def r_def)
  have "go_div tokens_per_unit 2 = 500000" by (simp add: tokens_per_unit_def go_div_nonneg)
  moreover have "go_div (r * p + 500000) tokens_per_unit = (r * p + 500000) div 1000000"
    using nn by (simp add: tokens_per_unit_def go_div_nonneg)
  ultimately have rate: "rate t p = (if 0 < r then w * p + (r * p + 500000) div 1000000 else w * p)" if "0 < t" "p \<noteq> 0"
    using that nn b assms(4) split by (simp add: rate_def gd Let_def i64_nonneg_id)
  show ?thesis
  proof (cases "t = 0 \<or> p = 0")
    case True
    then show ?thesis by (auto simp: rate_def exact_rate_def)
  next
    case False
    then have "rate t p = (if 0 < r then w * p + (r * p + 500000) div 1000000 else w * p)"
      using assms(1) by (intro rate) auto
    then show ?thesis using wr(3) by (cases "r = 0") (simp_all add: split)
  qed
qed

lemma exact_rate_nonneg: "0 \<le> t \<Longrightarrow> 0 \<le> p \<Longrightarrow> 0 \<le> exact_rate t p"
  by (simp add: exact_rate_def pos_imp_zdiv_nonneg_iff)

lemma exact_rate_zero [simp]: "exact_rate 0 p = 0" "exact_rate t 0 = 0"
  by (simp_all add: exact_rate_def)

definition long_context :: "price \<Rightarrow> token_counts \<Rightarrow> bool" where
  "long_context p u \<longleftrightarrow> 0 < p_long_threshold p \<and>
     p_long_threshold p \<le> tc_input u + tc_cached u + tc_write5m u + tc_write1h u"

text \<open>The rates a usage is charged at, with the tokens each applies to.\<close>

definition charged_rates :: "price \<Rightarrow> token_counts \<Rightarrow> (int \<times> nanos) list" where
  "charged_rates p u =
     (let long = long_context p u in
      [(tc_input u, if long then p_long_input p else p_input p),
       (tc_cached u, if long then p_long_cached p else p_cached p),
       (tc_write5m u, if long then p_long_write p else p_write5m p),
       (tc_write1h u, if long then p_long_write p else p_write1h p),
       (tc_output u, if long then p_long_output p else p_output p)])"

definition exact_cost :: "price \<Rightarrow> token_counts \<Rightarrow> int" where
  "exact_cost p u = (\<Sum>(t, r) \<leftarrow> charged_rates p u. exact_rate t r)"

definition within_int64 :: "price \<Rightarrow> token_counts \<Rightarrow> bool" where
  "within_int64 p u \<longleftrightarrow>
     list_all (\<lambda>(t, r). 0 \<le> t \<and> 0 \<le> r \<and> t mod 1000000 * r + 500000 \<le> max_i64) (charged_rates p u) \<and>
     tc_input u + tc_cached u + tc_write5m u + tc_write1h u \<le> max_i64 \<and> exact_cost p u \<le> max_i64"

lemma price_cost_is_exact:
  assumes "within_int64 p u"
  shows "price_cost p u = exact_cost p u"
proof -
  obtain i c w v out where u: "u = \<lparr>tc_input = i, tc_cached = c, tc_write5m = w, tc_write1h = v, tc_output = out\<rparr>"
    by (cases u)
  have nn: "0 \<le> i" "0 \<le> c" "0 \<le> w" "0 \<le> v" "0 \<le> out" and total: "i + c + w + v \<le> max_i64"
    using assms by (simp_all add: within_int64_def charged_rates_def Let_def u)
  then have "i64 (i64 (i64 (i + c) + w) + v) = i + c + w + v"
    by (simp add: i64_nonneg_id)
  then have long: "(0 < p_long_threshold p \<and> p_long_threshold p \<le> i64 (i64 (i64 (tc_input u + tc_cached u) + tc_write5m u) + tc_write1h u))
      = long_context p u"
    by (simp add: u long_context_def)
  obtain ri rc rw rv ro where rates: "charged_rates p u = [(i, ri), (c, rc), (w, rw), (v, rv), (out, ro)]"
    by (simp add: charged_rates_def Let_def u)
  have cost: "price_cost p u =
      i64 (i64 (i64 (i64 (rate i ri + rate c rc) + rate w rw) + rate v rv) + rate out ro)"
    using rates unfolding price_cost_def Let_def long charged_rates_def by (simp add: u)
  let ?e = "exact_rate i ri + exact_rate c rc + exact_rate w rw + exact_rate v rv + exact_rate out ro"
  have e: "exact_cost p u = ?e" by (simp add: exact_cost_def rates)
  have r0: "0 \<le> ri" "0 \<le> rc" "0 \<le> rw" "0 \<le> rv" "0 \<le> ro" and le: "?e \<le> max_i64"
    using assms e by (simp_all add: within_int64_def rates)
  note pos = exact_rate_nonneg [OF nn(1) r0(1)] exact_rate_nonneg [OF nn(2) r0(2)]
    exact_rate_nonneg [OF nn(3) r0(3)] exact_rate_nonneg [OF nn(4) r0(4)] exact_rate_nonneg [OF nn(5) r0(5)]
  have "rate i ri = exact_rate i ri" "rate c rc = exact_rate c rc" "rate w rw = exact_rate w rw"
    "rate v rv = exact_rate v rv" "rate out ro = exact_rate out ro"
    using assms nn r0 le pos by (auto intro!: rate_exact simp: within_int64_def rates)
  then show ?thesis using pos le by (simp add: cost e i64_nonneg_id)
qed

lemma i64_sum5:
  assumes "0 \<le> a" "0 \<le> b" "0 \<le> c" "0 \<le> d" "0 \<le> e" "a + b + c + d + e \<le> max_i64"
  shows "i64 (i64 (i64 (i64 (a + b) + c) + d) + e) = a + b + c + d + e"
  using assms by (simp add: i64_nonneg_id)

lemma sum5_pos:
  assumes "0 \<le> a" "0 \<le> b" "0 \<le> c" "0 \<le> d" "0 \<le> e" "\<not> (a = 0 \<and> b = 0 \<and> c = 0 \<and> d = 0 \<and> e = 0)"
  shows "0 < a + b + c + d + (e :: int)"
  using assms by linarith

section \<open>Lookup finds the price in effect\<close>

lemma lookup_files_Some:
  "lookup_files provider model moment fs = Some p \<longleftrightarrow>
     (\<exists>xs f ys. fs = xs @ f # ys \<and> f_effective f \<le> moment \<and> file_price provider model f = Some p \<and>
        (\<forall>g \<in> set xs. moment < f_effective g \<or> file_price provider model g = None))"
proof (induction provider model moment fs rule: lookup_files.induct)
  case (2 provider model moment f fs)
  show ?case
  proof (cases "moment < f_effective f \<or> file_price provider model f = None")
    case True
    then have "lookup_files provider model moment (f # fs) = lookup_files provider model moment fs" by auto
    moreover have "(\<exists>xs g ys. f # fs = xs @ g # ys \<and> f_effective g \<le> moment \<and> file_price provider model g = Some p \<and>
        (\<forall>h \<in> set xs. moment < f_effective h \<or> file_price provider model h = None)) \<longleftrightarrow>
      (\<exists>xs g ys. fs = xs @ g # ys \<and> f_effective g \<le> moment \<and> file_price provider model g = Some p \<and>
        (\<forall>h \<in> set xs. moment < f_effective h \<or> file_price provider model h = None))"
      using True by (fastforce simp: Cons_eq_append_conv intro: exI [of _ "f # _"])
    ultimately show ?thesis using 2 True by auto
  next
    case False
    then show ?thesis by (fastforce simp: Cons_eq_append_conv)
  qed
qed simp

lemma lookup_files_None:
  "lookup_files provider model moment fs = None \<longleftrightarrow>
     (\<forall>f \<in> set fs. moment < f_effective f \<or> file_price provider model f = None)"
  by (induction provider model moment fs rule: lookup_files.induct) (auto split: option.splits)

lemma file_price_effective: "file_price provider model f = Some p \<Longrightarrow> p_effective p = f_effective f \<and> p_provider p = provider \<and> \<not> p_estimated p"
  by (auto simp: file_price_def resolve_price_def Let_def split: option.splits)

definition book_files :: "book \<Rightarrow> price_file list" where
  "book_files b = (case b_snapshot b of None \<Rightarrow> [] | Some sn \<Rightarrow> sn_files sn)"

text \<open>A book that \<open>Load\<close> or \<open>Reload\<close> produced: its files validated and sorted.\<close>

definition book_wf :: "book \<Rightarrow> bool" where
  "book_wf b \<longleftrightarrow> sorted_wrt file_le (book_files b) \<and> list_all (\<lambda>f. validate_file f = Inr ()) (book_files b)"

lemma lookup_known_files: "lookup_known b provider model moment = lookup_files provider model moment (rev (book_files b))"
  by (simp add: lookup_known_def book_files_def split: option.split)

lemma read_files_valid:
  "read_files yaml sha entries = Inr fs \<Longrightarrow> \<forall>f \<in> set fs. validate_file f = Inr ()"
  by (induction yaml sha entries arbitrary: fs rule: read_files.induct)
    (auto simp: Let_def split: if_splits option.splits sum.splits)

lemma reload_wf: "reload yaml sha dir now b = Inr b' \<Longrightarrow> book_wf b'"
  using read_files_valid
  by (auto simp: reload_def read_dir_def book_wf_def book_files_def list_all_iff
      file_order.sorted_sort_by split: sum.splits option.splits if_splits)

lemma newest_file:
  assumes "book_wf b" "lookup_known b provider model moment = Some p"
  shows "p_effective p \<le> moment" "\<not> p_estimated p"
    and "\<forall>f \<in> set (book_files b). f_effective f \<le> moment \<and> file_price provider model f \<noteq> None \<longrightarrow>
      f_effective f \<le> p_effective p"
proof -
  obtain xs f ys where s: "rev (book_files b) = xs @ f # ys" "f_effective f \<le> moment"
    "file_price provider model f = Some p" "\<forall>g \<in> set xs. moment < f_effective g \<or> file_price provider model g = None"
    using assms(2) unfolding lookup_known_files lookup_files_Some by blast
  then have files: "book_files b = rev ys @ f # rev xs"
    by (metis append.assoc append_Cons append_Nil rev.simps(2) rev_append rev_swap)
  show "p_effective p \<le> moment" "\<not> p_estimated p"
    using s(2) file_price_effective [OF s(3)] by simp_all
  have "\<forall>g \<in> set ys. file_le g f"
    using assms(1) by (simp add: book_wf_def files sorted_wrt_append)
  then show "\<forall>g \<in> set (book_files b). f_effective g \<le> moment \<and> file_price provider model g \<noteq> None \<longrightarrow>
      f_effective g \<le> p_effective p"
    using s(4) file_price_effective [OF s(3)] by (auto simp: files file_le_def)
qed

text \<open>Only the files in effect matter.\<close>

definition in_effect :: "instant \<Rightarrow> price_file list \<Rightarrow> price_file list" where
  "in_effect moment fs = filter (\<lambda>f. f_effective f \<le> moment) fs"

lemma lookup_files_in_effect:
  "lookup_files provider model moment fs = lookup_files provider model moment (in_effect moment fs)"
  by (induction provider model moment fs rule: lookup_files.induct) (auto simp: in_effect_def split: option.split)

lemma book_models_in_effect:
  "book_models b provider moment = sort_by (\<le>) (remdups (concat (map
     (\<lambda>f. case map_of (f_providers f) provider of None \<Rightarrow> [] | Some p \<Rightarrow> map fst (pp_models p))
     (in_effect moment (book_files b)))))"
proof -
  have "concat (map (\<lambda>f. if moment < f_effective f then [] else g f) fs) = concat (map g (in_effect moment fs))"
    for g :: "price_file \<Rightarrow> string list" and fs
    by (induction fs) (auto simp: in_effect_def)
  then show ?thesis by (simp add: book_models_def book_files_def in_effect_def split: option.split)
qed

lemma reload_files:
  "reload yaml sha dir now b = Inr b' \<Longrightarrow>
     \<exists>fs. read_dir yaml sha dir = Inr fs \<and> fs \<noteq> [] \<and> book_files b' = sort_by file_le fs \<and>
       b_snapshot b' \<noteq> None \<and> b_fallback b' = b_fallback b"
  by (auto simp: reload_def book_files_def split: sum.splits if_splits)

lemma same_in_effect:
  assumes "in_effect moment (book_files b) = in_effect moment (book_files c)"
    and "b_snapshot b \<noteq> None" "b_snapshot c \<noteq> None"
  shows "lookup_known b provider model moment = lookup_known c provider model moment"
    and "book_models b provider moment = book_models c provider moment"
    and "md_revision (metadata sha b moment) = md_revision (metadata sha c moment)"
proof -
  have "in_effect moment (rev fs) = rev (in_effect moment fs)" for fs
    by (simp add: in_effect_def rev_filter)
  then show "lookup_known b provider model moment = lookup_known c provider model moment"
    unfolding lookup_known_files
    using assms(1) lookup_files_in_effect [of provider model moment "rev (book_files b)"]
      lookup_files_in_effect [of provider model moment "rev (book_files c)"] by simp
  show "book_models b provider moment = book_models c provider moment"
    by (simp add: book_models_in_effect assms(1))
  have counted: "md_revision (foldl (count_entry moment) md es) = md_revision md" for md es
    by (induction es arbitrary: md) (simp_all add: count_entry_def Let_def)
  show "md_revision (metadata sha b moment) = md_revision (metadata sha c moment)"
    using assms by (auto simp: metadata_def Let_def counted book_files_def in_effect_def)
qed

lemma models_resolve:
  assumes "model \<in> set (book_models b provider moment)"
  shows "\<exists>p. lookup_known b provider model moment = Some p"
proof -
  obtain f pr where f: "f \<in> set (in_effect moment (book_files b))" "map_of (f_providers f) provider = Some pr"
    "model \<in> fst ` set (pp_models pr)"
  proof -
    obtain f where f: "f \<in> set (in_effect moment (book_files b))"
      "model \<in> set (case map_of (f_providers f) provider of None \<Rightarrow> [] | Some p \<Rightarrow> map fst (pp_models p))"
      using assms by (auto simp: book_models_in_effect)
    then obtain pr where "map_of (f_providers f) provider = Some pr"
      by (cases "map_of (f_providers f) provider") auto
    then show ?thesis using f that by auto
  qed
  then obtain m where "map_of (pp_models pr) model = Some m"
    by (metis map_of_eq_None_iff not_Some_eq)
  with f have "file_price provider model f \<noteq> None" by (simp add: file_price_def)
  then show ?thesis
    using f(1) lookup_files_None [of provider model moment "rev (book_files b)"]
    by (auto simp: lookup_known_files in_effect_def)
qed

section \<open>Prices that were validated\<close>

lemma first_error_ok: "first_error check xs = Inr () \<longleftrightarrow> (\<forall>x \<in> set xs. check x = Inr ())"
  by (induction check xs rule: first_error.induct) (auto split: sum.split)

lemma file_price_validated:
  assumes "validate_file f = Inr ()" "file_price provider model f = Some p"
  shows "0 < p_default_max p" and "\<not> p_free p \<Longrightarrow> 0 < p_input p \<and> 0 < p_output p"
proof -
  obtain name m pr where pr: "(provider, pr) \<in> set (f_providers f)" "(name, m) \<in> set (pp_models pr)"
    and p: "p = resolve_price provider name m f (pp_source pr)"
    using assms(2) by (auto simp: file_price_def split: option.splits dest!: map_of_SomeD find_SomeD)
  have "validate_model (f_version f) m = Inr ()"
    using assms(1) pr by (force simp: validate_file_def validate_provider_def first_error_ok split: if_splits)
  then show "0 < p_default_max p" and "\<not> p_free p \<Longrightarrow> 0 < p_input p \<and> 0 < p_output p"
    by (auto simp: p resolve_price_def Let_def validate_model_def split: if_splits)
qed

lemma lookup_validated:
  assumes "book_wf b" "lookup_known b provider model moment = Some p"
  shows "0 < p_default_max p" and "\<not> p_free p \<Longrightarrow> 0 < p_input p \<and> 0 < p_output p"
proof -
  obtain f where "f \<in> set (book_files b)" "file_price provider model f = Some p"
    using assms(2) unfolding lookup_known_files lookup_files_Some
    by (metis in_set_conv_decomp set_rev)
  moreover from this have "validate_file f = Inr ()"
    using assms(1) by (auto simp: book_wf_def list_all_iff)
  ultimately show "0 < p_default_max p" and "\<not> p_free p \<Longrightarrow> 0 < p_input p \<and> 0 < p_output p"
    using file_price_validated by blast+
qed

lemma reservation_tokens_pos: "book_wf b \<Longrightarrow> 0 < reservation_tokens n (fst (lookup_price b provider model moment))"
  by (auto simp: reservation_tokens_def default_fallback_def)

lemma rate_pos:
  assumes "0 < t" "t \<le> 10000000000000" "15000000000 \<le> p" "p \<le> 75000000000"
  shows "0 < rate t p" "rate t p \<le> 750000000000000001"
proof -
  have tp: "t * p \<le> 10000000000000 * 75000000000" "1 * 15000000000 \<le> t * p"
    using assms by (intro mult_mono; simp)+
  moreover have "t mod 1000000 * p \<le> 1000000 * 75000000000"
    using assms by (intro mult_mono) (simp_all add: less_imp_le)
  ultimately have "rate t p = exact_rate t p"
    using assms by (intro rate_exact) (auto simp: max_i64_def exact_rate_def)
  with tp show "0 < rate t p" "rate t p \<le> 750000000000000001"
    by (simp_all add: exact_rate_def pos_imp_zdiv_pos_iff)
qed

lemma rate_small:
  assumes "0 \<le> t" "t \<le> 10000000000000" "15000000000 \<le> p" "p \<le> 75000000000"
  shows "0 \<le> rate t p" "rate t p \<le> 750000000000000001" "rate t p = 0 \<longleftrightarrow> t = 0"
  using rate_pos [OF _ assms(2-4)] assms(1) by (cases "t = 0"; force simp: rate_def)+

lemma unknown_model_cost_pos:
  assumes "lookup_known b provider model moment = None" "b_fallback b = default_fallback"
    and u: "\<forall>n \<in> {tc_input u, tc_cached u, tc_write5m u, tc_write1h u, tc_output u}. 0 \<le> n \<and> n \<le> 10000000000000"
    and "\<exists>n \<in> {tc_input u, tc_cached u, tc_write5m u, tc_write1h u, tc_output u}. 0 < n"
  shows "0 < price_cost (fst (lookup_price b provider model moment)) u \<and> snd (lookup_price b provider model moment) = False
    \<and> p_estimated (fst (lookup_price b provider model moment))"
proof -
  let ?in = "\<lambda>n. rate n 15000000000" and ?out = "\<lambda>n. rate n 75000000000"
  have cost: "price_cost (fst (lookup_price b provider model moment)) u =
      i64 (i64 (i64 (i64 (?in (tc_input u) + ?in (tc_cached u)) + ?in (tc_write5m u)) + ?in (tc_write1h u)) + ?out (tc_output u))"
    using assms(1,2) by (simp add: lookup_price_def price_cost_def fallback_price_def default_fallback_def dollar_def)
  have r: "0 \<le> ?in n" "?in n \<le> 750000000000000001" "?in n = 0 \<longleftrightarrow> n = 0"
    "0 \<le> ?out n" "?out n \<le> 750000000000000001" "?out n = 0 \<longleftrightarrow> n = 0"
    if "n \<in> {tc_input u, tc_cached u, tc_write5m u, tc_write1h u, tc_output u}" for n
    using u that rate_small [of n 15000000000] rate_small [of n 75000000000] by auto
  have "price_cost (fst (lookup_price b provider model moment)) u =
      ?in (tc_input u) + ?in (tc_cached u) + ?in (tc_write5m u) + ?in (tc_write1h u) + ?out (tc_output u)"
    unfolding cost
    by (rule i64_sum5) (use r [of "tc_input u"] r [of "tc_cached u"] r [of "tc_write5m u"]
      r [of "tc_write1h u"] r [of "tc_output u"] in \<open>simp_all add: max_i64_def\<close>)
  moreover have "0 < ?in (tc_input u) + ?in (tc_cached u) + ?in (tc_write5m u) + ?in (tc_write1h u) + ?out (tc_output u)"
    by (rule sum5_pos) (use assms(4) r [of "tc_input u"] r [of "tc_cached u"] r [of "tc_write5m u"]
      r [of "tc_write1h u"] r [of "tc_output u"] in auto)
  ultimately show ?thesis using assms(1) by (simp add: lookup_price_def fallback_price_def)
qed

section \<open>Properties of the price book\<close>

text \<open>
  C40. \<open>Price.Cost\<close> is exact: while the true total and the products the code forms fit int64, the
  cost of a usage is the sum over its five dimensions of tokens times rate, each rounded half up to the
  nanodollar, with the long-context rates chosen for the whole request once its input reaches the threshold.
\<close>

theorem price_cost_exact:
  assumes "within_int64 p u"
  shows "price_cost p u = exact_cost p u"
  using assms by (rule price_cost_is_exact)

definition sample_price :: price where
  "sample_price = \<lparr>p_provider = ''openai'', p_model = ''m'', p_input = 2500000000, p_output = 10000000000,
     p_cached = 1250000000, p_write5m = 2500000000, p_write1h = 2500000000, p_long_threshold = 0,
     p_long_input = 0, p_long_cached = 0, p_long_write = 0, p_long_output = 0, p_free = False,
     p_default_max = 4096, p_effective = 1, p_verified = 1, p_source = ''s'', p_estimated = False\<rparr>"

theorem price_cost_exact_witness:
  "price_cost sample_price \<lparr>tc_input = 1000, tc_cached = 0, tc_write5m = 0, tc_write1h = 0, tc_output = 333\<rparr> = 5830000"
  by (subst price_cost_exact)
    (simp_all add: within_int64_def exact_cost_def charged_rates_def long_context_def sample_price_def exact_rate_def max_i64_def)

text \<open>
  Above the int64 range the product wraps silently: at 75 dollars per million tokens (the fallback
  output rate), 245956588000000 tokens are worth 18446744100 dollars, yet \<open>rate\<close> answers about 26 dollars,
  a positive amount. A request states its own token ceiling, so a reservation made from it can be held
  against a budget that could never pay for it.
\<close>

theorem rate_wraps:
  "exact_rate 245956588000000 (75 * dollar) = 18446744100000000000 \<and>
   rate 245956588000000 (75 * dollar) = 26290448384"
  by (simp add: exact_rate_def rate_def Let_def dollar_def tokens_per_unit_def go_div_def go_rem_def i64_def)

text \<open>
  A price found in a loaded book is the one in effect: its date is not after the moment asked for,
  no file in effect that prices the model (by identifier or alias) has a later date, it is never
  marked as an estimate, its reservation ceiling is positive and, unless the model is marked free, so
  are its base rates.
\<close>

theorem lookup_finds_price_in_effect:
  assumes "reload yaml sha dir now b0 = Inr b" "lookup_known b provider model moment = Some p"
  shows "p_effective p \<le> moment \<and> \<not> p_estimated p \<and> 0 < p_default_max p \<and>
    (p_free p \<or> 0 < p_input p \<and> 0 < p_output p) \<and>
    (\<forall>f \<in> set (book_files b). f_effective f \<le> moment \<and> file_price provider model f \<noteq> None \<longrightarrow>
       f_effective f \<le> p_effective p)"
  using newest_file [OF reload_wf [OF assms(1)] assms(2)] lookup_validated [OF reload_wf [OF assms(1)] assms(2)]
  by blast

text \<open>
  Dated price history is stable: if a reload changes only files that are not yet in effect at some
  moment (a scheduled change is a new file with a later date), then every lookup, every listing of
  models and the price-book revision for that moment are what they were.
\<close>

theorem future_files_do_not_change_history:
  assumes "reload yaml sha dir now b0 = Inr b" "reload yaml sha dir' now' b0' = Inr b'"
    and "read_dir yaml sha dir = Inr fs" "read_dir yaml sha dir' = Inr fs'"
    and "in_effect moment fs = in_effect moment fs'"
  shows "lookup_known b' provider model moment = lookup_known b provider model moment \<and>
    book_models b' provider moment = book_models b provider moment \<and>
    md_revision (metadata sha b' moment) = md_revision (metadata sha b moment)"
proof -
  have "book_files b = sort_by file_le fs" "book_files b' = sort_by file_le fs'"
    and sn: "b_snapshot b \<noteq> None" "b_snapshot b' \<noteq> None"
    using reload_files [OF assms(1)] reload_files [OF assms(2)] assms(3,4) by auto
  then have "in_effect moment (book_files b') = in_effect moment (book_files b)"
    using assms(5) by (simp add: in_effect_def file_order.filter_sort_by)
  then show ?thesis using same_in_effect [OF _ sn(2,1)] by blast
qed

text \<open>
  A model the book does not know never costs nothing: under the default fallback every usage with a
  positive quantity (up to ten trillion tokens per dimension) has a positive cost, and the price is marked
  as an estimate.
\<close>

theorem unknown_model_is_never_free:
  assumes "lookup_known b provider model moment = None" "b_fallback b = default_fallback"
    and "\<forall>n \<in> {tc_input u, tc_cached u, tc_write5m u, tc_write1h u, tc_output u}. 0 \<le> n \<and> n \<le> 10000000000000"
    and "\<exists>n \<in> {tc_input u, tc_cached u, tc_write5m u, tc_write1h u, tc_output u}. 0 < n"
  shows "0 < price_cost (fst (lookup_price b provider model moment)) u \<and>
    snd (lookup_price b provider model moment) = False \<and> p_estimated (fst (lookup_price b provider model moment))"
  using assms by (rule unknown_model_cost_pos)

definition empty_book :: book where
  "empty_book = \<lparr>b_snapshot = None, b_fallback = default_fallback, b_disable_fallback = False, b_warn = False, b_warned = []\<rparr>"

theorem unknown_model_is_never_free_witness:
  "0 < price_cost (fst (lookup_price empty_book ''openai'' ''x'' 7))
     \<lparr>tc_input = 1, tc_cached = 0, tc_write5m = 0, tc_write1h = 0, tc_output = 0\<rparr>"
  using unknown_model_is_never_free [of empty_book "''openai''" "''x''" 7
      "\<lparr>tc_input = 1, tc_cached = 0, tc_write5m = 0, tc_write1h = 0, tc_output = 0\<rparr>"]
  by (simp add: empty_book_def lookup_known_def)

text \<open>A directory with one file, read by a decoder that yields one document.\<close>

definition sample_file :: "instant \<Rightarrow> price_file" where
  "sample_file eff = \<lparr>f_version = 2, f_effective = eff, f_verified = 0,
     f_providers = [(''openai'', \<lparr>pp_source = ''s'',
       pp_models = [(''m'', \<lparr>m_input = 2500000000, m_output = 10000000000, m_cached = None, m_write5m = None,
         m_write1h = None, m_long_threshold = 0, m_long_input = None, m_long_cached = None, m_long_write = None,
         m_long_output = None, m_free = False, m_default_max = 4096, m_aliases = [''alias'']\<rparr>)]\<rparr>)],
     f_name = [], f_digest = []\<rparr>"

definition sample_yaml :: "string \<Rightarrow> price_file option" where
  "sample_yaml raw = Some (sample_file (int (length raw)))"

lemma sample_file_valid [simp]:
  "0 < eff \<Longrightarrow> validate_file ((sample_file eff)\<lparr>f_name := n, f_digest := d\<rparr>) = Inr ()"
proof -
  assume "0 < eff"
  moreover have "trim_space ''s'' = ''s''" by (rule trim_space_id) (simp add: space_byte_code go_spaces_def)
  ultimately show ?thesis
    by (simp add: validate_file_def sample_file_def supported_version_def time_is_zero_def validate_provider_def
        validate_model_def non_zero_rate_def)
qed

lemma sample_read:
  "read_dir sample_yaml sample_sha (Some [(''a.yaml'', False, Some ''xx'')]) =
     Inr [(sample_file 2)\<lparr>f_name := ''a.yaml'', f_digest := ''xxx''\<rparr>]"
  "read_dir sample_yaml sample_sha (Some [(''a.yaml'', False, Some ''xx''), (''b.yaml'', False, Some ''xxxxx'')]) =
     Inr [(sample_file 2)\<lparr>f_name := ''a.yaml'', f_digest := ''xxx''\<rparr>,
          (sample_file 5)\<lparr>f_name := ''b.yaml'', f_digest := ''xxxxxx''\<rparr>]"
  by (simp_all add: read_dir_def sample_yaml_def sample_sha_def Let_def has_suffix_def)

theorem lookup_finds_price_in_effect_witness:
  "\<exists>b p. reload sample_yaml sample_sha (Some [(''a.yaml'', False, Some ''xx'')]) 9 empty_book = Inr b \<and>
     lookup_known b ''openai'' ''alias'' 9 = Some p \<and> p_effective p \<le> 9"
proof -
  let ?b = "empty_book\<lparr>b_snapshot := Some \<lparr>sn_files = [(sample_file 2)\<lparr>f_name := ''a.yaml'', f_digest := ''xxx''\<rparr>],
    sn_loaded_at = 9\<rparr>, b_warned := []\<rparr>"
  have r: "reload sample_yaml sample_sha (Some [(''a.yaml'', False, Some ''xx'')]) 9 empty_book = Inr ?b"
    by (simp add: reload_def sample_read)
  obtain p where "lookup_known ?b ''openai'' ''alias'' 9 = Some p"
    by (simp add: lookup_known_def sample_file_def) (simp add: file_price_def)
  with r lookup_finds_price_in_effect [OF r this] show ?thesis by blast
qed

theorem future_files_do_not_change_history_witness:
  "\<exists>b b'. reload sample_yaml sample_sha (Some [(''a.yaml'', False, Some ''xx'')]) 9 empty_book = Inr b \<and>
     reload sample_yaml sample_sha (Some [(''a.yaml'', False, Some ''xx''), (''b.yaml'', False, Some ''xxxxx'')]) 9 empty_book = Inr b' \<and>
     lookup_known b' ''openai'' ''m'' 3 = lookup_known b ''openai'' ''m'' 3"
proof -
  let ?d = "Some [(''a.yaml'', False, Some ''xx'')]"
  let ?d' = "Some [(''a.yaml'', False, Some ''xx''), (''b.yaml'', False, Some ''xxxxx'')]"
  obtain b b' where r: "reload sample_yaml sample_sha ?d 9 empty_book = Inr b"
    "reload sample_yaml sample_sha ?d' 9 empty_book = Inr b'"
    by (simp add: reload_def sample_read)
  show ?thesis
    using future_files_do_not_change_history [OF r sample_read, of 3 "''openai''" "''m''"] r
    by (simp add: in_effect_def) (simp add: sample_file_def)
qed

end
