(* ===== verification/StoreTypes.thy ===== *)
theory StoreTypes
  imports Pricing
begin

text \<open>
  The vocabulary of the stores (\<open>internal/store/store.go\<close>, \<open>ids.go\<close>): records, statuses and errors,
  identifiers and secrets. A Go string type with named constants keeps a constructor for any other
  string, since nothing stops a caller from passing one. Random bytes are arguments.
\<close>

section \<open>Errors\<close>

text \<open>The sentinel a store error wraps; \<open>ErrInternal\<close> is an error that wraps none of them.\<close>

datatype store_error = ErrNotFound | ErrConflict | ErrImmutable | ErrInternal

type_synonym 'a store_result = "store_error + 'a"

section \<open>Statuses\<close>

datatype mode = ModeObserve | ModeEnforce | ModeOther string
datatype run_status = RunActive | RunClosed | RunStatusOther string
datatype reservation_status =
    ReservationPending | ReservationSettled | ReservationReleased | ReservationExpired
  | ReservationStatusOther string

definition mode_valid :: "mode \<Rightarrow> bool" where
  "mode_valid m \<longleftrightarrow> m = ModeObserve \<or> m = ModeEnforce"

definition run_status_valid :: "run_status \<Rightarrow> bool" where
  "run_status_valid s \<longleftrightarrow> s = RunActive \<or> s = RunClosed"

fun reservation_status_valid :: "reservation_status \<Rightarrow> bool" where
  "reservation_status_valid ReservationPending = True"
| "reservation_status_valid ReservationSettled = True"
| "reservation_status_valid ReservationReleased = True"
| "reservation_status_valid ReservationExpired = True"
| "reservation_status_valid (ReservationStatusOther _) = False"

section \<open>Records\<close>

record principal =
  pr_id :: string
  pr_name :: string
  pr_key_hash :: string
  pr_mode :: mode
  pr_created :: instant

text \<open>A run without a parent has the empty parent identifier, stored as NULL.\<close>

record run =
  run_id :: string
  run_principal :: string
  run_parent :: string
  run_budget :: nanos
  run_status :: run_status
  run_created :: instant
  run_closed :: "instant option"

definition is_root :: "run \<Rightarrow> bool" where
  "is_root r \<longleftrightarrow> run_parent r = []"

record lease =
  ls_id :: string
  ls_run :: string
  ls_token_hash :: string
  ls_providers :: "string list"
  ls_ceiling :: nanos
  ls_expires :: instant
  ls_revoked :: "instant option"
  ls_created :: instant

definition lease_active :: "lease \<Rightarrow> instant \<Rightarrow> bool" where
  "lease_active l now \<longleftrightarrow> ls_revoked l = None \<and> now < ls_expires l"

definition allows_provider :: "lease \<Rightarrow> string \<Rightarrow> bool" where
  "allows_provider l name \<longleftrightarrow> ls_providers l = [] \<or> name \<in> set (ls_providers l)"

record reservation =
  rv_id :: string
  rv_run :: string
  rv_lease :: string
  rv_amount :: nanos
  rv_status :: reservation_status
  rv_expires :: instant
  rv_created :: instant
  rv_resolved :: "instant option"

record budget_decision =
  bd_allowed :: bool
  bd_would_block :: bool
  bd_run :: string
  bd_budget :: nanos
  bd_spent :: nanos
  bd_held :: nanos
  bd_requested :: nanos
  bd_remaining :: nanos
  bd_shortfall :: nanos

record budget_level =
  bl_run :: string
  bl_status :: run_status
  bl_budget :: nanos
  bl_spent :: nanos
  bl_held :: nanos
  bl_remaining :: nanos
  bl_unlimited :: bool

record run_budget_status =
  bs_run :: string
  bs_status :: run_status
  bs_allowed :: bool
  bs_blocking :: string
  bs_unlimited :: bool
  bs_remaining :: nanos
  bs_limiting :: string
  bs_levels :: "budget_level list"

record budget_event =
  be_principal :: string
  be_run :: string
  be_lease :: string
  be_provider :: string
  be_model :: string
  be_enforced :: bool
  be_requested :: nanos
  be_remaining :: nanos
  be_shortfall :: nanos
  be_created :: instant

record ledger_filter =
  lf_run :: string
  lf_principal :: string
  lf_since :: instant
  lf_limit :: int

section \<open>Identifiers and secrets\<close>

definition principal_prefix :: string where "principal_prefix = ''prn_''"
definition run_prefix :: string where "run_prefix = ''run_''"
definition lease_prefix :: string where "lease_prefix = ''lse_''"
definition reservation_prefix :: string where "reservation_prefix = ''rsv_''"
definition principal_key_prefix :: string where "principal_key_prefix = ''slk_''"
definition lease_token_prefix :: string where "lease_token_prefix = ''sll_''"

text \<open>
  Base 32 without padding over the lower-case alphabet: the bits of the bytes, most significant first, in
  groups of five, the last group filled with zero bits.
\<close>

definition base32_alphabet :: string where
  "base32_alphabet = ''abcdefghijklmnopqrstuvwxyz234567''"

definition byte_bits :: "nat \<Rightarrow> bool list" where
  "byte_bits b = map (\<lambda>i. odd (b div 2 ^ i)) [7, 6, 5, 4, 3, 2, 1, 0]"

definition bits_val :: "bool list \<Rightarrow> nat" where
  "bits_val bs = foldl (\<lambda>n b. 2 * n + (if b then 1 else 0)) 0 bs"

function quintets :: "bool list \<Rightarrow> nat list" where
  "quintets bs =
     (if bs = [] then []
      else bits_val (take 5 bs @ replicate (5 - length bs) False) # quintets (drop 5 bs))"
  by pat_completeness auto
termination by (relation "measure length") auto

declare quintets.simps [simp del]

definition base32 :: "nat list \<Rightarrow> string" where
  "base32 bytes = map (\<lambda>q. base32_alphabet ! q) (quintets (concat (map byte_bits bytes)))"

text \<open>\<open>NewID\<close> with sixteen and \<open>NewSecret\<close> with thirty-two random bytes.\<close>

definition new_id :: "string \<Rightarrow> nat list \<Rightarrow> string" where
  "new_id prefix bytes = prefix @ base32 (take 16 bytes)"

definition hash_secret :: "(string \<Rightarrow> string) \<Rightarrow> string \<Rightarrow> string" where
  "hash_secret sha plaintext = sha plaintext"

definition new_secret :: "(string \<Rightarrow> string) \<Rightarrow> string \<Rightarrow> nat list \<Rightarrow> string \<times> string" where
  "new_secret sha prefix bytes =
     (let plaintext = prefix @ base32 (take 32 bytes) in (plaintext, hash_secret sha plaintext))"

definition new_principal_key :: "(string \<Rightarrow> string) \<Rightarrow> nat list \<Rightarrow> string \<times> string" where
  "new_principal_key sha bytes = new_secret sha principal_key_prefix bytes"

definition new_lease_token :: "(string \<Rightarrow> string) \<Rightarrow> nat list \<Rightarrow> string \<times> string" where
  "new_lease_token sha bytes = new_secret sha lease_token_prefix bytes"

definition secret_matches :: "(string \<Rightarrow> string) \<Rightarrow> string \<Rightarrow> string \<Rightarrow> bool" where
  "secret_matches sha plaintext stored_hash \<longleftrightarrow> hash_secret sha plaintext = stored_hash"

definition looks_like_principal_key :: "string \<Rightarrow> bool" where
  "looks_like_principal_key s = has_prefix s principal_key_prefix"

definition looks_like_lease_token :: "string \<Rightarrow> bool" where
  "looks_like_lease_token s = has_prefix s lease_token_prefix"

text \<open>A secret of one kind is never taken for the other: the prefixes differ in their third byte.\<close>

lemma key_not_token: "\<not> (looks_like_principal_key s \<and> looks_like_lease_token s)"
  by (auto simp: looks_like_principal_key_def looks_like_lease_token_def has_prefix_iff
      principal_key_prefix_def lease_token_prefix_def)

lemma new_secret_kind:
  "looks_like_principal_key (fst (new_principal_key sha bytes))"
  "looks_like_lease_token (fst (new_lease_token sha bytes))"
  "secret_matches sha (fst (new_secret sha prefix bytes)) (snd (new_secret sha prefix bytes))"
  by (simp_all add: new_principal_key_def new_lease_token_def new_secret_def Let_def secret_matches_def
      looks_like_principal_key_def looks_like_lease_token_def)

section \<open>Provider scopes in one column\<close>

definition encode_providers :: "string list \<Rightarrow> string" where
  "encode_providers ps = join CHR '','' ps"

definition decode_providers :: "string \<Rightarrow> string list" where
  "decode_providers s = (if s = [] then [] else split_at CHR '','' s)"

text \<open>
  A scope survives the column when its names have no comma and it is not the single empty name.
\<close>

lemma decode_encode_providers:
  assumes "\<forall>p \<in> set ps. CHR '','' \<notin> set p" "ps \<noteq> [[]]"
  shows "decode_providers (encode_providers ps) = ps"
proof (cases "ps = []")
  case True
  then show ?thesis by (simp add: encode_providers_def decode_providers_def)
next
  case False
  have "join CHR '','' ps \<noteq> []"
    using False assms(2) by (cases "(CHR '','', ps)" rule: join.cases) auto
  then show ?thesis
    using split_join [OF False assms(1)] by (simp add: encode_providers_def decode_providers_def)
qed

end
