(* ===== verification/Db.thy ===== *)
theory Db
  imports StoreTypes
begin

text \<open>
  The database (\<open>internal/store/sqlite/migrations\<close>): its tables as lists of rows in insertion order, the
  constraints an INSERT checks, the text comparisons of the timestamp columns, and the run hierarchy
  with its two recursive queries. An operation is a function from a database to an error or a
  result with the new database; an error leaves the database as it was, which is the transaction's rollback.
\<close>

record settlement =
  st_reservation :: string
  st_seq :: int
  st_created :: instant

record db =
  d_principals :: "principal list"
  d_runs :: "run list"
  d_leases :: "lease list"
  d_reservations :: "reservation list"
  d_ledger :: "entry list"
  d_settlements :: "settlement list"
  d_events :: "budget_event list"

definition empty_db :: db where
  "empty_db = \<lparr>d_principals = [], d_runs = [], d_leases = [], d_reservations = [], d_ledger = [],
     d_settlements = [], d_events = []\<rparr>"

text \<open>What the comparisons of the stored timestamps compare.\<close>

definition time_le :: "instant \<Rightarrow> instant \<Rightarrow> bool" where
  "time_le a b \<longleftrightarrow> format_time a \<le> format_time b"

definition time_less :: "instant \<Rightarrow> instant \<Rightarrow> bool" where
  "time_less a b \<longleftrightarrow> format_time a < format_time b"

text \<open>\<open>requireAffected\<close>, and SQL's integer sum, which fails above the int64 range.\<close>

definition require_affected :: "nat \<Rightarrow> store_error + unit" where
  "require_affected n = (if n = 0 then Inl ErrNotFound else Inr ())"

definition sql_sum :: "int list \<Rightarrow> store_error + int" where
  "sql_sum xs = (if in_i64 (sum_list xs) then Inr (sum_list xs) else Inl ErrInternal)"

text \<open>
  \<open>wrap\<close>: the sentinel an error of the driver stands for, read off its message. The constraint checks of
  the \<open>insert_\<close> operations below answer with these sentinels.
\<close>

definition wrap :: "bool \<Rightarrow> string \<Rightarrow> store_error" where
  "wrap no_rows msg =
     (if no_rows then ErrNotFound
      else if contains_text msg ''append-only'' then ErrImmutable
      else if contains_text msg ''UNIQUE constraint failed'' \<or> contains_text msg ''PRIMARY KEY constraint failed'' \<or>
        contains_text msg ''duplicate key value violates unique constraint'' then ErrConflict
      else if contains_text msg ''FOREIGN KEY constraint failed'' \<or> contains_text msg ''violates foreign key constraint''
      then ErrNotFound
      else if contains_text msg ''CHECK constraint failed'' \<or> contains_text msg ''violates check constraint''
      then ErrConflict
      else ErrInternal)"

section \<open>Rows by key\<close>

definition find_principal :: "db \<Rightarrow> string \<Rightarrow> principal option" where
  "find_principal d i = find (\<lambda>p. pr_id p = i) (d_principals d)"

definition find_run :: "run list \<Rightarrow> string \<Rightarrow> run option" where
  "find_run runs i = find (\<lambda>r. run_id r = i) runs"

definition find_lease :: "db \<Rightarrow> string \<Rightarrow> lease option" where
  "find_lease d i = find (\<lambda>l. ls_id l = i) (d_leases d)"

definition find_reservation :: "db \<Rightarrow> string \<Rightarrow> reservation option" where
  "find_reservation d i = find (\<lambda>r. rv_id r = i) (d_reservations d)"

section \<open>Insertion with its constraints\<close>

text \<open>
  Each INSERT: a failed CHECK and a duplicate key become \<open>ErrConflict\<close>, then a missing referenced row
  becomes \<open>ErrNotFound\<close>, as \<open>wrap\<close> maps them.
\<close>

definition insert_principal :: "principal \<Rightarrow> db \<Rightarrow> store_error + db" where
  "insert_principal p d =
     (if \<not> mode_valid (pr_mode p) then Inl ErrConflict
      else if \<exists>q \<in> set (d_principals d). pr_id q = pr_id p \<or> pr_name q = pr_name p \<or> pr_key_hash q = pr_key_hash p
      then Inl ErrConflict
      else Inr (d\<lparr>d_principals := d_principals d @ [p]\<rparr>))"

definition run_checks :: "run \<Rightarrow> bool" where
  "run_checks r \<longleftrightarrow>
     0 \<le> run_budget r \<and> run_status_valid (run_status r) \<and> (run_parent r = [] \<or> run_parent r \<noteq> run_id r) \<and>
     (run_status r = RunClosed \<longleftrightarrow> run_closed r \<noteq> None)"

definition insert_run :: "run \<Rightarrow> db \<Rightarrow> store_error + db" where
  "insert_run r d =
     (if \<not> run_checks r then Inl ErrConflict
      else if \<exists>q \<in> set (d_runs d). run_id q = run_id r then Inl ErrConflict
      else if find_principal d (run_principal r) = None then Inl ErrNotFound
      else if run_parent r \<noteq> [] \<and> find_run (d_runs d) (run_parent r) = None then Inl ErrNotFound
      else Inr (d\<lparr>d_runs := d_runs d @ [r]\<rparr>))"

definition insert_lease :: "lease \<Rightarrow> db \<Rightarrow> store_error + db" where
  "insert_lease l d =
     (if ls_ceiling l < 0 then Inl ErrConflict
      else if \<exists>q \<in> set (d_leases d). ls_id q = ls_id l \<or> ls_token_hash q = ls_token_hash l then Inl ErrConflict
      else if find_run (d_runs d) (ls_run l) = None then Inl ErrNotFound
      else Inr (d\<lparr>d_leases := d_leases d @ [l\<lparr>ls_providers := decode_providers (encode_providers (ls_providers l))\<rparr>]\<rparr>))"

definition insert_reservation :: "reservation \<Rightarrow> db \<Rightarrow> store_error + db" where
  "insert_reservation r d =
     (if rv_amount r < 0 \<or> \<not> reservation_status_valid (rv_status r) \<or>
         \<not> (rv_status r = ReservationPending \<longleftrightarrow> rv_resolved r = None) then Inl ErrConflict
      else if \<exists>q \<in> set (d_reservations d). rv_id q = rv_id r then Inl ErrConflict
      else if find_run (d_runs d) (rv_run r) = None then Inl ErrNotFound
      else if rv_lease r \<noteq> [] \<and> find_lease d (rv_lease r) = None then Inl ErrNotFound
      else Inr (d\<lparr>d_reservations := d_reservations d @ [r]\<rparr>))"

definition insert_entry :: "entry \<Rightarrow> db \<Rightarrow> store_error + db" where
  "insert_entry e d =
     (if e_input e < 0 \<or> e_output e < 0 \<or> e_cost e < 0 \<or> e_version e \<notin> {1, 2} then Inl ErrConflict
      else if \<exists>f \<in> set (d_ledger d). e_seq f = e_seq e \<or> e_hash f = e_hash e then Inl ErrConflict
      else if find_run (d_runs d) (e_run e) = None then Inl ErrNotFound
      else if find_principal d (e_principal e) = None then Inl ErrNotFound
      else Inr (d\<lparr>d_ledger := d_ledger d @ [e]\<rparr>))"

definition insert_settlement :: "settlement \<Rightarrow> db \<Rightarrow> store_error + db" where
  "insert_settlement s d =
     (if \<exists>t \<in> set (d_settlements d). st_reservation t = st_reservation s \<or> st_seq t = st_seq s then Inl ErrConflict
      else if find_reservation d (st_reservation s) = None then Inl ErrNotFound
      else if find (\<lambda>e. e_seq e = st_seq s) (d_ledger d) = None then Inl ErrNotFound
      else Inr (d\<lparr>d_settlements := d_settlements d @ [s]\<rparr>))"

section \<open>The run hierarchy\<close>

text \<open>
  The recursive query over the ancestors of a run, the run itself first. It recurses once per row of the
  chain; fuel that runs out is a query that does not end, which needs a cycle of parents.
\<close>

fun ancestors_from :: "nat \<Rightarrow> run list \<Rightarrow> string \<Rightarrow> run list option" where
  "ancestors_from 0 runs i = None"
| "ancestors_from (Suc n) runs i =
     (case find_run runs i of
        None \<Rightarrow> Some []
      | Some r \<Rightarrow>
          if run_parent r = [] then Some [r]
          else map_option ((#) r) (ancestors_from n runs (run_parent r)))"

definition ancestors :: "run list \<Rightarrow> string \<Rightarrow> run list option" where
  "ancestors runs i = ancestors_from (Suc (length runs)) runs i"

text \<open>The recursive query over a run's subtree: one round per level of the frontier.\<close>

definition children_of :: "run list \<Rightarrow> string list \<Rightarrow> string list" where
  "children_of runs ps = concat (map (\<lambda>p. map run_id (filter (\<lambda>r. run_parent r \<noteq> [] \<and> run_parent r = p) runs)) ps)"

fun subtree_from :: "nat \<Rightarrow> run list \<Rightarrow> string list \<Rightarrow> string list option" where
  "subtree_from 0 runs frontier = (if frontier = [] then Some [] else None)"
| "subtree_from (Suc n) runs frontier =
     (if frontier = [] then Some []
      else map_option ((@) frontier) (subtree_from n runs (children_of runs frontier)))"

definition subtree :: "run list \<Rightarrow> string \<Rightarrow> string list option" where
  "subtree runs i = subtree_from (Suc (length runs)) runs (if find_run runs i = None then [] else [i])"

text \<open>Every run's parent was inserted before it, and identifiers are unique: what the inserts maintain.\<close>

fun parents_first :: "string set \<Rightarrow> run list \<Rightarrow> bool" where
  "parents_first seen [] = True"
| "parents_first seen (r # rs) =
     (run_id r \<notin> seen \<and> (run_parent r = [] \<or> run_parent r \<in> seen) \<and> parents_first (insert (run_id r) seen) rs)"

definition runs_wf :: "run list \<Rightarrow> bool" where
  "runs_wf runs \<longleftrightarrow> parents_first {} runs"

lemma parents_first_append:
  "parents_first seen (xs @ ys) \<longleftrightarrow> parents_first seen xs \<and> parents_first (seen \<union> run_id ` set xs) ys"
  by (induction xs arbitrary: seen) auto

lemma parents_first_distinct: "parents_first seen runs \<Longrightarrow> distinct (map run_id runs) \<and> run_id ` set runs \<inter> seen = {}"
  by (induction seen runs rule: parents_first.induct) auto

lemma runs_wf_distinct: "runs_wf runs \<Longrightarrow> distinct (map run_id runs)"
  using parents_first_distinct by (simp add: runs_wf_def)

lemma find_run_in: "runs_wf runs \<Longrightarrow> find_run runs i = Some r \<longleftrightarrow> r \<in> set runs \<and> run_id r = i"
  using find_distinct_key [OF runs_wf_distinct, of runs r] find_SomeD [of "\<lambda>r. run_id r = i" runs r]
  by (auto simp: find_run_def)

lemma find_run_None: "find_run runs i = None \<longleftrightarrow> i \<notin> run_id ` set runs"
  by (auto simp: find_run_def find_None_iff_ball)

lemma find_run_SomeD: "find_run runs i = Some r \<Longrightarrow> r \<in> set runs \<and> run_id r = i"
  using find_SomeD [of "\<lambda>r. run_id r = i"] by (simp add: find_run_def)

lemma find_run_Some_id: "find_run runs i = Some r \<Longrightarrow> i \<in> run_id ` set runs"
  using find_run_SomeD by force

text \<open>The parent relation, and the depth that bounds both recursions.\<close>

definition parent_rel :: "run list \<Rightarrow> (string \<times> string) set" where
  "parent_rel runs = {(run_id r, run_parent r) | r. r \<in> set runs \<and> run_parent r \<noteq> []}"

lemma in_parent_rel: "(c, p) \<in> parent_rel runs \<longleftrightarrow> (\<exists>r \<in> set runs. run_id r = c \<and> run_parent r = p \<and> p \<noteq> [])"
  by (auto simp: parent_rel_def)

definition rank :: "run list \<Rightarrow> string \<Rightarrow> nat" where
  "rank runs i = length (takeWhile (\<lambda>r. run_id r \<noteq> i) runs)"

lemma rank_less: "i \<in> run_id ` set runs \<longleftrightarrow> rank runs i < length runs"
  by (induction runs) (auto simp: rank_def)

lemma rank_split: "i \<notin> run_id ` set xs \<Longrightarrow> run_id r = i \<Longrightarrow> rank (xs @ r # ys) i = length xs"
  by (induction xs) (auto simp: rank_def)

lemma rank_append_less: "i \<in> run_id ` set xs \<Longrightarrow> rank (xs @ ys) i < length xs"
  by (induction xs) (auto simp: rank_def)

lemma parent_rank:
  assumes "runs_wf runs" "(c, p) \<in> parent_rel runs"
  shows "rank runs p < rank runs c" and "p \<in> run_id ` set runs" and "c \<in> run_id ` set runs"
proof -
  obtain r where r: "r \<in> set runs" "run_id r = c" "run_parent r = p" "p \<noteq> []"
    using assms(2) by (auto simp: in_parent_rel)
  then obtain xs ys where runs: "runs = xs @ r # ys" by (meson split_list)
  have "p \<in> run_id ` set xs" "c \<notin> run_id ` set xs"
    using assms(1) r by (auto simp: runs_wf_def runs parents_first_append)
  then show "rank runs p < rank runs c"
    using rank_split [of c xs r ys] rank_append_less [of p xs "r # ys"] r by (simp add: runs)
  show "p \<in> run_id ` set runs" "c \<in> run_id ` set runs"
    using \<open>p \<in> run_id ` set xs\<close> r by (auto simp: runs)
qed

lemma ancestors_from_total:
  "runs_wf runs \<Longrightarrow> (i \<in> run_id ` set runs \<longrightarrow> rank runs i < n) \<Longrightarrow> 0 < n \<Longrightarrow> \<exists>as. ancestors_from n runs i = Some as"
proof (induction n arbitrary: i)
  case (Suc n)
  show ?case
  proof (cases "find_run runs i")
    case (Some r)
    then have r: "r \<in> set runs" "run_id r = i" using Suc.prems(1) by (auto simp: find_run_in)
    show ?thesis
    proof (cases "run_parent r = []")
      case False
      then have "(i, run_parent r) \<in> parent_rel runs" using r by (auto simp: in_parent_rel)
      note up = parent_rank [OF Suc.prems(1) this]
      have "rank runs i < Suc n" using Suc.prems(2) up(3) by simp
      then have "rank runs (run_parent r) < n" "0 < n" using up(1) by auto
      then obtain as where "ancestors_from n runs (run_parent r) = Some as"
        using Suc.IH [OF Suc.prems(1)] by blast
      then show ?thesis using Some False by simp
    qed (simp add: Some)
  qed simp
qed simp

lemma ancestors_total: "runs_wf runs \<Longrightarrow> \<exists>as. ancestors runs i = Some as"
  unfolding ancestors_def by (rule ancestors_from_total) (auto simp: rank_less less_Suc_eq)

lemma rtrancl_first_step: "(x, f) \<in> R\<^sup>* \<longleftrightarrow> x = f \<or> (\<exists>c. (x, c) \<in> R \<and> (c, f) \<in> R\<^sup>*)"
  by (blast elim: converse_rtranclE intro: converse_rtrancl_into_rtrancl)

lemma ancestors_from_set:
  "runs_wf runs \<Longrightarrow> ancestors_from n runs i = Some as \<Longrightarrow> i \<in> run_id ` set runs \<Longrightarrow>
   run_id ` set as = {y. (i, y) \<in> (parent_rel runs)\<^sup>*} \<and> set as \<subseteq> set runs"
proof (induction n arbitrary: i as)
  case (Suc n)
  obtain r where r: "find_run runs i = Some r" "r \<in> set runs" "run_id r = i"
    using Suc.prems(1,3) by (metis find_run_None find_run_in not_Some_eq)
  have only: "(i, y) \<in> parent_rel runs \<longleftrightarrow> y = run_parent r \<and> y \<noteq> []" for y
  proof -
    have "q = r" if "q \<in> set runs" "run_id q = i" for q
      using that r(1) find_run_in [OF Suc.prems(1), of i q] by simp
    then show ?thesis using r unfolding in_parent_rel by blast
  qed
  show ?case
  proof (cases "run_parent r = []")
    case True
    then have "(i, c) \<notin> parent_rel runs" for c using only [of c] by simp
    then have "(i, y) \<in> (parent_rel runs)\<^sup>* \<longleftrightarrow> y = i" for y
      using rtrancl_first_step [of i y "parent_rel runs"] by auto
    then have "{y. (i, y) \<in> (parent_rel runs)\<^sup>*} = {i}" by simp
    moreover have "as = [r]" using Suc.prems(2) r(1) True by simp
    ultimately show ?thesis using r(2,3) by simp
  next
    case False
    then obtain bs where bs: "ancestors_from n runs (run_parent r) = Some bs" "as = r # bs"
      using Suc.prems(2) r by auto
    have "(i, run_parent r) \<in> parent_rel runs" using only False by simp
    then have "run_parent r \<in> run_id ` set runs" by (rule parent_rank(2) [OF Suc.prems(1)])
    note ih = Suc.IH [OF Suc.prems(1) bs(1) this]
    have "(i, y) \<in> (parent_rel runs)\<^sup>* \<longleftrightarrow> y = i \<or> (run_parent r, y) \<in> (parent_rel runs)\<^sup>*" for y
    proof -
      have "(i, c) \<in> parent_rel runs \<longleftrightarrow> c = run_parent r" for c using only [of c] False by auto
      then show ?thesis using rtrancl_first_step [of i y "parent_rel runs"] by auto
    qed
    then have "{y. (i, y) \<in> (parent_rel runs)\<^sup>*} = insert i {y. (run_parent r, y) \<in> (parent_rel runs)\<^sup>*}"
      by blast
    then show ?thesis using ih bs(2) r(2,3) by simp
  qed
qed simp

lemma ancestors_set:
  assumes "runs_wf runs" "ancestors runs i = Some as" "i \<in> run_id ` set runs"
  shows "y \<in> run_id ` set as \<longleftrightarrow> (i, y) \<in> (parent_rel runs)\<^sup>*" and "set as \<subseteq> set runs"
  using ancestors_from_set [OF assms(1) _ assms(3)] assms(2) unfolding ancestors_def by blast+

lemma in_children_of: "c \<in> set (children_of runs ps) \<longleftrightarrow> (\<exists>p \<in> set ps. (c, p) \<in> parent_rel runs)"
  by (auto simp: children_of_def in_parent_rel)

lemma subtree_from_total:
  "runs_wf runs \<Longrightarrow> \<forall>f \<in> set fr. f \<in> run_id ` set runs \<and> length runs \<le> n + rank runs f \<Longrightarrow>
   \<exists>xs. subtree_from n runs fr = Some xs"
proof (induction n arbitrary: fr)
  case 0
  then have "fr = []" using rank_less [of _ runs] by (cases fr) auto
  then show ?case by simp
next
  case (Suc n)
  have "\<forall>c \<in> set (children_of runs fr). c \<in> run_id ` set runs \<and> length runs \<le> n + rank runs c"
    using parent_rank [OF Suc.prems(1)] Suc.prems(2) by (fastforce simp: in_children_of)
  then obtain xs where "subtree_from n runs (children_of runs fr) = Some xs"
    using Suc.IH [OF Suc.prems(1)] by blast
  then show ?case by simp
qed

lemma subtree_total: "runs_wf runs \<Longrightarrow> \<exists>xs. subtree runs i = Some xs"
  unfolding subtree_def by (rule subtree_from_total) (auto simp: find_run_None)

lemma subtree_from_set:
  "subtree_from n runs fr = Some xs \<Longrightarrow> x \<in> set xs \<longleftrightarrow> (\<exists>f \<in> set fr. (x, f) \<in> (parent_rel runs)\<^sup>*)"
proof (induction n arbitrary: fr xs)
  case 0
  then show ?case by (auto split: if_splits)
next
  case (Suc n)
  show ?case
  proof (cases "fr = []")
    case False
    then obtain ys where ys: "subtree_from n runs (children_of runs fr) = Some ys" "xs = fr @ ys"
      using Suc.prems by auto
    let ?R = "parent_rel runs"
    have "x \<in> set xs \<longleftrightarrow> x \<in> set fr \<or> (\<exists>c \<in> set (children_of runs fr). (x, c) \<in> ?R\<^sup>*)"
      using Suc.IH [OF ys(1)] by (simp add: ys(2))
    also have "\<dots> \<longleftrightarrow> x \<in> set fr \<or> (\<exists>f \<in> set fr. \<exists>c. (x, c) \<in> ?R\<^sup>* \<and> (c, f) \<in> ?R)"
      unfolding Bex_def in_children_of by blast
    also have "\<dots> \<longleftrightarrow> (\<exists>f \<in> set fr. (x, f) \<in> ?R\<^sup>*)" (is "?l \<longleftrightarrow> ?r")
    proof
      show ?r if ?l using that by (blast intro: rtrancl_into_rtrancl)
      show ?l if ?r
      proof -
        from that obtain f where f: "f \<in> set fr" "(x, f) \<in> ?R\<^sup>*" by blast
        from f(2) show ?thesis by (cases rule: rtranclE) (use f(1) in blast)+
      qed
    qed
    finally show ?thesis .
  qed (use Suc.prems in auto)
qed

text \<open>The two recursive queries agree: a run is in a subtree iff the subtree's root is among its ancestors.\<close>

lemma subtree_set:
  assumes "subtree runs n = Some xs" "n \<in> run_id ` set runs"
  shows "x \<in> set xs \<longleftrightarrow> (x, n) \<in> (parent_rel runs)\<^sup>*"
  using subtree_from_set [OF assms(1) [unfolded subtree_def], of x] assms(2)
  by (auto simp: find_run_None split: if_splits)

lemma subtree_none: "n \<notin> run_id ` set runs \<Longrightarrow> subtree runs n = Some []"
  by (simp add: subtree_def find_run_None [THEN iffD2])

lemma in_subtree_iff_ancestor:
  assumes "runs_wf runs" "subtree runs n = Some xs" "ancestors runs x = Some as"
    and "x \<in> run_id ` set runs" "n \<in> run_id ` set runs"
  shows "x \<in> set xs \<longleftrightarrow> n \<in> run_id ` set as"
  using subtree_set [OF assms(2,5)] ancestors_set(1) [OF assms(1,3,4)] by simp

end
