(* ===== verification/Entities.thy ===== *)
theory Entities
  imports Db
begin

text \<open>
  Principals, runs and leases in the SQL store (\<open>internal/store/sqlite/sqlite.go\<close>). An operation takes
  the database and answers an error or the new database; a query answers a result. The clock read by
  \<open>time.Now()\<close> is the argument \<open>now\<close>.
\<close>

section \<open>Principals\<close>

definition create_principal :: "principal \<Rightarrow> db \<Rightarrow> store_error + db" where
  "create_principal p d =
     (if \<not> mode_valid (pr_mode p) then Inl ErrConflict else insert_principal p d)"

text \<open>An onboarding: the three rows of a new agent in one transaction.\<close>

definition create_principal_run_lease :: "principal \<Rightarrow> run \<Rightarrow> lease \<Rightarrow> db \<Rightarrow> store_error + db" where
  "create_principal_run_lease p r l d =
     (if \<not> mode_valid (pr_mode p) then Inl ErrConflict
      else if \<not> run_status_valid (run_status r) \<or> run_status r \<noteq> RunActive then Inl ErrConflict
      else if run_principal r \<noteq> pr_id p \<or> run_parent r \<noteq> [] \<or> ls_run l \<noteq> run_id r then Inl ErrConflict
      else (case insert_principal p d of
          Inl e \<Rightarrow> Inl e
        | Inr d1 \<Rightarrow>
            (case insert_run r d1 of
               Inl e \<Rightarrow> Inl e
             | Inr d2 \<Rightarrow> insert_lease l d2)))"

definition get_principal :: "db \<Rightarrow> string \<Rightarrow> store_error + principal" where
  "get_principal d i = (case find_principal d i of None \<Rightarrow> Inl ErrNotFound | Some p \<Rightarrow> Inr p)"

definition get_principal_by_key_hash :: "db \<Rightarrow> string \<Rightarrow> store_error + principal" where
  "get_principal_by_key_hash d h =
     (case find (\<lambda>p. pr_key_hash p = h) (d_principals d) of None \<Rightarrow> Inl ErrNotFound | Some p \<Rightarrow> Inr p)"

text \<open>\<open>ORDER BY created_at, id\<close> and \<open>ORDER BY created_at DESC, id\<close>, on the stored text.\<close>

definition oldest_first :: "('a \<Rightarrow> instant) \<Rightarrow> ('a \<Rightarrow> string) \<Rightarrow> 'a \<Rightarrow> 'a \<Rightarrow> bool" where
  "oldest_first created key x y \<longleftrightarrow>
     format_time (created x) < format_time (created y) \<or>
     format_time (created x) = format_time (created y) \<and> key x \<le> key y"

definition newest_first :: "('a \<Rightarrow> instant) \<Rightarrow> ('a \<Rightarrow> string) \<Rightarrow> 'a \<Rightarrow> 'a \<Rightarrow> bool" where
  "newest_first created key x y \<longleftrightarrow>
     format_time (created y) < format_time (created x) \<or>
     format_time (created x) = format_time (created y) \<and> key x \<le> key y"

interpretation oldest: comparison "oldest_first created key"
  by unfold_locales (auto simp: oldest_first_def)

interpretation newest: comparison "newest_first created key"
  by unfold_locales (auto simp: newest_first_def)

definition list_principals :: "db \<Rightarrow> principal list" where
  "list_principals d = sort_by (oldest_first pr_created pr_id) (d_principals d)"

definition set_principal_mode :: "string \<Rightarrow> mode \<Rightarrow> db \<Rightarrow> store_error + db" where
  "set_principal_mode i m d =
     (if \<not> mode_valid m then Inl ErrConflict
      else (case require_affected (length (filter (\<lambda>p. pr_id p = i) (d_principals d))) of
          Inl e \<Rightarrow> Inl e
        | Inr _ \<Rightarrow> Inr (d\<lparr>d_principals := map (\<lambda>p. if pr_id p = i then p\<lparr>pr_mode := m\<rparr> else p) (d_principals d)\<rparr>)))"

section \<open>Runs\<close>

definition create_run :: "run \<Rightarrow> db \<Rightarrow> store_error + db" where
  "create_run r d =
     (if \<not> run_status_valid (run_status r) then Inl ErrConflict
      else if run_parent r = [] then insert_run r d
      else (case find_run (d_runs d) (run_parent r) of
          None \<Rightarrow> Inl ErrNotFound
        | Some parent \<Rightarrow>
            if run_principal parent = run_principal r \<and> run_status parent = RunActive then insert_run r d
            else Inl ErrConflict))"

definition get_run :: "db \<Rightarrow> string \<Rightarrow> store_error + run" where
  "get_run d i = (case find_run (d_runs d) i of None \<Rightarrow> Inl ErrNotFound | Some r \<Rightarrow> Inr r)"

definition list_runs_by_principal :: "db \<Rightarrow> string \<Rightarrow> run list" where
  "list_runs_by_principal d p =
     sort_by (newest_first run_created run_id) (filter (\<lambda>r. run_principal r = p) (d_runs d))"

definition child_runs :: "db \<Rightarrow> string \<Rightarrow> run list" where
  "child_runs d i =
     sort_by (oldest_first run_created run_id) (filter (\<lambda>r. run_parent r \<noteq> [] \<and> run_parent r = i) (d_runs d))"

definition close_row :: "instant \<Rightarrow> string \<Rightarrow> run \<Rightarrow> run" where
  "close_row now i r =
     (if run_id r = i \<and> run_status r = RunActive then r\<lparr>run_status := RunClosed, run_closed := Some now\<rparr> else r)"

definition close_run :: "instant \<Rightarrow> string \<Rightarrow> db \<Rightarrow> store_error + db" where
  "close_run now i d =
     (if find_run (d_runs d) i = None then Inl ErrNotFound
      else Inr (d\<lparr>d_runs := map (close_row now i) (d_runs d)\<rparr>))"

section \<open>Leases\<close>

text \<open>\<open>None\<close> when the ancestor query of the guarded INSERT would not end.\<close>

definition create_lease :: "lease \<Rightarrow> db \<Rightarrow> (store_error + db) option" where
  "create_lease l d =
     (case ancestors (d_runs d) (ls_run l) of
        None \<Rightarrow> None
      | Some as \<Rightarrow> Some (
          if as \<noteq> [] \<and> list_all (\<lambda>r. run_status r = RunActive) as then insert_lease l d
          else if as = [] then Inl ErrNotFound
          else Inl ErrConflict))"

definition get_lease :: "db \<Rightarrow> string \<Rightarrow> store_error + lease" where
  "get_lease d i = (case find_lease d i of None \<Rightarrow> Inl ErrNotFound | Some l \<Rightarrow> Inr l)"

definition get_lease_by_token_hash :: "db \<Rightarrow> string \<Rightarrow> store_error + lease" where
  "get_lease_by_token_hash d h =
     (case find (\<lambda>l. ls_token_hash l = h) (d_leases d) of None \<Rightarrow> Inl ErrNotFound | Some l \<Rightarrow> Inr l)"

definition list_leases_by_run :: "db \<Rightarrow> string \<Rightarrow> lease list" where
  "list_leases_by_run d i =
     sort_by (newest_first ls_created ls_id) (filter (\<lambda>l. ls_run l = i) (d_leases d))"

definition revoke_lease :: "instant \<Rightarrow> string \<Rightarrow> db \<Rightarrow> store_error + db" where
  "revoke_lease now i d =
     (if find_lease d i = None then Inl ErrNotFound
      else Inr (d\<lparr>d_leases := map (\<lambda>l. if ls_id l = i \<and> ls_revoked l = None then l\<lparr>ls_revoked := Some now\<rparr> else l)
        (d_leases d)\<rparr>))"

definition revocable :: "instant \<Rightarrow> string \<Rightarrow> db \<Rightarrow> lease \<Rightarrow> bool" where
  "revocable now p d l \<longleftrightarrow>
     ls_revoked l = None \<and> time_less now (ls_expires l) \<and>
     ls_run l \<in> set (map run_id (filter (\<lambda>r. run_principal r = p) (d_runs d)))"

definition revoke_leases_for_principal :: "instant \<Rightarrow> string \<Rightarrow> db \<Rightarrow> nat \<times> db" where
  "revoke_leases_for_principal now p d =
     (length (filter (revocable now p d) (d_leases d)),
      d\<lparr>d_leases := map (\<lambda>l. if revocable now p d l then l\<lparr>ls_revoked := Some now\<rparr> else l) (d_leases d)\<rparr>)"

end
