(* ===== verification/Budget.thy ===== *)
theory Budget
  imports Entities
begin

text \<open>
  Holds and budgets in the SQL store: \<open>TryReserve\<close> with its walk up the run hierarchy and the lease
  ceiling, \<open>BudgetStatus\<close>, and the life of a reservation (\<open>sqlite.go\<close>, the section on reservations).
  An outer \<open>None\<close> is a recursive query that does not end.
\<close>

section \<open>Usage of a subtree and of a lease\<close>

text \<open>\<open>subtreeUsage\<close>: what the runs below a run, itself included, have spent and hold.\<close>

definition costs_in :: "db \<Rightarrow> string list \<Rightarrow> int list" where
  "costs_in d ids = map e_cost (filter (\<lambda>e. e_run e \<in> set ids) (d_ledger d))"

definition holds_in :: "db \<Rightarrow> string list \<Rightarrow> int list" where
  "holds_in d ids =
     map rv_amount (filter (\<lambda>r. rv_status r = ReservationPending \<and> rv_run r \<in> set ids) (d_reservations d))"

definition subtree_usage :: "db \<Rightarrow> string \<Rightarrow> (store_error + nanos \<times> nanos) option" where
  "subtree_usage d i =
     (case subtree (d_runs d) i of
        None \<Rightarrow> None
      | Some ids \<Rightarrow> Some (
          case sql_sum (costs_in d ids) of
            Inl e \<Rightarrow> Inl e
          | Inr spent \<Rightarrow>
              (case sql_sum (holds_in d ids) of
                 Inl e \<Rightarrow> Inl e
               | Inr held \<Rightarrow> Inr (spent, held))))"

definition settled_costs :: "db \<Rightarrow> string \<Rightarrow> int list" where
  "settled_costs d l =
     concat (map (\<lambda>s.
        case find_reservation d (st_reservation s) of
          None \<Rightarrow> []
        | Some r \<Rightarrow>
            if rv_lease r \<noteq> l then []
            else (case find (\<lambda>e. e_seq e = st_seq s) (d_ledger d) of None \<Rightarrow> [] | Some e \<Rightarrow> [e_cost e]))
       (d_settlements d))"

definition lease_holds :: "db \<Rightarrow> string \<Rightarrow> int list" where
  "lease_holds d l =
     map rv_amount (filter (\<lambda>r. rv_lease r = l \<and> rv_status r = ReservationPending) (d_reservations d))"

text \<open>The query for a lease's ceiling, settled spend and held amount.\<close>

definition lease_usage :: "db \<Rightarrow> string \<Rightarrow> store_error + nanos \<times> nanos \<times> nanos" where
  "lease_usage d i =
     (case find_lease d i of
        None \<Rightarrow> Inl ErrNotFound
      | Some l \<Rightarrow>
          (case sql_sum (settled_costs d i) of
             Inl e \<Rightarrow> Inl e
           | Inr spent \<Rightarrow>
               (case sql_sum (lease_holds d i) of
                  Inl e \<Rightarrow> Inl e
                | Inr held \<Rightarrow> Inr (ls_ceiling l, spent, held))))"

text \<open>What is left of a limit: never below zero.\<close>

definition remaining_of :: "nanos \<Rightarrow> nanos \<Rightarrow> nanos \<Rightarrow> nanos" where
  "remaining_of limit spent held =
     (let left = (if limit \<le> spent then 0 else i64 (limit - spent))
      in if left \<le> held then 0 else i64 (left - held))"

section \<open>Reservations\<close>

definition create_reservation :: "reservation \<Rightarrow> db \<Rightarrow> store_error + db" where
  "create_reservation r d =
     (if \<not> reservation_status_valid (rv_status r) then Inl ErrConflict else insert_reservation r d)"

definition note_block :: "nanos \<Rightarrow> nanos \<Rightarrow> nanos \<Rightarrow> nanos \<Rightarrow> budget_decision \<Rightarrow> budget_decision" where
  "note_block amount limit spent held dec =
     (let remaining = remaining_of limit spent held
      in if remaining < amount \<and> \<not> bd_would_block dec
         then dec\<lparr>bd_would_block := True, bd_budget := limit, bd_spent := spent, bd_held := held,
                  bd_remaining := remaining, bd_shortfall := i64 (amount - remaining)\<rparr>
         else dec)"

text \<open>The loop over the chain of ancestors; the first level that would block names its run.\<close>

fun budget_walk :: "db \<Rightarrow> nanos \<Rightarrow> run list \<Rightarrow> budget_decision \<Rightarrow> (store_error + budget_decision) option" where
  "budget_walk d amount [] dec = Some (Inr dec)"
| "budget_walk d amount (n # ns) dec =
     (if run_status n \<noteq> RunActive then Some (Inl ErrConflict)
      else if run_budget n = 0 then budget_walk d amount ns dec
      else (case subtree_usage d (run_id n) of
          None \<Rightarrow> None
        | Some (Inl e) \<Rightarrow> Some (Inl e)
        | Some (Inr (spent, held)) \<Rightarrow>
            (let dec' = note_block amount (run_budget n) spent held dec
             in budget_walk d amount ns
                  (if bd_would_block dec' \<and> \<not> bd_would_block dec then dec'\<lparr>bd_run := run_id n\<rparr> else dec'))))"

definition lease_check :: "db \<Rightarrow> reservation \<Rightarrow> budget_decision \<Rightarrow> store_error + budget_decision" where
  "lease_check d r dec =
     (if rv_lease r = [] then Inr dec
      else (case lease_usage d (rv_lease r) of
          Inl e \<Rightarrow> Inl e
        | Inr (limit, spent, held) \<Rightarrow>
            Inr (if 0 < limit then note_block (rv_amount r) limit spent held dec else dec)))"

definition new_decision :: "reservation \<Rightarrow> budget_decision" where
  "new_decision r = \<lparr>bd_allowed = False, bd_would_block = False, bd_run = rv_run r, bd_budget = 0, bd_spent = 0,
     bd_held = 0, bd_requested = rv_amount r, bd_remaining = 0, bd_shortfall = 0\<rparr>"

definition try_reserve :: "reservation \<Rightarrow> bool \<Rightarrow> db \<Rightarrow> (store_error + budget_decision \<times> db) option" where
  "try_reserve r enforce d =
     (if rv_status r \<noteq> ReservationPending then Some (Inl ErrConflict)
      else (case ancestors (d_runs d) (rv_run r) of
          None \<Rightarrow> None
        | Some [] \<Rightarrow> Some (Inl ErrNotFound)
        | Some chain \<Rightarrow>
            (case budget_walk d (rv_amount r) chain (new_decision r) of
               None \<Rightarrow> None
             | Some (Inl e) \<Rightarrow> Some (Inl e)
             | Some (Inr dec1) \<Rightarrow>
                 (case lease_check d r dec1 of
                    Inl e \<Rightarrow> Some (Inl e)
                  | Inr dec2 \<Rightarrow>
                      (let dec = dec2\<lparr>bd_allowed := \<not> enforce \<or> \<not> bd_would_block dec2\<rparr>
                       in if bd_allowed dec
                          then (case create_reservation r d of
                              Inl e \<Rightarrow> Some (Inl e)
                            | Inr d' \<Rightarrow> Some (Inr (dec, d')))
                          else Some (Inr (dec, d)))))))"

definition get_reservation :: "db \<Rightarrow> string \<Rightarrow> store_error + reservation" where
  "get_reservation d i = (case find_reservation d i of None \<Rightarrow> Inl ErrNotFound | Some r \<Rightarrow> Inr r)"

definition set_status :: "(reservation \<Rightarrow> bool) \<Rightarrow> reservation_status \<Rightarrow> instant \<Rightarrow> db \<Rightarrow> db" where
  "set_status P s now d =
     d\<lparr>d_reservations := map (\<lambda>r. if P r then r\<lparr>rv_status := s, rv_resolved := Some now\<rparr> else r) (d_reservations d)\<rparr>"

definition resolve_reservation :: "instant \<Rightarrow> string \<Rightarrow> reservation_status \<Rightarrow> db \<Rightarrow> store_error + db" where
  "resolve_reservation now i s d =
     (if \<not> reservation_status_valid s \<or> s = ReservationPending then Inl ErrConflict
      else (case find_reservation d i of
          None \<Rightarrow> Inl ErrNotFound
        | Some r \<Rightarrow>
            if rv_status r = ReservationPending
            then Inr (set_status (\<lambda>r. rv_id r = i \<and> rv_status r = ReservationPending) s now d)
            else Inl ErrConflict))"

definition expirable :: "instant \<Rightarrow> reservation \<Rightarrow> bool" where
  "expirable now r \<longleftrightarrow> rv_status r = ReservationPending \<and> time_le (rv_expires r) now"

definition expire_pending_reservations :: "instant \<Rightarrow> db \<Rightarrow> nat \<times> db" where
  "expire_pending_reservations now d =
     (length (filter (expirable now) (d_reservations d)), set_status (expirable now) ReservationExpired now d)"

definition pending_reservation_total :: "db \<Rightarrow> string \<Rightarrow> store_error + nanos" where
  "pending_reservation_total d i =
     sql_sum (map rv_amount (filter (\<lambda>r. rv_run r = i \<and> rv_status r = ReservationPending) (d_reservations d)))"

section \<open>The budget of a run as its owner sees it\<close>

definition status_level :: "run \<Rightarrow> nanos \<Rightarrow> nanos \<Rightarrow> run_budget_status \<Rightarrow> run_budget_status" where
  "status_level n spent held res =
     (let level = \<lparr>bl_run = run_id n, bl_status = run_status n, bl_budget = run_budget n, bl_spent = spent,
            bl_held = held, bl_remaining = (if 0 < run_budget n then remaining_of (run_budget n) spent held else 0),
            bl_unlimited = run_budget n = 0\<rparr>;
          res1 = (if run_status n \<noteq> RunActive \<and> bs_allowed res
                  then res\<lparr>bs_allowed := False, bs_blocking := run_id n\<rparr> else res);
          res2 = (if 0 < run_budget n \<and> (bs_unlimited res1 \<or> bl_remaining level < bs_remaining res1)
                  then res1\<lparr>bs_unlimited := False, bs_remaining := bl_remaining level, bs_limiting := run_id n\<rparr>
                  else res1)
      in res2\<lparr>bs_levels := bs_levels res2 @ [level]\<rparr>)"

fun status_walk :: "db \<Rightarrow> run list \<Rightarrow> run_budget_status \<Rightarrow> (store_error + run_budget_status) option" where
  "status_walk d [] res = Some (Inr res)"
| "status_walk d (n # ns) res =
     (case subtree_usage d (run_id n) of
        None \<Rightarrow> None
      | Some (Inl e) \<Rightarrow> Some (Inl e)
      | Some (Inr (spent, held)) \<Rightarrow> status_walk d ns (status_level n spent held res))"

definition budget_status :: "db \<Rightarrow> string \<Rightarrow> (store_error + run_budget_status) option" where
  "budget_status d i =
     (case ancestors (d_runs d) i of
        None \<Rightarrow> None
      | Some [] \<Rightarrow> Some (Inl ErrNotFound)
      | Some (c # chain) \<Rightarrow>
          status_walk d (c # chain)
            \<lparr>bs_run = i, bs_status = run_status c, bs_allowed = True, bs_blocking = [], bs_unlimited = True,
             bs_remaining = 0, bs_limiting = [], bs_levels = []\<rparr>)"

end
