(* ===== verification/LedgerStore.thy ===== *)
theory LedgerStore
  imports Budget
begin

text \<open>
  The ledger in the SQL store (\<open>sqlite.go\<close>): appending under the head, the exactly-once settlement of a
  reservation, and the ledger queries. The usage column holds the canonical JSON of the itemized
  usage; reading it back gives the same quantities, which is what the row keeps here. The clock is
  the argument \<open>now\<close> and the digest the argument \<open>sha\<close>.
\<close>

definition ledger_head :: "db \<Rightarrow> entry option" where
  "ledger_head d = (if d_ledger d = [] then None else Some (last (sort_by (\<lambda>e f. e_seq e \<le> e_seq f) (d_ledger d))))"

text \<open>\<open>appendLedgerTx\<close>: the sealed entry and the database with its row.\<close>

definition append_ledger_tx :: "(string \<Rightarrow> string) \<Rightarrow> instant \<Rightarrow> entry \<Rightarrow> db \<Rightarrow> store_error + entry \<times> db" where
  "append_ledger_tx sha now e0 d =
     (let e = (if time_is_zero (e_created e0) then e0\<lparr>e_created := now\<rparr> else e0)
      in case entry_validate e of
           Inl _ \<Rightarrow> Inl ErrInternal
         | Inr _ \<Rightarrow>
             (let (head_seq, prev) =
                    (case ledger_head d of None \<Rightarrow> (0, genesis_hash) | Some h \<Rightarrow> (e_seq h, e_hash h));
                  sealed = seal_entry sha (e\<lparr>e_seq := i64 (head_seq + 1)\<rparr>) prev
              in case canonical_json (itemized_usage sealed) of
                   Inl _ \<Rightarrow> Inl ErrInternal
                 | Inr _ \<Rightarrow>
                     (case insert_entry (sealed\<lparr>e_usage := itemized_usage sealed\<rparr>) d of
                        Inl err \<Rightarrow> Inl err
                      | Inr d' \<Rightarrow> Inr (sealed, d'))))"

definition append_ledger :: "(string \<Rightarrow> string) \<Rightarrow> instant \<Rightarrow> entry \<Rightarrow> db \<Rightarrow> store_error + entry \<times> db" where
  "append_ledger sha now e d = append_ledger_tx sha now e d"

definition entry_by_seq :: "db \<Rightarrow> int \<Rightarrow> store_error + entry" where
  "entry_by_seq d n = (case find (\<lambda>e. e_seq e = n) (d_ledger d) of None \<Rightarrow> Inl ErrNotFound | Some e \<Rightarrow> Inr e)"

definition settle_reservation :: "(string \<Rightarrow> string) \<Rightarrow> instant \<Rightarrow> string \<Rightarrow> entry \<Rightarrow> db \<Rightarrow> store_error + entry \<times> db" where
  "settle_reservation sha now i e d =
     (case find (\<lambda>s. st_reservation s = i) (d_settlements d) of
        Some s \<Rightarrow>
          (case entry_by_seq d (st_seq s) of Inl err \<Rightarrow> Inl err | Inr prior \<Rightarrow> Inr (prior, d))
      | None \<Rightarrow>
          (case find_reservation d i of
             None \<Rightarrow> Inl ErrNotFound
           | Some r \<Rightarrow>
               if e_run e \<noteq> rv_run r then Inl ErrConflict
               else if rv_status r \<noteq> ReservationPending \<and> rv_status r \<noteq> ReservationExpired then Inl ErrConflict
               else (case append_ledger_tx sha now e d of
                   Inl err \<Rightarrow> Inl err
                 | Inr (sealed, d1) \<Rightarrow>
                     (case insert_settlement \<lparr>st_reservation = i, st_seq = e_seq sealed, st_created = now\<rparr> d1 of
                        Inl err \<Rightarrow> Inl err
                      | Inr d2 \<Rightarrow>
                          Inr (sealed,
                            if rv_status r = ReservationPending
                            then set_status (\<lambda>q. rv_id q = i) ReservationSettled now d2
                            else d2)))))"

text \<open>\<open>LedgerEntries\<close>: the filter's conditions, in sequence order, up to the limit.\<close>

definition ledger_entries :: "db \<Rightarrow> ledger_filter \<Rightarrow> entry list" where
  "ledger_entries d f =
     (let matching = filter (\<lambda>e.
            (lf_run f = [] \<or> e_run e = lf_run f) \<and>
            (lf_principal f = [] \<or> e_principal e = lf_principal f) \<and>
            (time_is_zero (lf_since f) \<or> time_le (lf_since f) (e_created e))) (d_ledger d);
          ordered = sort_by (\<lambda>e g. e_seq e \<le> e_seq g) matching
      in if 0 < lf_limit f then take (nat (lf_limit f)) ordered else ordered)"

definition spend_by_run :: "db \<Rightarrow> string \<Rightarrow> store_error + nanos" where
  "spend_by_run d i = sql_sum (map e_cost (filter (\<lambda>e. e_run e = i) (d_ledger d)))"

definition spend_by_principal :: "db \<Rightarrow> string \<Rightarrow> store_error + nanos" where
  "spend_by_principal d i = sql_sum (map e_cost (filter (\<lambda>e. e_principal e = i) (d_ledger d)))"

section \<open>The stored ledger is a verified chain\<close>

text \<open>Row \<open>k\<close> carries sequence number \<open>k\<close>, and the rows form an unbroken hash chain.\<close>

definition numbered :: "entry list \<Rightarrow> bool" where
  "numbered es \<longleftrightarrow> map e_seq es = map int [1..<Suc (length es)]"

definition ledger_ok :: "(string \<Rightarrow> string) \<Rightarrow> entry list \<Rightarrow> bool" where
  "ledger_ok sha es \<longleftrightarrow> numbered es \<and> verify_chain sha es = Inr ()"

lemma ledger_ok_Nil [simp]: "ledger_ok sha []"
  by (simp add: ledger_ok_def numbered_def verify_chain_def)

lemma numbered_snoc: "numbered (es @ [e]) \<longleftrightarrow> numbered es \<and> e_seq e = int (Suc (length es))"
  by (auto simp: numbered_def)

lemma sort_sorted: "sorted (map k es) \<Longrightarrow> sort_by (\<lambda>e f. k e \<le> (k f :: int)) es = es"
proof (induction es)
  case (Cons e es)
  then show ?case by (cases es) auto
qed simp

lemma numbered_sorted: "numbered es \<Longrightarrow> sorted (map e_seq es)"
proof -
  have "sorted (map int [1..<k])" for k
    by (induction k) (auto simp: sorted_append)
  then show "numbered es \<Longrightarrow> sorted (map e_seq es)" by (simp only: numbered_def)
qed

lemma ledger_head_last: "numbered (d_ledger d) \<Longrightarrow> ledger_head d = (if d_ledger d = [] then None else Some (last (d_ledger d)))"
  by (simp add: ledger_head_def sort_sorted numbered_sorted)

lemma normalized_idem [simp]: "normalized (normalized u) = normalized u"
  by (simp add: normalized_def)

lemma normalized_token_usage [simp]: "normalized (token_usage i c w v out) = token_usage i c w v out"
  by (simp add: token_usage_def)

lemma itemized_fixed:
  "e_usage e = itemized_usage f \<Longrightarrow> e_input e = e_input f \<Longrightarrow> e_output e = e_output f \<Longrightarrow>
   normalized (e_usage f) \<noteq> [] \<or> e_usage f = [] \<Longrightarrow> itemized_usage e = itemized_usage f"
  by (auto simp: itemized_usage_def)

text \<open>The stored row hashes like the sealed entry it came from.\<close>

lemma hash_input_row:
  assumes "sealed = seal_entry sha e prev"
  shows "hash_input (sealed\<lparr>e_usage := itemized_usage sealed\<rparr>) p = hash_input sealed p"
proof -
  have "itemized_usage (sealed\<lparr>e_usage := itemized_usage sealed\<rparr>) = itemized_usage sealed"
    if "hash_version_usage \<le> hash_version sealed"
  proof -
    have "e_version sealed = hash_version sealed"
      by (auto simp: assms seal_entry_def Let_def hash_version_def current_hash_version_def hash_version_usage_def)
    then have "\<exists>f. e_usage sealed = itemized_usage f \<and> e_input sealed = e_input f \<and> e_output sealed = e_output f"
      using that by (auto simp: assms seal_entry_def Let_def itemized_usage_def split: if_splits)
    then have "e_usage sealed = token_usage (e_input sealed) 0 0 0 (e_output sealed) \<or> normalized (e_usage sealed) = e_usage sealed"
      by (auto simp: itemized_usage_def)
    then show ?thesis by (auto simp: itemized_usage_def)
  qed
  then show ?thesis
    by (auto simp: hash_input_def hash_fields_def hash_version_def usage_text_def)
qed

text \<open>What an append does: one row at the end, numbered and chained onto the head, nothing else changed.\<close>

lemma insert_entry_ok:
  "insert_entry e d = Inr d' \<Longrightarrow> d' = d\<lparr>d_ledger := d_ledger d @ [e]\<rparr> \<and> 0 \<le> e_cost e \<and> e_version e \<in> {1, 2} \<and>
     e_run e \<in> run_id ` set (d_runs d) \<and> e_hash e \<notin> e_hash ` set (d_ledger d)"
  by (auto simp: insert_entry_def dest: find_run_Some_id split: if_splits)

lemma append_ledger_tx_ok:
  assumes "append_ledger_tx sha now e d = Inr (sealed, d')" "ledger_ok sha (d_ledger d)"
    and "int (length (d_ledger d)) < max_i64"
  obtains row where "d' = d\<lparr>d_ledger := d_ledger d @ [row]\<rparr>" "ledger_ok sha (d_ledger d @ [row])"
    "e_cost row = e_cost e" "0 \<le> e_cost e" "e_run row = e_run e" "e_run e \<in> run_id ` set (d_runs d)"
    "e_seq row = e_seq sealed" "e_seq row = int (Suc (length (d_ledger d)))" "e_hash row = e_hash sealed"
    "e_principal row = e_principal e"
proof -
  define e' where "e' = (if time_is_zero (e_created e) then e\<lparr>e_created := now\<rparr> else e)"
  let ?n = "int (length (d_ledger d))" and ?prev = "head_hash genesis_hash (d_ledger d)"
  have num: "numbered (d_ledger d)" and chain: "verify_chain sha (d_ledger d) = Inr ()"
    using assms(2) by (simp_all add: ledger_ok_def)
  have head: "(case ledger_head d of None \<Rightarrow> (0, genesis_hash) | Some h \<Rightarrow> (e_seq h, e_hash h)) = (?n, ?prev)"
  proof (cases "d_ledger d" rule: rev_cases)
    case (snoc es h)
    then show ?thesis using num by (simp add: ledger_head_last numbered_snoc)
  qed (simp add: ledger_head_def)
  define s where "s = seal_entry sha (e'\<lparr>e_seq := i64 (?n + 1)\<rparr>) ?prev"
  define row where "row = s\<lparr>e_usage := itemized_usage s\<rparr>"
  have "sealed = s \<and> insert_entry row d = Inr d'"
    using assms(1)
    unfolding append_ledger_tx_def e'_def [symmetric] Let_def head prod.case s_def [symmetric] row_def [symmetric]
    by (simp split: sum.splits)
  then have s: "sealed = s" and ins: "insert_entry row d = Inr d'" by simp_all
  have seq: "e_seq s = int (Suc (length (d_ledger d)))"
    using assms(3) by (simp add: s_def i64_nonneg_id)
  have fields: "e_cost s = e_cost e" "e_run s = e_run e" "e_principal s = e_principal e" "e_prev s = ?prev"
    "e_hash s = compute_hash sha s ?prev"
    by (simp_all add: s_def) (simp_all add: seal_entry_def Let_def e'_def)
  have "compute_hash sha row ?prev = compute_hash sha s ?prev"
    unfolding compute_hash_def row_def by (simp add: hash_input_row [OF s_def])
  then have "ledger_ok sha (d_ledger d @ [row])"
    using num chain fields seq
    by (simp add: ledger_ok_def numbered_snoc verify_chain_def verify_from_snoc_ok row_def)
  moreover note insert_entry_ok [OF ins] fields seq
  ultimately show thesis by (intro that [of row]) (simp_all add: s row_def)
qed

end
