(* ===== verification/Enforcement.thy ===== *)
theory Enforcement
  imports LedgerStore
begin

text \<open>
  What enforced reservations guarantee: the amounts a run's subtree has spent and holds, the part of a
  charge its hold did not cover, the invariant that bounds them by the run's budget, and its preservation
  by every operation of the store.
\<close>

section \<open>Amounts below a run\<close>

definition subtree_ids :: "run list \<Rightarrow> string \<Rightarrow> string list" where
  "subtree_ids runs n = (case subtree runs n of None \<Rightarrow> [] | Some xs \<Rightarrow> xs)"

definition spent_in :: "db \<Rightarrow> string \<Rightarrow> int" where
  "spent_in d n = sum_list (costs_in d (subtree_ids (d_runs d) n))"

definition held_in :: "db \<Rightarrow> string \<Rightarrow> int" where
  "held_in d n = sum_list (holds_in d (subtree_ids (d_runs d) n))"

text \<open>
  The part of a settled charge that its hold did not cover: the excess over the held amount, or all of it
  when the hold had already expired.
\<close>

definition uncovered :: "reservation \<Rightarrow> entry \<Rightarrow> int" where
  "uncovered r e = max 0 (e_cost e - (if rv_status r = ReservationSettled then rv_amount r else 0))"

definition settlement_overrun :: "db \<Rightarrow> string list \<Rightarrow> settlement \<Rightarrow> int" where
  "settlement_overrun d ids s =
     (case (find_reservation d (st_reservation s), find (\<lambda>e. e_seq e = st_seq s) (d_ledger d)) of
        (Some r, Some e) \<Rightarrow> if e_run e \<in> set ids then uncovered r e else 0
      | _ \<Rightarrow> 0)"

definition overrun_in :: "db \<Rightarrow> string \<Rightarrow> int" where
  "overrun_in d n = sum_list (map (settlement_overrun d (subtree_ids (d_runs d) n)) (d_settlements d))"

definition budgets_hold :: "db \<Rightarrow> bool" where
  "budgets_hold d \<longleftrightarrow>
     (\<forall>r \<in> set (d_runs d). run_budget r = 0 \<or>
        spent_in d (run_id r) + held_in d (run_id r) \<le> run_budget r + overrun_in d (run_id r))"

text \<open>The constraints of the schema on the rows, and what the operations keep of the chain.\<close>

definition rows_ok :: "(string \<Rightarrow> string) \<Rightarrow> db \<Rightarrow> bool" where
  "rows_ok sha d \<longleftrightarrow>
     runs_wf (d_runs d) \<and> (\<forall>r \<in> set (d_runs d). 0 \<le> run_budget r \<and> run_budget r \<le> max_i64) \<and>
     distinct (map rv_id (d_reservations d)) \<and>
     (\<forall>r \<in> set (d_reservations d). 0 \<le> rv_amount r \<and> rv_run r \<in> run_id ` set (d_runs d)) \<and>
     ledger_ok sha (d_ledger d) \<and>
     (\<forall>e \<in> set (d_ledger d). 0 \<le> e_cost e \<and> e_run e \<in> run_id ` set (d_runs d)) \<and>
     (\<forall>s \<in> set (d_settlements d). st_seq s \<in> e_seq ` set (d_ledger d) \<and>
        (\<exists>r. find_reservation d (st_reservation s) = Some r \<and> rv_status r \<in> {ReservationSettled, ReservationExpired}))"

lemma set_subtree_ids:
  assumes "runs_wf runs"
  shows "x \<in> set (subtree_ids runs n) \<longleftrightarrow> n \<in> run_id ` set runs \<and> (x, n) \<in> (parent_rel runs)\<^sup>*"
proof (cases "n \<in> run_id ` set runs")
  case True
  obtain xs where "subtree runs n = Some xs" using subtree_total [OF assms] by blast
  with True show ?thesis using subtree_set [of runs n xs x] by (simp add: subtree_ids_def)
qed (simp add: subtree_ids_def subtree_none)

lemma subtree_usage_ok:
  assumes "runs_wf (d_runs d)" "subtree_usage d n = Some (Inr (s, h))"
  shows "s = spent_in d n" "h = held_in d n"
  using assms(2) subtree_total [OF assms(1), of n]
  by (auto simp: subtree_usage_def subtree_ids_def spent_in_def held_in_def sql_sum_def split: option.splits sum.splits if_splits)

lemma find_reservation_SomeD: "find_reservation d i = Some r \<Longrightarrow> r \<in> set (d_reservations d) \<and> rv_id r = i"
  using find_SomeD [of "\<lambda>r. rv_id r = i" "d_reservations d" r] by (simp add: find_reservation_def)

lemma spent_nonneg: "rows_ok sha d \<Longrightarrow> 0 \<le> spent_in d n"
  unfolding spent_in_def costs_in_def by (rule sum_list_filter_nonneg) (simp add: rows_ok_def)

lemma held_nonneg: "rows_ok sha d \<Longrightarrow> 0 \<le> held_in d n"
  unfolding held_in_def holds_in_def by (rule sum_list_filter_nonneg) (simp add: rows_ok_def)

lemma overrun_nonneg: "0 \<le> overrun_in d n"
  unfolding overrun_in_def
  by (rule sum_list_nonneg) (auto simp: settlement_overrun_def uncovered_def split: option.splits)

section \<open>A granted hold fits every level\<close>

lemma remaining_of_bound:
  assumes "0 \<le> limit" "limit \<le> max_i64" "0 \<le> spent" "0 \<le> held" "0 < a" "a \<le> remaining_of limit spent held"
  shows "spent + held + a \<le> limit"
proof -
  have "i64 (limit - spent) = limit - spent" if "\<not> limit \<le> spent"
    using that assms by (simp add: i64_diff_id)
  moreover from this have "i64 (limit - spent - held) = limit - spent - held"
    if "\<not> limit \<le> spent" "\<not> limit - spent \<le> held"
    using that assms by (simp add: i64_nonneg_id)
  ultimately show ?thesis
    using assms(4-6) by (auto simp: remaining_of_def Let_def split: if_splits)
qed

lemma remaining_of_nonneg:
  assumes "limit \<le> max_i64" "0 \<le> spent" "0 \<le> held"
  shows "0 \<le> remaining_of limit spent held"
  using assms by (auto simp: remaining_of_def Let_def i64_diff_id i64_nonneg_id)

lemma note_block_sticky: "bd_would_block dec \<Longrightarrow> note_block a l s h dec = dec"
  by (simp add: note_block_def Let_def)

lemma budget_walk_sticky: "budget_walk d a ns dec = Some (Inr dec') \<Longrightarrow> bd_would_block dec \<Longrightarrow> bd_would_block dec'"
  by (induction d a ns dec rule: budget_walk.induct)
    (auto simp: note_block_sticky Let_def split: if_splits option.splits sum.splits prod.splits)

lemma budget_walk_pass:
  assumes "runs_wf (d_runs d)" "budget_walk d a ns dec = Some (Inr dec')" "\<not> bd_would_block dec'"
  shows "\<forall>n \<in> set ns. run_status n = RunActive \<and>
    (run_budget n = 0 \<or> a \<le> remaining_of (run_budget n) (spent_in d (run_id n)) (held_in d (run_id n)))"
  using assms(2)
proof (induction ns arbitrary: dec)
  case (Cons n ns)
  have active: "run_status n = RunActive" using Cons.prems by (auto split: if_splits)
  show ?case
  proof (cases "run_budget n = 0")
    case True
    then show ?thesis using Cons active by auto
  next
    case False
    obtain s h where u: "subtree_usage d (run_id n) = Some (Inr (s, h))"
      using Cons.prems False active by (auto split: option.splits sum.splits)
    let ?dec = "note_block a (run_budget n) s h dec"
    let ?next = "if bd_would_block ?dec \<and> \<not> bd_would_block dec then ?dec\<lparr>bd_run := run_id n\<rparr> else ?dec"
    have rest: "budget_walk d a ns ?next = Some (Inr dec')"
      using Cons.prems False active u by (simp add: Let_def)
    have "\<not> bd_would_block ?next"
      using budget_walk_sticky [OF rest] assms(3) by blast
    then have "a \<le> remaining_of (run_budget n) s h"
      by (auto simp: note_block_def Let_def split: if_splits)
    then show ?thesis
      using Cons.IH [OF rest] active subtree_usage_ok [OF assms(1) u] by simp
  qed
qed simp

lemma create_reservation_ok:
  "create_reservation r d = Inr d' \<Longrightarrow>
     d' = d\<lparr>d_reservations := d_reservations d @ [r]\<rparr> \<and> 0 \<le> rv_amount r \<and> rv_run r \<in> run_id ` set (d_runs d) \<and>
     rv_id r \<notin> rv_id ` set (d_reservations d)"
  by (auto simp: create_reservation_def insert_reservation_def dest: find_run_Some_id split: if_splits)

lemma budget_walk_active:
  "budget_walk d a ns dec = Some (Inr dec') \<Longrightarrow> n \<in> set ns \<Longrightarrow> run_status n = RunActive"
  by (induction d a ns dec rule: budget_walk.induct)
    (auto simp: Let_def split: if_splits option.splits sum.splits prod.splits)

lemma lease_check_sticky: "lease_check d r dec = Inr dec' \<Longrightarrow> bd_would_block dec \<Longrightarrow> bd_would_block dec'"
  by (auto simp: lease_check_def note_block_sticky split: if_splits sum.splits prod.splits)

text \<open>The branches of \<open>TryReserve\<close> that return a decision.\<close>

lemma try_reserve_cases:
  assumes "try_reserve r enforce d = Some (Inr (dec, d'))"
  obtains chain dec1 dec2 where "rv_status r = ReservationPending"
    "ancestors (d_runs d) (rv_run r) = Some chain" "chain \<noteq> []"
    "budget_walk d (rv_amount r) chain (new_decision r) = Some (Inr dec1)" "lease_check d r dec1 = Inr dec2"
    "dec = dec2\<lparr>bd_allowed := \<not> enforce \<or> \<not> bd_would_block dec2\<rparr>"
    "if bd_allowed dec then create_reservation r d = Inr d' else d' = d"
proof -
  have pending: "rv_status r = ReservationPending"
    using assms by (auto simp: try_reserve_def split: if_splits)
  obtain c cs where chain: "ancestors (d_runs d) (rv_run r) = Some (c # cs)"
    using assms pending by (auto simp: try_reserve_def split: option.splits list.splits)
  obtain dec1 where walk: "budget_walk d (rv_amount r) (c # cs) (new_decision r) = Some (Inr dec1)"
    using assms pending chain
    by (cases "budget_walk d (rv_amount r) (c # cs) (new_decision r)")
      (auto simp: try_reserve_def simp del: budget_walk.simps split: sum.splits)
  obtain dec2 where lease: "lease_check d r dec1 = Inr dec2"
    using assms pending chain walk
    by (cases "lease_check d r dec1") (simp_all add: try_reserve_def del: budget_walk.simps)
  have res: "dec = dec2\<lparr>bd_allowed := \<not> enforce \<or> \<not> bd_would_block dec2\<rparr> \<and>
      (if bd_allowed dec then create_reservation r d = Inr d' else d' = d)"
    using assms pending chain walk lease
    by (auto simp: try_reserve_def Let_def simp del: budget_walk.simps split: if_splits sum.splits)
  show thesis by (rule that [OF pending chain list.distinct(2) walk lease res [THEN conjunct1] res [THEN conjunct2]])
qed

text \<open>What an allowed decision means, level by level.\<close>

lemma try_reserve_granted:
  assumes "runs_wf (d_runs d)" "try_reserve r enforce d = Some (Inr (dec, d'))" "bd_allowed dec"
  obtains chain where "ancestors (d_runs d) (rv_run r) = Some chain"
    "d' = d\<lparr>d_reservations := d_reservations d @ [r]\<rparr>" "0 \<le> rv_amount r" "rv_status r = ReservationPending"
    "rv_run r \<in> run_id ` set (d_runs d)" "rv_id r \<notin> rv_id ` set (d_reservations d)"
    "\<forall>n \<in> set chain. run_status n = RunActive"
    "enforce \<longrightarrow> (\<forall>n \<in> set chain. run_budget n = 0 \<or>
       rv_amount r \<le> remaining_of (run_budget n) (spent_in d (run_id n)) (held_in d (run_id n)))"
proof -
  obtain chain dec1 dec2 where c: "rv_status r = ReservationPending"
    "ancestors (d_runs d) (rv_run r) = Some chain" "chain \<noteq> []"
    "budget_walk d (rv_amount r) chain (new_decision r) = Some (Inr dec1)" "lease_check d r dec1 = Inr dec2"
    "dec = dec2\<lparr>bd_allowed := \<not> enforce \<or> \<not> bd_would_block dec2\<rparr>"
    "if bd_allowed dec then create_reservation r d = Inr d' else d' = d"
    by (rule try_reserve_cases [OF assms(2)])
  have created: "create_reservation r d = Inr d'" using c(7) assms(3) by simp
  have "\<not> bd_would_block dec1" if enforce
    using that c(6) assms(3) lease_check_sticky [OF c(5)] by auto
  with budget_walk_pass [OF assms(1) c(4)] have
    "enforce \<longrightarrow> (\<forall>n \<in> set chain. run_budget n = 0 \<or>
       rv_amount r \<le> remaining_of (run_budget n) (spent_in d (run_id n)) (held_in d (run_id n)))" by blast
  with c(1,2) create_reservation_ok [OF created] budget_walk_active [OF c(4)] show thesis
    by (intro that [of chain]) blast+
qed

section \<open>How each change moves the amounts\<close>

text \<open>Adding a run adds no amount anywhere: nothing can refer to it yet.\<close>

lemma parent_rel_snoc:
  "parent_rel (runs @ [r]) = parent_rel runs \<union> (if run_parent r = [] then {} else {(run_id r, run_parent r)})"
  by (auto simp: parent_rel_def)

lemma runs_wf_snoc: "runs_wf (runs @ [r]) \<longleftrightarrow>
  runs_wf runs \<and> run_id r \<notin> run_id ` set runs \<and> (run_parent r = [] \<or> run_parent r \<in> run_id ` set runs)"
  by (auto simp: runs_wf_def parents_first_append)

lemma rtrancl_snoc:
  assumes "runs_wf (runs @ [r])" "x \<in> run_id ` set runs"
  shows "(x, n) \<in> (parent_rel (runs @ [r]))\<^sup>* \<longleftrightarrow> (x, n) \<in> (parent_rel runs)\<^sup>*"
proof
  assume "(x, n) \<in> (parent_rel (runs @ [r]))\<^sup>*"
  then have "(x, n) \<in> (parent_rel runs)\<^sup>* \<and> n \<in> run_id ` set runs"
  proof (induction rule: rtrancl_induct)
    case (step y z)
    have "y \<noteq> run_id r" using step.IH assms(1) unfolding runs_wf_snoc by blast
    then have "(y, z) \<in> parent_rel runs" using step.hyps(2) by (auto simp: parent_rel_snoc split: if_splits)
    moreover from this have "z \<in> run_id ` set runs"
      using assms(1) parent_rank(2) by (auto simp: runs_wf_snoc)
    ultimately show ?case using step.IH by (meson rtrancl.rtrancl_into_rtrancl)
  qed (use assms(2) in simp)
  then show "(x, n) \<in> (parent_rel runs)\<^sup>*" ..
next
  assume "(x, n) \<in> (parent_rel runs)\<^sup>*"
  moreover have "(parent_rel runs)\<^sup>* \<subseteq> (parent_rel (runs @ [r]))\<^sup>*"
    by (rule rtrancl_mono) (simp add: parent_rel_snoc)
  ultimately show "(x, n) \<in> (parent_rel (runs @ [r]))\<^sup>*" by blast
qed

lemma subtree_ids_snoc:
  assumes "runs_wf (runs @ [r])" "x \<in> run_id ` set runs"
  shows "x \<in> set (subtree_ids (runs @ [r]) n) \<longleftrightarrow> n \<noteq> run_id r \<and> x \<in> set (subtree_ids runs n)"
proof -
  have wf: "runs_wf runs" "run_id r \<notin> run_id ` set runs" using assms(1) by (simp_all add: runs_wf_snoc)
  have "n \<in> run_id ` set runs" if "(x, n) \<in> (parent_rel runs)\<^sup>*"
    using that assms(2) by (induction rule: rtrancl_induct) (use parent_rank(2) [OF wf(1)] in auto)
  then show ?thesis
    using wf rtrancl_snoc [OF assms] by (auto simp: set_subtree_ids assms(1))
qed

lemma costs_in_cong:
  "(\<And>e. e \<in> set (d_ledger d) \<Longrightarrow> e_run e \<in> set ids \<longleftrightarrow> e_run e \<in> set ids') \<Longrightarrow> d_ledger d' = d_ledger d \<Longrightarrow>
   costs_in d' ids' = costs_in d ids"
  by (auto simp: costs_in_def intro!: map_cong filter_cong)

lemma holds_in_cong:
  "(\<And>r. r \<in> set (d_reservations d) \<Longrightarrow> rv_run r \<in> set ids \<longleftrightarrow> rv_run r \<in> set ids') \<Longrightarrow>
   d_reservations d' = d_reservations d \<Longrightarrow> holds_in d' ids' = holds_in d ids"
  by (auto simp: holds_in_def intro!: map_cong filter_cong)

lemma overrun_cong:
  assumes "\<And>e. e \<in> set (d_ledger d) \<Longrightarrow> e_run e \<in> set ids \<longleftrightarrow> e_run e \<in> set ids'"
    and "d_ledger d' = d_ledger d" "d_reservations d' = d_reservations d"
  shows "settlement_overrun d' ids' s = settlement_overrun d ids s"
  using assms
  by (auto simp: settlement_overrun_def find_reservation_def split: option.split dest!: find_SomeD)

text \<open>The amounts of two databases agree at a run when its subtree holds the same charged and holding runs.\<close>

lemma amounts_cong:
  assumes "rows_ok sha d"
    and "\<And>x. x \<in> run_id ` set (d_runs d) \<Longrightarrow> x \<in> set (subtree_ids (d_runs d') m) \<longleftrightarrow> x \<in> set (subtree_ids (d_runs d) n)"
    and "d_ledger d' = d_ledger d" "d_reservations d' = d_reservations d" "d_settlements d' = d_settlements d"
  shows "spent_in d' m = spent_in d n" "held_in d' m = held_in d n" "overrun_in d' m = overrun_in d n"
proof -
  have in_ids: "\<And>e. e \<in> set (d_ledger d) \<Longrightarrow> e_run e \<in> run_id ` set (d_runs d)"
    "\<And>r. r \<in> set (d_reservations d) \<Longrightarrow> rv_run r \<in> run_id ` set (d_runs d)"
    using assms(1) by (auto simp: rows_ok_def)
  have e: "\<And>e. e \<in> set (d_ledger d) \<Longrightarrow>
      e_run e \<in> set (subtree_ids (d_runs d) n) \<longleftrightarrow> e_run e \<in> set (subtree_ids (d_runs d') m)"
    using assms(2) in_ids(1) by blast
  have r: "\<And>r. r \<in> set (d_reservations d) \<Longrightarrow>
      rv_run r \<in> set (subtree_ids (d_runs d) n) \<longleftrightarrow> rv_run r \<in> set (subtree_ids (d_runs d') m)"
    using assms(2) in_ids(2) by blast
  show "spent_in d' m = spent_in d n"
    using costs_in_cong [OF e assms(3)] by (simp add: spent_in_def)
  show "held_in d' m = held_in d n"
    using holds_in_cong [OF r assms(4)] by (simp add: held_in_def)
  show "overrun_in d' m = overrun_in d n"
  proof -
    have "settlement_overrun d' (subtree_ids (d_runs d') m) = settlement_overrun d (subtree_ids (d_runs d) n)"
      by (rule ext) (rule overrun_cong [OF e assms(3,4)])
    then show ?thesis by (simp add: overrun_in_def assms(5))
  qed
qed

lemma no_amounts:
  assumes "rows_ok sha d" "\<And>x. x \<in> run_id ` set (d_runs d) \<Longrightarrow> x \<notin> set (subtree_ids (d_runs d') m)"
    and "d_ledger d' = d_ledger d" "d_reservations d' = d_reservations d"
  shows "spent_in d' m = 0" "held_in d' m = 0"
proof -
  have "filter (\<lambda>e. e_run e \<in> set (subtree_ids (d_runs d') m)) (d_ledger d) = []"
    "filter (\<lambda>r. rv_status r = ReservationPending \<and> rv_run r \<in> set (subtree_ids (d_runs d') m)) (d_reservations d) = []"
    using assms(1,2) unfolding rows_ok_def by (auto simp: filter_empty_conv)
  then show "spent_in d' m = 0" "held_in d' m = 0"
    using assms(3,4) by (simp_all add: spent_in_def costs_in_def held_in_def holds_in_def)
qed

section \<open>The invariant and its preservation\<close>

text \<open>
  What a run's subtree has used up: spent and held, less the overrun. The budgets bound it, so an
  operation that does not raise it anywhere keeps them.
\<close>

definition exposure :: "db \<Rightarrow> string \<Rightarrow> int" where
  "exposure d n = spent_in d n + held_in d n - overrun_in d n"

lemma budgets_hold_exposure:
  "budgets_hold d \<longleftrightarrow> (\<forall>r \<in> set (d_runs d). run_budget r = 0 \<or> exposure d (run_id r) \<le> run_budget r)"
  by (auto simp: budgets_hold_def exposure_def)

lemma budgets_hold_shrink:
  "budgets_hold d \<Longrightarrow> d_runs d' = d_runs d \<Longrightarrow> (\<And>n. exposure d' n \<le> exposure d n) \<Longrightarrow> budgets_hold d'"
  unfolding budgets_hold_exposure by (metis order_trans)

definition store_inv :: "(string \<Rightarrow> string) \<Rightarrow> db \<Rightarrow> bool" where
  "store_inv sha d \<longleftrightarrow> rows_ok sha d \<and> budgets_hold d"

text \<open>Operations on other tables leave every amount alone.\<close>

lemma amounts_frame [simp]:
  "spent_in (d\<lparr>d_principals := x\<rparr>) n = spent_in d n" "held_in (d\<lparr>d_principals := x\<rparr>) n = held_in d n"
  "overrun_in (d\<lparr>d_principals := x\<rparr>) n = overrun_in d n"
  "spent_in (d\<lparr>d_leases := y\<rparr>) n = spent_in d n" "held_in (d\<lparr>d_leases := y\<rparr>) n = held_in d n"
  "overrun_in (d\<lparr>d_leases := y\<rparr>) n = overrun_in d n"
  "spent_in (d\<lparr>d_events := z\<rparr>) n = spent_in d n" "held_in (d\<lparr>d_events := z\<rparr>) n = held_in d n"
  "overrun_in (d\<lparr>d_events := z\<rparr>) n = overrun_in d n"
proof -
  have "settlement_overrun (d\<lparr>d_principals := x\<rparr>) ids = settlement_overrun d ids"
    "settlement_overrun (d\<lparr>d_leases := y\<rparr>) ids = settlement_overrun d ids"
    "settlement_overrun (d\<lparr>d_events := z\<rparr>) ids = settlement_overrun d ids" for ids
    by (simp_all add: settlement_overrun_def find_reservation_def fun_eq_iff)
  then show
    "spent_in (d\<lparr>d_principals := x\<rparr>) n = spent_in d n" "held_in (d\<lparr>d_principals := x\<rparr>) n = held_in d n"
    "overrun_in (d\<lparr>d_principals := x\<rparr>) n = overrun_in d n"
    "spent_in (d\<lparr>d_leases := y\<rparr>) n = spent_in d n" "held_in (d\<lparr>d_leases := y\<rparr>) n = held_in d n"
    "overrun_in (d\<lparr>d_leases := y\<rparr>) n = overrun_in d n"
    "spent_in (d\<lparr>d_events := z\<rparr>) n = spent_in d n" "held_in (d\<lparr>d_events := z\<rparr>) n = held_in d n"
    "overrun_in (d\<lparr>d_events := z\<rparr>) n = overrun_in d n"
    by (simp_all add: spent_in_def held_in_def overrun_in_def costs_in_def holds_in_def)
qed

lemma exposure_frame [simp]:
  "exposure (d\<lparr>d_principals := x\<rparr>) n = exposure d n"
  "exposure (d\<lparr>d_leases := y\<rparr>) n = exposure d n"
  "exposure (d\<lparr>d_events := z\<rparr>) n = exposure d n"
  by (simp_all add: exposure_def)

lemma store_inv_frame [simp]:
  "store_inv sha (d\<lparr>d_principals := x\<rparr>) = store_inv sha d"
  "store_inv sha (d\<lparr>d_leases := y\<rparr>) = store_inv sha d"
  "store_inv sha (d\<lparr>d_events := z\<rparr>) = store_inv sha d"
  by (simp_all add: store_inv_def rows_ok_def budgets_hold_def find_reservation_def)

lemma insert_run_ok:
  "insert_run r d = Inr d' \<Longrightarrow> d' = d\<lparr>d_runs := d_runs d @ [r]\<rparr> \<and> 0 \<le> run_budget r \<and>
     run_id r \<notin> run_id ` set (d_runs d) \<and> (run_parent r = [] \<or> run_parent r \<in> run_id ` set (d_runs d))"
  by (auto simp: insert_run_def run_checks_def dest: find_run_Some_id split: if_splits)

lemma exposure_insert_run:
  assumes rows: "rows_ok sha d" and "insert_run r d = Inr d'"
  shows "n \<noteq> run_id r \<Longrightarrow> exposure d' n = exposure d n" and "exposure d' (run_id r) \<le> 0"
proof -
  note new = insert_run_ok [OF assms(2)]
  then have d': "d' = d\<lparr>d_runs := d_runs d @ [r]\<rparr>" by blast
  have wf: "runs_wf (d_runs d @ [r])" using rows new by (auto simp: rows_ok_def runs_wf_snoc)
  note ids = subtree_ids_snoc [OF wf]
  show "exposure d' n = exposure d n" if "n \<noteq> run_id r"
    using amounts_cong [OF rows, of d' n n] ids that by (simp add: exposure_def d')
  have "x \<notin> set (subtree_ids (d_runs d') (run_id r))" if "x \<in> run_id ` set (d_runs d)" for x
    using ids [OF that] by (simp add: d')
  from no_amounts [OF rows this] show "exposure d' (run_id r) \<le> 0"
    using overrun_nonneg [of d' "run_id r"] by (simp add: exposure_def d')
qed

lemma insert_run_preserves:
  assumes rows: "rows_ok sha d" and "insert_run r d = Inr d'" "run_budget r \<le> max_i64"
  shows "rows_ok sha d'" and "budgets_hold d \<Longrightarrow> budgets_hold d'"
proof -
  note new = insert_run_ok [OF assms(2)]
  have wf: "runs_wf (d_runs d @ [r])" using rows new by (auto simp: rows_ok_def runs_wf_snoc)
  show "rows_ok sha d'"
    using rows wf new assms(3) by (auto simp: rows_ok_def find_reservation_def)
  show "budgets_hold d'" if budgets: "budgets_hold d"
    unfolding budgets_hold_exposure
  proof
    fix q assume "q \<in> set (d_runs d')"
    then consider "q = r" | "q \<in> set (d_runs d)" using new by auto
    then show "run_budget q = 0 \<or> exposure d' (run_id q) \<le> run_budget q"
    proof cases
      case 1
      then show ?thesis using exposure_insert_run(2) [OF assms(1,2)] new by simp
    next
      case 2
      then have "run_id q \<noteq> run_id r" using new by (metis image_eqI)
      with 2 show ?thesis using exposure_insert_run(1) [OF assms(1,2)] budgets by (simp add: budgets_hold_exposure)
    qed
  qed
qed

lemma store_inv_insert_run:
  "store_inv sha d \<Longrightarrow> insert_run r d = Inr d' \<Longrightarrow> run_budget r \<le> max_i64 \<Longrightarrow> store_inv sha d'"
  using insert_run_preserves by (auto simp: store_inv_def)

text \<open>Changing rows of runs without their identifier, parent or budget.\<close>

lemma map_runs_preserves:
  assumes rows: "rows_ok sha d"
    and f: "\<And>r. run_id (f r) = run_id r \<and> run_parent (f r) = run_parent r \<and> run_budget (f r) = run_budget r"
  shows "rows_ok sha (d\<lparr>d_runs := map f (d_runs d)\<rparr>)"
    and "parent_rel (map f (d_runs d)) = parent_rel (d_runs d)"
    and "exposure (d\<lparr>d_runs := map f (d_runs d)\<rparr>) n = exposure d n"
    and "budgets_hold d \<Longrightarrow> budgets_hold (d\<lparr>d_runs := map f (d_runs d)\<rparr>)"
proof -
  let ?d = "d\<lparr>d_runs := map f (d_runs d)\<rparr>"
  have "(c, p) \<in> parent_rel (map f (d_runs d)) \<longleftrightarrow> (c, p) \<in> parent_rel (d_runs d)" for c p
    by (simp add: in_parent_rel f)
  then show rel: "parent_rel (map f (d_runs d)) = parent_rel (d_runs d)" by auto
  have ids: "run_id ` set (map f (d_runs d)) = run_id ` set (d_runs d)" by (simp add: image_image f)
  have first: "parents_first seen (map f rs) = parents_first seen rs" for seen rs
    by (induction rs arbitrary: seen) (simp_all add: f)
  then have wf: "runs_wf (map f (d_runs d))" "runs_wf (d_runs d)" using rows by (simp_all add: rows_ok_def runs_wf_def)
  have same: "x \<in> set (subtree_ids (d_runs ?d) n) \<longleftrightarrow> x \<in> set (subtree_ids (d_runs d) n)" for x n
    using set_subtree_ids [OF wf(1)] set_subtree_ids [OF wf(2)] by (simp add: rel ids del: set_map)
  show "rows_ok sha ?d"
    using rows wf ids f by (simp add: rows_ok_def find_reservation_def)
  show exp: "exposure ?d n = exposure d n" for n
    using amounts_cong [OF rows same] by (simp add: exposure_def)
  show "budgets_hold ?d" if "budgets_hold d"
    using that exp f by (simp add: budgets_hold_exposure)
qed

lemma store_inv_map_runs:
  assumes "store_inv sha d"
    and "\<And>r. run_id (f r) = run_id r \<and> run_parent (f r) = run_parent r \<and> run_budget (f r) = run_budget r"
  shows "store_inv sha (d\<lparr>d_runs := map f (d_runs d)\<rparr>)"
  using map_runs_preserves [of sha d f] assms by (simp add: store_inv_def)

text \<open>Resolving holds: only pending rows change, to a terminal status.\<close>

lemma find_map_key:
  "(\<And>x. k (f x) = k x) \<Longrightarrow> find (\<lambda>x. k x = i) (map f xs) = map_option f (find (\<lambda>x. k x = i) xs)"
  by (induction xs) auto

lemma find_reservation_set_status:
  "find_reservation (set_status P s now d) i =
     map_option (\<lambda>r. if P r then r\<lparr>rv_status := s, rv_resolved := Some now\<rparr> else r) (find_reservation d i)"
  by (simp add: find_reservation_def set_status_def find_map_key [where k = rv_id])

lemma holds_set_status:
  assumes "s \<noteq> ReservationPending" "\<And>r. r \<in> set rs \<Longrightarrow> 0 \<le> rv_amount r"
  shows "sum_list (map rv_amount (filter (\<lambda>r. rv_status r = ReservationPending \<and> Q (rv_run r))
        (map (\<lambda>r. if P r then r\<lparr>rv_status := s, rv_resolved := t\<rparr> else r) rs)))
    \<le> sum_list (map rv_amount (filter (\<lambda>r. rv_status r = ReservationPending \<and> Q (rv_run r)) rs))"
  using assms by (induction rs) (auto simp: add_increasing)

lemma set_status_fields [simp]:
  "d_runs (set_status P s now d) = d_runs d" "d_ledger (set_status P s now d) = d_ledger d"
  "d_settlements (set_status P s now d) = d_settlements d"
  "d_principals (set_status P s now d) = d_principals d" "d_leases (set_status P s now d) = d_leases d"
  by (simp_all add: set_status_def)

lemma set_status_ids [simp]: "map rv_id (d_reservations (set_status P s now d)) = map rv_id (d_reservations d)"
  by (simp add: set_status_def)

lemma set_status_rows:
  "q \<in> set (d_reservations (set_status P s now d)) \<Longrightarrow>
     \<exists>r \<in> set (d_reservations d). rv_id q = rv_id r \<and> rv_run q = rv_run r \<and> rv_lease q = rv_lease r \<and> rv_amount q = rv_amount r"
  by (auto simp: set_status_def)

lemma rows_ok_set_status:
  assumes "rows_ok sha d" "\<And>r. P r \<Longrightarrow> rv_status r = ReservationPending" "s \<noteq> ReservationPending"
  shows "rows_ok sha (set_status P s now d)"
proof -
  have "distinct (map rv_id (d_reservations (set_status P s now d)))"
    and "\<forall>r \<in> set (d_reservations (set_status P s now d)). 0 \<le> rv_amount r \<and> rv_run r \<in> run_id ` set (d_runs d)"
    using assms(1) by (auto simp: rows_ok_def set_status_def comp_def if_distrib [of rv_id] cong: if_cong)
  then show ?thesis
    using assms(1,2) by (fastforce simp: rows_ok_def find_reservation_set_status)
qed

lemma exposure_set_status:
  assumes rows: "rows_ok sha d" and "\<And>r. P r \<Longrightarrow> rv_status r = ReservationPending" "s \<noteq> ReservationPending"
  shows "exposure (set_status P s now d) n \<le> exposure d n"
proof -
  let ?d = "set_status P s now d"
  have "spent_in ?d n = spent_in d n" by (simp add: spent_in_def costs_in_def)
  moreover have "held_in ?d n \<le> held_in d n"
    using holds_set_status [OF assms(3), of "d_reservations d" "\<lambda>x. x \<in> set (subtree_ids (d_runs d) n)" P "Some now"] rows
    by (simp add: held_in_def holds_in_def rows_ok_def) (simp add: set_status_def)
  moreover have "settlement_overrun ?d ids st = settlement_overrun d ids st" if st: "st \<in> set (d_settlements d)" for ids st
  proof -
    obtain r where r: "find_reservation d (st_reservation st) = Some r" "rv_status r \<in> {ReservationSettled, ReservationExpired}"
      using rows st by (auto simp: rows_ok_def)
    then have "\<not> P r" using assms(2) by auto
    then show ?thesis using r(1) by (simp add: settlement_overrun_def find_reservation_set_status)
  qed
  then have "overrun_in ?d n = overrun_in d n" by (simp add: overrun_in_def cong: map_cong)
  ultimately show ?thesis by (simp add: exposure_def)
qed

lemma store_inv_set_status:
  assumes "store_inv sha d" "\<And>r. P r \<Longrightarrow> rv_status r = ReservationPending" "s \<noteq> ReservationPending"
  shows "store_inv sha (set_status P s now d)"
proof -
  have rows: "rows_ok sha d" and budgets: "budgets_hold d" using assms(1) by (simp_all add: store_inv_def)
  have "budgets_hold (set_status P s now d)"
    by (rule budgets_hold_shrink [OF budgets _ exposure_set_status [OF rows assms(2,3)]]) simp
  then show ?thesis using rows_ok_set_status [OF rows assms(2,3)] by (simp add: store_inv_def)
qed

text \<open>A granted hold, enforced: every level of the hierarchy had room for it.\<close>

lemma find_append_none: "find P xs = None \<Longrightarrow> find P (xs @ ys) = find P ys"
  by (induction xs) auto

lemma find_append_some: "find P xs = Some y \<Longrightarrow> find P (xs @ ys) = Some y"
  by (induction xs) auto

lemma find_key_none: "find (\<lambda>x. k x = i) xs = None \<longleftrightarrow> i \<notin> k ` set xs"
  by (auto simp: find_None_iff_ball)

lemma rows_ok_settlement:
  assumes "rows_ok sha d" "st \<in> set (d_settlements d)"
  obtains q where "find_reservation d (st_reservation st) = Some q" "rv_status q \<in> {ReservationSettled, ReservationExpired}"
    "st_seq st \<in> e_seq ` set (d_ledger d)"
  using assms unfolding rows_ok_def by blast

lemma amounts_reserve:
  assumes "rows_ok sha d" "rv_status r = ReservationPending"
  defines "d' \<equiv> d\<lparr>d_reservations := d_reservations d @ [r]\<rparr>"
  shows "spent_in d' n = spent_in d n"
    and "held_in d' n = held_in d n + (if rv_run r \<in> set (subtree_ids (d_runs d) n) then rv_amount r else 0)"
    and "overrun_in d' n = overrun_in d n"
proof -
  show "spent_in d' n = spent_in d n" by (simp add: d'_def spent_in_def costs_in_def)
  show "held_in d' n = held_in d n + (if rv_run r \<in> set (subtree_ids (d_runs d) n) then rv_amount r else 0)"
    using assms(2) by (simp add: d'_def held_in_def holds_in_def)
  have "settlement_overrun d' ids st = settlement_overrun d ids st" if "st \<in> set (d_settlements d)" for ids st
  proof -
    obtain q where "find_reservation d (st_reservation st) = Some q"
      using rows_ok_settlement [OF assms(1) \<open>st \<in> set (d_settlements d)\<close>] by blast
    moreover from this have "find_reservation d' (st_reservation st) = Some q"
      by (simp add: find_reservation_def d'_def find_append_some)
    ultimately show ?thesis by (simp add: settlement_overrun_def d'_def)
  qed
  then show "overrun_in d' n = overrun_in d n" by (simp add: overrun_in_def d'_def cong: map_cong)
qed

lemma rows_ok_reserve:
  assumes "rows_ok sha d" "0 \<le> rv_amount r" "rv_run r \<in> run_id ` set (d_runs d)" "rv_id r \<notin> rv_id ` set (d_reservations d)"
  shows "rows_ok sha (d\<lparr>d_reservations := d_reservations d @ [r]\<rparr>)"
proof -
  have "find_reservation (d\<lparr>d_reservations := d_reservations d @ [r]\<rparr>) i = Some q" if "find_reservation d i = Some q" for i q
    using that by (simp add: find_reservation_def find_append_some)
  then show ?thesis using assms by (fastforce simp: rows_ok_def)
qed

lemma store_inv_try_reserve:
  assumes "store_inv sha d" "try_reserve r True d = Some (Inr (dec, d'))"
  shows "store_inv sha d'"
proof (cases "bd_allowed dec")
  case False
  have "d' = d" by (rule try_reserve_cases [OF assms(2)]) (use False in simp)
  with assms(1) show ?thesis by simp
next
  case True
  have rows: "rows_ok sha d" and budgets: "budgets_hold d" using assms(1) by (simp_all add: store_inv_def)
  then have wf: "runs_wf (d_runs d)" by (simp add: rows_ok_def)
  obtain chain where g: "ancestors (d_runs d) (rv_run r) = Some chain"
    "d' = d\<lparr>d_reservations := d_reservations d @ [r]\<rparr>" "0 \<le> rv_amount r" "rv_status r = ReservationPending"
    "rv_run r \<in> run_id ` set (d_runs d)" "rv_id r \<notin> rv_id ` set (d_reservations d)"
    and room: "\<forall>n \<in> set chain. run_budget n = 0 \<or>
       rv_amount r \<le> remaining_of (run_budget n) (spent_in d (run_id n)) (held_in d (run_id n))"
    using try_reserve_granted [OF wf assms(2) True] by metis
  have "rows_ok sha d'" using rows_ok_reserve [OF rows g(3,5,6)] by (simp add: g(2))
  moreover have "budgets_hold d'"
    unfolding budgets_hold_def
  proof
    fix q assume "q \<in> set (d_runs d')"
    then have q: "q \<in> set (d_runs d)" by (simp add: g(2))
    note amounts = amounts_reserve [OF rows g(4), folded g(2)]
    have old: "run_budget q = 0 \<or> spent_in d (run_id q) + held_in d (run_id q) \<le> run_budget q + overrun_in d (run_id q)"
      using budgets q by (simp add: budgets_hold_def)
    show "run_budget q = 0 \<or> spent_in d' (run_id q) + held_in d' (run_id q) \<le> run_budget q + overrun_in d' (run_id q)"
    proof (cases "rv_run r \<in> set (subtree_ids (d_runs d) (run_id q)) \<and> run_budget q \<noteq> 0 \<and> 0 < rv_amount r")
      case True
      then have "run_id q \<in> run_id ` set chain"
        using ancestors_set(1) [OF wf g(1,5)] set_subtree_ids [OF wf] by blast
      then obtain n where "n \<in> set chain" "run_id n = run_id q" by auto
      moreover have "n \<in> set (d_runs d)" using ancestors_set(2) [OF wf g(1,5)] \<open>n \<in> set chain\<close> by blast
      ultimately have "q \<in> set chain" using runs_wf_distinct [OF wf] q by (metis inj_onD distinct_map)
      then have "rv_amount r \<le> remaining_of (run_budget q) (spent_in d (run_id q)) (held_in d (run_id q))"
        using room True by blast
      then have "spent_in d (run_id q) + held_in d (run_id q) + rv_amount r \<le> run_budget q"
        using True rows q spent_nonneg [OF rows] held_nonneg [OF rows]
        by (intro remaining_of_bound) (auto simp: rows_ok_def)
      then show ?thesis using amounts True overrun_nonneg [of d "run_id q"] by simp
    next
      case False
      then show ?thesis using old amounts g(3) by auto
    qed
  qed
  ultimately show ?thesis by (simp add: store_inv_def)
qed

section \<open>Settlement\<close>

text \<open>What a settlement that appends does: one row, one link, and the hold resolved if it was still pending.\<close>

lemma settle_cases:
  assumes "settle_reservation sha now i e d = Inr (sealed, d')" "rows_ok sha d"
    and "int (length (d_ledger d)) < max_i64"
  obtains (prior) s where "find (\<lambda>s. st_reservation s = i) (d_settlements d) = Some s"
      "find (\<lambda>f. e_seq f = st_seq s) (d_ledger d) = Some sealed" "d' = d"
  | (fresh) r row where "find (\<lambda>s. st_reservation s = i) (d_settlements d) = None"
      "find_reservation d i = Some r" "rv_status r = ReservationPending \<or> rv_status r = ReservationExpired"
      "e_run row = rv_run r" "e_cost row = e_cost e" "0 \<le> e_cost e" "e_seq row = e_seq sealed"
      "e_seq row = int (Suc (length (d_ledger d)))" "e_hash row = e_hash sealed" "ledger_ok sha (d_ledger d @ [row])"
      "d' = (let d2 = d\<lparr>d_ledger := d_ledger d @ [row],
                d_settlements := d_settlements d @ [\<lparr>st_reservation = i, st_seq = e_seq sealed, st_created = now\<rparr>]\<rparr>
        in if rv_status r = ReservationPending then set_status (\<lambda>q. rv_id q = i) ReservationSettled now d2 else d2)"
proof (cases "find (\<lambda>s. st_reservation s = i) (d_settlements d)")
  case (Some s)
  then show thesis using assms(1)
    by (intro prior) (auto simp: settle_reservation_def entry_by_seq_def split: option.splits sum.splits)
next
  case None
  obtain r where r: "find_reservation d i = Some r"
    using assms(1) None by (auto simp: settle_reservation_def split: option.splits)
  have guard: "e_run e = rv_run r" "rv_status r = ReservationPending \<or> rv_status r = ReservationExpired"
    using assms(1) None r by (auto simp: settle_reservation_def split: if_splits)
  obtain d1 where d1: "append_ledger_tx sha now e d = Inr (sealed, d1)"
    using assms(1) None r guard by (auto simp: settle_reservation_def split: sum.splits if_splits)
  obtain row where row: "d1 = d\<lparr>d_ledger := d_ledger d @ [row]\<rparr>" "ledger_ok sha (d_ledger d @ [row])"
    "e_cost row = e_cost e" "0 \<le> e_cost e" "e_run row = e_run e" "e_seq row = e_seq sealed"
    "e_seq row = int (Suc (length (d_ledger d)))" "e_hash row = e_hash sealed"
    using append_ledger_tx_ok [OF d1] assms(2,3) unfolding rows_ok_def by metis
  obtain d2 where d2: "insert_settlement \<lparr>st_reservation = i, st_seq = e_seq sealed, st_created = now\<rparr> d1 = Inr d2"
    using assms(1) None r guard d1 by (auto simp: settle_reservation_def split: sum.splits)
  then have "d2 = d1\<lparr>d_settlements := d_settlements d1 @ [\<lparr>st_reservation = i, st_seq = e_seq sealed, st_created = now\<rparr>]\<rparr>"
    by (auto simp: insert_settlement_def split: if_splits)
  moreover have "d' = (if rv_status r = ReservationPending then set_status (\<lambda>q. rv_id q = i) ReservationSettled now d2 else d2)"
    using assms(1) None r guard d1 d2 by (auto simp: settle_reservation_def)
  ultimately show thesis
    using None r guard row by (intro fresh [of r row]) (simp_all add: Let_def)
qed

text \<open>The held amount of one pending row leaves the sums when the row is resolved.\<close>

lemma holds_resolve_one:
  assumes "distinct (map rv_id rs)" "r \<in> set rs" "rv_id r = i" "rv_status r = ReservationPending" "s \<noteq> ReservationPending"
  shows "sum_list (map rv_amount (filter (\<lambda>r. rv_status r = ReservationPending \<and> Q (rv_run r))
        (map (\<lambda>r. if rv_id r = i then r\<lparr>rv_status := s, rv_resolved := t\<rparr> else r) rs)))
    = sum_list (map rv_amount (filter (\<lambda>r. rv_status r = ReservationPending \<and> Q (rv_run r)) rs))
      - (if Q (rv_run r) then rv_amount r else 0)"
  using assms(1,2)
proof (induction rs)
  case (Cons q rs)
  have other: "map (\<lambda>r. if rv_id r = i then r\<lparr>rv_status := s, rv_resolved := t\<rparr> else r) rs = rs" if "i \<notin> rv_id ` set rs"
    using that by (intro map_idI) auto
  show ?case
  proof (cases "q = r")
    case True
    then have "i \<notin> rv_id ` set rs" using Cons.prems(1) assms(3) by auto
    from other [OF this] show ?thesis using True assms(3-5) by simp
  next
    case False
    then have "r \<in> set rs" "rv_id q \<noteq> i" using Cons.prems assms(3) by auto
    then show ?thesis using Cons by auto
  qed
qed simp

lemma find_seq_append:
  assumes "n \<in> e_seq ` set es"
  shows "find (\<lambda>e. e_seq e = n) (es @ [row]) = find (\<lambda>e. e_seq e = n) es"
  using assms find_append_some [of "\<lambda>e. e_seq e = n" es] by (cases "find (\<lambda>e. e_seq e = n) es") (auto simp: find_None_iff_ball)

lemma numbered_fresh: "numbered es \<Longrightarrow> int (Suc (length es)) \<notin> e_seq ` set es"
proof -
  assume "numbered es"
  then have "e_seq ` set es = set (map int [1..<Suc (length es)])" by (metis list.set_map numbered_def)
  then show ?thesis by auto
qed

text \<open>The tables after a settlement, and the rows its links lead to.\<close>

lemma settle_effect:
  assumes rows: "rows_ok sha d" and "settle_reservation sha now i e d = Inr (sealed, d')"
    and "int (length (d_ledger d)) < max_i64"
  obtains (prior) "d' = d"
  | (fresh) r row st where "r \<in> set (d_reservations d)" "rv_id r = i"
      "rv_status r = ReservationPending \<or> rv_status r = ReservationExpired"
      "e_run row = rv_run r" "e_cost row = e_cost e" "0 \<le> e_cost e" "ledger_ok sha (d_ledger d @ [row])"
      "e_seq row \<notin> e_seq ` set (d_ledger d)" "st_reservation st = i" "st_seq st = e_seq row"
      "d_runs d' = d_runs d" "d_ledger d' = d_ledger d @ [row]" "d_settlements d' = d_settlements d @ [st]"
      "d_reservations d' = map (\<lambda>q. if rv_id q = i \<and> rv_status r = ReservationPending
         then q\<lparr>rv_status := ReservationSettled, rv_resolved := Some now\<rparr> else q) (d_reservations d)"
      "\<forall>s \<in> set (d_settlements d). find_reservation d' (st_reservation s) = find_reservation d (st_reservation s)"
      "find_reservation d' i = Some (if rv_status r = ReservationPending
         then r\<lparr>rv_status := ReservationSettled, rv_resolved := Some now\<rparr> else r)"
  using assms(2) rows assms(3)
proof (cases rule: settle_cases)
  case prior
  with that(1) show thesis by blast
next
  case (fresh r row)
  let ?P = "\<lambda>q. rv_id q = i \<and> rv_status r = ReservationPending"
  define d2 where "d2 = d\<lparr>d_ledger := d_ledger d @ [row],
    d_settlements := d_settlements d @ [\<lparr>st_reservation = i, st_seq = e_seq sealed, st_created = now\<rparr>]\<rparr>"
  have d2: "d' = (if rv_status r = ReservationPending then set_status (\<lambda>q. rv_id q = i) ReservationSettled now d2 else d2)"
    using fresh(11) unfolding d2_def Let_def .
  have d': "d' = set_status ?P ReservationSettled now d2"
  proof (cases "rv_status r = ReservationPending")
    case False
    then show ?thesis using d2 by (simp add: set_status_def)
  qed (use d2 in simp)
  have r: "r \<in> set (d_reservations d)" "rv_id r = i" using find_reservation_SomeD [OF fresh(2)] by simp_all
  have same: "find_reservation d2 j = find_reservation d j" for j by (simp add: d2_def find_reservation_def)
  have "find_reservation d' j = find_reservation d j" if "j \<noteq> i" for j
    using that find_reservation_SomeD [of d j] unfolding d' find_reservation_set_status same
    by (cases "find_reservation d j") auto
  moreover have "st_reservation s \<noteq> i" if "s \<in> set (d_settlements d)" for s
    using fresh(1) that by (auto simp: find_None_iff_ball)
  ultimately have others: "\<forall>s \<in> set (d_settlements d). find_reservation d' (st_reservation s) = find_reservation d (st_reservation s)"
    by blast
  have new: "find_reservation d' i = Some (if rv_status r = ReservationPending
      then r\<lparr>rv_status := ReservationSettled, rv_resolved := Some now\<rparr> else r)"
    using fresh(2) r(2) unfolding d' find_reservation_set_status same by simp
  have seq: "e_seq row \<notin> e_seq ` set (d_ledger d)"
    using rows fresh(8) numbered_fresh [of "d_ledger d"] by (simp add: rows_ok_def ledger_ok_def)
  show thesis
    by (rule that(2) [of r row "\<lparr>st_reservation = i, st_seq = e_seq sealed, st_created = now\<rparr>", OF r fresh(3-6,10) seq])
      (use others new fresh(7) in \<open>simp_all add: d' d2_def set_status_def\<close>)
qed

lemma settle_rows_ok:
  assumes rows: "rows_ok sha d" and "settle_reservation sha now i e d = Inr (sealed, d')"
    and "int (length (d_ledger d)) < max_i64"
  shows "rows_ok sha d'"
  using assms
proof (cases rule: settle_effect)
  case (fresh r row st)
  have "rv_run r \<in> run_id ` set (d_runs d)" using rows fresh(1) by (auto simp: rows_ok_def)
  moreover have "map rv_id (d_reservations d') = map rv_id (d_reservations d)"
    by (simp add: fresh(14) cong: if_cong)
  moreover have "\<forall>q \<in> set (d_reservations d'). 0 \<le> rv_amount q \<and> rv_run q \<in> run_id ` set (d_runs d)"
    using rows by (auto simp: rows_ok_def fresh(14))
  moreover have "\<exists>q. find_reservation d' (st_reservation s) = Some q \<and> rv_status q \<in> {ReservationSettled, ReservationExpired}"
    "st_seq s \<in> e_seq ` set (d_ledger d')" if "s \<in> set (d_settlements d')" for s
    using that rows fresh(3,9,10,15,16) by (auto simp: fresh(12,13) rows_ok_def)
  ultimately show ?thesis
    using rows fresh(4-7) unfolding rows_ok_def by (auto simp: fresh(11,12))
qed (use rows in simp)

lemma settle_exposure:
  assumes rows: "rows_ok sha d" and "settle_reservation sha now i e d = Inr (sealed, d')"
    and "int (length (d_ledger d)) < max_i64"
  shows "exposure d' n \<le> exposure d n"
  using assms
proof (cases rule: settle_effect)
  case (fresh r row st)
  let ?ids = "subtree_ids (d_runs d) n"
  let ?pending = "rv_status r = ReservationPending"
  have spent: "spent_in d' n = spent_in d n + (if rv_run r \<in> set ?ids then e_cost e else 0)"
    using fresh(4,5) by (simp add: spent_in_def costs_in_def fresh(11,12))
  have held: "held_in d' n = held_in d n - (if rv_run r \<in> set ?ids \<and> ?pending then rv_amount r else 0)"
  proof (cases ?pending)
    case True
    have "distinct (map rv_id (d_reservations d))" using rows by (simp add: rows_ok_def)
    from holds_resolve_one [OF this fresh(1,2) True, of ReservationSettled "\<lambda>x. x \<in> set ?ids" "Some now"] True
    show ?thesis by (simp add: held_in_def holds_in_def fresh(11,14))
  qed (simp add: held_in_def holds_in_def fresh(11,14))
  have "settlement_overrun d' ?ids s = settlement_overrun d ?ids s" if "s \<in> set (d_settlements d)" for s
  proof -
    have "st_seq s \<in> e_seq ` set (d_ledger d)" by (rule rows_ok_settlement [OF rows that])
    from find_seq_append [OF this] show ?thesis using fresh(15) that by (simp add: settlement_overrun_def fresh(12))
  qed
  moreover have "find (\<lambda>f. e_seq f = e_seq row) (d_ledger d @ [row]) = Some row"
    using fresh(8) find_append_none [of "\<lambda>f. e_seq f = e_seq row" "d_ledger d" "[row]"] by (simp add: find_key_none [where k = e_seq])
  then have "settlement_overrun d' ?ids st =
      (if rv_run r \<in> set ?ids then max 0 (e_cost e - (if ?pending then rv_amount r else 0)) else 0)"
    using fresh(3-5,9,10,16) by (auto simp: settlement_overrun_def uncovered_def fresh(12))
  ultimately have "overrun_in d' n = overrun_in d n +
      (if rv_run r \<in> set ?ids then max 0 (e_cost e - (if ?pending then rv_amount r else 0)) else 0)"
    by (simp add: overrun_in_def fresh(11,13) cong: map_cong)
  with spent held show ?thesis by (auto simp: exposure_def)
qed simp

lemma settle_runs:
  assumes "rows_ok sha d" "settle_reservation sha now i e d = Inr (sealed, d')" "int (length (d_ledger d)) < max_i64"
  shows "d_runs d' = d_runs d"
  using assms by (cases rule: settle_effect) simp_all

lemma settle_preserves:
  assumes rows: "rows_ok sha d" and "settle_reservation sha now i e d = Inr (sealed, d')"
    and "int (length (d_ledger d)) < max_i64"
  shows "rows_ok sha d' \<and> (budgets_hold d \<longrightarrow> budgets_hold d')"
  using settle_rows_ok [OF assms] budgets_hold_shrink [OF _ settle_runs [OF assms] settle_exposure [OF assms]] by blast

lemma store_inv_settle:
  "store_inv sha d \<Longrightarrow> settle_reservation sha now i e d = Inr (sealed, d') \<Longrightarrow>
     int (length (d_ledger d)) < max_i64 \<Longrightarrow> store_inv sha d'"
  using settle_preserves by (auto simp: store_inv_def)

end
