(* ===== verification/Reports.thy ===== *)
theory Reports
  imports Enforcement
begin

text \<open>
  What the dashboard reads from the SQL store: refused-budget events and the operator timeline
  (\<open>operational.go\<close>), and the totals per principal and per run (\<open>summary.go\<close>).
\<close>

section \<open>Budget events\<close>

definition record_budget_event :: "budget_event \<Rightarrow> db \<Rightarrow> store_error + db" where
  "record_budget_event e d =
     (if be_requested e < 0 \<or> be_remaining e < 0 \<or> be_shortfall e < 0 then Inl ErrConflict
      else if find_principal d (be_principal e) = None then Inl ErrNotFound
      else if find_run (d_runs d) (be_run e) = None then Inl ErrNotFound
      else if be_lease e \<noteq> [] \<and> find_lease d (be_lease e) = None then Inl ErrNotFound
      else Inr (d\<lparr>d_events := d_events d @ [e]\<rparr>))"

section \<open>The operator timeline\<close>

datatype event_kind =
  EventAllowed | EventBudgetBlocked | EventBudgetWouldBlock | EventLeaseRevoked | EventLeaseExpired | EventKindOther string

fun valid_event_kind :: "event_kind \<Rightarrow> bool" where
  "valid_event_kind (EventKindOther _) = False"
| "valid_event_kind _ = True"

record operational_event =
  oe_kind :: event_kind
  oe_principal :: string
  oe_principal_name :: string
  oe_run :: string
  oe_lease :: string
  oe_provider :: string
  oe_model :: string
  oe_amount :: nanos
  oe_remaining :: nanos
  oe_created :: instant

record event_filter =
  ef_principal :: string
  ef_kinds :: "event_kind list"
  ef_query :: string
  ef_since :: instant
  ef_limit :: int

definition replace_all :: "char \<Rightarrow> string \<Rightarrow> string \<Rightarrow> string" where
  "replace_all c r s = concat (map (\<lambda>d. if d = c then r else [d]) s)"

definition escape_like :: "string \<Rightarrow> string" where
  "escape_like s =
     replace_all CHR ''_'' [CHR 0x5C, CHR ''_''] (replace_all CHR ''%'' [CHR 0x5C, CHR ''%'']
       (replace_all CHR 0x5C [CHR 0x5C, CHR 0x5C] s))"

text \<open>SQLite's LIKE with the backslash as escape character: letters match without case in ASCII.\<close>

definition same_letter :: "char \<Rightarrow> char \<Rightarrow> bool" where
  "same_letter c d \<longleftrightarrow> to_lower [c] = to_lower [d]"

fun like :: "string \<Rightarrow> string \<Rightarrow> bool" where
  "like [] s \<longleftrightarrow> s = []"
| "like (c # p) [] \<longleftrightarrow> c = CHR ''%'' \<and> like p []"
| "like (c # p) (d # s) \<longleftrightarrow>
     (if c = CHR ''%'' then like p (d # s) \<or> like (c # p) s
      else if c = CHR ''_'' then like p s
      else if c = CHR 0x5C then (case p of [] \<Rightarrow> False | e # q \<Rightarrow> same_letter e d \<and> like q s)
      else same_letter c d \<and> like p s)"

text \<open>The four parts of the UNION, each row with its order key.\<close>

definition charge_events :: "db \<Rightarrow> (int \<times> operational_event) list" where
  "charge_events d = concat (map (\<lambda>e. case find_principal d (e_principal e) of None \<Rightarrow> [] | Some p \<Rightarrow>
     [(e_seq e, \<lparr>oe_kind = EventAllowed, oe_principal = e_principal e, oe_principal_name = pr_name p, oe_run = e_run e,
        oe_lease = [], oe_provider = e_provider e, oe_model = e_model e, oe_amount = e_cost e, oe_remaining = 0,
        oe_created = e_created e\<rparr>)]) (d_ledger d))"

definition budget_block_events :: "db \<Rightarrow> (int \<times> operational_event) list" where
  "budget_block_events d = concat (map (\<lambda>(k, b). case find_principal d (be_principal b) of None \<Rightarrow> [] | Some p \<Rightarrow>
     [(int k, \<lparr>oe_kind = (if be_enforced b then EventBudgetBlocked else EventBudgetWouldBlock),
        oe_principal = be_principal b, oe_principal_name = pr_name p, oe_run = be_run b, oe_lease = be_lease b,
        oe_provider = be_provider b, oe_model = be_model b, oe_amount = be_requested b,
        oe_remaining = be_remaining b, oe_created = be_created b\<rparr>)]) (enumerate 1 (d_events d)))"

definition lease_event :: "db \<Rightarrow> event_kind \<Rightarrow> instant \<Rightarrow> nat \<Rightarrow> lease \<Rightarrow> (int \<times> operational_event) list" where
  "lease_event d kind when k l =
     (case find_run (d_runs d) (ls_run l) of
        None \<Rightarrow> []
      | Some r \<Rightarrow>
          (case find_principal d (run_principal r) of
             None \<Rightarrow> []
           | Some p \<Rightarrow>
               [(int k, \<lparr>oe_kind = kind, oe_principal = pr_id p, oe_principal_name = pr_name p, oe_run = run_id r,
                  oe_lease = ls_id l, oe_provider = encode_providers (ls_providers l), oe_model = [],
                  oe_amount = ls_ceiling l, oe_remaining = 0, oe_created = when\<rparr>)]))"

definition lease_events :: "db \<Rightarrow> instant \<Rightarrow> (int \<times> operational_event) list" where
  "lease_events d now =
     concat (map (\<lambda>(k, l). case ls_revoked l of None \<Rightarrow> [] | Some t \<Rightarrow> lease_event d EventLeaseRevoked t k l)
       (enumerate 1 (d_leases d))) @
     concat (map (\<lambda>(k, l). if ls_revoked l = None \<and> time_le (ls_expires l) now
         then lease_event d EventLeaseExpired (ls_expires l) k l else []) (enumerate 1 (d_leases d)))"

definition event_order :: "int \<times> operational_event \<Rightarrow> int \<times> operational_event \<Rightarrow> bool" where
  "event_order x y \<longleftrightarrow>
     format_time (oe_created (snd y)) < format_time (oe_created (snd x)) \<or>
     format_time (oe_created (snd x)) = format_time (oe_created (snd y)) \<and> fst y \<le> fst x"

interpretation event_order: comparison event_order
  by unfold_locales (auto simp: event_order_def)

definition event_matches :: "event_filter \<Rightarrow> operational_event \<Rightarrow> bool" where
  "event_matches f e \<longleftrightarrow>
     (ef_principal f = [] \<or> oe_principal e = ef_principal f) \<and>
     (ef_kinds f = [] \<or> oe_kind e \<in> set (ef_kinds f)) \<and>
     (ef_query f = [] \<or>
        (let pattern = CHR ''%'' # escape_like (ef_query f) @ [CHR ''%'']
         in like pattern (oe_run e) \<or> like pattern (oe_lease e))) \<and>
     (time_is_zero (ef_since f) \<or> time_le (ef_since f) (oe_created e))"

definition clamp_limit :: "int \<Rightarrow> int" where
  "clamp_limit n = (let n = (if n \<le> 0 then 20 else n) in if 200 < n then 200 else n)"

definition recent_operational_events :: "event_filter \<Rightarrow> instant \<Rightarrow> db \<Rightarrow> store_error + operational_event list" where
  "recent_operational_events f now d =
     (if \<not> list_all valid_event_kind (ef_kinds f) then Inl ErrInternal
      else (let rows = charge_events d @ budget_block_events d @ lease_events d now
            in Inr (take (nat (clamp_limit (ef_limit f)))
                 (map snd (sort_by event_order (filter (\<lambda>(_, e). event_matches f e) rows))))))"

section \<open>Totals\<close>

definition max_time :: "instant list \<Rightarrow> instant option" where
  "max_time ts = (case ts of [] \<Rightarrow> None | t # ts \<Rightarrow> Some (foldl (\<lambda>a b. if time_less a b then b else a) t ts))"

record principal_summary =
  ps_principal :: principal
  ps_spend :: nanos
  ps_entries :: nat
  ps_estimated :: nat
  ps_runs :: nat
  ps_over_budget :: nat
  ps_active_leases :: nat
  ps_revoked_leases :: nat
  ps_expired_leases :: nat
  ps_blocks :: nat
  ps_would_block :: nat
  ps_last_event :: "instant option"
  ps_last_activity :: "instant option"

definition charges_of :: "db \<Rightarrow> string \<Rightarrow> entry list" where
  "charges_of d p = filter (\<lambda>e. e_principal e = p) (d_ledger d)"

definition charges_of_run :: "db \<Rightarrow> string \<Rightarrow> entry list" where
  "charges_of_run d r = filter (\<lambda>e. e_run e = r) (d_ledger d)"

definition over_budget_run :: "db \<Rightarrow> run \<Rightarrow> bool" where
  "over_budget_run d r \<longleftrightarrow>
     charges_of_run d (run_id r) \<noteq> [] \<and> 0 < run_budget r \<and> run_budget r < sum_list (map e_cost (charges_of_run d (run_id r)))"

definition leases_of :: "db \<Rightarrow> string \<Rightarrow> lease list" where
  "leases_of d p = filter (\<lambda>l. case find_run (d_runs d) (ls_run l) of None \<Rightarrow> False | Some r \<Rightarrow> run_principal r = p) (d_leases d)"

text \<open>The loop over the four nullable times keeps the latest, compared as instants.\<close>

definition latest :: "instant option list \<Rightarrow> instant option" where
  "latest ts = foldl (\<lambda>a b. case b of None \<Rightarrow> a | Some t \<Rightarrow>
     (case a of None \<Rightarrow> Some t | Some u \<Rightarrow> if u < t then Some t else Some u)) None ts"

definition summarise :: "instant \<Rightarrow> db \<Rightarrow> principal \<Rightarrow> principal_summary" where
  "summarise now d p =
     (let es = charges_of d (pr_id p); ls = leases_of d (pr_id p);
          bs = filter (\<lambda>b. be_principal b = pr_id p) (d_events d);
          runs = filter (\<lambda>r. run_principal r = pr_id p) (d_runs d);
          expired = filter (\<lambda>l. ls_revoked l = None \<and> time_le (ls_expires l) now) ls;
          last_activity = max_time (map e_created es)
      in \<lparr>ps_principal = p\<lparr>pr_key_hash := []\<rparr>, ps_spend = sum_list (map e_cost es), ps_entries = length es,
          ps_estimated = length (filter e_estimated es), ps_runs = length runs,
          ps_over_budget = length (filter (over_budget_run d) runs),
          ps_active_leases = length (filter (\<lambda>l. ls_revoked l = None \<and> time_less now (ls_expires l)) ls),
          ps_revoked_leases = length (filter (\<lambda>l. ls_revoked l \<noteq> None) ls),
          ps_expired_leases = length expired,
          ps_blocks = length (filter be_enforced bs), ps_would_block = length (filter (\<lambda>b. \<not> be_enforced b) bs),
          ps_last_event = latest [last_activity, max_time (List.map_filter ls_revoked ls),
            max_time (map ls_expires expired), max_time (map be_created bs)],
          ps_last_activity = last_activity\<rparr>)"

definition by_spend :: "('a \<Rightarrow> nanos) \<Rightarrow> ('a \<Rightarrow> instant) \<Rightarrow> ('a \<Rightarrow> string) \<Rightarrow> 'a \<Rightarrow> 'a \<Rightarrow> bool" where
  "by_spend spend created key x y \<longleftrightarrow> spend y < spend x \<or> spend x = spend y \<and> oldest_first created key x y"

interpretation by_spend: comparison "by_spend spend created key"
  by unfold_locales (auto simp: by_spend_def oldest_first_def)

text \<open>The grouped sums fail together when one of them leaves the int64 range.\<close>

definition sums_fit :: "db \<Rightarrow> bool" where
  "sums_fit d \<longleftrightarrow>
     list_all (\<lambda>e. in_i64 (sum_list (map e_cost (charges_of d (e_principal e)))) \<and>
       in_i64 (sum_list (map e_cost (charges_of_run d (e_run e))))) (d_ledger d)"

definition principal_summaries :: "instant \<Rightarrow> db \<Rightarrow> store_error + principal_summary list" where
  "principal_summaries now d =
     (if \<not> sums_fit d then Inl ErrInternal
      else Inr (sort_by (by_spend ps_spend (pr_created \<circ> ps_principal) (pr_id \<circ> ps_principal))
        (map (summarise now d) (d_principals d))))"

record run_summary =
  rs_run :: run
  rs_spend :: nanos
  rs_entries :: nat
  rs_last_activity :: "instant option"

definition rs_over_budget :: "run_summary \<Rightarrow> bool" where
  "rs_over_budget s \<longleftrightarrow> 0 < run_budget (rs_run s) \<and> run_budget (rs_run s) < rs_spend s"

definition summarise_run :: "db \<Rightarrow> run \<Rightarrow> run_summary" where
  "summarise_run d r =
     (let es = charges_of_run d (run_id r)
      in \<lparr>rs_run = r, rs_spend = sum_list (map e_cost es), rs_entries = length es,
          rs_last_activity = max_time (map e_created es)\<rparr>)"

definition run_summaries :: "db \<Rightarrow> string \<Rightarrow> store_error + run_summary list" where
  "run_summaries d p =
     (if \<not> list_all (\<lambda>e. in_i64 (sum_list (map e_cost (charges_of_run d (e_run e))))) (d_ledger d) then Inl ErrInternal
      else Inr (sort_by (by_spend rs_spend (run_created \<circ> rs_run) (run_id \<circ> rs_run))
        (map (summarise_run d) (filter (\<lambda>r. run_principal r = p) (d_runs d)))))"

section \<open>Searching by a literal text\<close>

lemma escape_like_Cons: "escape_like (c # s) =
  (if c \<in> {CHR 0x5C, CHR ''%'', CHR ''_''} then [CHR 0x5C, c] else [c]) @ escape_like s"
  by (auto simp: escape_like_def replace_all_def)

lemma escape_like_Nil [simp]: "escape_like [] = []"
  by (simp add: escape_like_def replace_all_def)

lemma like_percent: "like (CHR ''%'' # p) s \<longleftrightarrow> (\<exists>a b. s = a @ b \<and> like p b)"
proof (induction s)
  case (Cons d s)
  have "(\<exists>a b. d # s = a @ b \<and> like p b) \<longleftrightarrow> like p (d # s) \<or> (\<exists>a b. s = a @ b \<and> like p b)"
    by (auto simp: Cons_eq_append_conv)
  then show ?case using Cons by simp
qed simp

lemma like_all: "like [CHR ''%''] s"
  by (simp add: like_percent)

lemma like_escaped:
  "like (escape_like q @ p) s \<longleftrightarrow> (\<exists>a b. s = a @ b \<and> to_lower a = to_lower q \<and> like p b)"
proof (induction q arbitrary: s)
  case Nil
  show ?case by (simp add: to_lower_def)
next
  case (Cons c q)
  have step: "like (escape_like (c # q) @ p) s \<longleftrightarrow> (\<exists>d t. s = d # t \<and> same_letter c d \<and> like (escape_like q @ p) t)"
    by (cases s) (auto simp: escape_like_Cons)
  show ?case
  proof
    assume "like (escape_like (c # q) @ p) s"
    then obtain d a b where "s = d # a @ b" "same_letter c d" "to_lower a = to_lower q" "like p b"
      using step Cons.IH by blast
    then show "\<exists>a b. s = a @ b \<and> to_lower a = to_lower (c # q) \<and> like p b"
      by (intro exI [of _ "d # a"] exI [of _ b]) (auto simp: same_letter_def to_lower_def)
  next
    assume "\<exists>a b. s = a @ b \<and> to_lower a = to_lower (c # q) \<and> like p b"
    then obtain a b where ab: "s = a @ b" "to_lower a = to_lower (c # q)" "like p b" by blast
    then obtain d a' where "a = d # a'" by (cases a) (auto simp: to_lower_def)
    with ab show "like (escape_like (c # q) @ p) s"
      unfolding step Cons.IH by (auto simp: same_letter_def to_lower_def)
  qed
qed

lemma like_literal:
  "like (CHR ''%'' # escape_like q @ [CHR ''%'']) s \<longleftrightarrow> (\<exists>a m b. s = a @ m @ b \<and> to_lower m = to_lower q)"
  by (auto simp: like_percent like_escaped like_all)

end
