(* ===== verification/StoreSystem.thy ===== *)
theory StoreSystem
  imports Reports
begin

text \<open>
  The SQL store as a whole: every operation that changes the database as a labelled step, the databases
  reachable from the empty one, and the invariants that hold in all of them. A failing operation
  rolls back, so it makes no step. In one process the mutexes of the code make the operations atomic, so
  the interleavings of concurrent callers are the sequences of steps; \<open>Isolation\<close> takes a reservation
  apart for several processes.
\<close>

datatype store_op =
    OpCreatePrincipal principal
  | OpOnboard principal run lease
  | OpSetMode string mode
  | OpCreateRun run
  | OpCloseRun instant string
  | OpCreateLease lease
  | OpRevokeLease instant string
  | OpRevokePrincipal instant string
  | OpCreateReservation reservation
  | OpTryReserve reservation bool
  | OpResolve instant string reservation_status
  | OpExpire instant
  | OpSettle instant string entry
  | OpAppend instant entry
  | OpBudgetEvent budget_event

inductive store_step :: "(string \<Rightarrow> string) \<Rightarrow> db \<Rightarrow> store_op \<Rightarrow> db \<Rightarrow> bool" for sha where
  step_create_principal: "create_principal p d = Inr d' \<Longrightarrow> store_step sha d (OpCreatePrincipal p) d'"
| step_onboard: "create_principal_run_lease p r l d = Inr d' \<Longrightarrow> store_step sha d (OpOnboard p r l) d'"
| step_set_mode: "set_principal_mode i m d = Inr d' \<Longrightarrow> store_step sha d (OpSetMode i m) d'"
| step_create_run: "create_run r d = Inr d' \<Longrightarrow> store_step sha d (OpCreateRun r) d'"
| step_close_run: "close_run now i d = Inr d' \<Longrightarrow> store_step sha d (OpCloseRun now i) d'"
| step_create_lease: "create_lease l d = Some (Inr d') \<Longrightarrow> store_step sha d (OpCreateLease l) d'"
| step_revoke_lease: "revoke_lease now i d = Inr d' \<Longrightarrow> store_step sha d (OpRevokeLease now i) d'"
| step_revoke_principal: "revoke_leases_for_principal now i d = (n, d') \<Longrightarrow> store_step sha d (OpRevokePrincipal now i) d'"
| step_create_reservation: "create_reservation r d = Inr d' \<Longrightarrow> store_step sha d (OpCreateReservation r) d'"
| step_try_reserve: "try_reserve r enforce d = Some (Inr (dec, d')) \<Longrightarrow> store_step sha d (OpTryReserve r enforce) d'"
| step_resolve: "resolve_reservation now i s d = Inr d' \<Longrightarrow> store_step sha d (OpResolve now i s) d'"
| step_expire: "expire_pending_reservations now d = (n, d') \<Longrightarrow> store_step sha d (OpExpire now) d'"
| step_settle: "settle_reservation sha now i e d = Inr (sealed, d') \<Longrightarrow> store_step sha d (OpSettle now i e) d'"
| step_append: "append_ledger sha now e d = Inr (sealed, d') \<Longrightarrow> store_step sha d (OpAppend now e) d'"
| step_budget_event: "record_budget_event b d = Inr d' \<Longrightarrow> store_step sha d (OpBudgetEvent b) d'"

inductive_cases store_stepE: "store_step sha d op d'"

text \<open>
  The arguments are int64 amounts, and a database never holds \<open>2^63 - 1\<close> ledger rows. \<open>evolves\<close> takes
  the set of operations that may occur; the reachable databases evolve from the empty one.
\<close>

fun typed_op :: "store_op \<Rightarrow> bool" where
  "typed_op (OpOnboard p r l) \<longleftrightarrow> run_budget r \<le> max_i64"
| "typed_op (OpCreateRun r) \<longleftrightarrow> run_budget r \<le> max_i64"
| "typed_op _ \<longleftrightarrow> True"

inductive evolves :: "(string \<Rightarrow> string) \<Rightarrow> (store_op \<Rightarrow> bool) \<Rightarrow> db \<Rightarrow> db \<Rightarrow> bool" for sha allowed d0 where
  evolves_refl: "evolves sha allowed d0 d0"
| evolves_step: "evolves sha allowed d0 d \<Longrightarrow> allowed op \<Longrightarrow> typed_op op \<Longrightarrow>
    int (length (d_ledger d)) < max_i64 \<Longrightarrow> store_step sha d op d' \<Longrightarrow> evolves sha allowed d0 d'"

definition reachable :: "(string \<Rightarrow> string) \<Rightarrow> (store_op \<Rightarrow> bool) \<Rightarrow> db \<Rightarrow> bool" where
  "reachable sha allowed d \<longleftrightarrow> evolves sha allowed empty_db d"

text \<open>What the gateway does for a principal in enforce mode: every hold goes through an enforced \<open>TryReserve\<close>.\<close>

fun enforced_op :: "store_op \<Rightarrow> bool" where
  "enforced_op (OpCreateReservation r) \<longleftrightarrow> False"
| "enforced_op (OpTryReserve r enforce) \<longleftrightarrow> enforce"
| "enforced_op (OpAppend now e) \<longleftrightarrow> False"
| "enforced_op _ \<longleftrightarrow> True"

text \<open>What the surfaces that manage the gateway do: no hold and no row of the books is theirs to touch.\<close>

fun management_op :: "store_op \<Rightarrow> bool" where
  "management_op (OpCreateReservation r) \<longleftrightarrow> False"
| "management_op (OpTryReserve r enforce) \<longleftrightarrow> False"
| "management_op (OpResolve now i s) \<longleftrightarrow> False"
| "management_op (OpExpire now) \<longleftrightarrow> False"
| "management_op (OpSettle now i e) \<longleftrightarrow> False"
| "management_op (OpAppend now e) \<longleftrightarrow> False"
| "management_op (OpBudgetEvent b) \<longleftrightarrow> False"
| "management_op _ \<longleftrightarrow> True"

lemma management_enforced: "management_op op \<Longrightarrow> enforced_op op"
  by (cases op) simp_all

section \<open>Frames of the operations\<close>

lemma insert_principal_ok: "insert_principal p d = Inr d' \<Longrightarrow> \<exists>ps. d' = d\<lparr>d_principals := ps\<rparr>"
  by (auto simp: insert_principal_def split: if_splits)

lemma insert_lease_ok: "insert_lease l d = Inr d' \<Longrightarrow> \<exists>ls. d' = d\<lparr>d_leases := ls\<rparr>"
  by (auto simp: insert_lease_def split: if_splits)

lemma create_run_insert: "create_run r d = Inr d' \<Longrightarrow> insert_run r d = Inr d'"
  by (auto simp: create_run_def split: if_splits option.splits)

lemma onboard_parts:
  assumes "create_principal_run_lease p r l d = Inr d'"
  obtains ps d2 ls where "insert_run r (d\<lparr>d_principals := ps\<rparr>) = Inr d2" "d' = d2\<lparr>d_leases := ls\<rparr>"
proof -
  obtain d1 d2 where "insert_principal p d = Inr d1" "insert_run r d1 = Inr d2" "insert_lease l d2 = Inr d'"
    using assms by (auto simp: create_principal_run_lease_def split: if_splits sum.splits)
  then show thesis using that insert_principal_ok insert_lease_ok by metis
qed

lemma resolve_ok:
  "resolve_reservation now i s d = Inr d' \<Longrightarrow>
     d' = set_status (\<lambda>r. rv_id r = i \<and> rv_status r = ReservationPending) s now d \<and> s \<noteq> ReservationPending"
  by (auto simp: resolve_reservation_def split: if_splits option.splits)

lemma close_row_keeps: "run_id (close_row now i r) = run_id r \<and> run_parent (close_row now i r) = run_parent r \<and>
  run_budget (close_row now i r) = run_budget r"
  by (simp add: close_row_def)

section \<open>The invariants\<close>

lemma step_store_inv:
  assumes "store_step sha d op d'" "store_inv sha d" "enforced_op op" "typed_op op" "int (length (d_ledger d)) < max_i64"
  shows "store_inv sha d'"
  using assms(1)
proof (cases rule: store_step.cases)
  case (step_create_principal p)
  then show ?thesis using assms(2) insert_principal_ok by (fastforce simp: create_principal_def split: if_splits)
next
  case (step_onboard p r l)
  then obtain ps d2 ls where "insert_run r (d\<lparr>d_principals := ps\<rparr>) = Inr d2" "d' = d2\<lparr>d_leases := ls\<rparr>"
    using onboard_parts by blast
  then show ?thesis using assms(2,4) step_onboard store_inv_insert_run [of sha "d\<lparr>d_principals := ps\<rparr>" r d2] by simp
next
  case (step_set_mode i m)
  then show ?thesis using assms(2) by (auto simp: set_principal_mode_def split: if_splits sum.splits)
next
  case (step_create_run r)
  then show ?thesis using store_inv_insert_run [OF assms(2) create_run_insert] assms(4) by simp
next
  case (step_close_run now i)
  then show ?thesis
    using store_inv_map_runs [OF assms(2) close_row_keeps] by (auto simp: close_run_def split: if_splits)
next
  case (step_create_lease l)
  then show ?thesis using assms(2) insert_lease_ok by (fastforce simp: create_lease_def split: option.splits if_splits)
next
  case (step_revoke_lease now i)
  then show ?thesis using assms(2) by (auto simp: revoke_lease_def split: if_splits)
next
  case (step_revoke_principal now i n)
  then show ?thesis using assms(2) by (auto simp: revoke_leases_for_principal_def)
next
  case (step_try_reserve r enforce dec)
  then show ?thesis using assms(2,3) store_inv_try_reserve by simp
next
  case (step_resolve now i s)
  note r = resolve_ok [OF step_resolve(2)]
  show ?thesis
    unfolding r [THEN conjunct1] by (rule store_inv_set_status [OF assms(2)]) (use r in auto)
next
  case (step_expire now n)
  then show ?thesis
    using store_inv_set_status [OF assms(2), of "expirable now"] by (auto simp: expire_pending_reservations_def expirable_def)
next
  case (step_settle now i e sealed)
  then show ?thesis using store_inv_settle [OF assms(2) _ assms(5)] by simp
next
  case (step_budget_event b)
  then show ?thesis using assms(2) by (auto simp: record_budget_event_def split: if_splits)
qed (use assms(3) in simp_all)

lemma rows_ok_frame [simp]:
  "rows_ok sha (d\<lparr>d_principals := x\<rparr>) = rows_ok sha d"
  "rows_ok sha (d\<lparr>d_leases := y\<rparr>) = rows_ok sha d"
  "rows_ok sha (d\<lparr>d_events := z\<rparr>) = rows_ok sha d"
  by (simp_all add: rows_ok_def find_reservation_def)

lemma rows_ok_append:
  assumes "rows_ok sha d" "append_ledger_tx sha now e d = Inr (sealed, d')" "int (length (d_ledger d)) < max_i64"
  shows "rows_ok sha d'"
proof -
  have ok: "ledger_ok sha (d_ledger d)" using assms(1) by (simp add: rows_ok_def)
  obtain row where "d' = d\<lparr>d_ledger := d_ledger d @ [row]\<rparr>" "ledger_ok sha (d_ledger d @ [row])"
    "e_cost row = e_cost e" "0 \<le> e_cost e" "e_run row = e_run e" "e_run e \<in> run_id ` set (d_runs d)"
    by (rule append_ledger_tx_ok [OF assms(2) ok assms(3)])
  then show ?thesis using assms(1) by (auto simp: rows_ok_def find_reservation_def)
qed

lemma rows_ok_create_reservation:
  "rows_ok sha d \<Longrightarrow> create_reservation r d = Inr d' \<Longrightarrow> rows_ok sha d'"
  using create_reservation_ok [of r d d'] rows_ok_reserve [of sha d r] by simp

lemma rows_ok_try_reserve:
  assumes "rows_ok sha d" "try_reserve r enforce d = Some (Inr (dec, d'))"
  shows "rows_ok sha d'"
  by (rule try_reserve_cases [OF assms(2)]) (use assms(1) rows_ok_create_reservation in \<open>auto split: if_splits\<close>)

lemma step_rows_ok:
  assumes "store_step sha d op d'" "rows_ok sha d" "typed_op op" "int (length (d_ledger d)) < max_i64"
  shows "rows_ok sha d'"
  using assms(1)
proof (cases rule: store_step.cases)
  case (step_create_principal p)
  then show ?thesis using assms(2) insert_principal_ok by (fastforce simp: create_principal_def split: if_splits)
next
  case (step_onboard p r l)
  then obtain ps d2 ls where "insert_run r (d\<lparr>d_principals := ps\<rparr>) = Inr d2" "d' = d2\<lparr>d_leases := ls\<rparr>"
    using onboard_parts by blast
  then show ?thesis using assms(2,3) step_onboard insert_run_preserves(1) [of sha "d\<lparr>d_principals := ps\<rparr>" r d2] by simp
next
  case (step_set_mode i m)
  then show ?thesis using assms(2) by (auto simp: set_principal_mode_def split: if_splits sum.splits)
next
  case (step_create_run r)
  then show ?thesis using insert_run_preserves(1) [OF assms(2) create_run_insert] assms(3) by simp
next
  case (step_close_run now i)
  then show ?thesis
    using map_runs_preserves(1) [OF assms(2) close_row_keeps] by (auto simp: close_run_def split: if_splits)
next
  case (step_create_lease l)
  then show ?thesis using assms(2) insert_lease_ok by (fastforce simp: create_lease_def split: option.splits if_splits)
next
  case (step_revoke_lease now i)
  then show ?thesis using assms(2) by (auto simp: revoke_lease_def split: if_splits)
next
  case (step_revoke_principal now i n)
  then show ?thesis using assms(2) by (auto simp: revoke_leases_for_principal_def)
next
  case (step_create_reservation r)
  then show ?thesis using assms(2) rows_ok_create_reservation by blast
next
  case (step_try_reserve r enforce dec)
  then show ?thesis using assms(2) rows_ok_try_reserve by blast
next
  case (step_resolve now i s)
  note r = resolve_ok [OF step_resolve(2)]
  show ?thesis
    unfolding r [THEN conjunct1] by (rule rows_ok_set_status [OF assms(2)]) (use r in auto)
next
  case (step_expire now n)
  then show ?thesis
    using rows_ok_set_status [OF assms(2), of "expirable now"] by (auto simp: expire_pending_reservations_def expirable_def)
next
  case (step_settle now i e sealed)
  then show ?thesis using settle_preserves [OF assms(2) _ assms(4)] by blast
next
  case (step_append now e sealed)
  then show ?thesis using rows_ok_append [OF assms(2) _ assms(4)] by (simp add: append_ledger_def)
next
  case (step_budget_event b)
  then show ?thesis using assms(2) by (auto simp: record_budget_event_def split: if_splits)
qed

lemma empty_db_inv: "store_inv sha empty_db"
  by (simp add: store_inv_def rows_ok_def budgets_hold_def empty_db_def runs_wf_def)

lemma evolves_rows_ok: "evolves sha allowed d0 d \<Longrightarrow> rows_ok sha d0 \<Longrightarrow> rows_ok sha d"
  by (induction rule: evolves.induct) (use step_rows_ok in blast)+

lemma reachable_rows_ok: "reachable sha allowed d \<Longrightarrow> rows_ok sha d"
  using evolves_rows_ok empty_db_inv unfolding reachable_def store_inv_def by blast

lemma evolves_store_inv: "evolves sha enforced_op d0 d \<Longrightarrow> store_inv sha d0 \<Longrightarrow> store_inv sha d"
  by (induction rule: evolves.induct) (use step_store_inv in blast)+

lemma reachable_store_inv: "reachable sha enforced_op d \<Longrightarrow> store_inv sha d"
  using evolves_store_inv empty_db_inv unfolding reachable_def by blast

section \<open>The ledger only grows\<close>

text \<open>The operations that leave the ledger and the settlements alone.\<close>

abbreviation same_books :: "db \<Rightarrow> db \<Rightarrow> bool" where
  "same_books d d' \<equiv> d_ledger d' = d_ledger d \<and> d_settlements d' = d_settlements d"

lemma inserts_keep_ledger:
  "insert_principal p d = Inr d' \<Longrightarrow> same_books d d'"
  "insert_run r d = Inr d' \<Longrightarrow> same_books d d'"
  "insert_lease l d = Inr d' \<Longrightarrow> same_books d d'"
  by (auto simp: insert_principal_def insert_run_def insert_lease_def split: if_splits)

lemma onboard_keeps_ledger: "create_principal_run_lease p r l d = Inr d' \<Longrightarrow> same_books d d'"
  by (auto simp: create_principal_run_lease_def inserts_keep_ledger split: if_splits sum.splits)

lemma create_lease_keeps_ledger: "create_lease l d = Some (Inr d') \<Longrightarrow> same_books d d'"
  by (auto simp: create_lease_def inserts_keep_ledger split: if_splits option.splits)

lemma try_reserve_keeps_ledger: "try_reserve r enforce d = Some (Inr (dec, d')) \<Longrightarrow> same_books d d'"
  by (erule try_reserve_cases) (auto dest: create_reservation_ok split: if_splits)

lemma simple_ops_keep_ledger:
  "create_principal p d = Inr d' \<Longrightarrow> same_books d d'"
  "set_principal_mode i m d = Inr d' \<Longrightarrow> same_books d d'"
  "close_run now i d = Inr d' \<Longrightarrow> same_books d d'"
  "revoke_lease now i d = Inr d' \<Longrightarrow> same_books d d'"
  "revoke_leases_for_principal now i d = (n, d') \<Longrightarrow> same_books d d'"
  "expire_pending_reservations now d = (n, d') \<Longrightarrow> same_books d d'"
  "record_budget_event b d = Inr d' \<Longrightarrow> same_books d d'"
  by (auto simp: create_principal_def inserts_keep_ledger set_principal_mode_def close_run_def revoke_lease_def
      revoke_leases_for_principal_def expire_pending_reservations_def record_budget_event_def
      split: if_splits sum.splits)

lemmas keeps_ledger = onboard_keeps_ledger create_lease_keeps_ledger try_reserve_keeps_ledger simple_ops_keep_ledger
  inserts_keep_ledger(2) [OF create_run_insert]

lemma step_books_grow:
  assumes "store_step sha d op d'" "rows_ok sha d" "int (length (d_ledger d)) < max_i64"
  shows "\<exists>new links. d_ledger d' = d_ledger d @ new \<and> length new \<le> 1 \<and> d_settlements d' = d_settlements d @ links"
proof -
  have led: "ledger_ok sha (d_ledger d)" using assms(2) by (simp add: rows_ok_def)
  show ?thesis
    using assms(1)
  proof (cases rule: store_step.cases)
    case (step_settle now i e sealed)
    from step_settle(2) assms(2,3) show ?thesis
    proof (cases rule: settle_cases)
      case (fresh r row)
      then show ?thesis by (auto simp: Let_def)
    qed simp
  next
    case (step_append now e sealed)
    then have "append_ledger_tx sha now e d = Inr (sealed, d')" by (simp add: append_ledger_def)
    then obtain row where "d' = d\<lparr>d_ledger := d_ledger d @ [row]\<rparr>"
      by (rule append_ledger_tx_ok [OF _ led assms(3)])
    then show ?thesis by simp
  next
    case (step_resolve now i s)
    then show ?thesis using resolve_ok [OF step_resolve(2)] by simp
  next
    case (step_create_reservation r)
    then show ?thesis using create_reservation_ok [OF step_create_reservation(2)] by simp
  qed (simp_all add: keeps_ledger)
qed

lemma evolves_books_grow:
  "evolves sha allowed d0 d \<Longrightarrow> rows_ok sha d0 \<Longrightarrow>
     \<exists>new links. d_ledger d = d_ledger d0 @ new \<and> d_settlements d = d_settlements d0 @ links"
proof (induction rule: evolves.induct)
  case (evolves_step d op d')
  then have "rows_ok sha d" using evolves_rows_ok by blast
  then obtain new links where "d_ledger d' = d_ledger d @ new" "d_settlements d' = d_settlements d @ links"
    using step_books_grow evolves_step.hyps by blast
  then show ?case using evolves_step by fastforce
qed simp

section \<open>Settling again\<close>

text \<open>A settlement row stays, so a repeated settlement finds it and answers the first charge.\<close>

lemma settle_leaves_link:
  assumes "settle_reservation sha now i e d = Inr (sealed, d')" "rows_ok sha d" "int (length (d_ledger d)) < max_i64"
  shows "\<exists>s row. find (\<lambda>s. st_reservation s = i) (d_settlements d') = Some s \<and>
    find (\<lambda>f. e_seq f = st_seq s) (d_ledger d') = Some row \<and> e_seq row = e_seq sealed \<and> e_hash row = e_hash sealed"
  using assms
proof (cases rule: settle_cases)
  case (prior s)
  then show ?thesis by simp
next
  case (fresh r row)
  have "e_seq row \<notin> e_seq ` set (d_ledger d)"
    using assms(2) fresh(8) numbered_fresh [of "d_ledger d"] by (simp add: rows_ok_def ledger_ok_def)
  then have "find (\<lambda>f. e_seq f = e_seq sealed) (d_ledger d @ [row]) = Some row"
    using fresh(7) find_append_none [of "\<lambda>f. e_seq f = e_seq row" "d_ledger d" "[row]"]
    by (simp add: find_key_none [where k = e_seq])
  then show ?thesis using fresh by (auto simp: Let_def find_append_none)
qed

lemma settle_again:
  assumes "rows_ok sha d" "settle_reservation sha now i e d = Inr (sealed, d1)" "int (length (d_ledger d)) < max_i64"
    and "evolves sha allowed d1 d2"
  shows "\<exists>row. settle_reservation sha now' i e' d2 = Inr (row, d2) \<and> e_seq row = e_seq sealed \<and> e_hash row = e_hash sealed"
proof -
  obtain s row where s: "find (\<lambda>s. st_reservation s = i) (d_settlements d1) = Some s"
    "find (\<lambda>f. e_seq f = st_seq s) (d_ledger d1) = Some row" "e_seq row = e_seq sealed" "e_hash row = e_hash sealed"
    using settle_leaves_link [OF assms(2,1,3)] by blast
  have "rows_ok sha d1" using settle_preserves [OF assms(1-3)] by blast
  then obtain new links where "d_ledger d2 = d_ledger d1 @ new" "d_settlements d2 = d_settlements d1 @ links"
    using evolves_books_grow [OF assms(4)] by blast
  with s show ?thesis
    by (simp add: settle_reservation_def entry_by_seq_def find_append_some)
qed

section \<open>Closing a run\<close>

definition closed_in :: "db \<Rightarrow> string \<Rightarrow> bool" where
  "closed_in d i \<longleftrightarrow> (\<exists>r \<in> set (d_runs d). run_id r = i \<and> run_status r = RunClosed)"

text \<open>Every operation keeps the runs it finds, except that it may close them.\<close>

definition runs_kept :: "db \<Rightarrow> db \<Rightarrow> bool" where
  "runs_kept d d' \<longleftrightarrow> (\<forall>r \<in> set (d_runs d). \<exists>q \<in> set (d_runs d'). run_id q = run_id r \<and> run_parent q = run_parent r \<and>
     run_principal q = run_principal r \<and> run_budget q = run_budget r \<and>
     (run_status q = run_status r \<or> run_status r = RunActive \<and> run_status q = RunClosed))"

lemma runs_kept_same: "d_runs d' = d_runs d \<Longrightarrow> runs_kept d d'"
  by (auto simp: runs_kept_def)

lemma runs_kept_append: "d_runs d' = d_runs d @ rs \<Longrightarrow> runs_kept d d'"
  by (auto simp: runs_kept_def)

lemma inserts_runs:
  "insert_principal p d = Inr d' \<Longrightarrow> d_runs d' = d_runs d"
  "insert_lease l d = Inr d' \<Longrightarrow> d_runs d' = d_runs d"
  "create_reservation r d = Inr d' \<Longrightarrow> d_runs d' = d_runs d"
  by (auto simp: insert_principal_def insert_lease_def create_reservation_def insert_reservation_def split: if_splits)

lemma settle_keeps_runs: "settle_reservation sha now i e d = Inr (sealed, d') \<Longrightarrow> d_runs d' = d_runs d"
proof -
  have "append_ledger_tx sha now e d = Inr (s, d1) \<Longrightarrow> d_runs d1 = d_runs d" for s d1
    by (auto simp: append_ledger_tx_def Let_def dest!: insert_entry_ok split: if_splits sum.splits prod.splits)
  moreover have "insert_settlement s d1 = Inr d2 \<Longrightarrow> d_runs d2 = d_runs d1" for s d1 d2
    by (auto simp: insert_settlement_def split: if_splits)
  ultimately show "settle_reservation sha now i e d = Inr (sealed, d') \<Longrightarrow> d_runs d' = d_runs d"
    by (fastforce simp: settle_reservation_def split: if_splits sum.splits option.splits prod.splits)
qed

lemma try_reserve_runs: "try_reserve r enforce d = Some (Inr (dec, d')) \<Longrightarrow> d_runs d' = d_runs d"
  by (auto elim!: try_reserve_cases dest: inserts_runs(3) split: if_splits)

lemma append_runs: "append_ledger sha now e d = Inr (sealed, d') \<Longrightarrow> d_runs d' = d_runs d"
  by (auto simp: append_ledger_def append_ledger_tx_def Let_def dest!: insert_entry_ok split: if_splits sum.splits prod.splits)

text \<open>What an operation does to the runs: nothing, a new row of its parent's principal, or a closed row.\<close>

lemma step_runs_cases:
  assumes "store_step sha d op d'"
  obtains (same) "d_runs d' = d_runs d"
  | (new) r where "d_runs d' = d_runs d @ [r]" "run_id r \<notin> run_id ` set (d_runs d)"
      "run_parent r = [] \<or> (\<exists>p. find_run (d_runs d) (run_parent r) = Some p \<and> run_principal p = run_principal r)"
  | (close) now i where "op = OpCloseRun now i" "d' = d\<lparr>d_runs := map (close_row now i) (d_runs d)\<rparr>"
  using assms
proof (cases rule: store_step.cases)
  case (step_onboard p r l)
  then obtain ps d2 ls where o: "insert_run r (d\<lparr>d_principals := ps\<rparr>) = Inr d2" "d' = d2\<lparr>d_leases := ls\<rparr>"
    using onboard_parts by blast
  have "run_parent r = []" using step_onboard by (auto simp: create_principal_run_lease_def split: if_splits)
  with insert_run_ok [OF o(1)] o(2) show thesis by (intro new [of r]) simp_all
next
  case (step_create_run r)
  have "run_parent r = [] \<or> (\<exists>p. find_run (d_runs d) (run_parent r) = Some p \<and> run_principal p = run_principal r)"
    using step_create_run(2) by (auto simp: create_run_def split: if_splits option.splits)
  with insert_run_ok [OF create_run_insert [OF step_create_run(2)]] show thesis by (intro new [of r]) simp_all
next
  case (step_close_run now i)
  then show thesis by (intro close) (auto simp: close_run_def split: if_splits)
next
  case (step_try_reserve r enforce dec)
  then show thesis using same try_reserve_runs by blast
next
  case (step_append now e sealed)
  then show thesis using same append_runs by blast
qed (auto intro!: same dest: settle_keeps_runs inserts_runs resolve_ok simp: create_principal_def set_principal_mode_def
    create_lease_def revoke_lease_def revoke_leases_for_principal_def expire_pending_reservations_def record_budget_event_def
    split: if_splits sum.splits option.splits)

lemma step_runs_kept:
  assumes "store_step sha d op d'"
  shows "runs_kept d d'"
  using assms
proof (cases rule: step_runs_cases)
  case (close now i)
  have "\<exists>q \<in> set (d_runs d'). run_id q = run_id r \<and> run_parent q = run_parent r \<and> run_principal q = run_principal r \<and>
      run_budget q = run_budget r \<and> (run_status q = run_status r \<or> run_status r = RunActive \<and> run_status q = RunClosed)"
    if "r \<in> set (d_runs d)" for r
    using that by (intro bexI [of _ "close_row now i r"]) (auto simp: close_row_def close(2))
  then show ?thesis by (simp add: runs_kept_def)
qed (auto intro: runs_kept_same runs_kept_append)

lemma evolves_runs_kept: "evolves sha allowed d0 d \<Longrightarrow> runs_kept d0 d"
proof (induction rule: evolves.induct)
  case (evolves_step d op d')
  have "runs_kept d d'" using step_runs_kept evolves_step.hyps by blast
  with evolves_step.IH show ?case unfolding runs_kept_def by (metis run_status.distinct(1))
qed (simp add: runs_kept_same)

lemma closed_stays: "evolves sha allowed d0 d \<Longrightarrow> closed_in d0 i \<Longrightarrow> closed_in d i"
  using evolves_runs_kept unfolding closed_in_def runs_kept_def by (metis run_status.distinct(1))

lemma close_run_closes:
  assumes "close_run now i d = Inr d'" "find_run (d_runs d) i = Some r" "run_status_valid (run_status r)"
  shows "closed_in d' i"
proof -
  have r: "r \<in> set (d_runs d)" "run_id r = i" using find_run_SomeD [OF assms(2)] by simp_all
  have "d_runs d' = map (close_row now i) (d_runs d)" using assms(1) by (auto simp: close_run_def split: if_splits)
  then have "close_row now i r \<in> set (d_runs d')" using r(1) by simp
  moreover have "run_id (close_row now i r) = i" "run_status (close_row now i r) = RunClosed"
    using r(2) assms(3) by (auto simp: close_row_def run_status_valid_def)
  ultimately show ?thesis unfolding closed_in_def by blast
qed

text \<open>No hold and no lease below a closed run.\<close>

lemma closed_ancestor_blocks:
  assumes "rows_ok sha d" "closed_in d i" "x \<in> set (subtree_ids (d_runs d) i)"
  shows "rv_run r = x \<Longrightarrow> try_reserve r enforce d \<noteq> Some (Inr res)"
    and "ls_run l = x \<Longrightarrow> create_lease l d = Some (Inl ErrConflict)"
proof -
  have wf: "runs_wf (d_runs d)" using assms(1) by (simp add: rows_ok_def)
  obtain c where c: "c \<in> set (d_runs d)" "run_id c = i" "run_status c = RunClosed"
    using assms(2) by (auto simp: closed_in_def)
  have path: "i \<in> run_id ` set (d_runs d)" "(x, i) \<in> (parent_rel (d_runs d))\<^sup>*"
    using set_subtree_ids [OF wf] assms(3) by auto
  then have x: "x \<in> run_id ` set (d_runs d)"
    by (metis converse_rtranclE parent_rank(3) wf)
  obtain chain where chain: "ancestors (d_runs d) x = Some chain" using ancestors_total [OF wf] by blast
  have "i \<in> run_id ` set chain" using ancestors_set(1) [OF wf chain x] path(2) by blast
  then obtain q where q: "q \<in> set chain" "run_id q = i" by auto
  then have "q \<in> set (d_runs d)" using ancestors_set(2) [OF wf chain x] by blast
  then have "q = c" using runs_wf_distinct [OF wf] q c by (metis distinct_map inj_onD)
  then have bad: "\<not> list_all (\<lambda>r. run_status r = RunActive) chain" "chain \<noteq> []"
    using q c by (auto simp: list_all_iff intro!: bexI [of _ c])
  show "try_reserve r enforce d \<noteq> Some (Inr res)" if "rv_run r = x"
  proof
    assume "try_reserve r enforce d = Some (Inr res)"
    then obtain dec d' where "try_reserve r enforce d = Some (Inr (dec, d'))" by (cases res) auto
    then obtain chain' dec1 where "ancestors (d_runs d) (rv_run r) = Some chain'"
      "budget_walk d (rv_amount r) chain' (new_decision r) = Some (Inr dec1)"
      by (rule try_reserve_cases)
    then have "budget_walk d (rv_amount r) chain (new_decision r) = Some (Inr dec1)" using chain that by simp
    then show False using budget_walk_active bad by (fastforce simp: list_all_iff)
  qed
  show "create_lease l d = Some (Inl ErrConflict)" if "ls_run l = x"
    using that chain bad by (simp add: create_lease_def)
qed

section \<open>The status a run's owner reads is the decision the gateway takes\<close>

definition fits :: "db \<Rightarrow> nanos \<Rightarrow> run \<Rightarrow> bool" where
  "fits d a n \<longleftrightarrow> run_budget n = 0 \<or> a \<le> remaining_of (run_budget n) (spent_in d (run_id n)) (held_in d (run_id n))"

lemma budget_walk_decision:
  assumes "runs_wf (d_runs d)" "budget_walk d a ns dec = Some (Inr dec')"
  shows "bd_would_block dec' \<longleftrightarrow> bd_would_block dec \<or> (\<exists>n \<in> set ns. \<not> fits d a n)"
  using assms(2)
proof (induction ns arbitrary: dec)
  case (Cons n ns)
  have active: "run_status n = RunActive" using Cons.prems by (auto split: if_splits)
  show ?case
  proof (cases "run_budget n = 0")
    case True
    then show ?thesis using Cons active by (auto simp: fits_def)
  next
    case False
    obtain s h where u: "subtree_usage d (run_id n) = Some (Inr (s, h))"
      using Cons.prems False active by (auto split: option.splits sum.splits)
    let ?dec = "note_block a (run_budget n) s h dec"
    let ?next = "if bd_would_block ?dec \<and> \<not> bd_would_block dec then ?dec\<lparr>bd_run := run_id n\<rparr> else ?dec"
    have "budget_walk d a ns ?next = Some (Inr dec')"
      using Cons.prems False active u by (simp add: Let_def)
    from Cons.IH [OF this] show ?thesis
      using False subtree_usage_ok [OF assms(1) u] by (auto simp: note_block_def Let_def fits_def)
  qed
qed simp

lemma status_walk_summary:
  assumes "runs_wf (d_runs d)" "status_walk d ns res = Some (Inr res')" "\<forall>n \<in> set ns. 0 \<le> run_budget n"
  shows "(bs_allowed res' \<longleftrightarrow> bs_allowed res \<and> (\<forall>n \<in> set ns. run_status n = RunActive)) \<and>
    (bs_unlimited res' \<or> a \<le> bs_remaining res' \<longleftrightarrow>
       (bs_unlimited res \<or> a \<le> bs_remaining res) \<and> (\<forall>n \<in> set ns. fits d a n))"
  using assms(2,3)
proof (induction ns arbitrary: res)
  case (Cons n ns)
  obtain s h where u: "subtree_usage d (run_id n) = Some (Inr (s, h))"
    using Cons.prems by (auto split: option.splits sum.splits)
  note used = subtree_usage_ok [OF assms(1) u]
  let ?res2 = "status_level n s h res"
  have walk: "status_walk d ns ?res2 = Some (Inr res')" using Cons.prems(1) u by simp
  have a2: "bs_allowed ?res2 \<longleftrightarrow> bs_allowed res \<and> run_status n = RunActive"
    by (simp add: status_level_def Let_def)
  have r2: "bs_unlimited ?res2 \<or> a \<le> bs_remaining ?res2 \<longleftrightarrow> (bs_unlimited res \<or> a \<le> bs_remaining res) \<and> fits d a n"
    using used Cons.prems(2) by (auto simp: status_level_def Let_def fits_def)
  show ?case
    using Cons.IH [OF walk] Cons.prems(2) a2 r2 by auto
qed simp

lemma decision_matches_status:
  assumes "rows_ok sha d" "try_reserve r True d = Some (Inr (dec, d'))" "rv_lease r = []"
    and "budget_status d (rv_run r) = Some (Inr st)"
  shows "bd_allowed dec \<longleftrightarrow> bs_allowed st \<and> (bs_unlimited st \<or> rv_amount r \<le> bs_remaining st)"
proof -
  have wf: "runs_wf (d_runs d)" using assms(1) by (simp add: rows_ok_def)
  obtain chain dec1 dec2 where c: "ancestors (d_runs d) (rv_run r) = Some chain" "chain \<noteq> []"
    "budget_walk d (rv_amount r) chain (new_decision r) = Some (Inr dec1)" "lease_check d r dec1 = Inr dec2"
    "dec = dec2\<lparr>bd_allowed := \<not> True \<or> \<not> bd_would_block dec2\<rparr>"
    by (rule try_reserve_cases [OF assms(2)])
  then have "bd_allowed dec \<longleftrightarrow> \<not> bd_would_block dec1" using assms(3) by (simp add: lease_check_def)
  also have "\<dots> \<longleftrightarrow> (\<forall>n \<in> set chain. fits d (rv_amount r) n)"
    using budget_walk_decision [OF wf c(3)] by (simp add: new_decision_def)
  finally have allowed: "bd_allowed dec \<longleftrightarrow> (\<forall>n \<in> set chain. fits d (rv_amount r) n)" .
  have "rv_run r \<in> run_id ` set (d_runs d)"
  proof (rule ccontr)
    assume "rv_run r \<notin> run_id ` set (d_runs d)"
    then have "ancestors (d_runs d) (rv_run r) = Some []" by (simp add: ancestors_def find_run_None [THEN iffD2])
    with c(1,2) show False by simp
  qed
  then have "set chain \<subseteq> set (d_runs d)" using ancestors_set(2) [OF wf c(1)] by blast
  then have nonneg: "\<forall>n \<in> set chain. 0 \<le> run_budget n" using assms(1) by (auto simp: rows_ok_def)
  obtain n ns where chain: "chain = n # ns" using c(2) by (cases chain) auto
  have "status_walk d chain \<lparr>bs_run = rv_run r, bs_status = run_status n, bs_allowed = True, bs_blocking = [],
      bs_unlimited = True, bs_remaining = 0, bs_limiting = [], bs_levels = []\<rparr> = Some (Inr st)"
    using assms(4) c(1) unfolding budget_status_def chain by (simp del: status_walk.simps)
  from status_walk_summary [OF wf this nonneg, of "rv_amount r"] show ?thesis
    using allowed budget_walk_active [OF c(3)] by auto
qed

section \<open>A concrete store\<close>

definition sample_principal :: principal where
  "sample_principal = \<lparr>pr_id = ''prn_a'', pr_name = ''agent'', pr_key_hash = ''k'', pr_mode = ModeEnforce, pr_created = 1\<rparr>"

definition sample_run :: "string \<Rightarrow> string \<Rightarrow> nanos \<Rightarrow> run" where
  "sample_run i parent budget = \<lparr>run_id = i, run_principal = ''prn_a'', run_parent = parent, run_budget = budget,
     run_status = RunActive, run_created = 1, run_closed = None\<rparr>"

definition sample_lease :: lease where
  "sample_lease = \<lparr>ls_id = ''lse_a'', ls_run = ''run_a'', ls_token_hash = ''t'', ls_providers = [], ls_ceiling = 0,
     ls_expires = 10500000000, ls_revoked = None, ls_created = 1\<rparr>"

definition sample_reservation :: "nanos \<Rightarrow> reservation" where
  "sample_reservation amount = \<lparr>rv_id = ''rsv_a'', rv_run = ''run_b'', rv_lease = [], rv_amount = amount,
     rv_status = ReservationPending, rv_expires = 5, rv_created = 1, rv_resolved = None\<rparr>"

text \<open>An agent with a root run of budget 100 and a child run of budget 60.\<close>

definition sample_db :: db where
  "sample_db = \<lparr>d_principals = [sample_principal], d_runs = [sample_run ''run_a'' [] 100, sample_run ''run_b'' ''run_a'' 60],
     d_leases = [sample_lease], d_reservations = [], d_ledger = [], d_settlements = [], d_events = []\<rparr>"

lemma sample_db_reachable: "reachable sha enforced_op sample_db"
proof -
  let ?d1 = "sample_db\<lparr>d_runs := [sample_run ''run_a'' [] 100]\<rparr>"
  have "create_principal_run_lease sample_principal (sample_run ''run_a'' [] 100) sample_lease empty_db = Inr ?d1"
    by (simp add: create_principal_run_lease_def insert_principal_def insert_run_def insert_lease_def run_checks_def
        find_principal_def find_run_def sample_db_def sample_principal_def sample_run_def sample_lease_def empty_db_def
        mode_valid_def run_status_valid_def encode_providers_def decode_providers_def)
  then have one: "evolves sha enforced_op empty_db ?d1"
    by (intro evolves_step [OF evolves_refl _ _ _ step_onboard])
      (simp_all add: empty_db_def sample_run_def max_i64_def)
  have "create_run (sample_run ''run_b'' ''run_a'' 60) ?d1 = Inr sample_db"
    by (simp add: create_run_def insert_run_def run_checks_def find_principal_def find_run_def sample_db_def
        sample_principal_def sample_run_def run_status_valid_def)
  then have "evolves sha enforced_op empty_db sample_db"
    by (intro evolves_step [OF one _ _ _ step_create_run])
      (simp_all add: sample_db_def sample_run_def max_i64_def)
  then show ?thesis by (simp add: reachable_def)
qed

lemma sample_try_reserve:
  "try_reserve (sample_reservation 50) True sample_db = Some (Inr (
     (new_decision (sample_reservation 50))\<lparr>bd_allowed := True\<rparr>,
     sample_db\<lparr>d_reservations := [sample_reservation 50]\<rparr>))"
  by (simp add: try_reserve_def sample_db_def sample_reservation_def sample_run_def ancestors_def find_run_def
      new_decision_def subtree_usage_def subtree_def children_of_def costs_in_def holds_in_def sql_sum_def in_i64_def
      max_i64_def min_i64_def note_block_def Let_def remaining_of_def i64_def lease_check_def create_reservation_def
      insert_reservation_def)

definition held_db :: db where
  "held_db = sample_db\<lparr>d_reservations := [sample_reservation 50]\<rparr>"

lemma held_db_reachable: "reachable sha enforced_op held_db"
proof -
  have "store_step sha sample_db (OpTryReserve (sample_reservation 50) True) held_db"
    unfolding held_db_def by (rule step_try_reserve [OF sample_try_reserve])
  from evolves_step [OF sample_db_reachable [unfolded reachable_def] _ _ _ this] show ?thesis
    by (simp add: reachable_def sample_db_def max_i64_def)
qed

lemma evolves_weaken: "evolves sha p d0 d \<Longrightarrow> (\<And>op. p op \<Longrightarrow> q op) \<Longrightarrow> evolves sha q d0 d"
  by (induction rule: evolves.induct) (auto intro: evolves.intros)

definition sample_charge :: "nanos \<Rightarrow> entry" where
  "sample_charge cost = \<lparr>
     e_version = 2, e_seq = 0, e_run = ''run_b'', e_principal = ''prn_a'', e_provider = ''openai'',
     e_model = ''m'', e_input = 0, e_output = 0, e_usage = [], e_external = [], e_revision = [],
     e_effective = 0, e_cost = cost, e_estimated = False, e_created = 7, e_prev = [], e_hash = []\<rparr>"

lemma token_usage_zero: "token_usage 0 0 0 0 0 = []"
  by (simp add: token_usage_def normalized_def)

lemma sample_settles:
  "\<exists>sealed d1. settle_reservation sample_sha 7 ''rsv_a'' (sample_charge 40) held_db = Inr (sealed, d1)"
  by (simp add: settle_reservation_def held_db_def sample_db_def find_reservation_def sample_reservation_def
      append_ledger_tx_def Let_def sample_charge_def time_is_zero_def entry_validate_def hash_version_usage_def
      hash_version_legacy_def itemized_usage_def token_usage_zero ledger_head_def seal_entry_def canonical_json_def
      normalized_def insert_entry_def find_run_def find_principal_def sample_run_def sample_principal_def
      insert_settlement_def current_hash_version_def)

section \<open>Properties of the store\<close>

text \<open>
  C1. Enforced budgets hold. In every database reached from the empty one by operations of which every
  hold is an enforced \<open>TryReserve\<close>, what a run's whole subtree has spent plus what it still holds is at
  most the run's budget plus the part of the settled charges that their holds did not cover (a charge
  above its hold, or a charge that arrives after its hold expired).
\<close>

theorem enforced_budgets_hold:
  assumes "reachable sha enforced_op d" "r \<in> set (d_runs d)" "run_budget r \<noteq> 0"
  shows "spent_in d (run_id r) + held_in d (run_id r) \<le> run_budget r + overrun_in d (run_id r)"
  using reachable_store_inv [OF assms(1)] assms(2,3) by (auto simp: store_inv_def budgets_hold_def)

theorem enforced_budgets_hold_witness:
  "spent_in held_db ''run_a'' + held_in held_db ''run_a'' \<le> 100 + overrun_in held_db ''run_a''"
  using enforced_budgets_hold [OF held_db_reachable, of "sample_run ''run_a'' [] 100"]
  by (simp add: held_db_def sample_db_def sample_run_def)

text \<open>
  C3. Whatever operations are run, in any order and with any arguments, the stored ledger is a verified
  hash chain numbered 1, 2, 3 and so on, and the recursive queries over the run hierarchy end for every
  run, because parents never form a cycle.
\<close>

theorem stored_ledger_verifies:
  assumes "reachable sha allowed d"
  shows "verify_chain sha (d_ledger d) = Inr () \<and> map e_seq (d_ledger d) = map int [1..<Suc (length (d_ledger d))] \<and>
    ancestors (d_runs d) i \<noteq> None \<and> subtree (d_runs d) i \<noteq> None"
proof -
  have rows: "rows_ok sha d" by (rule reachable_rows_ok [OF assms])
  then have "runs_wf (d_runs d)" by (simp add: rows_ok_def)
  with rows ancestors_total subtree_total show ?thesis
    by (auto simp: rows_ok_def ledger_ok_def numbered_def simp del: upt.simps)
qed

theorem stored_ledger_verifies_witness:
  "verify_chain sample_sha (d_ledger held_db) = Inr () \<and> ancestors (d_runs held_db) ''run_b'' \<noteq> None"
  using stored_ledger_verifies [OF held_db_reachable] by blast

text \<open>
  C23. The ledger is append-only: whatever operations follow, every row already there stays, unchanged and
  in its place, and so does every link from a reservation to its charge.
\<close>

theorem ledger_is_append_only:
  assumes "reachable sha allowed d" "evolves sha allowed d d'"
  shows "\<exists>new links. d_ledger d' = d_ledger d @ new \<and> d_settlements d' = d_settlements d @ links"
  using evolves_books_grow [OF assms(2) reachable_rows_ok [OF assms(1)]] .

theorem ledger_is_append_only_witness:
  "\<exists>new links. d_ledger held_db = d_ledger held_db @ new \<and> d_settlements held_db = d_settlements held_db @ links"
  by (rule ledger_is_append_only [OF held_db_reachable [of sample_sha] evolves_refl])

text \<open>
  C4. A reservation is charged exactly once: after a successful settlement, settling the same reservation
  again, at any later time, with any entry and after any other operations, changes nothing and answers
  the row of the first charge.
\<close>

theorem settlement_is_exactly_once:
  assumes "reachable sha allowed d" "settle_reservation sha now i e d = Inr (sealed, d1)"
    and "int (length (d_ledger d)) < max_i64" "evolves sha allowed' d1 d2"
  shows "\<exists>row. settle_reservation sha now' i e' d2 = Inr (row, d2) \<and> e_seq row = e_seq sealed \<and> e_hash row = e_hash sealed"
  using settle_again [OF reachable_rows_ok [OF assms(1)] assms(2-4)] .

theorem settlement_is_exactly_once_witness:
  "\<exists>sealed d1 row. settle_reservation sample_sha 7 ''rsv_a'' (sample_charge 40) held_db = Inr (sealed, d1) \<and>
     settle_reservation sample_sha 9 ''rsv_a'' (sample_charge 99) d1 = Inr (row, d1) \<and> e_seq row = e_seq sealed"
proof -
  obtain sealed d1 where s: "settle_reservation sample_sha 7 ''rsv_a'' (sample_charge 40) held_db = Inr (sealed, d1)"
    using sample_settles by blast
  have "int (length (d_ledger held_db)) < max_i64" by (simp add: held_db_def sample_db_def max_i64_def)
  from settlement_is_exactly_once [OF held_db_reachable s this evolves_refl] s show ?thesis by blast
qed

text \<open>
  C20. The remaining budget the owner of a run is shown is the one the gateway decides by: an enforced
  reservation without a lease is allowed exactly when the budget status says spending is allowed and the
  amount is at most the effective remaining budget (or no level is limited).
\<close>

theorem reservation_matches_budget_status:
  assumes "reachable sha allowed d" "try_reserve r True d = Some (Inr (dec, d'))" "rv_lease r = []"
    and "budget_status d (rv_run r) = Some (Inr st)"
  shows "bd_allowed dec \<longleftrightarrow> bs_allowed st \<and> (bs_unlimited st \<or> rv_amount r \<le> bs_remaining st)"
  using decision_matches_status [OF reachable_rows_ok [OF assms(1)] assms(2-4)] .

theorem reservation_matches_budget_status_witness:
  "\<exists>st. budget_status sample_db ''run_b'' = Some (Inr st) \<and> bs_allowed st \<and> (bs_unlimited st \<or> 50 \<le> bs_remaining st)"
proof -
  obtain st where "budget_status sample_db ''run_b'' = Some (Inr st)"
    by (simp add: budget_status_def ancestors_def find_run_def sample_db_def sample_run_def subtree_usage_def subtree_def
        children_of_def costs_in_def holds_in_def sql_sum_def in_i64_def max_i64_def min_i64_def)
  with reservation_matches_budget_status [OF sample_db_reachable [of sample_sha] sample_try_reserve, of st] show ?thesis
    by (simp add: sample_reservation_def)
qed

text \<open>
  C22. Closing a run stops spending below it for good: once \<open>CloseRun\<close> has succeeded, whatever operations
  follow, no reservation is granted and no lease is issued on a run of its subtree.
\<close>

theorem closed_run_stops_spending:
  assumes "reachable sha allowed d" "find_run (d_runs d) i = Some q" "run_status_valid (run_status q)"
    and "close_run now i d = Inr d1" "int (length (d_ledger d)) < max_i64" "evolves sha allowed' d1 d2"
    and "x \<in> set (subtree_ids (d_runs d2) i)"
  shows "try_reserve (r\<lparr>rv_run := x\<rparr>) enforce d2 \<noteq> Some (Inr res) \<and>
    create_lease (l\<lparr>ls_run := x\<rparr>) d2 = Some (Inl ErrConflict)"
proof -
  have "rows_ok sha d1"
    using step_rows_ok [OF step_close_run [OF assms(4)] reachable_rows_ok [OF assms(1)] _ assms(5)] by simp
  then have "rows_ok sha d2" using evolves_rows_ok [OF assms(6)] by blast
  moreover have "closed_in d2 i"
    using closed_stays [OF assms(6)] close_run_closes [OF assms(4,2,3)] by blast
  ultimately show ?thesis
    using closed_ancestor_blocks [of sha d2 i x] assms(7) by simp
qed

theorem closed_run_stops_spending_witness:
  "\<exists>d1. close_run 9 ''run_a'' sample_db = Inr d1 \<and>
     (\<forall>res. try_reserve ((sample_reservation 5)\<lparr>rv_run := ''run_b''\<rparr>) False d1 \<noteq> Some (Inr res))"
proof -
  let ?d1 = "sample_db\<lparr>d_runs := map (close_row 9 ''run_a'') (d_runs sample_db)\<rparr>"
  have close: "close_run 9 ''run_a'' sample_db = Inr ?d1"
    by (simp add: close_run_def find_run_def sample_db_def sample_run_def)
  have found: "find_run (d_runs sample_db) ''run_a'' = Some (sample_run ''run_a'' [] 100)"
    by (simp add: find_run_def sample_db_def sample_run_def)
  have "''run_b'' \<in> set (subtree_ids (d_runs ?d1) ''run_a'')"
    by (simp add: subtree_ids_def subtree_def find_run_def sample_db_def sample_run_def close_row_def children_of_def)
  from closed_run_stops_spending [OF sample_db_reachable [of sample_sha] found _ close _ evolves_refl this] close
  show ?thesis by (simp add: sample_run_def run_status_valid_def sample_db_def max_i64_def)
qed

text \<open>
  The kill switch: after revoking every lease of a principal, no lease of its runs is active from then
  on, provided the lease does not expire within the very second of the revocation.
\<close>

theorem revoke_principal_kills_leases:
  assumes "revoke_leases_for_principal now p d = (n, d')" "l \<in> set (d_leases d')"
    and "\<exists>r \<in> set (d_runs d). run_id r = ls_run l \<and> run_principal r = p"
    and "valid_instant now" "valid_instant (ls_expires l)"
    and "nat (ls_expires l) div 1000000000 \<noteq> nat now div 1000000000" "now \<le> t"
  shows "\<not> lease_active l t"
proof -
  obtain q where q: "q \<in> set (d_leases d)" "l = (if revocable now p d q then q\<lparr>ls_revoked := Some now\<rparr> else q)"
    using assms(1,2) by (auto simp: revoke_leases_for_principal_def)
  show ?thesis
  proof (cases "ls_revoked q = None \<and> \<not> revocable now p d q")
    case True
    then have "\<not> time_less now (ls_expires l)" using q assms(3) by (force simp: revocable_def)
    then have "ls_expires l \<le> now"
      using format_time_less_seconds [OF assms(4,5)] assms(6) by (auto simp: time_less_def)
    then show ?thesis using assms(7) by (simp add: lease_active_def)
  next
    case False
    then show ?thesis using q by (auto simp: lease_active_def)
  qed
qed

theorem revoke_principal_kills_leases_witness:
  "\<exists>n d' l. revoke_leases_for_principal 9000000000 ''prn_a'' sample_db = (n, d') \<and> l \<in> set (d_leases d') \<and>
     \<not> lease_active l 9500000000"
proof -
  obtain n d' where r: "revoke_leases_for_principal 9000000000 ''prn_a'' sample_db = (n, d')" by fastforce
  then obtain l where l: "l \<in> set (d_leases d')" "ls_run l = ''run_a''" "ls_expires l = 10500000000"
    by (auto simp: revoke_leases_for_principal_def sample_db_def sample_lease_def)
  have "\<exists>r \<in> set (d_runs sample_db). run_id r = ls_run l \<and> run_principal r = ''prn_a''"
    by (simp add: sample_db_def sample_run_def l)
  from revoke_principal_kills_leases [OF r l(1) this, of 9500000000] r l show ?thesis
    by (auto simp: valid_instant_def)
qed

text \<open>
  Within the second of its expiry a lease escapes the kill switch: the stored text of an expiry half a
  second after the revocation time sorts before it, so the update skips the lease, which stays unrevoked
  and active until it expires.
\<close>

theorem revoke_principal_misses_lease:
  "revoke_leases_for_principal 10000000000 ''prn_a'' sample_db = (0, sample_db) \<and>
   lease_active sample_lease 10400000000"
proof -
  have "format_time 10500000000 < format_time 10000000000"
    by (rule format_time_whole_second) simp_all
  then have "\<not> time_less 10000000000 (ls_expires sample_lease)"
    by (simp add: time_less_def sample_lease_def)
  then show ?thesis
    by (simp add: revoke_leases_for_principal_def revocable_def sample_db_def) (simp add: lease_active_def sample_lease_def)
qed

end
