(* ===== verification/Json.thy ===== *)
theory Json
  imports GoStrings
begin

text \<open>
  Decoded JSON documents, as \<open>encoding/json\<close> produces them for the type \<open>any\<close>: the \<open>switch\<close> on
  the dynamic type is a case distinction, an object is a map with distinct keys and a number is
  the rational value of its \<open>float64\<close>. Also the field readers of
  \<open>internal/providers/parse.go\<close>, which every adapter uses, and the walks over a document.
\<close>

datatype json =
    JNull
  | JBool bool
  | JNum rat
  | JStr string
  | JArr "json list"
  | JObj "(string \<times> json) list"

type_synonym json_object = "(string, json) go_map"

text \<open>A decoded document: the keys of every object are distinct.\<close>

lemma json_list_size [termination_simp]: "x \<in> set xs \<Longrightarrow> size x < Suc (size_list size xs)"
  by (simp add: less_Suc_eq_le size_list_estimation')

lemma json_member_size [termination_simp]:
  "(k, v) \<in> set kvs \<Longrightarrow> size v < Suc (size_list (size_prod (\<lambda>_. 0) size) kvs)"
  by (induction kvs) (auto simp: less_Suc_eq_le)

fun wf_json :: "json \<Rightarrow> bool" where
  "wf_json (JArr xs) = list_all wf_json xs"
| "wf_json (JObj kvs) = (wf_map kvs \<and> list_all (\<lambda>(k, v). wf_json v) kvs)"
| "wf_json _ = True"

section \<open>Fields\<close>

text \<open>A type assertion on a field: \<open>m[key].(T)\<close> with its \<open>ok\<close>.\<close>

definition obj_field :: "json_object \<Rightarrow> string \<Rightarrow> json_object option" where
  "obj_field m k = (case map_of m k of Some (JObj o') \<Rightarrow> Some o' | _ \<Rightarrow> None)"

definition arr_field :: "json_object \<Rightarrow> string \<Rightarrow> json list option" where
  "arr_field m k = (case map_of m k of Some (JArr xs) \<Rightarrow> Some xs | _ \<Rightarrow> None)"

definition string_field :: "json_object \<Rightarrow> string \<Rightarrow> string" where
  "string_field m k = (case map_of m k of Some (JStr s) \<Rightarrow> s | _ \<Rightarrow> [])"

definition bool_field :: "json_object \<Rightarrow> string \<Rightarrow> bool" where
  "bool_field m k = (case map_of m k of Some (JBool b) \<Rightarrow> b | _ \<Rightarrow> False)"

text \<open>
  \<open>int64(v)\<close> of a positive \<open>float64\<close>: the integral part, and the value amd64 gives when that does
  not fit.
\<close>

definition float_to_i64 :: "rat \<Rightarrow> int" where
  "float_to_i64 v = (if floor v \<le> max_i64 then floor v else min_i64)"

fun int_field :: "json_object \<Rightarrow> string list \<Rightarrow> int" where
  "int_field m [] = 0"
| "int_field m (k # ks) =
     (case map_of m k of
        Some (JNum v) \<Rightarrow> if 0 < v then float_to_i64 v else int_field m ks
      | _ \<Rightarrow> int_field m ks)"

lemma in_i64_int_field [simp]: "in_i64 (int_field m ks)"
proof (induction m ks rule: int_field.induct)
  case (2 m k ks)
  have "in_i64 (float_to_i64 v)" if "0 < v" for v
  proof -
    have "0 \<le> floor v" using that by simp
    then show ?thesis by (auto simp: float_to_i64_def in_i64_def max_i64_def min_i64_def)
  qed
  with 2 show ?case by (auto split: option.splits json.splits)
qed (simp add: in_i64_def max_i64_def min_i64_def)

section \<open>Prompt characters\<close>

definition prompt_text_keys :: "string list" where
  "prompt_text_keys = [''messages'', ''system'', ''prompt'', ''input'', ''content'', ''text'']"

definition structural_keys :: "string list" where
  "structural_keys = [''role'', ''type'', ''name'', ''id'', ''url'', ''image_url'', ''media_type'', ''cache_control'']"

text \<open>
  \<open>len([]rune(t))\<close>. The decoder replaces invalid sequences, so every string of a document is
  valid UTF-8 and its runes are counted by the bytes that do not continue one.
\<close>

definition rune_count :: "string \<Rightarrow> int" where
  "rune_count s = int (length (filter (\<lambda>c. \<not> (128 \<le> (of_char c :: nat) \<and> (of_char c :: nat) < 192)) s))"

fun count_chars :: "bool \<Rightarrow> json \<Rightarrow> int" where
  "count_chars u (JStr t) = (if u then rune_count t else 0)"
| "count_chars u (JArr xs) = foldl (\<lambda>n item. i64 (n + item)) 0 (map (count_chars u) xs)"
| "count_chars u (JObj kvs) =
     foldl (\<lambda>n item. i64 (n + item)) 0
       (map (\<lambda>(k, v). if k \<in> set structural_keys then 0
                       else count_chars (u \<or> k \<in> set prompt_text_keys) v) kvs)"
| "count_chars u _ = 0"

definition count_prompt_chars :: "json_object \<Rightarrow> int" where
  "count_prompt_chars m = count_chars False (JObj m)"

section \<open>Request features outside token pricing\<close>

fun contains_type_value :: "string list \<Rightarrow> json \<Rightarrow> bool" where
  "contains_type_value types (JArr xs) = list_ex (contains_type_value types) xs"
| "contains_type_value types (JObj kvs) =
     ((case map_of kvs ''type'' of Some (JStr kind) \<Rightarrow> kind \<in> set types | _ \<Rightarrow> False) \<or>
      list_ex (\<lambda>(k, v). contains_type_value types v) kvs)"
| "contains_type_value types _ = False"

fun contains_any_key :: "string list \<Rightarrow> json \<Rightarrow> bool" where
  "contains_any_key keys (JArr xs) = list_ex (contains_any_key keys) xs"
| "contains_any_key keys (JObj kvs) = list_ex (\<lambda>(k, v). k \<in> set keys \<or> contains_any_key keys v) kvs"
| "contains_any_key keys _ = False"

text \<open>The reference for the two walks: the documents that occur inside a document.\<close>

inductive part_of :: "json \<Rightarrow> json \<Rightarrow> bool" where
  part_self: "part_of d d"
| part_item: "x \<in> set xs \<Longrightarrow> part_of d x \<Longrightarrow> part_of d (JArr xs)"
| part_member: "(k, v) \<in> set kvs \<Longrightarrow> part_of d v \<Longrightarrow> part_of d (JObj kvs)"

inductive_simps part_of_JArr: "part_of d (JArr xs)"
inductive_simps part_of_JObj: "part_of d (JObj kvs)"
inductive_simps part_of_atom: "part_of d JNull" "part_of d (JBool b)" "part_of d (JNum q)" "part_of d (JStr s)"

lemma contains_any_key_iff:
  "contains_any_key keys d \<longleftrightarrow> (\<exists>kvs. part_of (JObj kvs) d \<and> (\<exists>k \<in> set keys. map_of kvs k \<noteq> None))"
proof (induction keys d rule: contains_any_key.induct)
  case (1 keys xs)
  then show ?case by (auto simp: list_ex_iff part_of_JArr)
next
  case (2 keys kvs)
  have own: "(\<exists>k \<in> set keys. map_of kvs k \<noteq> None) \<longleftrightarrow> (\<exists>(k, v) \<in> set kvs. k \<in> set keys)"
    by (force simp: map_of_eq_None_iff)
  have sub: "(\<exists>(k, v) \<in> set kvs. contains_any_key keys v) \<longleftrightarrow>
    (\<exists>(k, v) \<in> set kvs. \<exists>kvs'. part_of (JObj kvs') v \<and> (\<exists>k \<in> set keys. map_of kvs' k \<noteq> None))"
    using 2 by (intro bex_cong) fastforce+
  have "contains_any_key keys (JObj kvs) \<longleftrightarrow>
    (\<exists>(k, v) \<in> set kvs. k \<in> set keys) \<or> (\<exists>(k, v) \<in> set kvs. contains_any_key keys v)"
    by (auto simp: list_ex_iff)
  then show ?case unfolding own [symmetric] sub
    by (simp only: part_of_JObj [of "JObj _"] json.inject) blast
qed (auto simp: part_of_atom)

lemma contains_type_value_iff:
  "contains_type_value types d \<longleftrightarrow>
    (\<exists>kvs. part_of (JObj kvs) d \<and> (\<exists>kind \<in> set types. map_of kvs ''type'' = Some (JStr kind)))"
proof (induction types d rule: contains_type_value.induct)
  case (1 types xs)
  then show ?case by (auto simp: list_ex_iff part_of_JArr)
next
  case (2 types kvs)
  have own: "(case map_of kvs ''type'' of Some (JStr kind) \<Rightarrow> kind \<in> set types | _ \<Rightarrow> False) \<longleftrightarrow>
    (\<exists>kind \<in> set types. map_of kvs ''type'' = Some (JStr kind))"
    by (auto split: option.splits json.splits)
  have sub: "list_ex (\<lambda>(k, v). contains_type_value types v) kvs \<longleftrightarrow>
    (\<exists>(k, v) \<in> set kvs. \<exists>kvs'. part_of (JObj kvs') v \<and>
       (\<exists>kind \<in> set types. map_of kvs' ''type'' = Some (JStr kind)))"
    unfolding list_ex_iff using 2 by (intro bex_cong) fastforce+
  show ?case unfolding contains_type_value.simps own sub
    by (simp only: part_of_JObj [of "JObj _"] json.inject) blast
qed (auto simp: part_of_atom)

text \<open>The prompt is never longer than the strings of the document.\<close>

fun text_bytes :: "json \<Rightarrow> int" where
  "text_bytes (JStr t) = int (length t)"
| "text_bytes (JArr xs) = sum_list (map text_bytes xs)"
| "text_bytes (JObj kvs) = sum_list (map (\<lambda>(k, v). text_bytes v) kvs)"
| "text_bytes _ = 0"

lemma text_bytes_nonneg [simp]: "0 \<le> text_bytes d"
  by (induction d rule: text_bytes.induct) (auto intro!: sum_list_nonneg)

lemma rune_count_bounds: "0 \<le> rune_count s" "rune_count s \<le> int (length s)"
  by (simp_all add: rune_count_def)

lemma foldl_i64_sum:
  "list_all2 (\<lambda>a b. 0 \<le> a \<and> a \<le> b) as bs \<Longrightarrow> 0 \<le> n \<Longrightarrow> n + sum_list bs \<le> max_i64 \<Longrightarrow>
   foldl (\<lambda>n a. i64 (n + a)) n as = n + sum_list as \<and> 0 \<le> sum_list as \<and> sum_list as \<le> sum_list bs"
proof (induction as bs arbitrary: n rule: list_all2_induct)
  case (Cons a as b bs)
  have "0 \<le> sum_list bs" using Cons.hyps(2)
    by (intro sum_list_nonneg) (auto simp: list_all2_conv_all_nth in_set_conv_nth intro: order_trans)
  with Cons have "n + a \<le> max_i64" by simp
  with Cons have "i64 (n + a) = n + a" by (simp add: i64_nonneg_id)
  moreover have "0 \<le> n + a" "n + a + sum_list bs \<le> max_i64" using Cons by simp_all
  moreover note Cons.IH [OF this]
  ultimately show ?case using Cons.hyps(1) by auto
qed simp

lemma count_chars_bounds:
  "text_bytes d \<le> max_i64 \<Longrightarrow> 0 \<le> count_chars u d \<and> count_chars u d \<le> text_bytes d"
proof (induction u d rule: count_chars.induct)
  case (2 u xs)
  have small: "text_bytes x \<le> max_i64" if "x \<in> set xs" for x
    using member_le_sum_list [of "text_bytes x" "map text_bytes xs"] that 2(2)
    by (fastforce dest: order_trans)
  have "list_all2 (\<lambda>a b. 0 \<le> a \<and> a \<le> b) (map (count_chars u) xs) (map text_bytes xs)"
    using 2(1) small by (simp add: list_all2_conv_all_nth)
  from foldl_i64_sum [OF this, of 0] 2(2) show ?case by simp
next
  case (3 u kvs)
  let ?f = "\<lambda>(k, v). if k \<in> set structural_keys then 0 else count_chars (u \<or> k \<in> set prompt_text_keys) v"
  have small: "text_bytes v \<le> max_i64" if "(k, v) \<in> set kvs" for k v
    using member_le_sum_list [of "text_bytes v" "map (\<lambda>(k, v). text_bytes v) kvs"] that 3(2) by force
  have "0 \<le> ?f kv \<and> ?f kv \<le> (\<lambda>(k, v). text_bytes v) kv" if "kv \<in> set kvs" for kv
    using 3(1) [of kv "fst kv" "snd kv"] small [of "fst kv" "snd kv"] that by (cases kv) auto
  then have "list_all2 (\<lambda>a b. 0 \<le> a \<and> a \<le> b) (map ?f kvs) (map (\<lambda>(k, v). text_bytes v) kvs)"
    by (simp add: list_all2_conv_all_nth)
  from foldl_i64_sum [OF this, of 0] 3(2) show ?case by simp
qed (auto simp: rune_count_bounds)

end
