(* ===== verification/Http.thy ===== *)
theory Http
  imports GoStrings
begin

text \<open>
  The parts of \<open>net/http\<close> the gateway and the adapters use: header maps keyed by canonical names
  with \<open>Get\<close>, \<open>Set\<close> and \<open>Del\<close>, and the request as the handlers see it.
\<close>

text \<open>
  \<open>textproto.CanonicalMIMEHeaderKey\<close> on a valid field name: upper case at the start and after a
  hyphen, lower case elsewhere.
\<close>

fun canonical_from :: "bool \<Rightarrow> string \<Rightarrow> string" where
  "canonical_from upper [] = []"
| "canonical_from upper (c # s) =
     (let c' = (if upper \<and> CHR ''a'' \<le> c \<and> c \<le> CHR ''z'' then char_of (of_char c - (32 :: nat))
                else if \<not> upper \<and> CHR ''A'' \<le> c \<and> c \<le> CHR ''Z'' then char_of (of_char c + (32 :: nat))
                else c)
      in c' # canonical_from (c' = CHR ''-'') s)"

definition canonical_key :: "string \<Rightarrow> string" where
  "canonical_key k = canonical_from True k"

type_synonym header = "(string, string list) go_map"

definition header_get :: "header \<Rightarrow> string \<Rightarrow> string" where
  "header_get h k = (case map_of h (canonical_key k) of Some (v # _) \<Rightarrow> v | _ \<Rightarrow> [])"

definition header_set :: "header \<Rightarrow> string \<Rightarrow> string \<Rightarrow> header" where
  "header_set h k v = put_key (canonical_key k) [v] h"

definition header_del :: "header \<Rightarrow> string \<Rightarrow> header" where
  "header_del h k = filter (\<lambda>(k', _). k' \<noteq> canonical_key k) h"

record request =
  rq_method :: string
  rq_path :: string
  rq_header :: header

lemma map_of_filter_key:
  "map_of (filter (\<lambda>(k', _). P k') h) k = (if P k then map_of h k else None)"
  by (induction h) auto

lemma header_get_set [simp]:
  "header_get (header_set h k v) k' = (if canonical_key k' = canonical_key k then v else header_get h k')"
  by (simp add: header_get_def header_set_def)

lemma header_get_del [simp]:
  "header_get (header_del h k) k' = (if canonical_key k' = canonical_key k then [] else header_get h k')"
  by (simp add: header_get_def header_del_def map_of_filter_key)

lemma map_of_header_del [simp]:
  "map_of (header_del h k) k' = (if k' = canonical_key k then None else map_of h k')"
  by (simp add: header_del_def map_of_filter_key)

lemma map_of_header_set [simp]:
  "map_of (header_set h k v) = (map_of h)(canonical_key k \<mapsto> [v])"
  by (simp add: header_set_def)

lemma canonical_names [simp]:
  "canonical_key ''Authorization'' = ''Authorization''"
  "canonical_key ''x-api-key'' = ''X-Api-Key''"
  "canonical_key ''X-Api-Key'' = ''X-Api-Key''"
  "canonical_key ''api-key'' = ''Api-Key''"
  "canonical_key ''anthropic-version'' = ''Anthropic-Version''"
  "canonical_key ''X-Spendlease-Run'' = ''X-Spendlease-Run''"
  "canonical_key ''Accept-Encoding'' = ''Accept-Encoding''"
  "canonical_key ''Content-Type'' = ''Content-Type''"
  by code_simp+

end
