(* ===== verification/Providers.thy ===== *)
theory Providers
  imports Json Http Billing
begin

text \<open>
  The vendor adapters (\<open>internal/providers\<close>): the registry that routes a request path to an
  adapter, the billing class of a route, what the gateway reads from a request body, the token
  counts a vendor reports, and the change that makes an OpenAI stream report them. The two adapter
  types are the constructors of \<open>provider\<close>; \<open>json.Unmarshal\<close> into \<open>map[string]any\<close> and
  \<open>json.Marshal\<close> are parameters (\<open>unmarshal\<close> gives \<open>None\<close> where \<open>DecodeBody\<close> gives nil).
\<close>

section \<open>Adapters and their routes\<close>

text \<open>An adapter with its name and base URL; the Anthropic adapter has a fixed name.\<close>

datatype provider = OpenAI string string | Anthropic string

definition anthropic_name :: string where "anthropic_name = ''anthropic''"
definition openai_name :: string where "openai_name = ''openai''"

fun provider_name :: "provider \<Rightarrow> string" where
  "provider_name (OpenAI name _) = name"
| "provider_name (Anthropic _) = anthropic_name"

fun provider_base :: "provider \<Rightarrow> string" where
  "provider_base (OpenAI _ url) = url"
| "provider_base (Anthropic url) = url"

definition openai_paths :: "string list" where
  "openai_paths = [''/v1/chat/completions'', ''/v1/completions'', ''/v1/responses'', ''/v1/embeddings'',
     ''/v1/moderations'', ''/v1/images'', ''/v1/audio'', ''/v1/models'']"

definition anthropic_paths :: "string list" where
  "anthropic_paths = [''/v1/messages'', ''/v1/complete'', ''/v1/models'']"

fun provider_paths :: "provider \<Rightarrow> string list" where
  "provider_paths (OpenAI _ _) = openai_paths"
| "provider_paths (Anthropic _) = anthropic_paths"

datatype provider_error = ErrUnknownRoute string | EmptyRegistry | RegisteredTwice string
  | EmptyProviderName | BadBaseURL

text \<open>\<open>NewCompatible\<close>; \<open>url_ok\<close> is whether \<open>url.Parse\<close> accepts the base URL.\<close>

definition new_compatible :: "(string \<Rightarrow> bool) \<Rightarrow> string \<Rightarrow> string \<Rightarrow> provider_error + provider" where
  "new_compatible url_ok name raw =
     (if name = [] then Inl EmptyProviderName
      else if \<not> url_ok raw then Inl BadBaseURL
      else Inr (OpenAI name raw))"

datatype billing_class = BillingToken | BillingNoSpend | BillingUnsupported

record billing_capability =
  bc_class :: billing_class
  bc_no_output :: bool
  bc_reason :: string

definition token_billing :: billing_capability where
  "token_billing = \<lparr>bc_class = BillingToken, bc_no_output = False, bc_reason = []\<rparr>"

definition no_spend_billing :: billing_capability where
  "no_spend_billing = \<lparr>bc_class = BillingNoSpend, bc_no_output = False, bc_reason = []\<rparr>"

definition unsupported_billing :: "string \<Rightarrow> billing_capability" where
  "unsupported_billing reason = \<lparr>bc_class = BillingUnsupported, bc_no_output = False, bc_reason = reason\<rparr>"

definition openai_billing :: "string \<Rightarrow> string \<Rightarrow> billing_capability" where
  "openai_billing method path =
     (if method = ''GET'' \<and> (path = ''/v1/models'' \<or> path = ''/v1/models/'') then no_spend_billing
      else if method \<noteq> ''POST'' then
        unsupported_billing ''this method and endpoint do not have a reviewed billing model''
      else if path \<in> {''/v1/chat/completions'', ''/v1/completions'', ''/v1/responses''} then token_billing
      else if path = ''/v1/embeddings'' then token_billing \<lparr>bc_no_output := True\<rparr>
      else unsupported_billing
        ''media, moderation, batch, audio, image, and unreviewed endpoints are outside token-budget enforcement'')"

definition anthropic_billing :: "string \<Rightarrow> string \<Rightarrow> billing_capability" where
  "anthropic_billing method path =
     (if method = ''GET'' \<and> (path = ''/v1/models'' \<or> path = ''/v1/models/'') then no_spend_billing
      else if method = ''POST'' \<and> path \<in> {''/v1/messages'', ''/v1/complete''} then token_billing
      else if method = ''POST'' \<and> path = ''/v1/messages/count_tokens'' then no_spend_billing
      else unsupported_billing
        ''message batches, media, server tools, and unreviewed endpoints are outside token-budget enforcement'')"

fun provider_billing :: "provider \<Rightarrow> string \<Rightarrow> string \<Rightarrow> billing_capability" where
  "provider_billing (OpenAI _ _) method path = openai_billing method path"
| "provider_billing (Anthropic _) method path = anthropic_billing method path"

definition default_version :: string where "default_version = ''2023-06-01''"

fun authorize :: "provider \<Rightarrow> header \<Rightarrow> string \<Rightarrow> header" where
  "authorize (OpenAI _ _) h key = header_set h ''Authorization'' (''Bearer '' @ key)"
| "authorize (Anthropic _) h key =
     (let h1 = header_set (header_del h ''Authorization'') ''x-api-key'' key in
      if header_get h1 ''anthropic-version'' = [] then header_set h1 ''anthropic-version'' default_version
      else h1)"

section \<open>The registry\<close>

text \<open>\<open>byName\<close> is kept as the lookup by name in the registration order; the fallback is its first.\<close>

record registry =
  rg_order :: "provider list"
  rg_fallback :: provider

fun register_all :: "provider list \<Rightarrow> provider list \<Rightarrow> provider_error + provider list" where
  "register_all seen [] = Inr seen"
| "register_all seen (p # ps) =
     (if provider_name p \<in> provider_name ` set seen then Inl (RegisteredTwice (provider_name p))
      else register_all (seen @ [p]) ps)"

definition new_registry :: "provider list \<Rightarrow> provider_error + registry" where
  "new_registry ps =
     (case ps of
        [] \<Rightarrow> Inl EmptyRegistry
      | p # _ \<Rightarrow> (case register_all [] ps of
          Inl e \<Rightarrow> Inl e
        | Inr order' \<Rightarrow> Inr \<lparr>rg_order = order', rg_fallback = p\<rparr>))"

definition registry_names :: "registry \<Rightarrow> string list" where
  "registry_names r = sort_by (\<le>) (map provider_name (rg_order r))"

definition registry_lookup :: "registry \<Rightarrow> string \<Rightarrow> provider option" where
  "registry_lookup r name = find (\<lambda>p. provider_name p = name) (rg_order r)"

definition claims_prefix :: "string \<Rightarrow> string \<Rightarrow> bool" where
  "claims_prefix path prefix \<longleftrightarrow> path = prefix \<or> has_prefix path (trim_suffix prefix ''/'' @ ''/'')"

definition matching :: "registry \<Rightarrow> string \<Rightarrow> provider list" where
  "matching r path = filter (\<lambda>p. list_ex (claims_prefix path) (provider_paths p)) (rg_order r)"

definition resolve_ambiguous :: "registry \<Rightarrow> string \<Rightarrow> provider list \<Rightarrow> provider" where
  "resolve_ambiguous r version matches =
     (case (if version \<noteq> [] then find (\<lambda>p. provider_name p = anthropic_name) matches else None) of
        Some p \<Rightarrow> p
      | None \<Rightarrow> (case find (\<lambda>p. p = rg_fallback r) matches of Some p \<Rightarrow> p | None \<Rightarrow> hd matches))"

definition explicit_provider :: "registry \<Rightarrow> string \<Rightarrow> (provider \<times> string) option" where
  "explicit_provider r path =
     (case cut CHR ''/'' (trim_prefix path ''/'') of
        (name, rest, found) \<Rightarrow>
          if found then map_option (\<lambda>p. (p, CHR ''/'' # rest)) (registry_lookup r name) else None)"

definition resolve :: "registry \<Rightarrow> request \<Rightarrow> provider_error + (provider \<times> string)" where
  "resolve r req =
     (let path = rq_path req in
      case explicit_provider r path of
        Some (p, upstream) \<Rightarrow> Inr (p, upstream)
      | None \<Rightarrow>
          (case matching r path of
             [] \<Rightarrow> Inl (ErrUnknownRoute path)
           | [p] \<Rightarrow> Inr (p, path)
           | matches \<Rightarrow> Inr (resolve_ambiguous r (header_get (rq_header req) ''anthropic-version'') matches, path)))"

section \<open>Requests\<close>

record request_info =
  ri_model :: string
  ri_max_tokens :: int
  ri_stream :: bool
  ri_prompt_chars :: int
  ri_request_bytes :: int
  ri_no_output :: bool
  ri_unsupported :: string
  ri_wants_usage :: bool

definition no_request_info :: request_info where
  "no_request_info = \<lparr>ri_model = [], ri_max_tokens = 0, ri_stream = False, ri_prompt_chars = 0,
     ri_request_bytes = 0, ri_no_output = False, ri_unsupported = [], ri_wants_usage = False\<rparr>"

definition media_keys :: "string list" where
  "media_keys = [''image_url'', ''input_image'', ''input_audio'', ''audio'', ''file'', ''file_id'',
     ''inline_data'', ''input_file'', ''attachments'']"

definition media_types :: "string list" where
  "media_types = [''image'', ''input_image'', ''audio'', ''input_audio'', ''document'', ''file'',
     ''input_file'', ''video'', ''input_video'']"

definition media_reason :: string where
  "media_reason = ''media or file inputs have billing dimensions outside the token price book''"

definition hosted_tool_reason :: string where
  "hosted_tool_reason = ''provider-hosted tools may add charges outside the token price book''"

definition hosted_tool :: "json \<Rightarrow> bool" where
  "hosted_tool raw =
     (let kind = string_field (case raw of JObj tool \<Rightarrow> tool | _ \<Rightarrow> []) ''type''
      in kind \<noteq> [] \<and> kind \<noteq> ''function'' \<and> kind \<noteq> ''custom'')"

definition unsupported_billing_feature :: "json_object \<Rightarrow> string" where
  "unsupported_billing_feature m =
     (if contains_any_key media_keys (JObj m) then media_reason
      else if contains_type_value media_types (JObj m) then media_reason
      else (case arr_field m ''tools'' of
              Some tools \<Rightarrow> if list_ex hosted_tool tools then hosted_tool_reason else []
            | None \<Rightarrow> []))"

definition unsupported_billing_modifier :: "json_object \<Rightarrow> string \<Rightarrow> string list \<Rightarrow> string" where
  "unsupported_billing_modifier m field ordinary_values =
     (case map_of m field of
        None \<Rightarrow> []
      | Some JNull \<Rightarrow> []
      | Some (JStr v) \<Rightarrow>
          if v \<in> set ordinary_values then []
          else field @ '' '' @ go_quote v @ '' can select provider pricing outside the token price book''
      | Some _ \<Rightarrow> field @ '' has an unreviewed value that may select provider pricing outside the token price book'')"

definition decode_body :: "(string \<Rightarrow> json_object option) \<Rightarrow> string \<Rightarrow> json_object option" where
  "decode_body unmarshal body = (if body = [] then None else unmarshal body)"

definition first_reason :: "string \<Rightarrow> string \<Rightarrow> string" where
  "first_reason reason next_reason = (if reason = [] then next_reason else reason)"

definition openai_request :: "string \<Rightarrow> json_object \<Rightarrow> int \<Rightarrow> request_info" where
  "openai_request name m body_bytes =
     \<lparr>ri_model = string_field m ''model'',
      ri_max_tokens = int_field m [''max_tokens'', ''max_completion_tokens'', ''max_output_tokens''],
      ri_stream = bool_field m ''stream'',
      ri_prompt_chars = count_prompt_chars m,
      ri_request_bytes = body_bytes,
      ri_no_output = False,
      ri_unsupported = first_reason (unsupported_billing_feature m)
        (unsupported_billing_modifier m ''service_tier''
           (if name = ''gemini'' then [''default'', ''standard''] else [''default''])),
      ri_wants_usage =
        (case obj_field m ''stream_options'' of Some opts \<Rightarrow> bool_field opts ''include_usage'' | None \<Rightarrow> False)\<rparr>"

definition anthropic_request :: "json_object \<Rightarrow> int \<Rightarrow> request_info" where
  "anthropic_request m body_bytes =
     \<lparr>ri_model = string_field m ''model'',
      ri_max_tokens = int_field m [''max_tokens''],
      ri_stream = bool_field m ''stream'',
      ri_prompt_chars = count_prompt_chars m,
      ri_request_bytes = body_bytes,
      ri_no_output = False,
      ri_unsupported = first_reason (first_reason (first_reason (unsupported_billing_feature m)
        (unsupported_billing_modifier m ''service_tier'' [''standard_only'']))
        (unsupported_billing_modifier m ''speed'' [''standard'']))
        (unsupported_billing_modifier m ''inference_geo'' [''global'']),
      ri_wants_usage = True\<rparr>"

fun parse_request :: "(string \<Rightarrow> json_object option) \<Rightarrow> provider \<Rightarrow> string \<Rightarrow> request_info" where
  "parse_request unmarshal (OpenAI name _) body =
     (case decode_body unmarshal body of
        None \<Rightarrow> no_request_info
      | Some m \<Rightarrow> openai_request name m (int (length body)))"
| "parse_request unmarshal (Anthropic _) body =
     (case decode_body unmarshal body of
        None \<Rightarrow> no_request_info
      | Some m \<Rightarrow> anthropic_request m (int (length body)))"

section \<open>Reported usage\<close>

record vendor_usage =
  vu_input :: int
  vu_cached :: int
  vu_write5m :: int
  vu_write1h :: int
  vu_output :: int

definition zero_usage :: vendor_usage where
  "zero_usage = \<lparr>vu_input = 0, vu_cached = 0, vu_write5m = 0, vu_write1h = 0, vu_output = 0\<rparr>"

definition usage_is_zero :: "vendor_usage \<Rightarrow> bool" where
  "usage_is_zero u \<longleftrightarrow> vu_input u = 0 \<and> vu_cached u = 0 \<and> vu_write5m u = 0 \<and> vu_write1h u = 0 \<and> vu_output u = 0"

definition total_input_tokens :: "vendor_usage \<Rightarrow> int" where
  "total_input_tokens u = i64 (vu_input u + vu_cached u + vu_write5m u + vu_write1h u)"

definition later_count :: "int \<Rightarrow> int \<Rightarrow> int" where
  "later_count old new = (if 0 < new then new else old)"

definition merge_usage :: "vendor_usage \<Rightarrow> vendor_usage \<Rightarrow> vendor_usage" where
  "merge_usage u other =
     \<lparr>vu_input = later_count (vu_input u) (vu_input other),
      vu_cached = later_count (vu_cached u) (vu_cached other),
      vu_write5m = later_count (vu_write5m u) (vu_write5m other),
      vu_write1h = later_count (vu_write1h u) (vu_write1h other),
      vu_output = later_count (vu_output u) (vu_output other)\<rparr>"

text \<open>A usage report, absent when every count is zero (\<open>u, !u.IsZero()\<close>).\<close>

definition reported :: "vendor_usage \<Rightarrow> vendor_usage option" where
  "reported u = (if usage_is_zero u then None else Some u)"

text \<open>The cache counts: the top-level fields, overridden by positive ones of the details objects.\<close>

definition details_override :: "json_object \<Rightarrow> string \<Rightarrow> string list \<Rightarrow> int \<Rightarrow> int" where
  "details_override raw object_key keys n =
     (case obj_field raw object_key of
        Some details \<Rightarrow> later_count n (int_field details keys)
      | None \<Rightarrow> n)"

definition openai_cached :: "json_object \<Rightarrow> int" where
  "openai_cached raw =
     details_override raw ''input_tokens_details'' [''cached_tokens'']
       (details_override raw ''prompt_tokens_details'' [''cached_tokens'']
          (int_field raw [''prompt_cache_hit_tokens'', ''cached_tokens'']))"

definition openai_cache_write :: "json_object \<Rightarrow> int" where
  "openai_cache_write raw =
     details_override raw ''input_tokens_details'' [''cache_write_tokens'', ''cache_creation_tokens'']
       (details_override raw ''prompt_tokens_details'' [''cache_write_tokens'', ''cache_creation_tokens'']
          (int_field raw [''cache_write_tokens'', ''cache_creation_tokens'']))"

definition openai_uncached :: "json_object \<Rightarrow> int" where
  "openai_uncached raw =
     (let prompt = int_field raw [''prompt_tokens'', ''input_tokens''];
          miss = int_field raw [''prompt_cache_miss_tokens''];
          uncached = (if miss = 0 then i64 (prompt - openai_cached raw - openai_cache_write raw) else miss)
      in if uncached < 0 then 0 else uncached)"

definition openai_reasoning :: "json_object \<Rightarrow> int" where
  "openai_reasoning raw =
     (let r1 = (case obj_field raw ''completion_tokens_details'' of
                  Some details \<Rightarrow> int_field details [''reasoning_tokens''] | None \<Rightarrow> 0)
      in case obj_field raw ''output_tokens_details'' of
           Some details \<Rightarrow> (let n = int_field details [''reasoning_tokens''] in if r1 < n then n else r1)
         | None \<Rightarrow> r1)"

definition openai_output :: "json_object \<Rightarrow> int" where
  "openai_output raw =
     (let prompt = int_field raw [''prompt_tokens'', ''input_tokens''];
          output = int_field raw [''completion_tokens'', ''output_tokens''];
          reasoning = openai_reasoning raw;
          total = int_field raw [''total_tokens'']
      in if 0 < reasoning \<and> i64 (total - prompt - output) = reasoning then i64 (output + reasoning) else output)"

definition openai_usage_from :: "json_object \<Rightarrow> vendor_usage option" where
  "openai_usage_from m =
     (case obj_field m ''usage'' of
        None \<Rightarrow> None
      | Some raw \<Rightarrow> reported
          \<lparr>vu_input = openai_uncached raw, vu_cached = openai_cached raw,
           vu_write5m = openai_cache_write raw, vu_write1h = 0, vu_output = openai_output raw\<rparr>)"

definition anthropic_counts :: "json_object \<Rightarrow> vendor_usage" where
  "anthropic_counts raw =
     (let creation = (case obj_field raw ''cache_creation'' of Some c \<Rightarrow> c | None \<Rightarrow> []);
          w5 = int_field creation [''ephemeral_5m_input_tokens''];
          w1 = int_field creation [''ephemeral_1h_input_tokens''];
          remainder = i64 (int_field raw [''cache_creation_input_tokens''] - w5 - w1)
      in \<lparr>vu_input = int_field raw [''input_tokens''],
          vu_cached = int_field raw [''cache_read_input_tokens''],
          vu_write5m = (if 0 < remainder then i64 (w5 + remainder) else w5),
          vu_write1h = w1,
          vu_output = int_field raw [''output_tokens'']\<rparr>)"

lemma map_of_member_size: "map_of m k = Some v \<Longrightarrow> size v < size (JObj m)"
  by (auto dest!: map_of_SomeD intro: json_member_size)

lemma obj_field_size: "obj_field m k = Some n \<Longrightarrow> size (JObj n) < size (JObj m)"
  by (auto simp: obj_field_def split: option.splits json.splits dest: map_of_member_size)

function anthropic_usage_from :: "json_object \<Rightarrow> vendor_usage option" where
  "anthropic_usage_from m =
     (case obj_field m ''usage'' of
        Some raw \<Rightarrow> reported (anthropic_counts raw)
      | None \<Rightarrow> (case obj_field m ''message'' of
          Some nested \<Rightarrow> anthropic_usage_from nested
        | None \<Rightarrow> None))"
  by pat_completeness auto
termination
  by (relation "measure (\<lambda>m. size (JObj m))") (auto simp del: json.size dest: obj_field_size)

declare anthropic_usage_from.simps [simp del]

text \<open>The generic reader of \<open>parse.go\<close>, with the field names of a vendor.\<close>

function usage_from :: "json_object \<Rightarrow> string list \<Rightarrow> string list \<Rightarrow> vendor_usage option" where
  "usage_from m input_keys output_keys =
     (case (case obj_field m ''usage'' of
              Some raw \<Rightarrow> reported (zero_usage \<lparr>vu_input := int_field raw input_keys, vu_output := int_field raw output_keys\<rparr>)
            | None \<Rightarrow> None) of
        Some u \<Rightarrow> Some u
      | None \<Rightarrow> (case obj_field m ''message'' of
          Some nested \<Rightarrow> usage_from nested input_keys output_keys
        | None \<Rightarrow> None))"
  by pat_completeness auto
termination
  by (relation "measure (\<lambda>(m, i, out). size (JObj m))") (auto simp del: json.size dest: obj_field_size)

declare usage_from.simps [simp del]

definition usage_from_response :: "(string \<Rightarrow> json_object option) \<Rightarrow> provider \<Rightarrow> string \<Rightarrow> vendor_usage option" where
  "usage_from_response unmarshal p body =
     (case decode_body unmarshal body of
        None \<Rightarrow> None
      | Some m \<Rightarrow> (case p of OpenAI _ _ \<Rightarrow> openai_usage_from m | Anthropic _ \<Rightarrow> anthropic_usage_from m))"

definition usage_from_stream_event :: "(string \<Rightarrow> json_object option) \<Rightarrow> provider \<Rightarrow> string \<Rightarrow> vendor_usage option" where
  "usage_from_stream_event unmarshal p data = usage_from_response unmarshal p data"

section \<open>Stream usage\<close>

text \<open>\<open>json.Marshal\<close> of a decoded document never fails; it is the parameter \<open>marshal\<close>.\<close>

definition with_usage_option :: "json_object \<Rightarrow> json_object option" where
  "with_usage_option m =
     (if \<not> bool_field m ''stream'' then None
      else case obj_field m ''stream_options'' of
        None \<Rightarrow> Some (put_key ''stream_options'' (JObj [(''include_usage'', JBool True)]) m)
      | Some opts \<Rightarrow>
          if bool_field opts ''include_usage'' then None
          else Some (put_key ''stream_options'' (JObj (put_key ''include_usage'' (JBool True) opts)) m))"

fun enable_stream_usage ::
  "(string \<Rightarrow> json_object option) \<Rightarrow> (json_object \<Rightarrow> string) \<Rightarrow> provider \<Rightarrow> string \<Rightarrow> string \<times> bool" where
  "enable_stream_usage unmarshal marshal (OpenAI _ _) body =
     (case decode_body unmarshal body of
        None \<Rightarrow> (body, False)
      | Some m \<Rightarrow> (case with_usage_option m of
          None \<Rightarrow> (body, False)
        | Some m' \<Rightarrow> (marshal m', True)))"
| "enable_stream_usage unmarshal marshal (Anthropic _) body = (body, False)"

definition usage_only_document :: "json_object \<Rightarrow> bool" where
  "usage_only_document m \<longleftrightarrow> obj_field m ''usage'' \<noteq> None \<and>
     (case arr_field m ''choices'' of None \<Rightarrow> True | Some choices \<Rightarrow> choices = [])"

fun is_usage_only_event :: "(string \<Rightarrow> json_object option) \<Rightarrow> provider \<Rightarrow> string \<Rightarrow> bool" where
  "is_usage_only_event unmarshal (OpenAI _ _) data =
     (case decode_body unmarshal data of None \<Rightarrow> False | Some m \<Rightarrow> usage_only_document m)"
| "is_usage_only_event unmarshal (Anthropic _) data = False"

section \<open>Routing\<close>

lemma cut_found: "cut c s = (a, b, True) \<Longrightarrow> s = a @ c # b"
proof -
  assume cut: "cut c s = (a, b, True)"
  then obtain d r where drop: "dropWhile (\<lambda>d. d \<noteq> c) s = d # r"
    by (cases "dropWhile (\<lambda>d. d \<noteq> c) s") (auto simp: cut_def)
  then have "d = c" by (metis (full_types) dropWhile_eq_Cons_conv)
  moreover have "a = takeWhile (\<lambda>d. d \<noteq> c) s" "b = r" using cut drop by (auto simp: cut_def)
  ultimately show ?thesis using drop takeWhile_dropWhile_id [of "\<lambda>d. d \<noteq> c" s] by simp
qed

lemma registry_lookup_Some: "registry_lookup r name = Some p \<Longrightarrow> p \<in> set (rg_order r) \<and> provider_name p = name"
  by (auto simp: registry_lookup_def dest: find_SomeD)

lemma explicit_provider_Some:
  "explicit_provider r path = Some (p, upstream) \<Longrightarrow>
     p \<in> set (rg_order r) \<and> trim_prefix path ''/'' = provider_name p @ upstream"
  by (auto simp: explicit_provider_def split: prod.splits if_splits dest!: registry_lookup_Some cut_found)

lemma resolve_ambiguous_in: "matches \<noteq> [] \<Longrightarrow> resolve_ambiguous r v matches \<in> set matches"
  by (auto simp: resolve_ambiguous_def split: option.splits if_splits dest: find_SomeD)

lemma register_all_distinct:
  "register_all seen ps = Inr order' \<Longrightarrow> distinct (map provider_name seen) \<Longrightarrow>
     order' = seen @ ps \<and> distinct (map provider_name (seen @ ps))"
proof (induction seen ps rule: register_all.induct)
  case (2 seen p ps)
  then have "provider_name p \<notin> provider_name ` set seen" and "register_all (seen @ [p]) ps = Inr order'"
    by (auto split: if_splits)
  with 2 show ?case by simp
qed simp

lemma new_registry_ok:
  "new_registry ps = Inr r \<Longrightarrow>
     ps \<noteq> [] \<and> rg_order r = ps \<and> rg_fallback r = hd ps \<and> distinct (map provider_name ps)"
  by (auto simp: new_registry_def split: list.splits sum.splits dest!: register_all_distinct)

lemma registry_lookup_member:
  "new_registry ps = Inr r \<Longrightarrow> p \<in> set ps \<Longrightarrow> registry_lookup r (provider_name p) = Some p"
  unfolding registry_lookup_def by (frule new_registry_ok) (simp add: find_distinct_key)

text \<open>
  Routing is sound: the adapter \<open>Resolve\<close> picks is registered under its own name, and either
  the request path goes upstream unchanged and starts with a prefix the adapter claims, or the path
  carries the adapter's name as an explicit prefix and exactly the rest goes upstream.
\<close>

theorem resolve_routes_to_owner:
  assumes "new_registry ps = Inr r"
    and "resolve r req = Inr (p, upstream)"
  shows "registry_lookup r (provider_name p) = Some p \<and>
    (upstream = rq_path req \<and> (\<exists>prefix \<in> set (provider_paths p). claims_prefix upstream prefix) \<or>
     trim_prefix (rq_path req) ''/'' = provider_name p @ upstream)"
proof (cases "explicit_provider r (rq_path req)")
  case (Some pu)
  then have "pu = (p, upstream)" using assms(2) by (cases pu) (simp add: resolve_def)
  with Some have "p \<in> set (rg_order r)" "trim_prefix (rq_path req) ''/'' = provider_name p @ upstream"
    by (auto dest: explicit_provider_Some)
  with assms(1) show ?thesis by (auto dest: new_registry_ok intro: registry_lookup_member)
next
  case None
  let ?ms = "matching r (rq_path req)"
  have picked: "upstream = rq_path req \<and> p \<in> set ?ms"
    using assms(2) None resolve_ambiguous_in [of ?ms r]
    by (cases ?ms rule: remdups_adj.cases) (simp_all add: resolve_def, metis list.set_intros(1) set_ConsD)
  then have "p \<in> set (rg_order r)" "\<exists>prefix \<in> set (provider_paths p). claims_prefix upstream prefix"
    by (auto simp: matching_def list_ex_iff)
  with assms(1) picked show ?thesis by (auto dest: new_registry_ok intro: registry_lookup_member)
qed

definition sample_openai :: provider where
  "sample_openai = OpenAI ''openai'' ''https://api.openai.com''"

definition sample_anthropic :: provider where
  "sample_anthropic = Anthropic ''https://api.anthropic.com''"

definition sample_registry :: registry where
  "sample_registry = \<lparr>rg_order = [sample_openai, sample_anthropic], rg_fallback = sample_openai\<rparr>"

lemma sample_registry_new: "new_registry [sample_openai, sample_anthropic] = Inr sample_registry"
  by code_simp

definition sample_request :: request where
  "sample_request = \<lparr>rq_method = ''POST'', rq_path = ''/anthropic/v1/messages'', rq_header = []\<rparr>"

lemma resolve_routes_to_owner_witness:
  "registry_lookup sample_registry (provider_name sample_anthropic) = Some sample_anthropic \<and>
    (''/v1/messages'' = rq_path sample_request \<and>
       (\<exists>prefix \<in> set (provider_paths sample_anthropic). claims_prefix ''/v1/messages'' prefix) \<or>
     trim_prefix (rq_path sample_request) ''/'' = provider_name sample_anthropic @ ''/v1/messages'')"
  by (rule resolve_routes_to_owner [OF sample_registry_new]) code_simp

section \<open>What a request may cost\<close>

lemma media_parts:
  "contains_any_key media_keys (JObj m) \<or> contains_type_value media_types (JObj m) \<longleftrightarrow>
     (\<exists>kvs. part_of (JObj kvs) (JObj m) \<and>
        ((\<exists>k \<in> set media_keys. map_of kvs k \<noteq> None) \<or>
         (\<exists>kind \<in> set media_types. map_of kvs ''type'' = Some (JStr kind))))"
  unfolding contains_any_key_iff contains_type_value_iff by blast

lemma unsupported_feature_empty:
  "unsupported_billing_feature m = [] \<longleftrightarrow>
     \<not> (contains_any_key media_keys (JObj m) \<or> contains_type_value media_types (JObj m)) \<and>
     (\<forall>tools. arr_field m ''tools'' = Some tools \<longrightarrow> \<not> list_ex hosted_tool tools)"
  by (auto simp: unsupported_billing_feature_def media_reason_def hosted_tool_reason_def split: option.splits)

lemma unsupported_modifier_empty:
  "field \<noteq> [] \<Longrightarrow> unsupported_billing_modifier m field vs = [] \<longleftrightarrow>
     map_of m field \<in> {None, Some JNull} \<or> (\<exists>v \<in> set vs. map_of m field = Some (JStr v))"
  by (auto simp: unsupported_billing_modifier_def split: option.splits json.splits)

lemma first_reason_empty: "first_reason a b = [] \<longleftrightarrow> a = [] \<and> b = []"
  by (simp add: first_reason_def)

text \<open>
  An OpenAI-shaped request passes the billing inspection exactly when no object anywhere in
  the document has a media key or a media \<open>type\<close>, every listed tool is a function or custom tool, and
  the service tier is absent, null or an ordinary one.
\<close>

theorem openai_inspection_exact:
  "ri_unsupported (openai_request name m n) = [] \<longleftrightarrow>
     (\<forall>kvs. part_of (JObj kvs) (JObj m) \<longrightarrow>
        (\<forall>k \<in> set media_keys. map_of kvs k = None) \<and>
        (\<forall>kind \<in> set media_types. map_of kvs ''type'' \<noteq> Some (JStr kind))) \<and>
     (\<forall>tools. arr_field m ''tools'' = Some tools \<longrightarrow> (\<forall>tool \<in> set tools. \<not> hosted_tool tool)) \<and>
     (map_of m ''service_tier'' \<in> {None, Some JNull} \<or>
      map_of m ''service_tier'' = Some (JStr ''default'') \<or>
      name = ''gemini'' \<and> map_of m ''service_tier'' = Some (JStr ''standard''))"
  (is "?l \<longleftrightarrow> ?media \<and> ?tools \<and> ?tier")
proof -
  have "?l \<longleftrightarrow> unsupported_billing_feature m = [] \<and>
      unsupported_billing_modifier m ''service_tier''
        (if name = ''gemini'' then [''default'', ''standard''] else [''default'']) = []"
    by (simp add: openai_request_def first_reason_empty)
  also have "unsupported_billing_feature m = [] \<longleftrightarrow> ?media \<and> ?tools"
    unfolding unsupported_feature_empty media_parts list_ex_iff by auto
  also have "unsupported_billing_modifier m ''service_tier''
        (if name = ''gemini'' then [''default'', ''standard''] else [''default'']) = [] \<longleftrightarrow> ?tier"
    by (subst unsupported_modifier_empty) auto
  finally show ?thesis by blast
qed

lemma openai_inspection_exact_witness:
  "ri_unsupported (openai_request ''gemini''
     [(''model'', JStr ''m''), (''service_tier'', JStr ''standard'')] 40) = []"
  unfolding openai_inspection_exact
  by (auto simp: part_of_JObj part_of_atom media_keys_def media_types_def arr_field_def split: option.splits json.splits)

text \<open>A field whose value carries no text leaves the prompt count as it is.\<close>

lemma in_i64_foldl: "in_i64 n \<Longrightarrow> in_i64 (foldl (\<lambda>n item. i64 (n + item)) n xs)"
  by (induction xs arbitrary: n) auto

lemma count_prompt_chars_put:
  assumes "map_of m k = None" and "count_chars (k \<in> set prompt_text_keys) v = 0"
  shows "count_prompt_chars (put_key k v m) = count_prompt_chars m"
proof -
  have put: "put_key k v m = m @ [(k, v)]"
    using assms(1) by (induction k v m rule: put_key.induct) (auto split: if_splits)
  have "in_i64 (count_prompt_chars m)"
    unfolding count_prompt_chars_def count_chars.simps
    by (rule in_i64_foldl) (simp add: in_i64_def min_i64_def max_i64_def)
  then show ?thesis
    using assms(2) by (simp add: put count_prompt_chars_def i64_id)
qed

lemma int_field_put: "k \<notin> set ks \<Longrightarrow> int_field (put_key k v m) ks = int_field m ks"
proof (induction ks)
  case (Cons a ks)
  then have "a \<noteq> k" by auto
  then have same: "map_of (put_key k v m) a = map_of m a" by simp
  have "int_field (put_key k v m) ks = int_field m ks" using Cons by simp
  then show ?case unfolding int_field.simps same by (rule arg_cong)
qed simp

lemma string_field_put: "k' \<noteq> k \<Longrightarrow> string_field (put_key k v m) k' = string_field m k'"
  and bool_field_put: "k' \<noteq> k \<Longrightarrow> bool_field (put_key k v m) k' = bool_field m k'"
  and obj_field_put: "k' \<noteq> k \<Longrightarrow> obj_field (put_key k v m) k' = obj_field m k'"
  and arr_field_put: "k' \<noteq> k \<Longrightarrow> arr_field (put_key k v m) k' = arr_field m k'"
  by (simp_all add: string_field_def bool_field_def obj_field_def arr_field_def)

lemmas field_put = int_field_put string_field_put bool_field_put obj_field_put arr_field_put

lemma put_key_new: "map_of m k = None \<Longrightarrow> put_key k v m = m @ [(k, v)]"
  by (induction k v m rule: put_key.induct) (auto split: if_splits)

text \<open>
  The number of completions a request asks for is not read: adding \<open>"n": v\<close> to an
  OpenAI-shaped request changes nothing the gateway knows about it, so the reservation covers the
  output ceiling of one completion whatever \<open>n\<close> is.
\<close>

theorem completion_count_is_ignored:
  assumes "map_of m ''n'' = None"
  shows "openai_request name (put_key ''n'' (JNum v) m) b = openai_request name m b"
proof -
  have "''n'' \<notin> set media_keys" by (simp add: media_keys_def)
  then have "contains_any_key media_keys (JObj (put_key ''n'' (JNum v) m)) = contains_any_key media_keys (JObj m)"
    by (simp add: put_key_new [OF assms])
  moreover have "contains_type_value media_types (JObj (put_key ''n'' (JNum v) m)) = contains_type_value media_types (JObj m)"
    unfolding put_key_new [OF assms] by (simp add: map_add_def split: option.split)
  ultimately have "unsupported_billing_feature (put_key ''n'' (JNum v) m) = unsupported_billing_feature m"
    by (simp only: unsupported_billing_feature_def arr_field_put [of "''tools''" "''n''"] list.inject char.inject simp_thms)
  moreover have "count_prompt_chars (put_key ''n'' (JNum v) m) = count_prompt_chars m"
    using assms by (rule count_prompt_chars_put) simp
  ultimately show ?thesis
    by (simp add: openai_request_def field_put unsupported_billing_modifier_def del: int_field.simps)
qed

lemma completion_count_is_ignored_witness:
  "openai_request ''openai'' (put_key ''n'' (JNum 100) [(''model'', JStr ''gpt'')]) 30 =
   openai_request ''openai'' [(''model'', JStr ''gpt'')] 30"
  by (rule completion_count_is_ignored) simp

text \<open>
  The output ceiling that is reserved is the first positive one of the three fields, not the
  largest: a small \<open>max_tokens\<close> hides any \<open>max_completion_tokens\<close> or \<open>max_output_tokens\<close> of the
  same request.
\<close>

theorem first_ceiling_wins:
  assumes "map_of m ''max_tokens'' = Some (JNum q)" and "1 \<le> q" and "q < 9223372036854775808"
  shows "ri_max_tokens (openai_request name m b) = floor q"
proof -
  have "floor q < 9223372036854775808" using assms(3) by (simp add: floor_less_iff)
  then show ?thesis
    using assms(1,2) by (simp add: openai_request_def float_to_i64_def max_i64_def)
qed

lemma first_ceiling_wins_witness:
  "ri_max_tokens (openai_request ''openai''
     [(''max_tokens'', JNum 1), (''max_completion_tokens'', JNum 100000)] 60) = floor (1 :: rat)"
  by (rule first_ceiling_wins) simp_all

section \<open>Reported usage\<close>

lemma later_count_self [simp]: "later_count n n = n"
  by (simp add: later_count_def)

lemma merge_usage_zero [simp]: "merge_usage u zero_usage = u"
  by (simp add: merge_usage_def later_count_def zero_usage_def)

lemma merge_usage_assoc: "merge_usage (merge_usage a b) c = merge_usage a (merge_usage b c)"
  by (simp add: merge_usage_def later_count_def)

lemma int_field_nonneg: "int_field m ks = min_i64 \<or> 0 \<le> int_field m ks"
proof (induction m ks rule: int_field.induct)
  case (2 m k ks)
  then show ?case by (auto simp: float_to_i64_def split: option.splits json.splits)
qed simp

text \<open>
  An OpenAI-compatible usage object is partitioned without loss: while the counts are below
  2 to the 60 and the vendor gives no separate miss count, the uncached, cached and cache-write tokens
  add up to the reported prompt, or to the cache counts where the vendor reports more of them than
  prompt tokens; so no reported prompt token goes unpriced.
\<close>

theorem openai_usage_partition:
  assumes "obj_field m ''usage'' = Some raw"
    and "openai_usage_from m = Some u"
    and "int_field raw [''prompt_cache_miss_tokens''] = 0"
    and "prompt = int_field raw [''prompt_tokens'', ''input_tokens'']" "0 \<le> prompt" "prompt < 2 ^ 60"
    and "0 \<le> openai_cached raw" "openai_cached raw < 2 ^ 60"
    and "0 \<le> openai_cache_write raw" "openai_cache_write raw < 2 ^ 60"
  shows "total_input_tokens u = max prompt (openai_cached raw + openai_cache_write raw) \<and>
    0 \<le> vu_input u \<and> vu_cached u = openai_cached raw \<and> vu_write5m u = openai_cache_write raw"
proof -
  let ?c = "openai_cached raw" and ?w = "openai_cache_write raw"
  have "in_i64 (prompt - ?c - ?w)"
    using assms by (auto simp: in_i64_def min_i64_def max_i64_def)
  then have uncached: "openai_uncached raw = max 0 (prompt - ?c - ?w)"
    using assms(3,4) by (simp add: openai_uncached_def i64_id)
  have u: "u = \<lparr>vu_input = openai_uncached raw, vu_cached = ?c, vu_write5m = ?w, vu_write1h = 0, vu_output = openai_output raw\<rparr>"
    using assms(1,2) by (simp add: openai_usage_from_def reported_def split: if_splits)
  have "in_i64 (max 0 (prompt - ?c - ?w) + ?c + ?w)"
    using assms by (auto simp: in_i64_def min_i64_def max_i64_def max_def)
  then show ?thesis
    by (simp add: u total_input_tokens_def uncached i64_id)
qed

definition sample_usage_doc :: json_object where
  "sample_usage_doc = [(''prompt_tokens'', JNum 100), (''completion_tokens'', JNum 20),
     (''prompt_tokens_details'', JObj [(''cached_tokens'', JNum 64)])]"

lemma sample_usage_counts:
  "openai_cached sample_usage_doc = 64" "openai_cache_write sample_usage_doc = 0"
  "openai_uncached sample_usage_doc = 36" "openai_output sample_usage_doc = 20"
  by (simp_all add: sample_usage_doc_def openai_cached_def openai_cache_write_def openai_uncached_def openai_output_def
      openai_reasoning_def details_override_def obj_field_def later_count_def float_to_i64_def max_i64_def i64_def)

lemma openai_usage_partition_witness:
  "total_input_tokens \<lparr>vu_input = 36, vu_cached = 64, vu_write5m = 0, vu_write1h = 0, vu_output = 20\<rparr> =
     max 100 (openai_cached sample_usage_doc + openai_cache_write sample_usage_doc) \<and>
   0 \<le> vu_input \<lparr>vu_input = 36, vu_cached = 64, vu_write5m = 0, vu_write1h = 0, vu_output = 20\<rparr> \<and>
   vu_cached \<lparr>vu_input = 36, vu_cached = 64, vu_write5m = 0, vu_write1h = 0, vu_output = 20\<rparr> = openai_cached sample_usage_doc \<and>
   vu_write5m \<lparr>vu_input = 36, vu_cached = 64, vu_write5m = 0, vu_write1h = 0, vu_output = 20\<rparr> = openai_cache_write sample_usage_doc"
  by (rule openai_usage_partition [where m = "[(''usage'', JObj sample_usage_doc)]" and raw = sample_usage_doc])
    (simp_all add: sample_usage_counts openai_usage_from_def obj_field_def reported_def usage_is_zero_def,
     simp_all add: sample_usage_doc_def float_to_i64_def max_i64_def)

section \<open>Stream usage\<close>

lemma with_usage_option_Some:
  assumes "with_usage_option m = Some m'"
  shows "\<exists>opts. map_of m' = (map_of m)(''stream_options'' \<mapsto> JObj opts) \<and>
    map_of opts = (map_of (case obj_field m ''stream_options'' of Some old \<Rightarrow> old | None \<Rightarrow> []))(''include_usage'' \<mapsto> JBool True) \<and>
    bool_field m' ''stream''"
  using assms unfolding with_usage_option_def
  by (auto simp: field_put split: if_splits option.splits)

text \<open>
  Asking for usage on a stream is minimal: when the gateway changes the body of a streaming
  request, the new body differs only in \<open>stream_options.include_usage\<close>, it asks for usage, and a
  second pass leaves it alone. The hypothesis is that \<open>json.Unmarshal\<close> reads back the document
  \<open>json.Marshal\<close> wrote.
\<close>

theorem stream_usage_change_is_minimal:
  assumes "enable_stream_usage unmarshal marshal (OpenAI name url) body = (body', True)"
    and "\<And>m'. body' = marshal m' \<Longrightarrow> body' \<noteq> [] \<and> unmarshal body' = Some m'"
  shows "\<exists>m m' opts. unmarshal body = Some m \<and> unmarshal body' = Some m' \<and>
    map_of m' = (map_of m)(''stream_options'' \<mapsto> JObj opts) \<and>
    map_of opts = (map_of (case obj_field m ''stream_options'' of Some old \<Rightarrow> old | None \<Rightarrow> []))(''include_usage'' \<mapsto> JBool True) \<and>
    ri_wants_usage (parse_request unmarshal (OpenAI name url) body') \<and>
    enable_stream_usage unmarshal marshal (OpenAI name url) body' = (body', False)"
proof -
  obtain m m' where m: "unmarshal body = Some m" and m': "with_usage_option m = Some m'" and "body' = marshal m'"
    using assms(1) by (auto simp: decode_body_def split: option.splits if_splits)
  then have body': "body' \<noteq> []" "unmarshal body' = Some m'" using assms(2) by auto
  obtain opts where opts: "map_of m' = (map_of m)(''stream_options'' \<mapsto> JObj opts)"
    "map_of opts = (map_of (case obj_field m ''stream_options'' of Some old \<Rightarrow> old | None \<Rightarrow> []))(''include_usage'' \<mapsto> JBool True)"
    "bool_field m' ''stream''"
    using with_usage_option_Some [OF m'] by blast
  have asked: "obj_field m' ''stream_options'' = Some opts" "bool_field opts ''include_usage''"
    by (simp_all add: obj_field_def bool_field_def opts)
  then have "with_usage_option m' = None" by (simp add: with_usage_option_def)
  with body' have "enable_stream_usage unmarshal marshal (OpenAI name url) body' = (body', False)"
    by (simp add: decode_body_def)
  moreover have "ri_wants_usage (parse_request unmarshal (OpenAI name url) body')"
    using body' asked by (simp add: decode_body_def openai_request_def)
  ultimately show ?thesis using m body' opts by blast
qed

definition sample_body :: string where "sample_body = ''{stream:true}''"
definition sample_changed :: string where "sample_changed = ''{stream:true,stream_options:{include_usage:true}}''"

definition sample_document :: json_object where
  "sample_document = [(''stream'', JBool True), (''stream_options'', JObj [(''include_usage'', JBool True)])]"

definition sample_unmarshal :: "string \<Rightarrow> json_object option" where
  "sample_unmarshal b =
     (if b = sample_body then Some [(''stream'', JBool True)]
      else if b = sample_changed then Some sample_document else None)"

definition sample_marshal :: "json_object \<Rightarrow> string" where
  "sample_marshal m = (if m = sample_document then sample_changed else ''{}'')"

lemma stream_usage_change_is_minimal_witness:
  "\<exists>m m' opts. sample_unmarshal sample_body = Some m \<and> sample_unmarshal sample_changed = Some m' \<and>
    map_of m' = (map_of m)(''stream_options'' \<mapsto> JObj opts) \<and>
    map_of opts = (map_of (case obj_field m ''stream_options'' of Some old \<Rightarrow> old | None \<Rightarrow> []))(''include_usage'' \<mapsto> JBool True) \<and>
    ri_wants_usage (parse_request sample_unmarshal (OpenAI ''openai'' []) sample_changed) \<and>
    enable_stream_usage sample_unmarshal sample_marshal (OpenAI ''openai'' []) sample_changed = (sample_changed, False)"
proof (rule stream_usage_change_is_minimal)
  show "enable_stream_usage sample_unmarshal sample_marshal (OpenAI ''openai'' []) sample_body = (sample_changed, True)"
    by (simp add: decode_body_def sample_unmarshal_def sample_body_def with_usage_option_def bool_field_def obj_field_def
        sample_marshal_def sample_document_def)
  show "sample_changed \<noteq> [] \<and> sample_unmarshal sample_changed = Some m'" if "sample_changed = sample_marshal m'" for m'
  proof -
    have "sample_changed \<noteq> ''{}''" "sample_changed \<noteq> []" "sample_changed \<noteq> sample_body"
      by (simp_all add: sample_changed_def sample_body_def)
    moreover from this have "m' = sample_document"
      using that by (auto simp: sample_marshal_def split: if_splits)
    ultimately show ?thesis by (simp add: sample_unmarshal_def)
  qed
qed

end
