(* ===== verification/Recorder.thy ===== *)
theory Recorder
  imports StoreSystem Providers
begin

text \<open>
  The recorder (\<open>internal/gateway/record.go\<close>): the hold a request takes before it leaves, the
  charge its completion leaves in the ledger, the release of a failed one, and the run a request is
  charged to. The store behind the interface \<open>LedgerStore\<close> is the database model; each
  \<open>time.Now()\<close> is an argument, and so are the random identifier of a reservation and the digest.
\<close>

section \<open>Configuration\<close>

datatype enforcement_policy = EnforcementStrict | EnforcementBestEffort | PolicyOther string

fun policy_valid :: "enforcement_policy \<Rightarrow> bool" where
  "policy_valid (PolicyOther _) = False"
| "policy_valid _ = True"

definition default_reservation_ttl :: int where "default_reservation_ttl = 15 * ns_per_minute"

record recorder =
  rc_book :: book
  rc_policy :: enforcement_policy
  rc_default_budget :: nanos
  rc_ttl :: int

definition new_recorder_with_options :: "book \<Rightarrow> nanos \<Rightarrow> int \<Rightarrow> enforcement_policy \<Rightarrow> recorder" where
  "new_recorder_with_options b budget ttl policy =
     \<lparr>rc_book = b, rc_policy = (if policy_valid policy then policy else EnforcementStrict),
      rc_default_budget = budget, rc_ttl = (if ttl \<le> 0 then default_reservation_ttl else ttl)\<rparr>"

definition new_recorder :: "book \<Rightarrow> nanos \<Rightarrow> int list \<Rightarrow> recorder" where
  "new_recorder b budget reservation_ttl =
     (let ttl = (case reservation_ttl of [] \<Rightarrow> default_reservation_ttl
                 | t # _ \<Rightarrow> if 0 < t then t else default_reservation_ttl)
      in new_recorder_with_options b budget ttl (PolicyOther []))"

definition strict_unenforceable_reason :: "recorder \<Rightarrow> instant \<Rightarrow> principal \<Rightarrow> string \<Rightarrow> request_info \<Rightarrow> string" where
  "strict_unenforceable_reason rc now p name info =
     (if pr_mode p \<noteq> ModeEnforce \<or> rc_policy rc \<noteq> EnforcementStrict then []
      else if lookup_known (rc_book rc) name (ri_model info) now = None then
        ''model '' @ go_quote (ri_model info) @ '' is not in the active '' @ name @ '' price book''
      else if \<not> ri_no_output info \<and> ri_max_tokens info \<le> 0 then
        ''the request does not set an explicit output-token limit''
      else [])"

section \<open>Reserving and releasing\<close>

definition reserved_output :: "request_info \<Rightarrow> price \<Rightarrow> int" where
  "reserved_output info p = (if ri_no_output info then 0 else reservation_tokens (ri_max_tokens info) p)"

definition reserved_usage :: "request_info \<Rightarrow> price \<Rightarrow> token_counts" where
  "reserved_usage info p =
     \<lparr>tc_input = reservation_input_tokens (ri_request_bytes info), tc_cached = 0, tc_write5m = 0, tc_write1h = 0,
      tc_output = reserved_output info p\<rparr>"

definition reservation_amount :: "recorder \<Rightarrow> instant \<Rightarrow> string \<Rightarrow> request_info \<Rightarrow> nanos" where
  "reservation_amount rc now name info =
     (let p = fst (lookup_price (rc_book rc) name (ri_model info) now) in price_cost p (reserved_usage info p))"

definition new_reservation ::
  "recorder \<Rightarrow> instant \<Rightarrow> instant \<Rightarrow> string \<Rightarrow> string \<Rightarrow> string \<Rightarrow> string \<Rightarrow> request_info \<Rightarrow> reservation" where
  "new_reservation rc priced now rid run_ctx lease_ctx name info =
     \<lparr>rv_id = rid, rv_run = run_ctx, rv_lease = lease_ctx,
      rv_amount = reservation_amount rc priced name info,
      rv_status = ReservationPending, rv_expires = now + rc_ttl rc, rv_created = now, rv_resolved = None\<rparr>"

definition decision_event :: "instant \<Rightarrow> principal \<Rightarrow> string \<Rightarrow> string \<Rightarrow> request_info \<Rightarrow> budget_decision \<Rightarrow> budget_event" where
  "decision_event now p lease_ctx name info dec =
     \<lparr>be_principal = pr_id p, be_run = bd_run dec, be_lease = lease_ctx, be_provider = name,
      be_model = ri_model info, be_enforced = \<not> bd_allowed dec, be_requested = bd_requested dec,
      be_remaining = bd_remaining dec, be_shortfall = bd_shortfall dec, be_created = now\<rparr>"

text \<open>
  \<open>Reserve\<close>: the decision and the new database; an error of the decision leaves the database alone,
  and a failure to record the budget event is logged only. \<open>priced\<close> and \<open>now\<close> are its two reads of
  the clock; the outer \<open>None\<close> is a recursive query that does not end.
\<close>

definition reserve ::
  "recorder \<Rightarrow> instant \<Rightarrow> instant \<Rightarrow> string \<Rightarrow> string \<Rightarrow> string \<Rightarrow> principal \<Rightarrow> string \<Rightarrow> request_info \<Rightarrow> db \<Rightarrow>
     ((store_error + budget_decision) \<times> db) option" where
  "reserve rc priced now rid run_ctx lease_ctx p name info d =
     (case try_reserve (new_reservation rc priced now rid run_ctx lease_ctx name info) (pr_mode p = ModeEnforce) d of
        None \<Rightarrow> None
      | Some (Inl e) \<Rightarrow> Some (Inl e, d)
      | Some (Inr (dec, d1)) \<Rightarrow>
          Some (Inr dec,
            if bd_would_block dec
            then (case record_budget_event (decision_event now p lease_ctx name info dec) d1 of
                Inl _ \<Rightarrow> d1
              | Inr d2 \<Rightarrow> d2)
            else d1))"

definition release :: "instant \<Rightarrow> string \<Rightarrow> db \<Rightarrow> db" where
  "release now rid d =
     (if rid = [] then d
      else (case resolve_reservation now rid ReservationReleased d of Inl _ \<Rightarrow> d | Inr d' \<Rightarrow> d'))"

section \<open>Recording\<close>

record observed =
  ob_principal :: principal
  ob_provider :: string
  ob_run :: string
  ob_request :: request_info
  ob_usage :: vendor_usage
  ob_reported :: bool
  ob_complete :: bool
  ob_upstream_ok :: bool
  ob_reservation :: string
  ob_external :: string

definition estimate_usage :: "observed \<Rightarrow> price \<Rightarrow> vendor_usage" where
  "estimate_usage ob p =
     (let out = reservation_tokens (ri_max_tokens (ob_request ob)) p
      in zero_usage \<lparr>vu_input := estimate_from_chars (ri_prompt_chars (ob_request ob)),
           vu_output := (if ob_complete ob then out else go_div out 2)\<rparr>)"

definition counted_usage :: "observed \<Rightarrow> price \<Rightarrow> vendor_usage" where
  "counted_usage ob p = (if ob_reported ob then ob_usage ob else estimate_usage ob p)"

definition priced_tokens :: "vendor_usage \<Rightarrow> token_counts" where
  "priced_tokens u = \<lparr>tc_input = vu_input u, tc_cached = vu_cached u, tc_write5m = vu_write5m u,
     tc_write1h = vu_write1h u, tc_output = vu_output u\<rparr>"

definition charge_entry :: "(string \<Rightarrow> string) \<Rightarrow> recorder \<Rightarrow> instant \<Rightarrow> observed \<Rightarrow> entry" where
  "charge_entry sha rc now ob =
     (let (p, known) = lookup_price (rc_book rc) (ob_provider ob) (ri_model (ob_request ob)) now;
          u = counted_usage ob p
      in \<lparr>e_version = 0, e_seq = 0, e_run = ob_run ob, e_principal = pr_id (ob_principal ob), e_provider = ob_provider ob,
          e_model = ri_model (ob_request ob),
          e_input = total_input_tokens u, e_output = vu_output u,
          e_usage = token_usage (vu_input u) (vu_cached u) (vu_write5m u) (vu_write1h u) (vu_output u),
          e_external = ob_external ob, e_revision = md_revision (metadata sha (rc_book rc) now),
          e_effective = p_effective p, e_cost = price_cost p (priced_tokens u),
          e_estimated = (\<not> known \<or> \<not> ob_reported ob \<or> \<not> ob_complete ob),
          e_created = now, e_prev = [], e_hash = []\<rparr>)"

text \<open>\<open>Record\<close>: \<open>now\<close> is its clock and \<open>at_store\<close> the clock the store reads; a failure is logged only.\<close>

definition record_spend :: "(string \<Rightarrow> string) \<Rightarrow> recorder \<Rightarrow> instant \<Rightarrow> instant \<Rightarrow> observed \<Rightarrow> db \<Rightarrow> db" where
  "record_spend sha rc now at_store ob d =
     (if \<not> ob_upstream_ok ob then d
      else if ri_model (ob_request ob) = [] then release at_store (ob_reservation ob) d
      else (case (if ob_reservation ob \<noteq> []
                  then settle_reservation sha at_store (ob_reservation ob) (charge_entry sha rc now ob) d
                  else append_ledger sha at_store (charge_entry sha rc now ob) d) of
          Inl _ \<Rightarrow> d
        | Inr (_, d') \<Rightarrow> d'))"

fun estimate_reason :: "bool \<Rightarrow> observed \<Rightarrow> string" where
  "estimate_reason price_known ob =
     (if \<not> price_known then ''model is not in the price book''
      else if \<not> ob_complete ob then ''client disconnected before the response finished''
      else if \<not> ob_reported ob \<and> ri_stream (ob_request ob) then ''vendor did not report usage on a streamed response''
      else if \<not> ob_reported ob then ''vendor did not report usage''
      else ''unknown'')"

section \<open>The run a request is charged to\<close>

datatype run_error = RunStore store_error | OtherPrincipal | ClosedRun | ImplicitClosed

definition implicit_run_id :: "string \<Rightarrow> string" where
  "implicit_run_id principal_id = run_prefix @ trim_prefix principal_id principal_prefix"

definition implicit_row :: "recorder \<Rightarrow> instant \<Rightarrow> principal \<Rightarrow> run" where
  "implicit_row rc now p =
     \<lparr>run_id = implicit_run_id (pr_id p), run_principal = pr_id p, run_parent = [],
      run_budget = rc_default_budget rc, run_status = RunActive, run_created = now, run_closed = None\<rparr>"

definition implicit_run :: "recorder \<Rightarrow> instant \<Rightarrow> principal \<Rightarrow> db \<Rightarrow> (run_error + string) \<times> db" where
  "implicit_run rc now p d =
     (let i = implicit_run_id (pr_id p)
      in case get_run d i of
           Inr existing \<Rightarrow> (if run_status existing \<noteq> RunActive then Inl ImplicitClosed else Inr i, d)
         | Inl e \<Rightarrow>
             if e \<noteq> ErrNotFound then (Inl (RunStore e), d)
             else (case create_run (implicit_row rc now p) d of
                 Inr d' \<Rightarrow> (Inr i, d')
               | Inl err \<Rightarrow> (if err = ErrConflict then Inr i else Inl (RunStore err), d)))"

definition resolve_run :: "recorder \<Rightarrow> instant \<Rightarrow> principal \<Rightarrow> string \<Rightarrow> db \<Rightarrow> (run_error + string) \<times> db" where
  "resolve_run rc now p requested d =
     (if requested \<noteq> [] then
        (case get_run d requested of
           Inl e \<Rightarrow> (Inl (RunStore e), d)
         | Inr r \<Rightarrow>
             if run_principal r \<noteq> pr_id p then (Inl OtherPrincipal, d)
             else if run_status r \<noteq> RunActive then (Inl ClosedRun, d)
             else (Inr (run_id r), d))
      else implicit_run rc now p d)"

section \<open>What a hold covers\<close>

lemma exact_rate_mono: "0 \<le> t \<Longrightarrow> t \<le> t' \<Longrightarrow> 0 \<le> r \<Longrightarrow> r \<le> r' \<Longrightarrow> exact_rate t r \<le> exact_rate t' r'"
  unfolding exact_rate_def by (intro zdiv_mono1) (auto intro: mult_mono)

lemma within_int64_rates: "within_int64 p u \<Longrightarrow> (t, r) \<in> set (charged_rates p u) \<Longrightarrow> 0 \<le> t \<and> 0 \<le> r"
  by (auto simp: within_int64_def list_all_iff)

text \<open>
  C38. The hold of a request covers its charge whenever the vendor bills only base-rate input tokens, at
  most the reserved number of them, and at most the reserved output: for a price whose long-context
  rates are not below its base rates, and away from the int64 range, the charge is at most the hold.
\<close>

theorem hold_covers_plain_charge:
  assumes "within_int64 p (reserved_usage info p)" and "within_int64 p (priced_tokens u)"
    and "p_input p \<le> p_long_input p" and "p_output p \<le> p_long_output p"
    and "vu_cached u = 0" and "vu_write5m u = 0" and "vu_write1h u = 0"
    and "vu_input u \<le> reservation_input_tokens (ri_request_bytes info)"
    and "vu_output u \<le> reserved_output info p"
  shows "price_cost p (priced_tokens u) \<le> price_cost p (reserved_usage info p)"
proof -
  let ?c = "priced_tokens u" and ?h = "reserved_usage info p"
  have long: "long_context p ?c \<Longrightarrow> long_context p ?h"
    using assms(5-8) by (auto simp: long_context_def priced_tokens_def reserved_usage_def)
  let ?in = "\<lambda>c. if long_context p c then p_long_input p else p_input p"
  let ?out = "\<lambda>c. if long_context p c then p_long_output p else p_output p"
  have cost: "exact_cost p ?c = exact_rate (vu_input u) (?in ?c) + exact_rate (vu_output u) (?out ?c)"
    "exact_cost p ?h = exact_rate (tc_input ?h) (?in ?h) + exact_rate (tc_output ?h) (?out ?h)"
    using assms(5-7) by (simp_all add: exact_cost_def charged_rates_def Let_def priced_tokens_def reserved_usage_def)
  have nn: "0 \<le> vu_input u" "0 \<le> vu_output u" "0 \<le> ?in ?c" "0 \<le> ?out ?c"
    using within_int64_rates [OF assms(2), of "vu_input u" "?in ?c"] within_int64_rates [OF assms(2), of "vu_output u" "?out ?c"]
    by (simp_all add: charged_rates_def Let_def priced_tokens_def)
  have "exact_rate (vu_input u) (?in ?c) \<le> exact_rate (tc_input ?h) (?in ?h)"
    by (rule exact_rate_mono) (use nn assms(3,8) long in \<open>auto simp: reserved_usage_def\<close>)
  moreover have "exact_rate (vu_output u) (?out ?c) \<le> exact_rate (tc_output ?h) (?out ?h)"
    by (rule exact_rate_mono) (use nn assms(4,9) long in \<open>auto simp: reserved_usage_def\<close>)
  ultimately show ?thesis
    using price_cost_is_exact [OF assms(1)] price_cost_is_exact [OF assms(2)] cost by simp
qed

definition sample_info :: "int \<Rightarrow> int \<Rightarrow> request_info" where
  "sample_info max_tokens bytes = no_request_info \<lparr>ri_model := ''m'', ri_max_tokens := max_tokens, ri_request_bytes := bytes\<rparr>"

definition cache_price :: price where
  "cache_price = sample_price \<lparr>p_input := 3 * dollar, p_output := 15 * dollar, p_cached := 3 * dollar div 10,
     p_write5m := 375 * dollar div 100, p_write1h := 6 * dollar, p_long_threshold := 0\<rparr>"

lemma sample_hold: "reserved_usage (sample_info 100 8000) cache_price =
    \<lparr>tc_input = 9024, tc_cached = 0, tc_write5m = 0, tc_write1h = 0, tc_output = 100\<rparr>"
  by (simp add: reserved_usage_def sample_info_def no_request_info_def reservation_input_tokens_def
      reservation_input_overhead_def reserved_output_def reservation_tokens_def i64_def)

lemma cache_price_rates [simp]:
  "p_input cache_price = 3000000000" "p_output cache_price = 15000000000" "p_cached cache_price = 300000000"
  "p_write5m cache_price = 3750000000" "p_write1h cache_price = 6000000000" "p_long_threshold cache_price = 0"
  by (simp_all add: cache_price_def dollar_def)

lemma not_long_cache_price [simp]: "\<not> long_context cache_price u"
  by (simp add: long_context_def)

lemma hold_covers_plain_charge_witness:
  "price_cost (cache_price \<lparr>p_long_input := 3000000000, p_long_output := 15000000000\<rparr>)
      (priced_tokens (zero_usage \<lparr>vu_input := 2000, vu_output := 60\<rparr>))
   \<le> price_cost (cache_price \<lparr>p_long_input := 3000000000, p_long_output := 15000000000\<rparr>)
      (reserved_usage (sample_info 100 8000) (cache_price \<lparr>p_long_input := 3000000000, p_long_output := 15000000000\<rparr>))"
  by (rule hold_covers_plain_charge)
    (simp_all add: within_int64_def charged_rates_def long_context_def exact_cost_def exact_rate_def Let_def
      priced_tokens_def zero_usage_def reserved_usage_def sample_info_def no_request_info_def
      reservation_input_tokens_def reservation_input_overhead_def reserved_output_def reservation_tokens_def
      i64_def max_i64_def)

text \<open>
  Cache writes are not covered: the hold prices every input token at the base rate, so a
  request whose tokens are billed as one-hour cache writes can be charged more than its hold
  although it has no more tokens than the body has bytes and stays within its output ceiling.
\<close>

theorem cache_writes_exceed_hold:
  "\<exists>p info u. 0 \<le> p_input p \<and> p_input p \<le> p_write1h p \<and> total_input_tokens u \<le> ri_request_bytes info \<and>
     vu_output u \<le> ri_max_tokens info \<and>
     price_cost p (reserved_usage info p) < price_cost p (priced_tokens u)"
proof -
  let ?u = "zero_usage \<lparr>vu_write1h := 8000, vu_output := 100\<rparr>"
  have charge: "price_cost cache_price (priced_tokens ?u) = 49500000"
    by (subst price_cost_is_exact)
      (simp_all add: within_int64_def charged_rates_def exact_cost_def exact_rate_def Let_def priced_tokens_def
        zero_usage_def max_i64_def)
  have hold: "price_cost cache_price (reserved_usage (sample_info 100 8000) cache_price) = 28572000"
    by (subst price_cost_is_exact)
      (simp_all add: sample_hold within_int64_def charged_rates_def exact_cost_def exact_rate_def Let_def max_i64_def)
  show ?thesis
  proof (intro exI conjI)
    show "price_cost cache_price (reserved_usage (sample_info 100 8000) cache_price) < price_cost cache_price (priced_tokens ?u)"
      unfolding charge hold by simp
  qed (simp_all add: total_input_tokens_def zero_usage_def sample_info_def no_request_info_def i64_def)
qed

section \<open>What a completion leaves in the store\<close>

lemma record_spend_cases:
  assumes "rows_ok sha d" and "int (length (d_ledger d)) < max_i64"
    and "find_reservation d (ob_reservation ob) = Some r" and "rv_status r = ReservationPending"
    and "ob_reservation ob \<noteq> []" and "ri_model (ob_request ob) \<noteq> []"
    and "lookup_price (rc_book rc) (ob_provider ob) (ri_model (ob_request ob)) now = (p, known)"
    and "record_spend sha rc now at_store ob d = d'"
  shows "if \<not> ob_upstream_ok ob then d' = d
    else d' = d \<and> (\<exists>err. settle_reservation sha at_store (ob_reservation ob) (charge_entry sha rc now ob) d = Inl err) \<or>
      (\<exists>row. d_ledger d' = d_ledger d @ [row] \<and> e_run row = rv_run r \<and> rv_run r = ob_run ob \<and>
         e_cost row = price_cost p (priced_tokens (counted_usage ob p)) \<and>
         find_reservation d' (ob_reservation ob) = Some (r \<lparr>rv_status := ReservationSettled, rv_resolved := Some at_store\<rparr>))"
proof (cases "ob_upstream_ok ob")
  case True
  let ?e = "charge_entry sha rc now ob"
  have cost: "e_cost ?e = price_cost p (priced_tokens (counted_usage ob p))" "e_run ?e = ob_run ob"
    using assms(7) by (simp_all add: charge_entry_def Let_def)
  show ?thesis
  proof (cases "settle_reservation sha at_store (ob_reservation ob) ?e d")
    case (Inl err)
    with True assms(5,6,8) show ?thesis by (simp add: record_spend_def)
  next
    case (Inr sd)
    then obtain sealed where s: "settle_reservation sha at_store (ob_reservation ob) ?e d = Inr (sealed, d')"
    proof -
      obtain sealed d2 where "sd = (sealed, d2)" by (cases sd)
      moreover from this have "d2 = d'" using True assms(5,6,8) Inr by (simp add: record_spend_def)
      ultimately show thesis using that Inr by simp
    qed
    from s assms(1,2) show ?thesis
    proof (cases rule: settle_cases)
      case (prior st)
      then have "st \<in> set (d_settlements d)" "st_reservation st = ob_reservation ob" by (auto dest: find_SomeD)
      then obtain q where "find_reservation d (ob_reservation ob) = Some q" "rv_status q \<in> {ReservationSettled, ReservationExpired}"
        using rows_ok_settlement [OF assms(1)] by metis
      then show ?thesis using assms(3,4) by simp
    next
      case (fresh q row)
      then have q: "q = r" using assms(3) by simp
      have "find_reservation d (ob_reservation ob) = Some r \<Longrightarrow> rv_id r = ob_reservation ob"
        by (auto dest: find_reservation_SomeD)
      then have "find_reservation d' (ob_reservation ob) = Some (r \<lparr>rv_status := ReservationSettled, rv_resolved := Some at_store\<rparr>)"
        using fresh(11) assms(3,4) q find_reservation_set_status
        by (simp add: Let_def find_reservation_def [of "d\<lparr>d_ledger := _, d_settlements := _\<rparr>"] find_reservation_def [of d])
      moreover have "d_ledger d' = d_ledger d @ [row]" using fresh(11) by (simp add: Let_def)
      moreover have "e_run ?e = rv_run r"
        using s fresh(1) assms(3) by (auto simp: settle_reservation_def split: if_splits)
      ultimately show ?thesis using fresh(4,5) cost q True by auto
    qed
  qed
qed (use assms(8) in \<open>simp add: record_spend_def\<close>)

text \<open>
  Accounting is all or nothing. A completion of a request that holds a pending reservation either
  fails in the store and leaves the database as it was, or appends exactly one row with the
  price of the counted tokens, charged to the run of the hold, marked estimated unless the price was
  known and the vendor reported a complete response, and resolves the hold; a failed upstream
  request is never charged.
\<close>

theorem record_is_all_or_nothing:
  assumes "rows_ok sha d" and "int (length (d_ledger d)) < max_i64"
    and "find_reservation d (ob_reservation ob) = Some r" and "rv_status r = ReservationPending"
    and "ob_reservation ob \<noteq> []" and "ri_model (ob_request ob) \<noteq> []"
    and "lookup_price (rc_book rc) (ob_provider ob) (ri_model (ob_request ob)) now = (p, known)"
    and "record_spend sha rc now at_store ob d = d'"
  shows "if \<not> ob_upstream_ok ob then d' = d
    else d' = d \<and> (\<exists>err. settle_reservation sha at_store (ob_reservation ob) (charge_entry sha rc now ob) d = Inl err) \<or>
      (\<exists>row. d_ledger d' = d_ledger d @ [row] \<and> e_run row = rv_run r \<and> rv_run r = ob_run ob \<and>
         e_cost row = price_cost p (priced_tokens (counted_usage ob p)) \<and>
         find_reservation d' (ob_reservation ob) = Some (r \<lparr>rv_status := ReservationSettled, rv_resolved := Some at_store\<rparr>))"
  using record_spend_cases [OF assms] .

definition sample_recorder :: recorder where
  "sample_recorder = new_recorder_with_options empty_book 0 0 EnforcementStrict"

definition sample_observed :: observed where
  "sample_observed = \<lparr>ob_principal = sample_principal, ob_provider = ''openai'', ob_run = ''run_b'',
     ob_request = sample_info 0 0, ob_usage = zero_usage, ob_reported = True, ob_complete = True,
     ob_upstream_ok = True, ob_reservation = ''rsv_a'', ob_external = []\<rparr>"

lemma record_is_all_or_nothing_witness:
  "\<exists>p. if \<not> ob_upstream_ok sample_observed then record_spend sample_sha sample_recorder 7 7 sample_observed held_db = held_db
    else record_spend sample_sha sample_recorder 7 7 sample_observed held_db = held_db \<and>
        (\<exists>err. settle_reservation sample_sha 7 (ob_reservation sample_observed)
           (charge_entry sample_sha sample_recorder 7 sample_observed) held_db = Inl err) \<or>
      (\<exists>row. d_ledger (record_spend sample_sha sample_recorder 7 7 sample_observed held_db) = d_ledger held_db @ [row] \<and>
         e_run row = rv_run (sample_reservation 50) \<and> rv_run (sample_reservation 50) = ob_run sample_observed \<and>
         e_cost row = price_cost p (priced_tokens (counted_usage sample_observed p)) \<and>
         find_reservation (record_spend sample_sha sample_recorder 7 7 sample_observed held_db) (ob_reservation sample_observed) =
           Some (sample_reservation 50 \<lparr>rv_status := ReservationSettled, rv_resolved := Some 7\<rparr>))"
proof -
  obtain p known where look: "lookup_price (rc_book sample_recorder) (ob_provider sample_observed)
      (ri_model (ob_request sample_observed)) 7 = (p, known)" by fastforce
  have rows: "rows_ok sample_sha held_db" using held_db_reachable reachable_rows_ok by blast
  show ?thesis
    by (rule exI [of _ p], rule record_is_all_or_nothing [OF rows _ _ _ _ _ look])
      (simp_all add: held_db_def sample_db_def find_reservation_def sample_reservation_def sample_observed_def
        sample_info_def no_request_info_def max_i64_def)
qed

section \<open>Attribution\<close>

text \<open>
  A request is charged to a run that exists and is active. A run named by the caller is one of the
  caller's own, and naming one changes nothing; without a name the run is the principal's implicit run,
  and if it was created for this request it belongs to the principal and has the default budget.
\<close>

theorem resolved_run_is_own:
  assumes "resolve_run rc now p requested d = (Inr i, d')" and "0 \<le> rc_default_budget rc"
  shows "if requested \<noteq> []
    then d' = d \<and> i = requested \<and> (\<exists>r. find_run (d_runs d) i = Some r \<and> run_principal r = pr_id p \<and> run_status r = RunActive)
    else i = implicit_run_id (pr_id p) \<and>
      (\<exists>r. find_run (d_runs d') i = Some r \<and> run_status r = RunActive \<and>
         (find_run (d_runs d) i = Some r \<and> d' = d \<or>
          find_run (d_runs d) i = None \<and> run_principal r = pr_id p \<and> run_budget r = rc_default_budget rc))"
proof (cases "requested = []")
  case False
  with assms(1) show ?thesis
    by (auto simp: resolve_run_def get_run_def split: sum.splits option.splits if_splits dest: find_run_SomeD)
next
  case True
  let ?i = "implicit_run_id (pr_id p)" and ?row = "implicit_row rc now p"
  have impl: "implicit_run rc now p d = (Inr i, d')" using assms(1) True by (simp add: resolve_run_def)
  show ?thesis
  proof (cases "find_run (d_runs d) ?i")
    case (Some r)
    with impl True show ?thesis
      by (auto simp: implicit_run_def get_run_def Let_def split: if_splits)
  next
    case None
    have ids: "run_id ?row = ?i" "run_parent ?row = []" "run_checks ?row" "run_status_valid (run_status ?row)"
      using assms(2) by (simp_all add: implicit_row_def run_checks_def run_status_valid_def)
    from None have "\<not> (\<exists>q \<in> set (d_runs d). run_id q = ?i)" by (force simp: find_run_None)
    then have no_conflict: "create_run ?row d \<noteq> Inl ErrConflict"
      using ids by (auto simp: create_run_def insert_run_def)
    obtain d1 where d1: "create_run ?row d = Inr d1" "i = ?i" "d' = d1"
      using impl None no_conflict by (auto simp: implicit_run_def get_run_def Let_def split: sum.splits if_splits)
    then have "d_runs d1 = d_runs d @ [?row]"
      by (auto dest!: create_run_insert simp: insert_run_def split: if_splits)
    with d1 True None ids show ?thesis
      using find_append_none [of "\<lambda>r. run_id r = ?i" "d_runs d" "[?row]"]
      by (auto simp: find_run_def implicit_row_def)
  qed
qed

lemma resolved_run_is_own_witness:
  "if ''run_b'' \<noteq> []
    then sample_db = sample_db \<and> ''run_b'' = ''run_b'' \<and>
      (\<exists>r. find_run (d_runs sample_db) ''run_b'' = Some r \<and> run_principal r = pr_id sample_principal \<and> run_status r = RunActive)
    else ''run_b'' = implicit_run_id (pr_id sample_principal) \<and>
      (\<exists>r. find_run (d_runs sample_db) ''run_b'' = Some r \<and> run_status r = RunActive \<and>
         (find_run (d_runs sample_db) ''run_b'' = Some r \<and> sample_db = sample_db \<or>
          find_run (d_runs sample_db) ''run_b'' = None \<and> run_principal r = pr_id sample_principal \<and>
          run_budget r = rc_default_budget sample_recorder))"
  by (rule resolved_run_is_own [of sample_recorder 7])
    (simp_all add: resolve_run_def get_run_def find_run_def sample_db_def sample_run_def sample_principal_def
      sample_recorder_def new_recorder_with_options_def)

end
