(* ===== verification/GatewayAuth.thy ===== *)
theory GatewayAuth
  imports Recorder
begin

text \<open>
  Who may spend (\<open>internal/gateway/auth.go\<close>, \<open>revocation.go\<close>, \<open>errors.go\<close>): the credential a request
  presents, its resolution to a principal, a run and a lease, the errors the gateway answers, and the
  kill switch with its in-memory set of revoked token hashes. A pointer that may be nil is an option.
\<close>

section \<open>Errors\<close>

datatype error_type = ErrTypeUnauthenticated | ErrTypeUnknownRoute | ErrTypeUnknownRun | ErrTypeBudgetExceeded
  | ErrTypeLeaseScopeDenied | ErrTypeSpendNotEnforceable | ErrTypeNoCredential | ErrTypeUpstream | ErrTypeInternal

record api_error =
  ae_status :: int
  ae_type :: error_type
  ae_message :: string
  ae_provider :: string
  ae_principal :: string
  ae_run :: string
  ae_budget :: string
  ae_spent :: string
  ae_held :: string
  ae_requested :: string
  ae_remaining :: string
  ae_shortfall :: string

definition api_failure :: "int \<Rightarrow> error_type \<Rightarrow> string \<Rightarrow> api_error" where
  "api_failure status kind message =
     \<lparr>ae_status = status, ae_type = kind, ae_message = message, ae_provider = [], ae_principal = [], ae_run = [],
      ae_budget = [], ae_spent = [], ae_held = [], ae_requested = [], ae_remaining = [], ae_shortfall = []\<rparr>"

fun error_type_text :: "error_type \<Rightarrow> string" where
  "error_type_text ErrTypeUnauthenticated = ''unauthenticated''"
| "error_type_text ErrTypeUnknownRoute = ''unknown_route''"
| "error_type_text ErrTypeUnknownRun = ''unknown_run''"
| "error_type_text ErrTypeBudgetExceeded = ''budget_exceeded''"
| "error_type_text ErrTypeLeaseScopeDenied = ''lease_scope_denied''"
| "error_type_text ErrTypeSpendNotEnforceable = ''spend_not_enforceable''"
| "error_type_text ErrTypeNoCredential = ''provider_credential_missing''"
| "error_type_text ErrTypeUpstream = ''upstream_unavailable''"
| "error_type_text ErrTypeInternal = ''internal''"

section \<open>The presented credential\<close>

definition credential_from :: "header \<Rightarrow> string option" where
  "credential_from h =
     (let auth = header_get h ''Authorization'';
          bearer = (case cut_prefix auth ''Bearer '' of None \<Rightarrow> [] | Some after \<Rightarrow> trim_space after);
          bare = trim_space auth;
          key = trim_space (header_get h ''x-api-key'')
      in if auth \<noteq> [] \<and> bearer \<noteq> [] then Some bearer
         else if auth \<noteq> [] \<and> bare \<noteq> [] \<and> CHR '' '' \<notin> set bare then Some bare
         else if key \<noteq> [] then Some key
         else None)"

definition strip_client_credentials :: "header \<Rightarrow> header" where
  "strip_client_credentials h =
     header_del (header_del (header_del (header_del h ''Authorization'') ''x-api-key'') ''api-key'') ''X-Api-Key''"

section \<open>Revocations and the kill switch\<close>

type_synonym revocation_set = "string list"

definition revoke_hash :: "string \<Rightarrow> revocation_set \<Rightarrow> revocation_set" where
  "revoke_hash h s = (if h \<in> set s then s else h # s)"

definition revoked :: "revocation_set \<Rightarrow> string \<Rightarrow> bool" where
  "revoked s h \<longleftrightarrow> h \<in> set s"

lemma revoked_revoke_hash [simp]: "revoked (revoke_hash h s) h' \<longleftrightarrow> h' = h \<or> revoked s h'"
  by (auto simp: revoked_def revoke_hash_def)

text \<open>The loop over the principal's runs and their leases, then the durable revocation.\<close>

definition kill_principal :: "instant \<Rightarrow> string \<Rightarrow> revocation_set \<times> db \<Rightarrow> nat \<times> revocation_set \<times> db" where
  "kill_principal now pid st =
     (case st of (s, d) \<Rightarrow>
        (let s' = fold (\<lambda>r. fold (\<lambda>l. revoke_hash (ls_token_hash l)) (list_leases_by_run d (run_id r)))
                    (list_runs_by_principal d pid) s
         in case revoke_leases_for_principal now pid d of (n, d') \<Rightarrow> (n, s', d')))"

definition kill_lease :: "instant \<Rightarrow> string \<Rightarrow> revocation_set \<times> db \<Rightarrow> (store_error + lease) \<times> revocation_set \<times> db" where
  "kill_lease now lid st =
     (case st of (s, d) \<Rightarrow>
        (case get_lease d lid of
           Inl e \<Rightarrow> (Inl e, s, d)
         | Inr l \<Rightarrow>
             (let s' = revoke_hash (ls_token_hash l) s
              in case revoke_lease now lid d of
                   Inl e \<Rightarrow> (Inl e, s', d)
                 | Inr d' \<Rightarrow> (get_lease d' lid, s', d'))))"

section \<open>Resolving a lease token\<close>

record auth_context =
  au_principal :: principal
  au_run :: string
  au_lease :: "lease option"

definition lease_rejected :: "string \<Rightarrow> api_error" where
  "lease_rejected message = api_failure 401 ErrTypeUnauthenticated message"

text \<open>
  The lease branch of \<open>authenticate\<close> over the interface \<open>LeaseLookup\<close>: the three lookups are its
  arguments, \<open>revocations\<close> and \<open>leases_set\<close> say whether the gateway was given a revocation set and a
  lease lookup.
\<close>

definition lease_auth ::
  "(string \<Rightarrow> store_error + lease) \<Rightarrow> (string \<Rightarrow> store_error + run) \<Rightarrow> (string \<Rightarrow> store_error + principal) \<Rightarrow>
     revocation_set option \<Rightarrow> bool \<Rightarrow> instant \<Rightarrow> string \<Rightarrow> api_error + auth_context" where
  "lease_auth by_token_hash run_by_id principal_by_id revocations leases_set now h =
     (if (case revocations of None \<Rightarrow> False | Some s \<Rightarrow> revoked s h) then
        Inl (lease_rejected ''That lease has been revoked.'')
      else if \<not> leases_set then Inl (lease_rejected ''Lease authentication is unavailable on this gateway.'')
      else (case by_token_hash h of
          Inl _ \<Rightarrow> Inl (lease_rejected ''That lease is unknown, expired, or revoked.'')
        | Inr l \<Rightarrow>
            if \<not> lease_active l now then Inl (lease_rejected ''That lease is unknown, expired, or revoked.'')
            else (case run_by_id (ls_run l) of
                Inl _ \<Rightarrow> Inl (lease_rejected ''The run behind that lease is unavailable or closed.'')
              | Inr r \<Rightarrow>
                  if run_status r \<noteq> RunActive then
                    Inl (lease_rejected ''The run behind that lease is unavailable or closed.'')
                  else (case principal_by_id (run_principal r) of
                      Inl _ \<Rightarrow> Inl (lease_rejected ''The principal behind that lease is unavailable.'')
                    | Inr p \<Rightarrow> Inr \<lparr>au_principal = p, au_run = run_id r, au_lease = Some l\<rparr>))))"

text \<open>What the gateway relies on of the lookups, and what follows for every provider of them.\<close>

locale lease_lookup =
  fixes by_token_hash :: "'s \<Rightarrow> string \<Rightarrow> store_error + lease"
    and run_by_id :: "'s \<Rightarrow> string \<Rightarrow> store_error + run"
    and principal_by_id :: "'s \<Rightarrow> string \<Rightarrow> store_error + principal"
  assumes lease_found: "by_token_hash s h = Inr l \<Longrightarrow> ls_token_hash l = h"
    and run_found: "run_by_id s i = Inr r \<Longrightarrow> run_id r = i"
    and principal_found: "principal_by_id s i = Inr p \<Longrightarrow> pr_id p = i"
begin

lemma lease_auth_sound:
  assumes "lease_auth (by_token_hash s) (run_by_id s) (principal_by_id s) revocations leases_set now h = Inr ctx"
  shows "\<exists>l r. au_lease ctx = Some l \<and> by_token_hash s h = Inr l \<and> ls_token_hash l = h \<and> lease_active l now \<and>
    run_by_id s (ls_run l) = Inr r \<and> run_status r = RunActive \<and> au_run ctx = ls_run l \<and>
    pr_id (au_principal ctx) = run_principal r \<and> principal_by_id s (run_principal r) = Inr (au_principal ctx) \<and>
    (case revocations of None \<Rightarrow> True | Some set' \<Rightarrow> \<not> revoked set' h)"
  using assms lease_found run_found principal_found
  by (auto simp: lease_auth_def split: if_splits sum.splits option.splits)

lemma revoked_rejected:
  "revoked set' h \<Longrightarrow>
     lease_auth (by_token_hash s) (run_by_id s) (principal_by_id s) (Some set') leases_set now h =
       Inl (lease_rejected ''That lease has been revoked.'')"
  by (simp add: lease_auth_def)

end

interpretation stored: lease_lookup get_lease_by_token_hash get_run get_principal
  by unfold_locales
    (auto simp: get_lease_by_token_hash_def get_run_def get_principal_def find_principal_def
      split: option.splits dest: find_SomeD find_run_SomeD)

section \<open>Authentication\<close>

record gateway_config =
  gw_registry :: registry
  gw_recorder :: "recorder option"
  gw_leases_set :: bool
  gw_revocable :: bool

definition run_header :: string where "run_header = ''X-Spendlease-Run''"

definition unknown_run_error :: "principal \<Rightarrow> string \<Rightarrow> api_error" where
  "unknown_run_error p requested =
     (api_failure 400 ErrTypeUnknownRun
        (''The run '' @ go_quote requested @ '' named in '' @ run_header @ '' cannot be used by this principal.''))
       \<lparr>ae_principal := pr_id p\<rparr>"

text \<open>The principal-key branch: the run is resolved here, which may create the implicit run.\<close>

definition key_auth ::
  "(string \<Rightarrow> string) \<Rightarrow> recorder option \<Rightarrow> instant \<Rightarrow> string \<Rightarrow> string \<Rightarrow> db \<Rightarrow> (api_error + auth_context) \<times> db" where
  "key_auth sha recorder now presented requested d =
     (case get_principal_by_key_hash d (hash_secret sha presented) of
        Inl _ \<Rightarrow> (Inl (api_failure 401 ErrTypeUnauthenticated ''That principal key is not recognised.''), d)
      | Inr p \<Rightarrow>
          (case recorder of
             None \<Rightarrow> (Inr \<lparr>au_principal = p, au_run = [], au_lease = None\<rparr>, d)
           | Some rc \<Rightarrow>
               (case resolve_run rc now p requested d of
                  (Inl _, d') \<Rightarrow> (Inl (unknown_run_error p requested), d')
                | (Inr i, d') \<Rightarrow> (Inr \<lparr>au_principal = p, au_run = i, au_lease = None\<rparr>, d'))))"

definition authenticate ::
  "(string \<Rightarrow> string) \<Rightarrow> gateway_config \<Rightarrow> instant \<Rightarrow> request \<Rightarrow> revocation_set \<Rightarrow> db \<Rightarrow> (api_error + auth_context) \<times> db" where
  "authenticate sha g now req revs d =
     (case credential_from (rq_header req) of
        None \<Rightarrow> (Inl (api_failure 401 ErrTypeUnauthenticated ''No spendlease credential was presented.''), d)
      | Some presented \<Rightarrow>
          if looks_like_lease_token presented then
            (lease_auth (get_lease_by_token_hash d) (get_run d) (get_principal d)
               (if gw_revocable g then Some revs else None) (gw_leases_set g) now (hash_secret sha presented), d)
          else if \<not> looks_like_principal_key presented then
            (Inl (api_failure 401 ErrTypeUnauthenticated ''The credential presented is not a spendlease key.''), d)
          else key_auth sha (gw_recorder g) now presented (header_get (rq_header req) run_header) d)"

section \<open>Authenticated leases are live\<close>

lemma authenticated_lease_facts:
  assumes "authenticate sha g now req revs d = (Inr ctx, d')" and "au_lease ctx = Some l"
  shows "d' = d \<and> l \<in> set (d_leases d) \<and> lease_active l now \<and>
    (\<exists>presented. credential_from (rq_header req) = Some presented \<and> ls_token_hash l = hash_secret sha presented) \<and>
    (gw_revocable g \<longrightarrow> \<not> revoked revs (ls_token_hash l)) \<and>
    (\<exists>r. find_run (d_runs d) (au_run ctx) = Some r \<and> ls_run l = au_run ctx \<and> run_status r = RunActive \<and>
       find_principal d (run_principal r) = Some (au_principal ctx))"
proof -
  obtain presented where cred: "credential_from (rq_header req) = Some presented"
    using assms(1) by (auto simp: authenticate_def split: option.splits)
  have token: "looks_like_lease_token presented"
  proof (rule ccontr)
    assume "\<not> looks_like_lease_token presented"
    then have "key_auth sha (gw_recorder g) now presented (header_get (rq_header req) run_header) d = (Inr ctx, d')"
      using assms(1) cred by (auto simp: authenticate_def split: if_splits)
    then have "au_lease ctx = None"
      by (auto simp: key_auth_def split: sum.splits option.splits prod.splits)
    with assms(2) show False by simp
  qed
  then have d': "d' = d" and auth: "lease_auth (get_lease_by_token_hash d) (get_run d) (get_principal d)
      (if gw_revocable g then Some revs else None) (gw_leases_set g) now (hash_secret sha presented) = Inr ctx"
    using assms(1) cred by (auto simp: authenticate_def)
  from stored.lease_auth_sound [OF auth] assms(2) obtain r where
    r: "get_lease_by_token_hash d (hash_secret sha presented) = Inr l" "ls_token_hash l = hash_secret sha presented"
      "lease_active l now" "get_run d (ls_run l) = Inr r" "run_status r = RunActive" "au_run ctx = ls_run l"
      "get_principal d (run_principal r) = Inr (au_principal ctx)"
      "case (if gw_revocable g then Some revs else None) of None \<Rightarrow> True | Some s \<Rightarrow> \<not> revoked s (hash_secret sha presented)"
    by auto
  then have "l \<in> set (d_leases d)"
    by (auto simp: get_lease_by_token_hash_def split: option.splits dest: find_SomeD)
  moreover have "find_run (d_runs d) (ls_run l) = Some r" "find_principal d (run_principal r) = Some (au_principal ctx)"
    using r by (auto simp: get_run_def get_principal_def split: option.splits)
  ultimately show ?thesis using r d' cred by (auto split: if_splits)
qed

text \<open>
  C28. A request authenticated by a lease is charged to that lease's own run: the token's hash is the
  stored one, it was not killed in this process, the lease is neither revoked nor expired, its run
  exists and is active, and the principal is the owner of that run; and authentication changed nothing.
\<close>

theorem authenticated_lease_is_live:
  assumes "authenticate sha g now req revs d = (Inr ctx, d')" and "au_lease ctx = Some l"
  shows "d' = d \<and> l \<in> set (d_leases d) \<and> lease_active l now \<and>
    (\<exists>presented. credential_from (rq_header req) = Some presented \<and> ls_token_hash l = hash_secret sha presented) \<and>
    (gw_revocable g \<longrightarrow> \<not> revoked revs (ls_token_hash l)) \<and>
    (\<exists>r. find_run (d_runs d) (au_run ctx) = Some r \<and> ls_run l = au_run ctx \<and> run_status r = RunActive \<and>
       find_principal d (run_principal r) = Some (au_principal ctx))"
  by (rule authenticated_lease_facts [OF assms])

definition sample_gateway :: gateway_config where
  "sample_gateway = \<lparr>gw_registry = sample_registry, gw_recorder = Some sample_recorder, gw_leases_set = True, gw_revocable = True\<rparr>"

definition lease_request :: request where
  "lease_request = \<lparr>rq_method = ''POST'', rq_path = ''/v1/chat/completions'',
     rq_header = [(''Authorization'', [''Bearer sll_t''])]\<rparr>"

lemma lease_request_credential: "credential_from (rq_header lease_request) = Some ''sll_t''"
  by code_simp

definition drop_sha :: "string \<Rightarrow> string" where "drop_sha s = drop 4 s"

lemma authenticated_lease_is_live_witness:
  "\<exists>ctx r. authenticate drop_sha sample_gateway 5 lease_request [] sample_db = (Inr ctx, sample_db) \<and>
    sample_lease \<in> set (d_leases sample_db) \<and> lease_active sample_lease 5 \<and>
    find_run (d_runs sample_db) (au_run ctx) = Some r \<and> ls_run sample_lease = au_run ctx \<and> run_status r = RunActive \<and>
    find_principal sample_db (run_principal r) = Some (au_principal ctx)"
proof -
  let ?ctx = "\<lparr>au_principal = sample_principal, au_run = ''run_a'', au_lease = Some sample_lease\<rparr>"
  have auth: "authenticate drop_sha sample_gateway 5 lease_request [] sample_db = (Inr ?ctx, sample_db)"
    by (simp add: authenticate_def lease_request_credential looks_like_lease_token_def lease_token_prefix_def
        hash_secret_def drop_sha_def lease_auth_def sample_gateway_def revoked_def get_lease_by_token_hash_def
        sample_db_def sample_lease_def lease_active_def get_run_def find_run_def sample_run_def
        get_principal_def find_principal_def sample_principal_def)
  have "au_lease ?ctx = Some sample_lease" by simp
  from authenticated_lease_is_live [OF auth this] auth show ?thesis by blast
qed

section \<open>The kill switch\<close>

lemma revoked_fold_leases:
  "revoked (fold (\<lambda>l. revoke_hash (ls_token_hash l)) ls s) h \<longleftrightarrow> revoked s h \<or> h \<in> ls_token_hash ` set ls"
  by (induction ls arbitrary: s) auto

lemma revoked_fold_runs:
  "revoked (fold (\<lambda>r. fold (\<lambda>l. revoke_hash (ls_token_hash l)) (leases r)) rs s) h \<longleftrightarrow>
     revoked s h \<or> (\<exists>r \<in> set rs. h \<in> ls_token_hash ` set (leases r))"
  by (induction rs arbitrary: s) (auto simp: revoked_fold_leases)

lemma kill_principal_hashes:
  assumes "kill_principal now pid (s, d) = (n, s', d')"
  shows "revoked s' h \<longleftrightarrow> revoked s h \<or>
    (\<exists>l \<in> set (d_leases d). ls_token_hash l = h \<and> (\<exists>r \<in> set (d_runs d). run_id r = ls_run l \<and> run_principal r = pid))"
proof -
  have "s' = fold (\<lambda>r. fold (\<lambda>l. revoke_hash (ls_token_hash l)) (list_leases_by_run d (run_id r))) (list_runs_by_principal d pid) s"
    using assms by (simp add: kill_principal_def split: prod.splits)
  then have "revoked s' h \<longleftrightarrow> revoked s h \<or>
      (\<exists>r \<in> set (list_runs_by_principal d pid). h \<in> ls_token_hash ` set (list_leases_by_run d (run_id r)))"
    by (simp only: revoked_fold_runs)
  also have "\<dots> \<longleftrightarrow> revoked s h \<or>
      (\<exists>l \<in> set (d_leases d). ls_token_hash l = h \<and> (\<exists>r \<in> set (d_runs d). run_id r = ls_run l \<and> run_principal r = pid))"
    unfolding list_runs_by_principal_def list_leases_by_run_def set_sort_by by force
  finally show ?thesis .
qed

text \<open>
  The kill switch takes effect at once. After \<open>RevokePrincipal\<close> every token of a lease on a run of
  that principal is refused by this process for good: with whatever has been added to the revocation
  set since, whatever the database and the clock say, the leases that the durable revocation skips
  because they expire in that second included.
\<close>

theorem kill_switch_is_immediate:
  assumes "kill_principal now pid (s, d) = (n, s', d')"
    and "l \<in> set (d_leases d)" and "r \<in> set (d_runs d)" and "run_id r = ls_run l" and "run_principal r = pid"
    and "gw_revocable g" and "set s' \<subseteq> set s''"
    and "credential_from (rq_header req) = Some token" and "looks_like_lease_token token"
    and "hash_secret sha token = ls_token_hash l"
  shows "authenticate sha g later req s'' any_db = (Inl (lease_rejected ''That lease has been revoked.''), any_db)"
proof -
  have "revoked s' (ls_token_hash l)" unfolding kill_principal_hashes [OF assms(1)] using assms(2-5) by blast
  then have "revoked s'' (hash_secret sha token)" using assms(7,10) by (auto simp: revoked_def)
  from stored.revoked_rejected [OF this] show ?thesis using assms(6,8,9) by (simp add: authenticate_def)
qed

lemma kill_switch_is_immediate_witness:
  "authenticate drop_sha sample_gateway 9 lease_request [''t''] sample_db =
     (Inl (lease_rejected ''That lease has been revoked.''), sample_db)"
proof (rule kill_switch_is_immediate)
  show "kill_principal 10000000000 ''prn_a'' ([], sample_db) =
    (fst (kill_principal 10000000000 ''prn_a'' ([], sample_db)), [''t''], snd (snd (kill_principal 10000000000 ''prn_a'' ([], sample_db))))"
    by (simp add: kill_principal_def list_runs_by_principal_def list_leases_by_run_def sample_db_def sample_run_def
        sample_lease_def revoke_hash_def newest_first_def revoke_leases_for_principal_def)
  show "sample_lease \<in> set (d_leases sample_db)" by (simp add: sample_db_def)
  show "sample_run ''run_a'' [] 100 \<in> set (d_runs sample_db)" by (simp add: sample_db_def)
  show "credential_from (rq_header lease_request) = Some ''sll_t''" by (rule lease_request_credential)
qed (simp_all add: sample_run_def sample_lease_def sample_gateway_def looks_like_lease_token_def
    lease_token_prefix_def hash_secret_def drop_sha_def)

end
