(* ===== verification/Observe.thy ===== *)
theory Observe
  imports GoStrings
begin

text \<open>
  The observing reader (\<open>internal/gateway/observe.go\<close>): it hands the vendor's response on to the
  client while it reads server-sent events, or a complete body, out of the same bytes. \<open>rd_src\<close>
  holds what the wrapped body will answer to the next reads; the three callbacks are the lists of
  what they have been called with. Reads of an exhausted body answer EOF.
\<close>

datatype read_error = EOF | ReadFailed

record reader =
  rd_src :: "(string \<times> read_error option) list"
  rd_streaming :: bool
  rd_pending :: string
  rd_body :: string
  rd_truncated :: bool
  rd_overflow :: bool
  rd_out :: string
  rd_src_err :: "read_error option"
  rd_saw_eof :: bool
  rd_events :: "string list"
  rd_bodies :: "string list"
  rd_done :: "bool list"

definition max_observed_body :: nat where "max_observed_body = 1048576"

definition sse_prefix :: string where "sse_prefix = ''data:''"
definition lf :: char where "lf = CHR 0x0A"
definition cr :: char where "cr = CHR 0x0D"

definition new_observing_reader :: "(string \<times> read_error option) list \<Rightarrow> bool \<Rightarrow> reader" where
  "new_observing_reader src streaming =
     \<lparr>rd_src = src, rd_streaming = streaming, rd_pending = [], rd_body = [], rd_truncated = False,
      rd_overflow = False, rd_out = [], rd_src_err = None, rd_saw_eof = False,
      rd_events = [], rd_bodies = [], rd_done = []\<rparr>"

text \<open>\<open>src.Read\<close>: the next answer of the wrapped body.\<close>

definition next_answer :: "reader \<Rightarrow> string \<times> read_error option" where
  "next_answer st = (case rd_src st of [] \<Rightarrow> ([], Some EOF) | a # _ \<Rightarrow> a)"

definition advance :: "reader \<Rightarrow> reader" where
  "advance st = st \<lparr>rd_src := tl (rd_src st)\<rparr>"

section \<open>Events\<close>

definition line_event :: "string \<Rightarrow> string list" where
  "line_event line =
     (case cut_prefix line sse_prefix of
        None \<Rightarrow> []
      | Some rest \<Rightarrow>
          (let payload = trim_space rest in
           if payload = [] \<or> payload = ''[DONE]'' then [] else [payload]))"

definition handle_line :: "string \<Rightarrow> reader \<Rightarrow> reader" where
  "handle_line line st = st \<lparr>rd_events := rd_events st @ line_event line\<rparr>"

lemma cut_shorter: "cut c s = (line, rest, True) \<Longrightarrow> length rest < length s"
proof -
  assume "cut c s = (line, rest, True)"
  then obtain d where "dropWhile (\<lambda>x. x \<noteq> c) s = d # rest" by (auto simp: cut_def split: list.splits)
  then have "Suc (length rest) = length (dropWhile (\<lambda>x. x \<noteq> c) s)" by simp
  also have "\<dots> \<le> length s" by (rule length_dropWhile_le)
  finally show ?thesis by simp
qed

text \<open>The loop of \<open>scanEvents\<close>: the complete lines of the buffer and what is left of it.\<close>

function drain_lines :: "string \<Rightarrow> string list \<times> string" where
  "drain_lines s =
     (case cut lf s of
        (line, rest, found) \<Rightarrow>
          if found then (case drain_lines rest of (ls, r) \<Rightarrow> (line # ls, r)) else ([], s))"
  by pat_completeness auto
termination
  by (relation "measure length") (auto dest!: cut_shorter [OF sym])

declare drain_lines.simps [simp del]

definition scan_events :: "string \<Rightarrow> reader \<Rightarrow> reader" where
  "scan_events b st =
     (let st1 = (if max_observed_body < length (rd_pending st)
                 then st \<lparr>rd_pending := [], rd_truncated := True\<rparr> else st)
      in case drain_lines (rd_pending st1 @ b) of
           (lines, rest) \<Rightarrow>
             fold (\<lambda>line. handle_line (trim_right cr line)) lines (st1 \<lparr>rd_pending := rest\<rparr>))"

definition accumulate :: "string \<Rightarrow> reader \<Rightarrow> reader" where
  "accumulate b st =
     (if rd_overflow st then st
      else if max_observed_body < length (rd_body st) + length b
      then st \<lparr>rd_overflow := True, rd_truncated := True, rd_body := []\<rparr>
      else st \<lparr>rd_body := rd_body st @ b\<rparr>)"

definition observe :: "string \<Rightarrow> reader \<Rightarrow> reader" where
  "observe b st = (if rd_streaming st then scan_events b st else accumulate b st)"

text \<open>\<open>bytes.TrimRight\<close> with the cutset CR, LF.\<close>

definition trim_line_end :: "string \<Rightarrow> string" where
  "trim_line_end s = rev (dropWhile (\<lambda>c. c = cr \<or> c = lf) (rev s))"

definition flush :: "reader \<Rightarrow> reader" where
  "flush st =
     (if rd_streaming st then
        (let line = trim_line_end (rd_pending st);
             st1 = (if line \<noteq> [] then handle_line line st else st)
         in st1 \<lparr>rd_pending := []\<rparr>)
      else if \<not> rd_truncated st then st \<lparr>rd_bodies := rd_bodies st @ [rd_body st]\<rparr>
      else st)"

text \<open>\<open>once.Do\<close>: the completion callback runs the first time only.\<close>

definition finish :: "bool \<Rightarrow> reader \<Rightarrow> reader" where
  "finish all_read st = (if rd_done st = [] then st \<lparr>rd_done := [all_read]\<rparr> else st)"

section \<open>Reading without a filter\<close>

definition read_through :: "reader \<Rightarrow> string \<times> read_error option \<times> reader" where
  "read_through st =
     (case next_answer st of
        (b, err) \<Rightarrow>
          (let st1 = advance st;
               st2 = (if b \<noteq> [] then observe b st1 else st1);
               st3 = (if err = Some EOF then finish True ((flush st2) \<lparr>rd_saw_eof := True\<rparr>) else st2)
           in (b, err, st3)))"

section \<open>Reading with a filter\<close>

text \<open>The first event block of a buffer, up to and with its blank line, and the bytes after it.\<close>

fun cut_block :: "string \<Rightarrow> (string \<times> string) option" where
  "cut_block [] = None"
| "cut_block [c] = None"
| "cut_block (c # d # s) =
     (if c = lf \<and> d = lf then Some ([c, d], s)
      else map_option (\<lambda>(block, rest). (c # block, rest)) (cut_block (d # s)))"

lemma cut_block_Some: "cut_block s = Some (block, rest) \<Longrightarrow> s = block @ rest \<and> block \<noteq> []"
  by (induction s arbitrary: block rule: cut_block.induct) (auto split: if_splits)

function drain_blocks :: "string \<Rightarrow> string list \<times> string" where
  "drain_blocks s =
     (case cut_block s of
        None \<Rightarrow> ([], s)
      | Some (block, rest) \<Rightarrow> (case drain_blocks rest of (bs, r) \<Rightarrow> (block # bs, r)))"
  by pat_completeness auto
termination
  by (relation "measure length") (auto dest!: cut_block_Some)

declare drain_blocks.simps [simp del]

definition line_payload :: "string \<Rightarrow> string option" where
  "line_payload line =
     (case cut_prefix (trim_right cr line) sse_prefix of
        None \<Rightarrow> None
      | Some rest \<Rightarrow> (let p = trim_space rest in if p = [] then None else Some p))"

fun first_payload :: "string list \<Rightarrow> string option" where
  "first_payload [] = None"
| "first_payload (line # lines) =
     (case line_payload line of Some p \<Rightarrow> Some p | None \<Rightarrow> first_payload lines)"

definition event_payload :: "string \<Rightarrow> string option" where
  "event_payload block = first_payload (split_at lf block)"

text \<open>One block: its payload is observed, and the block is kept unless the predicate drops it.\<close>

definition take_block :: "(string \<Rightarrow> bool) \<Rightarrow> string \<Rightarrow> reader \<Rightarrow> reader" where
  "take_block dropped block st =
     (case event_payload block of
        None \<Rightarrow> st \<lparr>rd_out := rd_out st @ block\<rparr>
      | Some payload \<Rightarrow>
          (let st1 = handle_line (sse_prefix @ payload) st in
           if dropped payload then st1 else st1 \<lparr>rd_out := rd_out st1 @ block\<rparr>))"

definition consume_events :: "(string \<Rightarrow> bool) \<Rightarrow> string \<Rightarrow> reader \<Rightarrow> reader" where
  "consume_events dropped b st =
     (case drain_blocks (rd_pending st @ b) of
        (blocks, rest) \<Rightarrow> fold (take_block dropped) blocks (st \<lparr>rd_pending := rest\<rparr>))"

definition flush_remainder :: "(string \<Rightarrow> bool) \<Rightarrow> reader \<Rightarrow> reader" where
  "flush_remainder dropped st =
     (if rd_pending st = [] then st
      else (take_block dropped (rd_pending st) st) \<lparr>rd_pending := []\<rparr>)"

text \<open>The loop of \<open>readFiltered\<close>: read until there is output or the body has ended.\<close>

function fill :: "(string \<Rightarrow> bool) \<Rightarrow> reader \<Rightarrow> reader" where
  "fill dropped st =
     (if rd_out st \<noteq> [] \<or> rd_src_err st \<noteq> None then st
      else (case next_answer st of
        (b, err) \<Rightarrow>
          (let st1 = advance st;
               st2 = (if b \<noteq> [] then consume_events dropped b st1 else st1)
           in fill dropped (if err \<noteq> None then flush_remainder dropped (st2 \<lparr>rd_src_err := err\<rparr>) else st2))))"
  by pat_completeness auto

lemma rd_src_steps [simp]:
  "rd_src (handle_line l st) = rd_src st" "rd_src_err (handle_line l st) = rd_src_err st"
  "rd_src (take_block f b st) = rd_src st" "rd_src_err (take_block f b st) = rd_src_err st"
  by (simp_all add: handle_line_def take_block_def Let_def split: option.splits)

lemma rd_src_fold [simp]:
  "rd_src (fold (take_block f) bs st) = rd_src st" "rd_src_err (fold (take_block f) bs st) = rd_src_err st"
  by (induction bs arbitrary: st) simp_all

lemma rd_src_filter_steps [simp]:
  "rd_src (consume_events f b st) = rd_src st" "rd_src_err (consume_events f b st) = rd_src_err st"
  "rd_src (flush_remainder f st) = rd_src st" "rd_src_err (flush_remainder f st) = rd_src_err st"
  "rd_src (advance st) = tl (rd_src st)" "rd_src_err (advance st) = rd_src_err st"
  by (simp_all add: consume_events_def flush_remainder_def advance_def split: prod.splits)

termination fill
  by (relation "measure (\<lambda>(f, st). length (rd_src st) + (if rd_src_err st = None then 1 else 0))")
    (auto simp: next_answer_def Let_def split: list.splits if_splits)

declare fill.simps [simp del]

definition read_filtered :: "(string \<Rightarrow> bool) \<Rightarrow> nat \<Rightarrow> reader \<Rightarrow> string \<times> read_error option \<times> reader" where
  "read_filtered dropped n st =
     (let st1 = fill dropped st in
      if rd_out st1 = [] then
        ([], rd_src_err st1,
         if rd_src_err st1 = Some EOF then finish True (st1 \<lparr>rd_saw_eof := True\<rparr>) else st1)
      else (take n (rd_out st1), None, st1 \<lparr>rd_out := drop n (rd_out st1)\<rparr>))"

text \<open>\<open>Read\<close>: the filter is on exactly when a drop predicate was set.\<close>

definition read_body :: "(string \<Rightarrow> bool) option \<Rightarrow> nat \<Rightarrow> reader \<Rightarrow> string \<times> read_error option \<times> reader" where
  "read_body filter_by n st = (case filter_by of Some dropped \<Rightarrow> read_filtered dropped n st | None \<Rightarrow> read_through st)"

definition close_body :: "reader \<Rightarrow> reader" where
  "close_body st = finish (rd_saw_eof st \<or> rd_src_err st = Some EOF) st"

text \<open>A client that reads at most \<open>k\<close> times into a buffer of \<open>n\<close> bytes, and stops at an error.\<close>

fun pump :: "(string \<Rightarrow> bool) option \<Rightarrow> nat \<Rightarrow> nat \<Rightarrow> reader \<Rightarrow> string \<times> read_error option \<times> reader" where
  "pump filter_by n 0 st = ([], None, st)"
| "pump filter_by n (Suc k) st =
     (case read_body filter_by n st of
        (b, Some e, st1) \<Rightarrow> (b, Some e, st1)
      | (b, None, st1) \<Rightarrow> (case pump filter_by n k st1 of (bs, e, st2) \<Rightarrow> (b @ bs, e, st2)))"

section \<open>Splitting does not depend on read boundaries\<close>

lemma cut_append_found: "cut c a = (line, rest, True) \<Longrightarrow> cut c (a @ b) = (line, rest @ b, True)"
proof -
  assume "cut c a = (line, rest, True)"
  then obtain d where drop: "dropWhile (\<lambda>x. x \<noteq> c) a = d # rest" and line: "line = takeWhile (\<lambda>x. x \<noteq> c) a"
    by (auto simp: cut_def split: list.splits)
  have "dropWhile (\<lambda>x. x \<noteq> c) a \<noteq> []" by (simp add: drop)
  then have "c \<in> set a" unfolding dropWhile_eq_Nil_conv by blast
  then have "dropWhile (\<lambda>x. x \<noteq> c) (a @ b) = d # rest @ b" and "takeWhile (\<lambda>x. x \<noteq> c) (a @ b) = line"
    by (simp_all add: dropWhile_append1 takeWhile_append1 drop line)
  then show ?thesis by (simp add: cut_def)
qed

lemma drain_lines_found:
  "cut lf s = (line, rest, True) \<Longrightarrow> drain_lines s = (line # fst (drain_lines rest), snd (drain_lines rest))"
  by (simp add: drain_lines.simps [of s] case_prod_beta)

lemma drain_lines_none: "cut lf s = (line, rest, False) \<Longrightarrow> drain_lines s = ([], s)"
  by (subst drain_lines.simps) simp

lemma drain_lines_induct [case_names none found]:
  assumes "\<And>s line rest. cut lf s = (line, rest, False) \<Longrightarrow> P s"
    and "\<And>s line rest. cut lf s = (line, rest, True) \<Longrightarrow> P rest \<Longrightarrow> P s"
  shows "P s"
proof (induction s rule: measure_induct_rule [of length])
  case (less s)
  obtain line rest found where "cut lf s = (line, rest, found)" by (cases "cut lf s") auto
  with assms less cut_shorter [of lf s line rest] show ?case by (cases found) auto
qed

lemma drain_lines_append:
  "drain_lines (a @ b) =
     (fst (drain_lines a) @ fst (drain_lines (snd (drain_lines a) @ b)), snd (drain_lines (snd (drain_lines a) @ b)))"
  by (induction a rule: drain_lines_induct)
    (simp_all add: drain_lines_none drain_lines_found cut_append_found)

lemma drain_blocks_none: "cut_block s = None \<Longrightarrow> drain_blocks s = ([], s)"
  by (subst drain_blocks.simps) simp

lemma drain_blocks_found:
  "cut_block s = Some (block, rest) \<Longrightarrow> drain_blocks s = (block # fst (drain_blocks rest), snd (drain_blocks rest))"
  by (simp add: drain_blocks.simps [of s] case_prod_beta)

lemma drain_blocks_induct [case_names none found]:
  assumes "\<And>s. cut_block s = None \<Longrightarrow> P s"
    and "\<And>s block rest. cut_block s = Some (block, rest) \<Longrightarrow> P rest \<Longrightarrow> P s"
  shows "P s"
proof (induction s rule: measure_induct_rule [of length])
  case (less s)
  show ?case
  proof (cases "cut_block s")
    case (Some br)
    then obtain block rest where br: "cut_block s = Some (block, rest)" by (cases br) auto
    then have "length rest < length s" by (auto dest!: cut_block_Some)
    with less br assms(2) show ?thesis by blast
  qed (rule assms(1))
qed

lemma cut_block_append: "cut_block a = Some (block, rest) \<Longrightarrow> cut_block (a @ b) = Some (block, rest @ b)"
  by (induction a arbitrary: block rule: cut_block.induct) (auto split: if_splits)

lemma drain_blocks_append:
  "drain_blocks (a @ b) =
     (fst (drain_blocks a) @ fst (drain_blocks (snd (drain_blocks a) @ b)), snd (drain_blocks (snd (drain_blocks a) @ b)))"
  by (induction a rule: drain_blocks_induct)
    (simp_all add: drain_blocks_none drain_blocks_found cut_block_append)

lemma concat_drain_blocks: "concat (fst (drain_blocks s)) @ snd (drain_blocks s) = s"
  by (induction s rule: drain_blocks_induct)
    (auto simp: drain_blocks_none drain_blocks_found dest: cut_block_Some)

section \<open>The reference: what a response contains\<close>

text \<open>The events of a stream, line by line, and the blocks of a stream with what a filter keeps.\<close>

definition lines_events :: "string list \<Rightarrow> string list" where
  "lines_events ls = concat (map (\<lambda>l. line_event (trim_right cr l)) ls)"

definition stream_events :: "string \<Rightarrow> string list" where
  "stream_events s = lines_events (fst (drain_lines s)) @ line_event (trim_line_end (snd (drain_lines s)))"

definition blocks_of :: "string \<Rightarrow> string list" where
  "blocks_of s = fst (drain_blocks s) @ (if snd (drain_blocks s) = [] then [] else [snd (drain_blocks s)])"

definition kept :: "(string \<Rightarrow> bool) \<Rightarrow> string \<Rightarrow> bool" where
  "kept dropped block = (case event_payload block of None \<Rightarrow> True | Some p \<Rightarrow> \<not> dropped p)"

definition block_events :: "string \<Rightarrow> string list" where
  "block_events block = (case event_payload block of None \<Rightarrow> [] | Some p \<Rightarrow> line_event (sse_prefix @ p))"

lemma concat_blocks_of: "concat (blocks_of s) = s"
  using concat_drain_blocks [of s] by (auto simp: blocks_of_def split: if_splits)

text \<open>A body that ends with EOF and not with another error, and its bytes.\<close>

fun src_ok :: "(string \<times> read_error option) list \<Rightarrow> bool" where
  "src_ok [] = True"
| "src_ok ((b, None) # src) = src_ok src"
| "src_ok ((b, Some EOF) # src) = (src = [])"
| "src_ok ((b, Some ReadFailed) # src) = False"

definition src_data :: "(string \<times> read_error option) list \<Rightarrow> string" where
  "src_data src = concat (map fst src)"

lemma src_data_simps [simp]: "src_data [] = []" "src_data ((b, e) # src) = b @ src_data src"
  by (simp_all add: src_data_def)

lemma line_event_Nil [simp]: "line_event [] = []"
  by (simp add: line_event_def cut_prefix_def sse_prefix_def)

section \<open>Reading a stream without a filter\<close>

lemma fold_handle_lines:
  "fold (\<lambda>l. handle_line (trim_right cr l)) ls st = st \<lparr>rd_events := rd_events st @ lines_events ls\<rparr>"
  by (induction ls arbitrary: st) (simp_all add: handle_line_def lines_events_def)

lemma scan_events_eq:
  "length (rd_pending st) \<le> max_observed_body \<Longrightarrow>
     scan_events b st = st \<lparr>rd_pending := snd (drain_lines (rd_pending st @ b)),
       rd_events := rd_events st @ lines_events (fst (drain_lines (rd_pending st @ b)))\<rparr>"
  by (simp add: scan_events_def fold_handle_lines split: prod.splits)

text \<open>The lines of a stream, the last and possibly incomplete one included.\<close>

definition all_lines :: "string \<Rightarrow> string list" where
  "all_lines s = fst (drain_lines s) @ [snd (drain_lines s)]"

lemma drain_pending_idem: "drain_lines (snd (drain_lines s)) = ([], snd (drain_lines s))"
  by (induction s rule: drain_lines_induct) (simp_all add: drain_lines_none drain_lines_found)

lemma cut_not_found: "cut c s = (line, rest, False) \<Longrightarrow> c \<notin> set s"
  by (auto simp: cut_def dropWhile_eq_Nil_conv split: list.splits)

lemma drain_no_lines: "drain_lines s = ([], s) \<Longrightarrow> lf \<notin> set s"
proof -
  assume "drain_lines s = ([], s)"
  moreover obtain line rest found where "cut lf s = (line, rest, found)" by (cases "cut lf s") auto
  ultimately show ?thesis by (cases found) (auto simp: drain_lines_found dest: cut_not_found)
qed

lemma pending_within_a_line: "\<exists>l \<in> set (all_lines (a @ b)). length (snd (drain_lines a)) \<le> length l"
proof -
  let ?p = "snd (drain_lines a)"
  have nolf: "lf \<notin> set ?p" by (rule drain_no_lines [OF drain_pending_idem])
  have "\<exists>l \<in> set (all_lines (?p @ b)). length ?p \<le> length l"
  proof (cases "lf \<in> set b")
    case False
    with nolf have "cut lf (?p @ b) = (?p @ b, [], False)" by (intro cut_none) simp
    then show ?thesis by (simp add: all_lines_def drain_lines_none)
  next
    case True
    then obtain b1 b2 where b: "b = b1 @ lf # b2" "lf \<notin> set b1" by (meson split_list_first)
    with nolf have "cut lf (?p @ b) = (?p @ b1, b2, True)"
      using cut_append [of lf "?p @ b1" b2] by simp
    then show ?thesis by (auto simp: all_lines_def drain_lines_found)
  qed
  then show ?thesis by (auto simp: all_lines_def drain_lines_append [of a b])
qed

definition still_open :: "reader \<Rightarrow> bool" where
  "still_open st \<longleftrightarrow> rd_done st = [] \<and> \<not> rd_saw_eof st \<and> rd_src_err st = None"

definition streaming_state :: "string \<Rightarrow> reader \<Rightarrow> bool" where
  "streaming_state s st \<longleftrightarrow> rd_streaming st \<and> still_open st \<and>
     rd_pending st = snd (drain_lines s) \<and> rd_events st = lines_events (fst (drain_lines s))"

lemma observe_streaming:
  assumes "streaming_state s st" and "length (rd_pending st) \<le> max_observed_body"
  shows "streaming_state (s @ b) (observe b st)" "rd_src (observe b st) = rd_src st"
  using assms drain_lines_append [of s b]
  by (simp_all add: streaming_state_def still_open_def observe_def scan_events_eq lines_events_def)

lemma trim_line_end_Nil [simp]: "trim_line_end [] = []"
  by (simp add: trim_line_end_def)

lemma read_streaming:
  assumes "streaming_state s st" and "length (rd_pending st) \<le> max_observed_body"
    and "next_answer st = (b, err)" and "err \<noteq> Some ReadFailed"
  shows "\<exists>st'. read_through st = (b, err, st') \<and> rd_src st' = tl (rd_src st) \<and>
    (if err = Some EOF then rd_events st' = stream_events (s @ b) \<and> rd_done st' = [True]
     else streaming_state (s @ b) st')"
proof -
  let ?st = "if b \<noteq> [] then observe b (advance st) else advance st"
  have adv: "streaming_state s (advance st)" "length (rd_pending (advance st)) \<le> max_observed_body"
    using assms(1,2) by (simp_all add: streaming_state_def still_open_def advance_def)
  have st: "streaming_state (s @ b) ?st" "rd_src ?st = tl (rd_src st)"
    using observe_streaming [OF adv, of b] adv by auto
  have "rd_events (flush ?st) = stream_events (s @ b)" "rd_done (flush ?st) = []" "rd_src (flush ?st) = tl (rd_src st)"
    using st by (auto simp: flush_def streaming_state_def still_open_def stream_events_def handle_line_def Let_def)
  with st assms(3) show ?thesis by (auto simp: read_through_def finish_def Let_def)
qed

text \<open>
  The contract between a reader and a client that reads it to the end or gives up: \<open>inv s st\<close> says
  what the state holds after the bytes \<open>s\<close>, \<open>final s st\<close> what it holds once the body \<open>s\<close> has ended,
  for bodies that satisfy \<open>ok\<close>.
\<close>

locale observation =
  fixes inv :: "string \<Rightarrow> reader \<Rightarrow> bool"
    and final :: "string \<Rightarrow> reader \<Rightarrow> bool"
    and ok :: "string \<Rightarrow> bool"
  assumes step: "inv s st \<Longrightarrow> next_answer st = (b, err) \<Longrightarrow> err \<noteq> Some ReadFailed \<Longrightarrow> ok (s @ b @ rest) \<Longrightarrow>
      \<exists>st'. read_through st = (b, err, st') \<and> rd_src st' = tl (rd_src st) \<and>
        (if err = Some EOF then final (s @ b) st' else inv (s @ b) st')"
    and still: "inv s st \<Longrightarrow> still_open st"
begin

lemma read_to_end:
  assumes "inv s st" and "src_ok (rd_src st)" and "length (rd_src st) < k" and "ok (s @ src_data (rd_src st))"
  shows "\<exists>st'. pump None n k st = (src_data (rd_src st), Some EOF, st') \<and> final (s @ src_data (rd_src st)) st'"
  using assms
proof (induction k arbitrary: s st)
  case (Suc k)
  obtain b err where ans: "next_answer st = (b, err)" by (cases "next_answer st") auto
  then have noerr: "err \<noteq> Some ReadFailed" and data: "src_data (rd_src st) = b @ src_data (tl (rd_src st))"
    and ended: "err \<noteq> None \<Longrightarrow> tl (rd_src st) = []" and more: "err = None \<Longrightarrow> rd_src st \<noteq> []"
    and oks: "src_ok (tl (rd_src st))"
    using Suc.prems(2) by (cases "rd_src st" rule: src_ok.cases; auto simp: next_answer_def)+
  obtain st' where st': "read_through st = (b, err, st')" "rd_src st' = tl (rd_src st)"
      "if err = Some EOF then final (s @ b) st' else inv (s @ b) st'"
    using step [OF Suc.prems(1) ans noerr] Suc.prems(4) data by metis
  show ?case
  proof (cases err)
    case None
    have "length (rd_src st') < k" using Suc.prems(3) st'(2) more [OF None] by (cases "rd_src st") auto
    then have "\<exists>st''. pump None n k st' = (src_data (rd_src st'), Some EOF, st'') \<and> final ((s @ b) @ src_data (rd_src st')) st''"
      by (intro Suc.IH) (use Suc.prems(4) st' None oks data in auto)
    with st' None data show ?thesis by (auto simp: read_body_def)
  next
    case (Some e)
    with noerr have "e = EOF" by (cases e) auto
    with st' Some data ended show ?thesis by (simp add: read_body_def)
  qed
qed simp

lemma read_part:
  assumes "inv s st" and "rd_src st = map (\<lambda>b. (b, None)) bs @ rest" and "ok (s @ concat bs @ tail)"
  shows "\<exists>st'. pump None n (length bs) st = (concat bs, None, st') \<and> inv (s @ concat bs) st'"
  using assms
proof (induction bs arbitrary: s st)
  case (Cons b bs)
  then have "next_answer st = (b, None)" by (simp add: next_answer_def)
  with Cons.prems step [of s st b None "concat bs @ tail"]
  obtain st' where st': "read_through st = (b, None, st')" "rd_src st' = tl (rd_src st)" "inv (s @ b) st'"
    by auto
  with Cons.prems Cons.IH [of "s @ b" st'] show ?case by (auto simp: read_body_def)
qed simp

text \<open>A client that hangs up after some reads: the completion callback says so, once.\<close>

lemma hang_up:
  assumes "inv s st" and "rd_src st = map (\<lambda>b. (b, None)) bs @ rest" and "ok (s @ concat bs @ tail)"
  shows "\<exists>st'. pump None n (length bs) st = (concat bs, None, st') \<and> inv (s @ concat bs) st' \<and>
    rd_done (close_body st') = [False] \<and> rd_done (close_body (close_body st')) = [False]"
  using read_part [OF assms] still by (fastforce simp: close_body_def finish_def still_open_def)

end

text \<open>The contract holds for event streams whose lines fit the buffer, and for plain bodies.\<close>

definition short_lines :: "string \<Rightarrow> bool" where
  "short_lines s \<longleftrightarrow> (\<forall>l \<in> set (all_lines s). length l \<le> max_observed_body)"

definition stream_final :: "string \<Rightarrow> reader \<Rightarrow> bool" where
  "stream_final s st \<longleftrightarrow> rd_events st = stream_events s \<and> rd_done st = [True]"

interpretation stream: observation streaming_state stream_final short_lines
proof
  show "\<exists>st'. read_through st = (b, err, st') \<and> rd_src st' = tl (rd_src st) \<and>
      (if err = Some EOF then stream_final (s @ b) st' else streaming_state (s @ b) st')"
    if "streaming_state s st" "next_answer st = (b, err)" "err \<noteq> Some ReadFailed" "short_lines (s @ b @ rest)"
    for s st b err rest
  proof -
    have "length (rd_pending st) \<le> max_observed_body"
      using that(1,4) pending_within_a_line [of s "b @ rest"]
      by (auto simp: streaming_state_def short_lines_def)
    from read_streaming [OF that(1) this that(2,3)] show ?thesis unfolding stream_final_def .
  qed
qed (simp add: streaming_state_def)

definition plain_state :: "string \<Rightarrow> reader \<Rightarrow> bool" where
  "plain_state s st \<longleftrightarrow> \<not> rd_streaming st \<and> still_open st \<and> rd_bodies st = [] \<and>
     rd_overflow st = (max_observed_body < length s) \<and> rd_truncated st = (max_observed_body < length s) \<and>
     (length s \<le> max_observed_body \<longrightarrow> rd_body st = s)"

definition plain_final :: "string \<Rightarrow> reader \<Rightarrow> bool" where
  "plain_final s st \<longleftrightarrow> rd_done st = [True] \<and> rd_bodies st = (if length s \<le> max_observed_body then [s] else [])"

lemma observe_plain:
  "plain_state s st \<Longrightarrow> plain_state (s @ b) (observe b st) \<and> rd_src (observe b st) = rd_src st"
  by (auto simp: plain_state_def still_open_def observe_def accumulate_def)

interpretation plain: observation plain_state plain_final "\<lambda>_. True"
proof
  show "\<exists>st'. read_through st = (b, err, st') \<and> rd_src st' = tl (rd_src st) \<and>
      (if err = Some EOF then plain_final (s @ b) st' else plain_state (s @ b) st')"
    if "plain_state s st" "next_answer st = (b, err)" for s st b err
  proof -
    let ?st = "if b \<noteq> [] then observe b (advance st) else advance st"
    have "plain_state s (advance st)" using that(1) by (simp add: plain_state_def still_open_def advance_def)
    then have st: "plain_state (s @ b) ?st" "rd_src ?st = tl (rd_src st)"
      using observe_plain [of s "advance st" b] by auto
    then have "rd_bodies (flush ?st) = (if length (s @ b) \<le> max_observed_body then [s @ b] else [])"
      "rd_done (flush ?st) = []" "rd_src (flush ?st) = tl (rd_src st)"
      by (auto simp: flush_def plain_state_def still_open_def)
    with st that(2) show ?thesis by (auto simp: read_through_def finish_def plain_final_def Let_def)
  qed
qed (simp add: plain_state_def)

lemma streaming_state_new: "streaming_state [] (new_observing_reader src True)"
  by (simp add: streaming_state_def still_open_def new_observing_reader_def drain_lines.simps [of "[]"] cut_def lines_events_def)

lemma plain_state_new: "plain_state [] (new_observing_reader src False)"
  by (simp add: plain_state_def still_open_def new_observing_reader_def max_observed_body_def)

lemma rd_src_new [simp]: "rd_src (new_observing_reader src b) = src"
  by (simp add: new_observing_reader_def)


definition sample_src :: "(string \<times> read_error option) list" where
  "sample_src = [(''da'', None), (''ta: {a}'' @ [cr, lf, lf] @ ''data: [DO'', None), (''NE]'' @ [lf], Some EOF)]"


text \<open>
  A complete response body reaches the usage parser whole and exactly once, however it was cut
  into reads, if it is at most 1 MiB long; a longer body is passed through and never parsed.
\<close>

theorem body_is_observed_whole:
  assumes "src_ok src" and "length src < k"
  shows "\<exists>st. pump None n k (new_observing_reader src False) = (src_data src, Some EOF, st) \<and>
    rd_bodies st = (if length (src_data src) \<le> max_observed_body then [src_data src] else []) \<and> rd_done st = [True]"
  using plain.read_to_end [OF plain_state_new, of src k n] assms by (auto simp: plain_final_def)

lemma body_is_observed_whole_witness:
  "\<exists>st. pump None 0 3 (new_observing_reader [(''{a'', None), (''}'', Some EOF)] False) =
      (src_data [(''{a'', None), (''}'', Some EOF)], Some EOF, st) \<and>
    rd_bodies st = (if length (src_data [(''{a'', None), (''}'', Some EOF)]) \<le> max_observed_body
      then [src_data [(''{a'', None), (''}'', Some EOF)]] else []) \<and> rd_done st = [True]"
  by (rule body_is_observed_whole) simp_all

text \<open>
  A client that hangs up early has received a prefix of the vendor's bytes, the events seen are
  those of the complete lines of that prefix, and closing the body reports an incomplete response
  once, also when it is closed again.
\<close>

theorem disconnect_is_reported_once:
  assumes "short_lines (concat bs)"
  shows "\<exists>st. pump None n (length bs) (new_observing_reader (map (\<lambda>b. (b, None)) bs @ rest) True) = (concat bs, None, st) \<and>
    rd_events st = lines_events (fst (drain_lines (concat bs))) \<and>
    rd_done (close_body st) = [False] \<and> rd_done (close_body (close_body st)) = [False]"
  using stream.hang_up [OF streaming_state_new, of "map (\<lambda>b. (b, None)) bs @ rest" bs rest "[]" n] assms
  by (auto simp: streaming_state_def)

lemma disconnect_is_reported_once_witness:
  "\<exists>st. pump None 0 (length [''data: {a}'' @ [lf], ''data: {b'']) (new_observing_reader
      (map (\<lambda>b. (b, None)) [''data: {a}'' @ [lf], ''data: {b''] @ [(''}'' @ [lf], Some EOF)]) True) =
        (concat [''data: {a}'' @ [lf], ''data: {b''], None, st) \<and>
    rd_events st = lines_events (fst (drain_lines (concat [''data: {a}'' @ [lf], ''data: {b'']))) \<and>
    rd_done (close_body st) = [False] \<and> rd_done (close_body (close_body st)) = [False]"
proof (rule disconnect_is_reported_once)
  have "\<forall>l \<in> set (all_lines (concat [''data: {a}'' @ [lf], ''data: {b''])). length l \<le> 20" by code_simp
  then show "short_lines (concat [''data: {a}'' @ [lf], ''data: {b''])"
    by (auto simp: short_lines_def max_observed_body_def intro: order_trans)
qed

section \<open>Reading a stream with a filter\<close>

definition filtered :: "(string \<Rightarrow> bool) \<Rightarrow> string \<Rightarrow> string" where
  "filtered dropped s = concat (filter (kept dropped) (blocks_of s))"

definition all_block_events :: "string \<Rightarrow> string list" where
  "all_block_events s = concat (map block_events (blocks_of s))"

lemma take_block_eq:
  "take_block f b st = st \<lparr>rd_out := rd_out st @ (if kept f b then b else []), rd_events := rd_events st @ block_events b\<rparr>"
  by (simp add: take_block_def kept_def block_events_def handle_line_def split: option.split)

lemma fold_take_block:
  "fold (take_block f) bs st =
     st \<lparr>rd_out := rd_out st @ concat (filter (kept f) bs), rd_events := rd_events st @ concat (map block_events bs)\<rparr>"
  by (induction bs arbitrary: st) (simp_all add: take_block_eq)

lemma event_payload_Nil [simp]: "event_payload [] = None"
  by (simp add: event_payload_def line_payload_def cut_prefix_def sse_prefix_def trim_right_def)

lemma blocks_of_append:
  "blocks_of (a @ b) = fst (drain_blocks a) @ blocks_of (snd (drain_blocks a) @ b)"
  by (simp add: blocks_of_def drain_blocks_append [of a b])

lemma drain_rest_idem: "drain_blocks (snd (drain_blocks s)) = ([], snd (drain_blocks s))"
  by (induction s rule: drain_blocks_induct) (simp_all add: drain_blocks_none drain_blocks_found)

text \<open>What is still to be delivered and observed from a state on; a filter step keeps it.\<close>

definition filter_state :: "reader \<Rightarrow> bool" where
  "filter_state st \<longleftrightarrow> rd_done st = [] \<and>
     (case rd_src_err st of
        None \<Rightarrow> src_ok (rd_src st) \<and> drain_blocks (rd_pending st) = ([], rd_pending st)
      | Some e \<Rightarrow> e = EOF \<and> rd_pending st = [])"

definition to_deliver :: "(string \<Rightarrow> bool) \<Rightarrow> reader \<Rightarrow> string" where
  "to_deliver f st = rd_out st @
     (if rd_src_err st = None then filtered f (rd_pending st @ src_data (rd_src st)) else [])"

definition to_observe :: "reader \<Rightarrow> string list" where
  "to_observe st = rd_events st @
     (if rd_src_err st = None then all_block_events (rd_pending st @ src_data (rd_src st)) else [])"

definition fill_step :: "(string \<Rightarrow> bool) \<Rightarrow> reader \<Rightarrow> reader" where
  "fill_step f st =
     (case next_answer st of
        (b, err) \<Rightarrow>
          (let st1 = advance st;
               st2 = (if b \<noteq> [] then consume_events f b st1 else st1)
           in if err \<noteq> None then flush_remainder f (st2 \<lparr>rd_src_err := err\<rparr>) else st2))"

lemma fill_unfold: "fill f st = (if rd_out st \<noteq> [] \<or> rd_src_err st \<noteq> None then st else fill f (fill_step f st))"
  by (subst fill.simps) (simp add: fill_step_def Let_def split: prod.split)

lemma consume_events_eq:
  "consume_events f b st = st
     \<lparr>rd_pending := snd (drain_blocks (rd_pending st @ b)),
      rd_out := rd_out st @ concat (filter (kept f) (fst (drain_blocks (rd_pending st @ b)))),
      rd_events := rd_events st @ concat (map block_events (fst (drain_blocks (rd_pending st @ b))))\<rparr>"
  by (simp add: consume_events_def fold_take_block case_prod_beta)

lemma consume_Nil: "drain_blocks (rd_pending st) = ([], rd_pending st) \<Longrightarrow> consume_events f [] st = st"
  by (simp add: consume_events_eq)

lemma fill_step_keeps:
  assumes "filter_state st" and "rd_src_err st = None"
  shows "filter_state (fill_step f st) \<and> to_deliver f (fill_step f st) = to_deliver f st \<and>
    to_observe (fill_step f st) = to_observe st"
proof -
  obtain b err where ans: "next_answer st = (b, err)" by (cases "next_answer st") auto
  then have noerr: "err \<noteq> Some ReadFailed" and data: "src_data (rd_src st) = b @ src_data (tl (rd_src st))"
    and ended: "err \<noteq> None \<Longrightarrow> src_data (tl (rd_src st)) = []" and oks: "src_ok (tl (rd_src st))"
    using assms by (cases "rd_src st" rule: src_ok.cases; auto simp: next_answer_def filter_state_def)+
  let ?st = "consume_events f b (advance st)"
  have st2: "(if b \<noteq> [] then ?st else advance st) = ?st"
    using assms consume_Nil [of "advance st" f] by (auto simp: filter_state_def advance_def)
  let ?r = "snd (drain_blocks (rd_pending st @ b))" and ?bs = "fst (drain_blocks (rd_pending st @ b))"
  have step: "rd_pending ?st = ?r" "rd_out ?st = rd_out st @ concat (filter (kept f) ?bs)"
    "rd_events ?st = rd_events st @ concat (map block_events ?bs)" "rd_src_err ?st = None"
    "rd_src ?st = tl (rd_src st)" "rd_done ?st = []"
    using assms by (simp_all add: consume_events_eq advance_def filter_state_def)
  have split: "blocks_of (rd_pending st @ src_data (rd_src st)) = ?bs @ blocks_of (?r @ src_data (tl (rd_src st)))"
    using blocks_of_append [of "rd_pending st @ b" "src_data (tl (rd_src st))"] data by simp
  show ?thesis
  proof (cases err)
    case None
    then have "fill_step f st = ?st" by (simp add: fill_step_def ans st2)
    with step oks assms split show ?thesis
      by (simp add: filter_state_def to_deliver_def to_observe_def filtered_def all_block_events_def drain_rest_idem)
  next
    case (Some e)
    with noerr have e: "e = EOF" by (cases e) auto
    have last_blocks: "blocks_of ?r = (if ?r = [] then [] else [?r])"
      by (simp add: blocks_of_def drain_rest_idem)
    have "fill_step f st = flush_remainder f (?st \<lparr>rd_src_err := Some EOF\<rparr>)"
      by (simp add: fill_step_def ans st2 Some e)
    with step assms split ended Some last_blocks show ?thesis
      by (simp add: filter_state_def to_deliver_def to_observe_def filtered_def all_block_events_def
          flush_remainder_def take_block_eq)
  qed
qed

lemma fill_keeps:
  "filter_state st \<Longrightarrow> filter_state (fill f st) \<and> to_deliver f (fill f st) = to_deliver f st \<and>
     to_observe (fill f st) = to_observe st \<and> (rd_out (fill f st) \<noteq> [] \<or> rd_src_err (fill f st) \<noteq> None)"
proof (induction "length (rd_src st) + (if rd_src_err st = None then 1 else 0)" arbitrary: st rule: less_induct)
  case less
  show ?case
  proof (cases "rd_out st \<noteq> [] \<or> rd_src_err st \<noteq> None")
    case True
    with less.prems show ?thesis by (simp add: fill_unfold)
  next
    case False
    then have err: "rd_src_err st = None" by simp
    have "rd_src (fill_step f st) = tl (rd_src st)"
      by (simp add: fill_step_def Let_def split: prod.split)
    moreover have "rd_src st = [] \<Longrightarrow> rd_src_err (fill_step f st) \<noteq> None"
      by (simp add: fill_step_def next_answer_def)
    ultimately have "length (rd_src (fill_step f st)) + (if rd_src_err (fill_step f st) = None then 1 else 0)
        < length (rd_src st) + (if rd_src_err st = None then 1 else 0)"
      using err by (cases "rd_src st") auto
    from less.hyps [OF this] fill_step_keeps [OF less.prems err, of f] fill_unfold [of f st] False
    show ?thesis by auto
  qed
qed

lemma read_filtered_keeps:
  assumes "filter_state st" and "0 < n"
  shows "(\<exists>b st'. read_filtered f n st = (b, None, st') \<and> b \<noteq> [] \<and> filter_state st' \<and>
      to_deliver f st = b @ to_deliver f st' \<and> to_observe st' = to_observe st) \<or>
    (\<exists>st'. read_filtered f n st = ([], Some EOF, st') \<and> to_deliver f st = [] \<and> rd_events st' = to_observe st \<and>
      rd_done st' = [True])"
proof (cases "rd_out (fill f st) = []")
  case True
  with fill_keeps [OF assms(1), of f] have "rd_src_err (fill f st) = Some EOF"
    by (auto simp: filter_state_def)
  with True fill_keeps [OF assms(1), of f] show ?thesis
    by (auto simp: read_filtered_def finish_def to_deliver_def to_observe_def filter_state_def)
next
  case False
  let ?st1 = "fill f st" and ?out = "rd_out (fill f st)"
  let ?st' = "?st1 \<lparr>rd_out := drop n ?out\<rparr>"
  have "read_filtered f n st = (take n ?out, None, ?st')" using False by (simp add: read_filtered_def Let_def)
  moreover have "take n ?out \<noteq> []" using False assms(2) by simp
  moreover have "filter_state ?st'"
    using fill_keeps [OF assms(1), of f] by (auto simp: filter_state_def split: option.splits)
  moreover have "to_observe ?st' = to_observe ?st1" by (simp add: to_observe_def)
  moreover have "to_deliver f ?st1 = take n ?out @ to_deliver f ?st'"
    by (simp add: to_deliver_def)
  ultimately show ?thesis using fill_keeps [OF assms(1), of f] by metis
qed

lemma pump_filtered:
  assumes "filter_state st" and "0 < n" and "length (to_deliver f st) < k"
  shows "\<exists>st'. pump (Some f) n k st = (to_deliver f st, Some EOF, st') \<and> rd_events st' = to_observe st \<and> rd_done st' = [True]"
  using assms
proof (induction k arbitrary: st)
  case (Suc k)
  from read_filtered_keeps [OF Suc.prems(1,2), of f] show ?case
  proof (elim disjE exE conjE)
    fix b st' assume r: "read_filtered f n st = (b, None, st')" "b \<noteq> []" "filter_state st'"
      "to_deliver f st = b @ to_deliver f st'" "to_observe st' = to_observe st"
    then have "length (to_deliver f st') < k" using Suc.prems(3) by (cases b) auto
    with Suc.IH [OF r(3) Suc.prems(2)] r show ?thesis by (auto simp: read_body_def)
  qed (simp add: read_body_def)
qed simp

text \<open>
  When the gateway asked for usage itself, the client receives exactly the event blocks of the
  vendor's stream that the predicate does not drop, in order and byte for byte, whatever the read
  boundaries and the size of its buffer, and every block, the dropped ones included, is observed.
\<close>

theorem filter_withholds_only_dropped_events:
  assumes "src_ok src" and "0 < n" and "length (filtered dropped (src_data src)) < k"
  shows "\<exists>st. pump (Some dropped) n k (new_observing_reader src True) = (filtered dropped (src_data src), Some EOF, st) \<and>
    rd_events st = all_block_events (src_data src) \<and> rd_done st = [True]"
proof -
  have "filter_state (new_observing_reader src True)"
    using assms(1) by (simp add: filter_state_def new_observing_reader_def drain_blocks_none)
  moreover have "to_deliver dropped (new_observing_reader src True) = filtered dropped (src_data src)"
    "to_observe (new_observing_reader src True) = all_block_events (src_data src)"
    by (simp_all add: to_deliver_def to_observe_def new_observing_reader_def)
  ultimately show ?thesis
    using pump_filtered [of "new_observing_reader src True" n dropped k] assms by simp
qed

definition filter_src :: "(string \<times> read_error option) list" where
  "filter_src = [(''data: a'' @ [lf], None), ([lf] @ ''data: u'' @ [lf, lf] @ ''da'', None), (''ta: b'' @ [lf, lf], Some EOF)]"

lemma filter_withholds_only_dropped_events_witness:
  "(\<exists>st. pump (Some (\<lambda>p. p = ''u'')) 5 40 (new_observing_reader filter_src True) =
      (filtered (\<lambda>p. p = ''u'') (src_data filter_src), Some EOF, st) \<and>
    rd_events st = all_block_events (src_data filter_src) \<and> rd_done st = [True]) \<and>
   filtered (\<lambda>p. p = ''u'') (src_data filter_src) = ''data: a'' @ [lf, lf] @ ''data: b'' @ [lf, lf] \<and>
   all_block_events (src_data filter_src) = [''a'', ''u'', ''b'']"
proof -
  have out: "filtered (\<lambda>p. p = ''u'') (src_data filter_src) = ''data: a'' @ [lf, lf] @ ''data: b'' @ [lf, lf]"
    by code_simp
  moreover have "all_block_events (src_data filter_src) = [''a'', ''u'', ''b'']" by code_simp
  moreover have "\<exists>st. pump (Some (\<lambda>p. p = ''u'')) 5 40 (new_observing_reader filter_src True) =
      (filtered (\<lambda>p. p = ''u'') (src_data filter_src), Some EOF, st) \<and>
    rd_events st = all_block_events (src_data filter_src) \<and> rd_done st = [True]"
    by (rule filter_withholds_only_dropped_events) (simp_all add: out, simp add: filter_src_def)
  ultimately show ?thesis by blast
qed

end
