(* ===== verification/Vault.thy ===== *)
theory Vault
  imports StoreTypes
begin

text \<open>
  Vendor credentials (\<open>internal/vault/vault.go\<close>, \<open>internal/store/sqlite/credentials.go\<close>, and the
  resolution of the master key in \<open>internal/keysource\<close>). AES-256-GCM is the standard library's: sealing
  and opening are the parameters \<open>aead_seal\<close> and \<open>aead_open\<close> with key, nonce, text and additional
  data, and so are the random nonces. The table \<open>credentials\<close> is the list of its rows.
\<close>

section \<open>Master keys\<close>

type_synonym master_key = string

definition key_size :: nat where "key_size = 32"

datatype vault_error = ErrNoCredential string | ErrBadMasterKey | ErrDecrypt string | EmptyProvider | EmptyKey
  | VaultStore store_error

definition hex_value :: "char \<Rightarrow> nat option" where
  "hex_value c =
     (if CHR ''0'' \<le> c \<and> c \<le> CHR ''9'' then Some (of_char c - 48)
      else if CHR ''a'' \<le> c \<and> c \<le> CHR ''f'' then Some (of_char c - 87)
      else if CHR ''A'' \<le> c \<and> c \<le> CHR ''F'' then Some (of_char c - 55)
      else None)"

fun hex_decode :: "string \<Rightarrow> string option" where
  "hex_decode [] = Some []"
| "hex_decode [c] = None"
| "hex_decode (c # d # s) =
     (case (hex_value c, hex_value d, hex_decode s) of
        (Some a, Some b, Some r) \<Rightarrow> Some (char_of (16 * a + b) # r)
      | _ \<Rightarrow> None)"

definition hex_encode :: "string \<Rightarrow> string" where
  "hex_encode s = concat (map (\<lambda>c. [hex_digit (of_char c div 16), hex_digit (of_char c mod 16)]) s)"

definition parse_master_key :: "string \<Rightarrow> vault_error + master_key" where
  "parse_master_key s =
     (case hex_decode s of
        None \<Rightarrow> Inl ErrBadMasterKey
      | Some b \<Rightarrow> if length b \<noteq> key_size then Inl ErrBadMasterKey else Inr b)"

section \<open>Stored credentials\<close>

record credential =
  cr_provider :: string
  cr_nonce :: string
  cr_cipher :: string
  cr_created :: instant
  cr_updated :: instant

type_synonym credentials = "credential list"

definition put_credential :: "credential \<Rightarrow> credentials \<Rightarrow> credentials" where
  "put_credential c t =
     (if \<exists>x \<in> set t. cr_provider x = cr_provider c
      then map (\<lambda>x. if cr_provider x = cr_provider c
                    then x\<lparr>cr_nonce := cr_nonce c, cr_cipher := cr_cipher c, cr_updated := cr_updated c\<rparr> else x) t
      else t @ [c])"

definition get_credential :: "credentials \<Rightarrow> string \<Rightarrow> vault_error + credential" where
  "get_credential t name =
     (case find (\<lambda>c. cr_provider c = name) t of None \<Rightarrow> Inl (ErrNoCredential name) | Some c \<Rightarrow> Inr c)"

definition list_credential_providers :: "credentials \<Rightarrow> string list" where
  "list_credential_providers t = sort_by (\<le>) (map cr_provider t)"

definition delete_credential :: "string \<Rightarrow> credentials \<Rightarrow> vault_error + credentials" where
  "delete_credential name t =
     (if \<exists>c \<in> set t. cr_provider c = name then Inr (filter (\<lambda>c. cr_provider c \<noteq> name) t)
      else Inl (VaultStore ErrNotFound))"

text \<open>The loop of \<open>RotateCredentials\<close> over the rows read first, in provider order; an error rolls back.\<close>

fun rotate_rows ::
  "(credential \<Rightarrow> vault_error + credential) \<Rightarrow> credential list \<Rightarrow> credentials \<Rightarrow> vault_error + credentials" where
  "rotate_rows transform [] t = Inr t"
| "rotate_rows transform (c # cs) t =
     (case transform c of
        Inl e \<Rightarrow> Inl e
      | Inr replacement \<Rightarrow>
          if cr_provider replacement \<noteq> cr_provider c then Inl (VaultStore ErrConflict)
          else rotate_rows transform cs (put_credential replacement t))"

definition rotate_credentials ::
  "(credential \<Rightarrow> vault_error + credential) \<Rightarrow> credentials \<Rightarrow> vault_error + (nat \<times> credentials)" where
  "rotate_credentials transform t =
     (let rows = sort_by (\<lambda>c d. cr_provider c \<le> cr_provider d) t
      in case rotate_rows transform rows t of Inl e \<Rightarrow> Inl e | Inr t' \<Rightarrow> Inr (length rows, t'))"

section \<open>The vault\<close>

record vault =
  va_primary :: master_key
  va_readers :: "master_key list"

definition new_keyring :: "master_key \<Rightarrow> master_key list \<Rightarrow> vault" where
  "new_keyring primary previous = \<lparr>va_primary = primary, va_readers = primary # previous\<rparr>"

definition new_vault :: "master_key \<Rightarrow> vault" where
  "new_vault key = new_keyring key []"

type_synonym aead_seal = "master_key \<Rightarrow> string \<Rightarrow> string \<Rightarrow> string \<Rightarrow> string"
type_synonym aead_open = "master_key \<Rightarrow> string \<Rightarrow> string \<Rightarrow> string \<Rightarrow> string option"

fun open_first :: "aead_open \<Rightarrow> master_key list \<Rightarrow> credential \<Rightarrow> string option" where
  "open_first aead_open [] c = None"
| "open_first aead_open (k # ks) c =
     (case aead_open k (cr_nonce c) (cr_cipher c) (cr_provider c) of
        Some plaintext \<Rightarrow> Some plaintext
      | None \<Rightarrow> open_first aead_open ks c)"

definition vault_decrypt :: "aead_open \<Rightarrow> vault \<Rightarrow> credential \<Rightarrow> string option" where
  "vault_decrypt aead_open v c = open_first aead_open (va_readers v) c"

definition vault_encrypt :: "aead_seal \<Rightarrow> vault \<Rightarrow> string \<Rightarrow> string \<Rightarrow> string \<Rightarrow> instant \<Rightarrow> instant \<Rightarrow> credential" where
  "vault_encrypt aead_seal v nonce name plaintext created updated =
     \<lparr>cr_provider = name, cr_nonce = nonce, cr_cipher = aead_seal (va_primary v) nonce plaintext name,
      cr_created = created, cr_updated = updated\<rparr>"

text \<open>\<open>Put\<close> and \<open>Get\<close> over the interface \<open>CredentialStore\<close>, whose operations are arguments.\<close>

definition vault_put ::
  "(credential \<Rightarrow> 's \<Rightarrow> 's) \<Rightarrow> aead_seal \<Rightarrow> vault \<Rightarrow> instant \<Rightarrow> string \<Rightarrow> string \<Rightarrow> string \<Rightarrow> 's \<Rightarrow> vault_error + 's" where
  "vault_put put_op aead_seal v now nonce name api_key st =
     (if name = [] then Inl EmptyProvider
      else if api_key = [] then Inl EmptyKey
      else Inr (put_op (vault_encrypt aead_seal v nonce name api_key now now) st))"

definition vault_get ::
  "('s \<Rightarrow> string \<Rightarrow> vault_error + credential) \<Rightarrow> aead_open \<Rightarrow> vault \<Rightarrow> 's \<Rightarrow> string \<Rightarrow> vault_error + string" where
  "vault_get get_op aead_open v st name =
     (case get_op st name of
        Inl e \<Rightarrow> Inl e
      | Inr c \<Rightarrow> (case vault_decrypt aead_open v c of None \<Rightarrow> Inl (ErrDecrypt name) | Some plaintext \<Rightarrow> Inr plaintext))"

definition rotate_one ::
  "aead_seal \<Rightarrow> aead_open \<Rightarrow> vault \<Rightarrow> instant \<Rightarrow> (string \<Rightarrow> string) \<Rightarrow> credential \<Rightarrow> vault_error + credential" where
  "rotate_one aead_seal aead_open v now nonce_of c =
     (case vault_decrypt aead_open v c of
        None \<Rightarrow> Inl (ErrDecrypt (cr_provider c))
      | Some plaintext \<Rightarrow>
          Inr (vault_encrypt aead_seal v (nonce_of (cr_provider c)) (cr_provider c) plaintext (cr_created c) now))"

definition vault_rotate ::
  "aead_seal \<Rightarrow> aead_open \<Rightarrow> vault \<Rightarrow> instant \<Rightarrow> (string \<Rightarrow> string) \<Rightarrow> credentials \<Rightarrow> vault_error + (nat \<times> credentials)" where
  "vault_rotate aead_seal aead_open v now nonce_of t =
     rotate_credentials (rotate_one aead_seal aead_open v now nonce_of) t"

fun verify_each :: "aead_open \<Rightarrow> vault \<Rightarrow> credentials \<Rightarrow> string list \<Rightarrow> vault_error + unit" where
  "verify_each aead_open v t [] = Inr ()"
| "verify_each aead_open v t (name # names) =
     (case get_credential t name of
        Inl e \<Rightarrow> Inl e
      | Inr c \<Rightarrow> (case vault_decrypt aead_open v c of
          None \<Rightarrow> Inl (ErrDecrypt name)
        | Some _ \<Rightarrow> verify_each aead_open v t names))"

definition vault_verify :: "aead_open \<Rightarrow> vault \<Rightarrow> credentials \<Rightarrow> vault_error + nat" where
  "vault_verify aead_open v t =
     (let names = list_credential_providers t
      in case verify_each aead_open v t names of Inl e \<Rightarrow> Inl e | Inr _ \<Rightarrow> Inr (length names))"

section \<open>Where the master key comes from\<close>

datatype key_source = FromEnvironment string string | FromFile string string | FromCommand string string

fun source_name :: "key_source \<Rightarrow> string" where
  "source_name (FromEnvironment n _) = n"
| "source_name (FromFile n _) = n"
| "source_name (FromCommand n _) = n"

record key_spec =
  ks_value_env :: string
  ks_file_env :: string
  ks_command_env :: string
  ks_required :: bool
  ks_label :: string

record key_result =
  kr_key :: master_key
  kr_source :: string
  kr_present :: bool

datatype key_error = KeyRequired | ConflictingSources "string list" | SourceUnreadable | BadCommand | KeyTooLong | KeyUnusable

definition max_source_bytes :: nat where "max_source_bytes = 4096"

definition configured_sources :: "(string \<Rightarrow> string option) \<Rightarrow> key_spec \<Rightarrow> key_source list" where
  "configured_sources lookup spec =
     concat (map (\<lambda>(mk, name).
        case lookup name of
          None \<Rightarrow> []
        | Some v \<Rightarrow> if trim_space v \<noteq> [] then [mk name (trim_space v)] else [])
       [(FromEnvironment, ks_value_env spec), (FromFile, ks_file_env spec), (FromCommand, ks_command_env spec)])"

definition valid_argv :: "string list \<Rightarrow> bool" where
  "valid_argv argv = (case argv of [] \<Rightarrow> False | a # _ \<Rightarrow> trim_space a \<noteq> [])"

text \<open>\<open>filepath.Base\<close>.\<close>

definition base_name :: "string \<Rightarrow> string" where
  "base_name p =
     (if p = [] then ''.''
      else (let q = trim_right CHR ''/'' p in if q = [] then ''/'' else last (split_at CHR ''/'' q)))"

text \<open>
  The environment, the file system and the command runner are arguments; \<open>parse_argv\<close> is the JSON
  decoder of a command line, absent on an error.
\<close>

definition read_source ::
  "(string \<Rightarrow> string option) \<Rightarrow> (string \<Rightarrow> string list option) \<Rightarrow> (string list \<Rightarrow> string option) \<Rightarrow> key_source \<Rightarrow>
     key_error + (string \<times> string)" where
  "read_source read_file parse_argv run_command src =
     (case src of
        FromEnvironment n v \<Rightarrow> Inr (v, ''environment '' @ n)
      | FromFile n v \<Rightarrow> (case read_file v of None \<Rightarrow> Inl SourceUnreadable | Some raw \<Rightarrow> Inr (raw, ''file '' @ v))
      | FromCommand n v \<Rightarrow>
          (case parse_argv v of
             None \<Rightarrow> Inl BadCommand
           | Some argv \<Rightarrow>
               if \<not> valid_argv argv then Inl BadCommand
               else (case run_command argv of
                   None \<Rightarrow> Inl SourceUnreadable
                 | Some raw \<Rightarrow> Inr (raw, ''command '' @ base_name (hd argv)))))"

definition resolve_key ::
  "(string \<Rightarrow> string option) \<Rightarrow> (string \<Rightarrow> string option) \<Rightarrow> (string \<Rightarrow> string list option) \<Rightarrow> (string list \<Rightarrow> string option) \<Rightarrow>
     key_spec \<Rightarrow> key_error + key_result" where
  "resolve_key lookup read_file parse_argv run_command spec =
     (case configured_sources lookup spec of
        [] \<Rightarrow> if ks_required spec then Inl KeyRequired else Inr \<lparr>kr_key = [], kr_source = [], kr_present = False\<rparr>
      | [src] \<Rightarrow>
          (case read_source read_file parse_argv run_command src of
             Inl e \<Rightarrow> Inl e
           | Inr (raw, description) \<Rightarrow>
               if max_source_bytes < length raw then Inl KeyTooLong
               else (case parse_master_key (trim_space raw) of
                   Inl _ \<Rightarrow> Inl KeyUnusable
                 | Inr key \<Rightarrow> Inr \<lparr>kr_key = key, kr_source = description, kr_present = True\<rparr>))
      | srcs \<Rightarrow> Inl (ConflictingSources (map source_name srcs)))"

text \<open>\<open>limitedBuffer\<close>: what is kept of a command's output, and whether it overflowed.\<close>

record limited_buffer =
  lb_buf :: string
  lb_limit :: nat
  lb_overflow :: bool

definition limited_write :: "string \<Rightarrow> limited_buffer \<Rightarrow> limited_buffer" where
  "limited_write p b =
     (let remaining = lb_limit b - length (lb_buf b)
      in b\<lparr>lb_buf := lb_buf b @ take remaining p, lb_overflow := lb_overflow b \<or> remaining < length p\<rparr>)"

section \<open>The contract of a credential store\<close>

text \<open>
  What the vault relies on: a written credential is read back under its provider, with the creation
  time of the row it replaced, and no other provider is touched.
\<close>

definition kept_created :: "vault_error + credential \<Rightarrow> credential \<Rightarrow> credential" where
  "kept_created old c = (case old of Inr row \<Rightarrow> c\<lparr>cr_created := cr_created row\<rparr> | Inl _ \<Rightarrow> c)"

locale credential_store =
  fixes put_op :: "credential \<Rightarrow> 's \<Rightarrow> 's"
    and get_op :: "'s \<Rightarrow> string \<Rightarrow> vault_error + credential"
    and ok :: "'s \<Rightarrow> bool"
  assumes put_ok: "ok s \<Longrightarrow> ok (put_op c s)"
    and get_put: "ok s \<Longrightarrow> get_op (put_op c s) n = (if n = cr_provider c then Inr (kept_created (get_op s n) c) else get_op s n)"
    and get_provider: "get_op s n = Inr c \<Longrightarrow> cr_provider c = n"
begin

lemma get_after_put:
  assumes "ok s" and "vault_put put_op aead_seal v now nonce name api_key s = Inr s'"
    and "aead_open (va_primary v) nonce (aead_seal (va_primary v) nonce api_key name) name = Some api_key"
    and "va_readers v = va_primary v # others"
  shows "vault_get get_op aead_open v s' n = (if n = name then Inr api_key else vault_get get_op aead_open v s n)"
proof -
  have s': "s' = put_op (vault_encrypt aead_seal v nonce name api_key now now) s"
    using assms(2) by (auto simp: vault_put_def split: if_splits)
  show ?thesis
    using assms(1,3,4)
    by (auto simp: s' vault_get_def get_put vault_encrypt_def vault_decrypt_def kept_created_def split: sum.splits)
qed

text \<open>Re-encrypting a list of rows with distinct providers, each of them written once.\<close>

lemma ok_fold: "ok s \<Longrightarrow> ok (fold put_op cs s)"
  by (induction cs arbitrary: s) (auto simp: put_ok)

lemma get_fold:
  assumes "ok s" and "distinct (map cr_provider cs)"
  shows "get_op (fold put_op cs s) n =
    (case find (\<lambda>c. cr_provider c = n) cs of None \<Rightarrow> get_op s n | Some c \<Rightarrow> Inr (kept_created (get_op s n) c))"
  using assms
proof (induction cs arbitrary: s)
  case (Cons c cs)
  have "cr_provider c = n \<Longrightarrow> find (\<lambda>c. cr_provider c = n) cs = None"
    using Cons.prems(2) by (auto simp: find_None_iff_ball) (metis imageI)
  then show ?case using Cons by (auto simp: put_ok get_put split: option.split)
qed simp

end

definition one_row_each :: "credentials \<Rightarrow> bool" where
  "one_row_each t \<longleftrightarrow> distinct (map cr_provider t)"

lemma get_credential_map:
  "get_credential (map (\<lambda>x. if cr_provider x = i then f x else x) t) n = get_credential t n"
  if "\<And>x. cr_provider (f x) = cr_provider x" and "n \<noteq> i"
  using that by (induction t) (auto simp: get_credential_def)

lemma get_credential_map_same:
  "get_credential (map (\<lambda>x. if cr_provider x = i then f x else x) t) i =
     (case get_credential t i of Inr c \<Rightarrow> Inr (f c) | Inl e \<Rightarrow> Inl e)"
  if "\<And>x. cr_provider (f x) = cr_provider x"
  using that by (induction t) (auto simp: get_credential_def)

interpretation credentials: credential_store put_credential get_credential one_row_each
proof
  show "one_row_each t \<Longrightarrow> one_row_each (put_credential c t)" for t c
  proof -
    assume "one_row_each t"
    moreover have "map cr_provider (map (\<lambda>x. if cr_provider x = cr_provider c
        then x\<lparr>cr_nonce := cr_nonce c, cr_cipher := cr_cipher c, cr_updated := cr_updated c\<rparr> else x) t) = map cr_provider t"
      by auto
    ultimately show ?thesis by (auto simp: one_row_each_def put_credential_def simp del: map_map)
  qed
  show "get_credential (put_credential c t) n =
      (if n = cr_provider c then Inr (kept_created (get_credential t n) c) else get_credential t n)" for c t n
  proof (cases "\<exists>x \<in> set t. cr_provider x = cr_provider c")
    case True
    then have "get_credential t (cr_provider c) \<noteq> Inl e" for e
      by (auto simp: get_credential_def find_None_iff_ball split: option.splits)
    then obtain row where row: "get_credential t (cr_provider c) = Inr row" "cr_provider row = cr_provider c"
      by (cases "get_credential t (cr_provider c)") (auto simp: get_credential_def split: option.splits dest: find_SomeD)
    then show ?thesis using True
      by (auto simp: put_credential_def get_credential_map get_credential_map_same kept_created_def)
  next
    case False
    then have "find (\<lambda>x. cr_provider x = cr_provider c) t = None" by (simp add: find_None_iff_ball)
    then have "get_credential t (cr_provider c) = Inl (ErrNoCredential (cr_provider c))"
      by (simp add: get_credential_def)
    moreover have "find (\<lambda>x. cr_provider x = n) (t @ [c]) =
        (case find (\<lambda>x. cr_provider x = n) t of Some x \<Rightarrow> Some x | None \<Rightarrow> if cr_provider c = n then Some c else None)" for n
      by (induction t) auto
    ultimately show ?thesis using False
      by (auto simp: put_credential_def get_credential_def kept_created_def split: option.splits)
  qed
  show "get_credential t n = Inr c \<Longrightarrow> cr_provider c = n" for t n c
    by (auto simp: get_credential_def split: option.splits dest: find_SomeD)
qed

section \<open>Rotation\<close>

text \<open>A rotation that succeeds writes the re-encryption of every row.\<close>

definition reencrypted :: "aead_seal \<Rightarrow> aead_open \<Rightarrow> vault \<Rightarrow> instant \<Rightarrow> (string \<Rightarrow> string) \<Rightarrow> credential \<Rightarrow> credential" where
  "reencrypted aead_seal aead_open v now nonce_of c =
     vault_encrypt aead_seal v (nonce_of (cr_provider c)) (cr_provider c) (the (vault_decrypt aead_open v c)) (cr_created c) now"

lemma provider_reencrypted [simp]: "cr_provider (reencrypted aead_seal aead_open v now nonce_of c) = cr_provider c"
  by (simp add: reencrypted_def vault_encrypt_def)

lemma rotate_rows_ok:
  "rotate_rows (rotate_one aead_seal aead_open v now nonce_of) cs t = Inr t' \<longleftrightarrow>
     (\<forall>c \<in> set cs. vault_decrypt aead_open v c \<noteq> None) \<and>
     t' = fold put_credential (map (reencrypted aead_seal aead_open v now nonce_of) cs) t"
proof (induction cs arbitrary: t)
  case (Cons c cs)
  then show ?case
    by (cases "vault_decrypt aead_open v c") (auto simp: rotate_one_def reencrypted_def vault_encrypt_def)
qed auto

lemma find_map_provider:
  "find (\<lambda>c. cr_provider c = n) (map (reencrypted aead_seal aead_open v now nonce_of) cs) =
     map_option (reencrypted aead_seal aead_open v now nonce_of) (find (\<lambda>c. cr_provider c = n) cs)"
  by (induction cs) auto

lemma find_sort_distinct:
  assumes "distinct (map k xs)"
  shows "find (\<lambda>x. k x = n) (sort_by le xs) = find (\<lambda>x. k x = n) xs"
proof -
  have "distinct (map k (sort_by le xs))"
    using assms by (simp add: distinct_map)
  note in_sorted = find_distinct_key [OF this]
  show ?thesis
  proof (cases "find (\<lambda>x. k x = n) xs")
    case None
    then have "find (\<lambda>x. k x = n) (sort_by le xs) = None" by (simp add: find_None_iff_ball)
    with None show ?thesis by simp
  next
    case (Some x)
    then have "x \<in> set xs" "k x = n" by (auto dest: find_SomeD)
    with in_sorted [of x] Some show ?thesis by simp
  qed
qed

lemma rotated_key_is_kept:
  fixes primary previous
  defines "v \<equiv> new_keyring primary previous"
  assumes "one_row_each t" and "\<And>n p a. aead_open primary n (aead_seal primary n p a) a = Some p"
    and rows: "rotate_rows (rotate_one aead_seal aead_open v now nonce_of) (sort_by (\<lambda>c d. cr_provider c \<le> cr_provider d) t) t = Inr t'"
  shows "vault_get get_credential aead_open (new_vault primary) t' name = vault_get get_credential aead_open v t name"
proof -
  let ?rows = "sort_by (\<lambda>c d. cr_provider c \<le> cr_provider d) t" and ?re = "reencrypted aead_seal aead_open v now nonce_of"
  have t': "t' = fold put_credential (map ?re ?rows) t" and dec: "\<forall>c \<in> set t. vault_decrypt aead_open v c \<noteq> None"
    using rows unfolding rotate_rows_ok by simp_all
  have distinct: "distinct (map cr_provider (map ?re ?rows))"
    using assms(2) by (simp add: one_row_each_def distinct_map comp_def)
  note fold = credentials.get_fold [OF assms(2) distinct] find_map_provider find_sort_distinct [OF assms(2) [unfolded one_row_each_def]]
  show ?thesis
  proof (cases "find (\<lambda>c. cr_provider c = name) t")
    case None
    then have "get_credential t' name = get_credential t name" unfolding t' fold by simp
    with None show ?thesis by (simp add: vault_get_def get_credential_def)
  next
    case (Some c)
    then have "get_credential t' name = Inr (kept_created (get_credential t name) (?re c))" unfolding t' fold by simp
    moreover obtain plaintext where "vault_decrypt aead_open v c = Some plaintext"
      using dec Some by (auto dest: find_SomeD)
    ultimately show ?thesis using Some assms(3)
      by (auto simp: vault_get_def get_credential_def kept_created_def vault_decrypt_def new_vault_def v_def new_keyring_def
          reencrypted_def vault_encrypt_def)
  qed
qed

text \<open>
  C29. Rotating the master key refines the identity on the plaintext keys: when the primary key opens
  what it sealed, a rotation succeeds exactly when every stored credential decrypts under some
  configured key; afterwards the primary key alone reads every provider's key as before, no
  provider is added or lost, and the number reported is the number of credentials.
\<close>

theorem rotation_preserves_keys:
  assumes "one_row_each t"
    and "\<And>n p a. aead_open primary n (aead_seal primary n p a) a = Some p"
  shows "((\<exists>r. vault_rotate aead_seal aead_open (new_keyring primary previous) now nonce_of t = Inr r) \<longleftrightarrow>
      (\<forall>c \<in> set t. vault_decrypt aead_open (new_keyring primary previous) c \<noteq> None)) \<and>
    (\<forall>k t'. vault_rotate aead_seal aead_open (new_keyring primary previous) now nonce_of t = Inr (k, t') \<longrightarrow>
      k = length t \<and>
      (\<forall>name. vault_get get_credential aead_open (new_vault primary) t' name =
              vault_get get_credential aead_open (new_keyring primary previous) t name))"
proof -
  let ?v = "new_keyring primary previous" and ?rows = "sort_by (\<lambda>c d. cr_provider c \<le> cr_provider d) t"
  have succeeds: "(\<exists>r. vault_rotate aead_seal aead_open ?v now nonce_of t = Inr r) \<longleftrightarrow>
      (\<forall>c \<in> set t. vault_decrypt aead_open ?v c \<noteq> None)"
    using rotate_rows_ok [of aead_seal aead_open ?v now nonce_of ?rows t]
    by (cases "rotate_rows (rotate_one aead_seal aead_open ?v now nonce_of) ?rows t")
      (auto simp: vault_rotate_def rotate_credentials_def Let_def)
  have rotated: "rotate_rows (rotate_one aead_seal aead_open ?v now nonce_of) ?rows t = Inr t' \<and> k = length t"
    if "vault_rotate aead_seal aead_open ?v now nonce_of t = Inr (k, t')" for k t'
    using that by (auto simp: vault_rotate_def rotate_credentials_def Let_def split: sum.splits)
  moreover have "vault_get get_credential aead_open (new_vault primary) t' name = vault_get get_credential aead_open ?v t name"
    if "rotate_rows (rotate_one aead_seal aead_open ?v now nonce_of) ?rows t = Inr t'" for t' name
    using rotated_key_is_kept [where aead_open = aead_open and aead_seal = aead_seal, OF assms(1) assms(2) that] by simp
  ultimately show ?thesis using succeeds by blast
qed

definition toy_seal :: aead_seal where "toy_seal k n p a = k @ p @ a"
definition toy_open :: aead_open where
  "toy_open k n c a = (if has_prefix c k \<and> has_suffix c a \<and> length k + length a \<le> length c
     then Some (take (length c - length k - length a) (drop (length k) c)) else None)"

lemma toy_open_seal: "toy_open k n (toy_seal k n p a) a = Some p"
  by (simp add: toy_open_def toy_seal_def has_suffix_def)

definition sample_credentials :: credentials where
  "sample_credentials = [\<lparr>cr_provider = ''openai'', cr_nonce = [], cr_cipher = ''old sk openai'', cr_created = 1, cr_updated = 1\<rparr>]"

lemma rotation_preserves_keys_witness:
  "\<exists>k t'. vault_rotate toy_seal toy_open (new_keyring ''new'' [''old'']) 9 (\<lambda>_. ''n'') sample_credentials = Inr (k, t') \<and>
    k = length sample_credentials \<and>
    (\<forall>name. vault_get get_credential toy_open (new_vault ''new'') t' name =
            vault_get get_credential toy_open (new_keyring ''new'' [''old'']) sample_credentials name)"
proof -
  have one: "one_row_each sample_credentials" by (simp add: one_row_each_def sample_credentials_def)
  have "\<forall>c \<in> set sample_credentials. vault_decrypt toy_open (new_keyring ''new'' [''old'']) c \<noteq> None"
    by (simp add: sample_credentials_def vault_decrypt_def new_keyring_def toy_open_def has_suffix_def)
  then show ?thesis
    using rotation_preserves_keys [OF one, where primary = "''new''" and previous = "[''old'']" and now = 9
        and nonce_of = "\<lambda>_. ''n''" and aead_seal = toy_seal and aead_open = toy_open] toy_open_seal
    by (metis surj_pair)
qed

end
