(* ===== verification/Proxy.thy ===== *)
theory Proxy
  imports GatewayAuth Observe Vault
begin

text \<open>
  One proxied request (\<open>internal/gateway/proxy.go\<close>): the decisions of \<open>handleProxy\<close> in order, up to
  the outbound request of the reverse proxy; the response hooks with what they record or release; and
  the whole exchange with authentication and the concurrency limit (\<open>gateway.go\<close>). \<open>httputil\<close>'s
  copying is the client model of the observing reader. Metrics, alerts and log lines are left out.
\<close>

section \<open>The request body\<close>

definition max_request_body :: nat where "max_request_body = 8388608"

datatype request_body = NoBody | BodyBytes string | BodyFails

text \<open>The inspected bytes and whether they are the whole body; what is forwarded is the body itself.\<close>

definition read_request_body :: "request_body \<Rightarrow> (string \<times> bool) option" where
  "read_request_body b =
     (case b of
        NoBody \<Rightarrow> Some ([], True)
      | BodyFails \<Rightarrow> None
      | BodyBytes s \<Rightarrow> if max_request_body < length s then Some ([], False) else Some (s, True))"

fun body_bytes :: "request_body \<Rightarrow> string" where
  "body_bytes (BodyBytes s) = s"
| "body_bytes _ = []"

section \<open>Vendor keys and errors\<close>

definition vendor_key_for :: "(string \<Rightarrow> vault_error + string) \<Rightarrow> string \<Rightarrow> api_error + string" where
  "vendor_key_for credential_source name =
     (case credential_source name of
        Inr key \<Rightarrow> Inr key
      | Inl (ErrNoCredential _) \<Rightarrow>
          Inl ((api_failure 503 ErrTypeNoCredential
            (''spendlease has no '' @ name @ '' API key, so it cannot make this request on your behalf.''))\<lparr>ae_provider := name\<rparr>)
      | Inl (ErrDecrypt _) \<Rightarrow>
          Inl ((api_failure 503 ErrTypeNoCredential
            (''The stored '' @ name @ '' credential could not be decrypted.''))\<lparr>ae_provider := name\<rparr>)
      | Inl _ \<Rightarrow> Inl (api_failure 502 ErrTypeInternal ''spendlease could not read the stored vendor credential.''))"

definition unenforceable_error :: "principal \<Rightarrow> string \<Rightarrow> string \<Rightarrow> api_error" where
  "unenforceable_error p name reason =
     (api_failure 422 ErrTypeSpendNotEnforceable
        (''This request may incur spend that spendlease cannot conservatively reserve: '' @ reason @ ''.''))
       \<lparr>ae_principal := pr_id p, ae_provider := name\<rparr>"

definition budget_exceeded_error :: "principal \<Rightarrow> budget_decision \<Rightarrow> api_error" where
  "budget_exceeded_error p dec =
     (api_failure 402 ErrTypeBudgetExceeded
        (''run '' @ bd_run dec @ '' has $'' @ nanos_str (bd_remaining dec) @ '' remaining, but this request needs a $'' @
         nanos_str (bd_requested dec) @ '' reservation.''))
       \<lparr>ae_principal := pr_id p, ae_run := bd_run dec, ae_budget := nanos_str (bd_budget dec),
        ae_spent := nanos_str (bd_spent dec), ae_held := nanos_str (bd_held dec),
        ae_requested := nanos_str (bd_requested dec), ae_remaining := nanos_str (bd_remaining dec),
        ae_shortfall := nanos_str (bd_shortfall dec)\<rparr>"

section \<open>Decisions before egress\<close>

record forward =
  fw_provider :: provider
  fw_path :: string
  fw_header :: header
  fw_body :: string
  fw_info :: request_info
  fw_reservation :: string
  fw_injected :: bool
  fw_metered :: bool
  fw_reason :: string

text \<open>What the gateway knows about the spend of a request, and why it might not know.\<close>

definition is_metered :: "billing_capability \<Rightarrow> bool \<Rightarrow> request_info \<Rightarrow> bool" where
  "is_metered bc inspectable info \<longleftrightarrow>
     bc_class bc = BillingToken \<and> inspectable \<and> ri_model info \<noteq> [] \<and> ri_unsupported info = []"

definition unmetered_reason :: "billing_capability \<Rightarrow> bool \<Rightarrow> request_info \<Rightarrow> string" where
  "unmetered_reason bc inspectable info =
     (if bc_class bc = BillingUnsupported then bc_reason bc
      else if bc_class bc = BillingToken \<and> \<not> inspectable then ''the request body is larger than the inspection limit''
      else if bc_class bc = BillingToken \<and> ri_model info = [] then
        ''the request body is not valid, inspectable JSON with a model''
      else if ri_unsupported info \<noteq> [] then ri_unsupported info
      else [])"

text \<open>The environment of one request: its clock readings, its random identifier, the codecs and the vault.\<close>

record request_env =
  en_strict :: instant
  en_priced :: instant
  en_now :: instant
  en_rid :: string
  en_unmarshal :: "string \<Rightarrow> json_object option"
  en_marshal :: "json_object \<Rightarrow> string"
  en_base_path :: "string \<Rightarrow> string"
  en_credentials :: "string \<Rightarrow> vault_error + string"

text \<open>\<open>Rewrite\<close>: the caller's credentials are removed, then the vendor's is attached.\<close>

definition outbound_header :: "provider \<Rightarrow> string \<Rightarrow> header \<Rightarrow> header" where
  "outbound_header p vendor_key h = header_del (authorize p (strip_client_credentials h) vendor_key) ''Accept-Encoding''"

definition forward_request ::
  "request_env \<Rightarrow> provider \<Rightarrow> string \<Rightarrow> string \<Rightarrow> request \<Rightarrow> string \<Rightarrow> string \<Rightarrow> request_info \<Rightarrow> string \<Rightarrow> bool \<Rightarrow> string \<Rightarrow> forward" where
  "forward_request en p upstream vendor_key req inspected whole info rid metered reason =
     (let (changed, injected) =
            (if metered \<and> ri_stream info \<and> \<not> ri_wants_usage info \<and> inspected \<noteq> []
             then enable_stream_usage (en_unmarshal en) (en_marshal en) p inspected else (inspected, False))
      in \<lparr>fw_provider = p, fw_path = trim_suffix (en_base_path en (provider_base p)) ''/'' @ upstream,
          fw_header = outbound_header p vendor_key (rq_header req),
          fw_body = (if injected then changed else whole), fw_info = info, fw_reservation = rid,
          fw_injected = injected, fw_metered = metered, fw_reason = reason\<rparr>)"

definition internal_budget_error :: "principal \<Rightarrow> string \<Rightarrow> api_error" where
  "internal_budget_error p run_ctx =
     (api_failure 500 ErrTypeInternal
       ''spendlease could not make an atomic budget decision, so enforcement failed closed.'')
      \<lparr>ae_principal := pr_id p, ae_run := run_ctx\<rparr>"

text \<open>The hold: the reservation's identifier, empty when nothing is held, or the refusal.\<close>

definition take_hold ::
  "recorder option \<Rightarrow> request_env \<Rightarrow> auth_context \<Rightarrow> string \<Rightarrow> request_info \<Rightarrow> bool \<Rightarrow> db \<Rightarrow> ((api_error + string) \<times> db) option" where
  "take_hold recorder en ctx name info metered d =
     (case recorder of
        None \<Rightarrow> Some (Inr [], d)
      | Some rc \<Rightarrow>
          if \<not> metered then Some (Inr [], d)
          else
            (let p = au_principal ctx;
                 reason = strict_unenforceable_reason rc (en_strict en) p name info
             in if reason \<noteq> [] then Some (Inl (unenforceable_error p name reason), d)
                else (case reserve rc (en_priced en) (en_now en) (en_rid en) (au_run ctx)
                        (case au_lease ctx of None \<Rightarrow> [] | Some l \<Rightarrow> ls_id l) p name info d of
                    None \<Rightarrow> None
                  | Some (Inl _, d') \<Rightarrow>
                      if pr_mode p = ModeEnforce then Some (Inl (internal_budget_error p (au_run ctx)), d')
                      else Some (Inr [], d')
                  | Some (Inr dec, d') \<Rightarrow>
                      if \<not> bd_allowed dec then Some (Inl (budget_exceeded_error p dec), d')
                      else Some (Inr (en_rid en), d'))))"

definition handle_proxy ::
  "gateway_config \<Rightarrow> request_env \<Rightarrow> auth_context \<Rightarrow> request \<Rightarrow> request_body \<Rightarrow> db \<Rightarrow> ((api_error + forward) \<times> db) option" where
  "handle_proxy g en ctx req body d =
     (let p = au_principal ctx in
      case resolve (gw_registry g) req of
        Inl (ErrUnknownRoute path) \<Rightarrow>
          Some (Inl ((api_failure 404 ErrTypeUnknownRoute
            (''No provider handles '' @ rq_path req @ '', so spendlease does not know where to send this request.''))
              \<lparr>ae_principal := pr_id p\<rparr>), d)
      | Inl _ \<Rightarrow> Some (Inl (api_failure 500 ErrTypeInternal ''spendlease could not route this request.''), d)
      | Inr (prov, upstream) \<Rightarrow>
          (let name = provider_name prov; bc = provider_billing prov (rq_method req) upstream in
           if (case au_lease ctx of None \<Rightarrow> False | Some l \<Rightarrow> \<not> allows_provider l name) then
             Some (Inl ((api_failure 403 ErrTypeLeaseScopeDenied (''This lease is not scoped for provider '' @ name @ ''.''))
               \<lparr>ae_principal := pr_id p, ae_provider := name\<rparr>), d)
           else if bc_class bc = BillingUnsupported \<and> pr_mode p = ModeEnforce then
             Some (Inl (unenforceable_error p name (bc_reason bc)), d)
           else (case vendor_key_for (en_credentials en) name of
               Inl e \<Rightarrow> Some (Inl (e\<lparr>ae_principal := pr_id p\<rparr>), d)
             | Inr vendor_key \<Rightarrow>
                 (case read_request_body body of
                    None \<Rightarrow> Some (Inl ((api_failure 400 ErrTypeInternal ''spendlease could not read the request body.'')
                      \<lparr>ae_principal := pr_id p\<rparr>), d)
                  | Some (inspected, inspectable) \<Rightarrow>
                      (let info = (if inspectable then parse_request (en_unmarshal en) prov inspected else no_request_info)
                             \<lparr>ri_no_output := bc_no_output bc\<rparr>;
                           metered = is_metered bc inspectable info;
                           reason = unmetered_reason bc inspectable info
                       in if reason \<noteq> [] \<and> pr_mode p = ModeEnforce then
                            Some (Inl (unenforceable_error p name reason), d)
                          else (case take_hold (gw_recorder g) en ctx name info metered d of
                              None \<Rightarrow> None
                            | Some (Inl e, d') \<Rightarrow> Some (Inl e, d')
                            | Some (Inr rid, d') \<Rightarrow>
                                Some (Inr (forward_request en prov upstream vendor_key req inspected (body_bytes body)
                                  info rid metered reason), d')))))))"

section \<open>The response\<close>

datatype upstream_result = TransportError bool | UpstreamResponse int header "(string \<times> read_error option) list"

record client_response =
  cl_status :: int
  cl_header :: header
  cl_body :: string
  cl_error :: "api_error option"

definition upstream_request_id :: "header \<Rightarrow> string" where
  "upstream_request_id h =
     (case find (\<lambda>v. v \<noteq> []) (map (\<lambda>n. trim_space (header_get h n))
         [''X-Request-Id'', ''Request-Id'', ''X-Goog-Request-Id'', ''X-Amzn-Requestid'']) of
        None \<Rightarrow> []
      | Some v \<Rightarrow> take 256 v)"

definition is_event_stream :: "string \<Rightarrow> bool" where
  "is_event_stream content_type = has_prefix (trim_space (to_lower content_type)) ''text/event-stream''"

definition upstream_ok :: "int \<Rightarrow> bool" where
  "upstream_ok status \<longleftrightarrow> 200 \<le> status \<and> status < 300"

text \<open>The callbacks' shared variables: the merged usage and whether any was seen.\<close>

definition note_usage :: "vendor_usage option \<Rightarrow> vendor_usage \<times> bool \<Rightarrow> vendor_usage \<times> bool" where
  "note_usage u acc = (case u of None \<Rightarrow> acc | Some v \<Rightarrow> (merge_usage (fst acc) v, True))"

definition observed_usage :: "(string \<Rightarrow> json_object option) \<Rightarrow> provider \<Rightarrow> reader \<Rightarrow> vendor_usage \<times> bool" where
  "observed_usage unmarshal p st =
     fold (\<lambda>b. note_usage (usage_from_response unmarshal p b)) (rd_bodies st)
       (fold (\<lambda>e. note_usage (usage_from_stream_event unmarshal p e)) (rd_events st) (zero_usage, False))"

definition stream_usage_header :: string where "stream_usage_header = ''X-Spendlease-Stream-Options''"
definition accounting_header :: string where "accounting_header = ''X-Spendlease-Accounting''"

text \<open>How the client reads the response: at most how many reads, and its buffer.\<close>

record client =
  ct_reads :: nat
  ct_buffer :: nat

text \<open>
  \<open>observeResponse\<close> on a successful response: the client reads through the observing reader, which is
  closed afterwards; the completion callback has run once by then.
\<close>

definition observe_response ::
  "(string \<Rightarrow> json_object option) \<Rightarrow> auth_context \<Rightarrow> forward \<Rightarrow> client \<Rightarrow> header \<Rightarrow> (string \<times> read_error option) list \<Rightarrow>
     string \<times> observed" where
  "observe_response unmarshal ctx fw cl h src =
     (let p = fw_provider fw;
          streaming = is_event_stream (header_get h ''Content-Type'');
          filter_by = (if fw_injected fw \<and> streaming then Some (is_usage_only_event unmarshal p) else None);
          (delivered, err, st) = pump filter_by (ct_buffer cl) (ct_reads cl) (new_observing_reader src streaming);
          closed = close_body st;
          (usage, seen) = observed_usage unmarshal p closed
      in (delivered,
          \<lparr>ob_principal = au_principal ctx, ob_provider = provider_name p, ob_run = au_run ctx, ob_request = fw_info fw,
           ob_usage = usage, ob_reported = seen, ob_complete = hd (rd_done closed), ob_upstream_ok = True,
           ob_reservation = fw_reservation fw, ob_external = upstream_request_id h\<rparr>))"

definition upstream_error :: "principal \<Rightarrow> provider \<Rightarrow> api_error" where
  "upstream_error p prov =
     (api_failure 502 ErrTypeUpstream (''spendlease could not reach '' @ provider_name prov @ ''.''))
       \<lparr>ae_provider := provider_name prov, ae_principal := pr_id p\<rparr>"

text \<open>\<open>record\<close>: nothing is recorded against no run.\<close>

definition gateway_record :: "(string \<Rightarrow> string) \<Rightarrow> recorder \<Rightarrow> instant \<Rightarrow> instant \<Rightarrow> observed \<Rightarrow> db \<Rightarrow> db" where
  "gateway_record sha rc now at_store ob d = (if ob_run ob = [] then d else record_spend sha rc now at_store ob d)"

text \<open>
  The end of an exchange: the response the client gets, absent for a client that has gone, and the
  database. \<open>now\<close> and \<open>at_store\<close> are the clock readings of the recorder and of the store.
\<close>

definition finish_exchange ::
  "(string \<Rightarrow> string) \<Rightarrow> gateway_config \<Rightarrow> request_env \<Rightarrow> auth_context \<Rightarrow> forward \<Rightarrow> client \<Rightarrow> instant \<Rightarrow> instant \<Rightarrow>
     upstream_result \<Rightarrow> db \<Rightarrow> client_response option \<times> db" where
  "finish_exchange sha g en ctx fw cl now at_store up d =
     (case up of
        TransportError canceled \<Rightarrow>
          (if canceled then None
           else (let e = upstream_error (au_principal ctx) (fw_provider fw)
                 in Some \<lparr>cl_status = ae_status e, cl_header = [], cl_body = [], cl_error = Some e\<rparr>),
           (case gw_recorder g of None \<Rightarrow> d | Some rc \<Rightarrow> release at_store (fw_reservation fw) d))
      | UpstreamResponse status h src \<Rightarrow>
          (let through = (\<lambda>h'. Some \<lparr>cl_status = status, cl_header = h', cl_body = src_data src, cl_error = None\<rparr>) in
           if fw_metered fw then
             (case gw_recorder g of
                None \<Rightarrow> (through h, d)
              | Some rc \<Rightarrow>
                  if \<not> upstream_ok status then (through h, release at_store (fw_reservation fw) d)
                  else
                    (let h' = (if fw_injected fw then header_set h stream_usage_header ''injected'' else h);
                         (delivered, ob) = observe_response (en_unmarshal en) ctx fw cl h' src
                     in (Some \<lparr>cl_status = status, cl_header = h', cl_body = delivered, cl_error = None\<rparr>,
                         gateway_record sha rc now at_store ob d)))
           else (through (if fw_reason fw = [] then h else header_set h accounting_header ''unmetered''), d)))"

section \<open>A whole request\<close>

text \<open>\<open>limit\<close>: the number of requests in flight and the answer when the limit is reached.\<close>

definition admit :: "nat option \<Rightarrow> nat \<Rightarrow> api_error + nat" where
  "admit max_in_flight in_flight =
     (case max_in_flight of
        None \<Rightarrow> Inr in_flight
      | Some n \<Rightarrow>
          if in_flight < n then Inr (Suc in_flight)
          else Inl (api_failure 503 ErrTypeInternal ''spendlease has reached its configured concurrent-request limit.''))"

definition serve ::
  "(string \<Rightarrow> string) \<Rightarrow> gateway_config \<Rightarrow> request_env \<Rightarrow> revocation_set \<Rightarrow> request \<Rightarrow> request_body \<Rightarrow> client \<Rightarrow>
     (forward \<Rightarrow> upstream_result) \<Rightarrow> instant \<Rightarrow> instant \<Rightarrow> db \<Rightarrow> ((api_error + client_response option) \<times> db) option" where
  "serve sha g en revs req body cl vendor now at_store d =
     (case authenticate sha g (en_now en) req revs d of
        (Inl e, d1) \<Rightarrow> Some (Inl e, d1)
      | (Inr ctx, d1) \<Rightarrow>
          (case handle_proxy g en ctx req body d1 of
             None \<Rightarrow> None
           | Some (Inl e, d2) \<Rightarrow> Some (Inl e, d2)
           | Some (Inr fw, d2) \<Rightarrow>
               (case finish_exchange sha g en ctx fw cl now at_store (vendor fw) d2 of
                  (resp, d3) \<Rightarrow> Some (Inr resp, d3))))"

end
