(* ===== verification/Exchange.thy ===== *)
theory Exchange
  imports Proxy
begin

text \<open>
  What a proxied request does as a whole: which spend the gateway lets out, what it hands to the vendor,
  how its database steps refine the store's, and that every hold it takes is resolved or reclaimed.
\<close>

section \<open>Holds\<close>

text \<open>The database after \<open>Reserve\<close>: the decision's, up to the log of budget events.\<close>

lemma reserve_cases:
  assumes "reserve rc priced now rid run_ctx lease_ctx p name info d = Some (res, d')"
  obtains (failed) e where "res = Inl e" "d' = d"
  | (decided) dec d1 where "res = Inr dec"
      "try_reserve (new_reservation rc priced now rid run_ctx lease_ctx name info) (pr_mode p = ModeEnforce) d = Some (Inr (dec, d1))"
      "d' = d1 \<or> record_budget_event (decision_event now p lease_ctx name info dec) d1 = Inr d'"
proof -
  let ?r = "new_reservation rc priced now rid run_ctx lease_ctx name info"
  show thesis
  proof (cases "try_reserve ?r (pr_mode p = ModeEnforce) d")
    case None
    with assms show ?thesis by (simp add: reserve_def)
  next
    case (Some x)
    show ?thesis
    proof (cases x)
      case (Inl e)
      with Some assms show ?thesis by (intro failed [of e]) (simp_all add: reserve_def)
    next
      case (Inr y)
      with Some assms decided show ?thesis
        by (cases y) (auto simp: reserve_def split: if_splits sum.splits)
    qed
  qed
qed

lemma reserve_failed: "reserve rc priced now rid run_ctx lease_ctx p name info d = Some (Inl e, d') \<Longrightarrow> d' = d"
  by (erule reserve_cases) simp_all

lemma budget_event_frame: "record_budget_event b d = Inr d' \<Longrightarrow> \<exists>es. d' = d\<lparr>d_events := es\<rparr>"
  by (auto simp: record_budget_event_def split: if_splits)

text \<open>What \<open>take_hold\<close> leaves behind when the request may go on.\<close>

lemma take_hold_cases:
  assumes "take_hold (Some rc) en ctx name info True d = Some (Inr rid, d')"
  obtains (unheld) "rid = []" "d' = d" "pr_mode (au_principal ctx) \<noteq> ModeEnforce"
  | (held) lease_ctx dec where "rid = en_rid en" "bd_allowed dec"
      "strict_unenforceable_reason rc (en_strict en) (au_principal ctx) name info = []"
      "reserve rc (en_priced en) (en_now en) rid (au_run ctx) lease_ctx (au_principal ctx) name info d = Some (Inr dec, d')"
  using assms
  by (auto simp: take_hold_def Let_def dest: reserve_failed split: if_splits option.splits prod.splits sum.splits)

lemma unmetered_has_reason:
  "bc_class bc = BillingToken \<Longrightarrow> \<not> is_metered bc inspectable info \<Longrightarrow> unmetered_reason bc inspectable info \<noteq> []"
  by (auto simp: is_metered_def unmetered_reason_def)

text \<open>The branches of \<open>handleProxy\<close> that forward.\<close>

lemma forward_request_fields [simp]:
  "fw_provider (forward_request en p up key req ins whole info rid m reason) = p"
  "fw_header (forward_request en p up key req ins whole info rid m reason) = outbound_header p key (rq_header req)"
  "fw_info (forward_request en p up key req ins whole info rid m reason) = info"
  "fw_reservation (forward_request en p up key req ins whole info rid m reason) = rid"
  "fw_metered (forward_request en p up key req ins whole info rid m reason) = m"
  by (simp_all add: forward_request_def split: prod.splits)

lemma forwarded_cases:
  assumes "handle_proxy g en ctx req body d = Some (Inr fw, d')"
  obtains upstream key ins inspectable bc where
    "resolve (gw_registry g) req = Inr (fw_provider fw, upstream)"
    "bc = provider_billing (fw_provider fw) (rq_method req) upstream"
    "case au_lease ctx of None \<Rightarrow> True | Some l \<Rightarrow> allows_provider l (provider_name (fw_provider fw))"
    "bc_class bc = BillingUnsupported \<longrightarrow> pr_mode (au_principal ctx) \<noteq> ModeEnforce"
    "vendor_key_for (en_credentials en) (provider_name (fw_provider fw)) = Inr key"
    "fw_header fw = outbound_header (fw_provider fw) key (rq_header req)"
    "read_request_body body = Some (ins, inspectable)"
    "fw_info fw = (if inspectable then parse_request (en_unmarshal en) (fw_provider fw) ins else no_request_info)
       \<lparr>ri_no_output := bc_no_output bc\<rparr>"
    "fw_metered fw = is_metered bc inspectable (fw_info fw)"
    "unmetered_reason bc inspectable (fw_info fw) \<noteq> [] \<longrightarrow> pr_mode (au_principal ctx) \<noteq> ModeEnforce"
    "take_hold (gw_recorder g) en ctx (provider_name (fw_provider fw)) (fw_info fw) (fw_metered fw) d =
       Some (Inr (fw_reservation fw), d')"
    "fw = forward_request en (fw_provider fw) upstream key req ins (body_bytes body) (fw_info fw) (fw_reservation fw)
       (fw_metered fw) (unmetered_reason bc inspectable (fw_info fw))"
proof -
  obtain p up where res: "resolve (gw_registry g) req = Inr (p, up)"
    using assms by (auto simp: handle_proxy_def Let_def split: sum.splits provider_error.splits)
  let ?bc = "provider_billing p (rq_method req) up"
  have scope: "case au_lease ctx of None \<Rightarrow> True | Some l \<Rightarrow> allows_provider l (provider_name p)"
    using assms res by (auto simp: handle_proxy_def Let_def split: if_splits option.splits)
  have billed: "bc_class ?bc = BillingUnsupported \<longrightarrow> pr_mode (au_principal ctx) \<noteq> ModeEnforce"
    using assms res by (auto simp: handle_proxy_def Let_def split: if_splits option.splits)
  have not_early: "\<not> (case au_lease ctx of None \<Rightarrow> False | Some l \<Rightarrow> \<not> allows_provider l (provider_name p))"
    "\<not> (bc_class ?bc = BillingUnsupported \<and> pr_mode (au_principal ctx) = ModeEnforce)"
    using scope billed by (auto split: option.splits)
  note step = assms [unfolded handle_proxy_def Let_def res sum.case prod.case if_not_P [OF not_early(1)] if_not_P [OF not_early(2)]]
  obtain key where key: "vendor_key_for (en_credentials en) (provider_name p) = Inr key"
    using step by (auto split: sum.splits)
  obtain ins insp where rb: "read_request_body body = Some (ins, insp)"
    using step [unfolded key sum.case] by (auto split: option.splits)
  let ?info = "(if insp then parse_request (en_unmarshal en) p ins else no_request_info)\<lparr>ri_no_output := bc_no_output ?bc\<rparr>"
  note step = step [unfolded key sum.case rb option.case prod.case]
  have reason: "unmetered_reason ?bc insp ?info \<noteq> [] \<longrightarrow> pr_mode (au_principal ctx) \<noteq> ModeEnforce"
    using step by (auto split: if_splits)
  have no_refusal: "\<not> (unmetered_reason ?bc insp ?info \<noteq> [] \<and> pr_mode (au_principal ctx) = ModeEnforce)"
    using reason by blast
  note step = step [unfolded if_not_P [OF no_refusal]]
  obtain rid where hold: "take_hold (gw_recorder g) en ctx (provider_name p) ?info (is_metered ?bc insp ?info) d = Some (Inr rid, d')"
    and fw: "fw = forward_request en p up key req ins (body_bytes body) ?info rid (is_metered ?bc insp ?info)
       (unmetered_reason ?bc insp ?info)"
    using step by (auto split: option.splits prod.splits sum.splits)
  show thesis
    by (rule that [of up ?bc key ins insp])
      (simp only: fw forward_request_fields, use res scope billed key rb reason hold in \<open>simp_all only: fw forward_request_fields\<close>)
qed

section \<open>A sample exchange\<close>

definition cheap_file :: price_file where
  "cheap_file = \<lparr>f_version = 2, f_effective = 1, f_verified = 0,
     f_providers = [(''openai'', \<lparr>pp_source = ''s'', pp_models = [(''m'',
       \<lparr>m_input = 1000, m_output = 10000, m_cached = None, m_write5m = None, m_write1h = None, m_long_threshold = 0,
        m_long_input = None, m_long_cached = None, m_long_write = None, m_long_output = None, m_free = False,
        m_default_max = 0, m_aliases = []\<rparr>)]\<rparr>)],
     f_name = ''f'', f_digest = ''d''\<rparr>"

definition cheap_recorder :: recorder where
  "cheap_recorder = new_recorder_with_options
     (empty_book\<lparr>b_snapshot := Some \<lparr>sn_files = [cheap_file], sn_loaded_at = 2\<rparr>\<rparr>) 50 0 EnforcementStrict"

definition cheap_gateway :: gateway_config where
  "cheap_gateway = sample_gateway\<lparr>gw_recorder := Some cheap_recorder\<rparr>"

definition chat_body :: string where "chat_body = ''{chat}''"

definition chat_unmarshal :: "string \<Rightarrow> json_object option" where
  "chat_unmarshal b = (if b = chat_body then Some [(''model'', JStr ''m''), (''max_tokens'', JNum 100)] else None)"

definition sample_env :: request_env where
  "sample_env = \<lparr>en_strict = 5, en_priced = 5, en_now = 5, en_rid = ''rsv_1'', en_unmarshal = chat_unmarshal,
     en_marshal = (\<lambda>_. []), en_base_path = (\<lambda>_. []), en_credentials = (\<lambda>_. Inr ''vendor'')\<rparr>"

definition sample_ctx :: auth_context where
  "sample_ctx = \<lparr>au_principal = sample_principal, au_run = ''run_a'', au_lease = Some sample_lease\<rparr>"

definition chat_info :: request_info where
  "chat_info = \<lparr>ri_model = ''m'', ri_max_tokens = 100, ri_stream = False, ri_prompt_chars = 0, ri_request_bytes = 6,
     ri_no_output = False, ri_unsupported = [], ri_wants_usage = False\<rparr>"

text \<open>The request forwarded with a vendor key, its hold under an identifier, and the database with it.\<close>

definition chat_forward_as :: "request_env \<Rightarrow> string \<Rightarrow> forward" where
  "chat_forward_as en key = forward_request en sample_openai ''/v1/chat/completions'' key lease_request chat_body
     chat_body chat_info (en_rid en) True []"

definition chat_forward :: forward where "chat_forward = chat_forward_as sample_env ''vendor''"

definition chat_hold_as :: "string \<Rightarrow> reservation" where
  "chat_hold_as rid = new_reservation cheap_recorder 5 5 rid ''run_a'' ''lse_a'' ''openai'' chat_info"

definition chat_hold :: reservation where "chat_hold = chat_hold_as ''rsv_1''"

definition chat_held_db_as :: "string \<Rightarrow> db" where
  "chat_held_db_as rid = sample_db\<lparr>d_reservations := [chat_hold_as rid]\<rparr>"

definition chat_held_db :: db where "chat_held_db = chat_held_db_as ''rsv_1''"

lemmas chat_defs = chat_forward_def chat_forward_as_def chat_hold_def chat_hold_as_def chat_held_db_def chat_held_db_as_def

lemma chat_resolves: "resolve sample_registry lease_request = Inr (sample_openai, ''/v1/chat/completions'')"
  by code_simp

lemma chat_billing: "provider_billing sample_openai ''POST'' ''/v1/chat/completions'' = token_billing"
  by code_simp

lemma chat_parsed: "parse_request chat_unmarshal sample_openai chat_body = chat_info"
  by code_simp

lemma cheap_price:
  "lookup_known (rc_book cheap_recorder) ''openai'' ''m'' 5 =
     Some (resolve_price ''openai'' ''m'' (snd (hd (pp_models (snd (hd (f_providers cheap_file)))))) cheap_file ''s'')"
  by (simp add: cheap_recorder_def new_recorder_with_options_def lookup_known_def empty_book_def cheap_file_def file_price_def)

lemma chat_amount: "reservation_amount cheap_recorder 5 ''openai'' chat_info = 2"
  unfolding reservation_amount_def Let_def lookup_price_def chat_info_def
  by (simp add: cheap_price) code_simp

lemma chat_reserved_as:
  "try_reserve (chat_hold_as rid) True sample_db =
     Some (Inr ((new_decision (chat_hold_as rid))\<lparr>bd_allowed := True\<rparr>, chat_held_db_as rid))"
  by (simp add: try_reserve_def sample_db_def chat_hold_as_def new_reservation_def chat_amount sample_run_def ancestors_def
      find_run_def new_decision_def subtree_usage_def subtree_def children_of_def costs_in_def holds_in_def sql_sum_def
      in_i64_def max_i64_def min_i64_def note_block_def Let_def remaining_of_def i64_def lease_check_def
      lease_usage_def find_lease_def sample_lease_def settled_costs_def lease_holds_def
      create_reservation_def insert_reservation_def chat_held_db_as_def)

lemma chat_hold_taken_as:
  assumes "en_strict en = 5" "en_priced en = 5" "en_now en = 5"
  shows "take_hold (Some cheap_recorder) en sample_ctx ''openai'' chat_info True sample_db =
    Some (Inr (en_rid en), chat_held_db_as (en_rid en))"
proof -
  have "rc_policy cheap_recorder = EnforcementStrict"
    by (simp add: cheap_recorder_def new_recorder_with_options_def)
  moreover have "ri_model chat_info = ''m''" "ri_max_tokens chat_info = 100" by (simp_all add: chat_info_def)
  ultimately show ?thesis
    using chat_reserved_as [of "en_rid en"] assms
    by (simp add: take_hold_def reserve_def sample_ctx_def sample_lease_def sample_principal_def
        chat_hold_as_def new_decision_def strict_unenforceable_reason_def cheap_price)
qed

lemma chat_held_db_rows_as: "rows_ok sha (chat_held_db_as rid)"
  using rows_ok_try_reserve [OF reachable_rows_ok [OF sample_db_reachable] chat_reserved_as] .

lemma chat_held_db_rows: "rows_ok sha chat_held_db"
  unfolding chat_held_db_def by (rule chat_held_db_rows_as)

lemma chat_forwarded_as:
  assumes "en_strict en = 5" "en_priced en = 5" "en_now en = 5" "en_unmarshal en = chat_unmarshal"
    and "en_credentials en ''openai'' = Inr key"
  shows "handle_proxy cheap_gateway en sample_ctx lease_request (BodyBytes chat_body) sample_db =
    Some (Inr (chat_forward_as en key), chat_held_db_as (en_rid en))"
proof -
  have info: "chat_info\<lparr>ri_no_output := False\<rparr> = chat_info" by (simp add: chat_info_def)
  have fields: "ri_model chat_info = ''m''" "ri_unsupported chat_info = []" by (simp_all add: chat_info_def)
  have read: "read_request_body (BodyBytes chat_body) = Some (chat_body, True)"
    by (simp add: read_request_body_def chat_body_def max_request_body_def)
  have name: "provider_name sample_openai = ''openai''" by (simp add: sample_openai_def)
  have ctx: "au_principal sample_ctx = sample_principal" "au_lease sample_ctx = Some sample_lease"
    "gw_registry cheap_gateway = sample_registry" "gw_recorder cheap_gateway = Some cheap_recorder"
    by (simp_all add: sample_ctx_def cheap_gateway_def sample_gateway_def)
  have scope: "allows_provider sample_lease ''openai''" by (simp add: allows_provider_def sample_lease_def)
  show ?thesis
    unfolding handle_proxy_def Let_def assms(4) ctx chat_resolves read sum.case prod.case option.case
    by (simp add: chat_billing token_billing_def name scope lease_request_def [THEN arg_cong, of rq_method]
        vendor_key_for_def assms(5) chat_parsed info is_metered_def unmetered_reason_def fields
        chat_hold_taken_as [OF assms(1-3)] chat_forward_as_def)
qed

lemma chat_forwarded:
  "handle_proxy cheap_gateway sample_env sample_ctx lease_request (BodyBytes chat_body) sample_db =
     Some (Inr chat_forward, chat_held_db)"
  using chat_forwarded_as [of sample_env "''vendor''"] by (simp add: chat_forward_def chat_held_db_def sample_env_def)

section \<open>Nothing leaves uncovered\<close>

text \<open>
  C10. For a principal in enforce mode, under the strict policy, a request only leaves for the vendor
  when its route never costs anything, or when it is metered: its model has a price that is known and
  in effect, its output is bounded, and the database holds a pending reservation on the caller's run
  for the amount the hold prices it at. Everything else is refused before egress.
\<close>

theorem enforced_requests_are_covered:
  assumes "handle_proxy g en ctx req body d = Some (Inr fw, d')"
    and "pr_mode (au_principal ctx) = ModeEnforce" and "gw_recorder g = Some rc" and "rc_policy rc = EnforcementStrict"
    and "runs_wf (d_runs d)"
  shows "\<exists>upstream. resolve (gw_registry g) req = Inr (fw_provider fw, upstream) \<and>
    (bc_class (provider_billing (fw_provider fw) (rq_method req) upstream) = BillingNoSpend \<and> d' = d \<or>
     fw_metered fw \<and> ri_unsupported (fw_info fw) = [] \<and>
     lookup_known (rc_book rc) (provider_name (fw_provider fw)) (ri_model (fw_info fw)) (en_strict en) \<noteq> None \<and>
     (ri_no_output (fw_info fw) \<or> 0 < ri_max_tokens (fw_info fw)) \<and>
     (\<exists>r \<in> set (d_reservations d'). rv_id r = fw_reservation fw \<and> rv_status r = ReservationPending \<and> rv_run r = au_run ctx \<and>
        rv_amount r = reservation_amount rc (en_priced en) (provider_name (fw_provider fw)) (fw_info fw)))"
proof -
  let ?name = "provider_name (fw_provider fw)" and ?info = "fw_info fw"
  obtain up key ins insp bc where c: "resolve (gw_registry g) req = Inr (fw_provider fw, up)"
    "bc = provider_billing (fw_provider fw) (rq_method req) up"
    "bc_class bc = BillingUnsupported \<longrightarrow> pr_mode (au_principal ctx) \<noteq> ModeEnforce"
    "fw_metered fw = is_metered bc insp ?info"
    "unmetered_reason bc insp ?info \<noteq> [] \<longrightarrow> pr_mode (au_principal ctx) \<noteq> ModeEnforce"
    "take_hold (gw_recorder g) en ctx ?name ?info (fw_metered fw) d = Some (Inr (fw_reservation fw), d')"
    by (rule forwarded_cases [OF assms(1)])
  show ?thesis
  proof (cases "fw_metered fw")
    case False
    then have "bc_class bc = BillingNoSpend"
      using c(3-5) assms(2) unmetered_has_reason [of bc insp ?info] by (cases "bc_class bc") auto
    moreover have "d' = d" using c(6) False assms(3) by (simp add: take_hold_def)
    ultimately show ?thesis using c(1,2) by blast
  next
    case True
    from c(6) have "take_hold (Some rc) en ctx ?name ?info True d = Some (Inr (fw_reservation fw), d')"
      using True assms(3) by simp
    then show ?thesis
    proof (cases rule: take_hold_cases)
      case (held lease_ctx dec)
      have strict: "lookup_known (rc_book rc) ?name (ri_model ?info) (en_strict en) \<noteq> None"
        "ri_no_output ?info \<or> 0 < ri_max_tokens ?info"
        using held(3) assms(2,4) by (auto simp: strict_unenforceable_reason_def split: if_splits)
      let ?r = "new_reservation rc (en_priced en) (en_now en) (fw_reservation fw) (au_run ctx) lease_ctx ?name ?info"
      from held(4) obtain d1 where d1: "try_reserve ?r (pr_mode (au_principal ctx) = ModeEnforce) d = Some (Inr (dec, d1))"
        "d' = d1 \<or> record_budget_event (decision_event (en_now en) (au_principal ctx) lease_ctx ?name ?info dec) d1 = Inr d'"
        by (cases rule: reserve_cases) auto
      have "d_reservations d1 = d_reservations d @ [?r]"
        by (rule try_reserve_granted [OF assms(5) d1(1) held(2)]) simp
      then have hold: "?r \<in> set (d_reservations d')" using d1(2) budget_event_frame by force
      have billed: "ri_unsupported ?info = []" using True c(4) by (simp add: is_metered_def)
      show ?thesis
        by (intro exI [of _ up] conjI, rule c(1), rule disjI2, intro conjI bexI [OF _ hold])
          (use True billed strict in \<open>simp_all add: new_reservation_def\<close>)
    qed (use assms(2) in simp)
  qed
qed

lemma sample_runs_wf: "runs_wf (d_runs sample_db)"
  using reachable_rows_ok [OF sample_db_reachable] by (simp add: rows_ok_def)

lemma enforced_requests_are_covered_witness:
  "\<exists>upstream. resolve (gw_registry cheap_gateway) lease_request = Inr (fw_provider chat_forward, upstream) \<and>
    (bc_class (provider_billing (fw_provider chat_forward) (rq_method lease_request) upstream) = BillingNoSpend \<and>
       chat_held_db = sample_db \<or>
     fw_metered chat_forward \<and> ri_unsupported (fw_info chat_forward) = [] \<and>
     lookup_known (rc_book cheap_recorder) (provider_name (fw_provider chat_forward)) (ri_model (fw_info chat_forward))
       (en_strict sample_env) \<noteq> None \<and>
     (ri_no_output (fw_info chat_forward) \<or> 0 < ri_max_tokens (fw_info chat_forward)) \<and>
     (\<exists>r \<in> set (d_reservations chat_held_db). rv_id r = fw_reservation chat_forward \<and> rv_status r = ReservationPending \<and>
        rv_run r = au_run sample_ctx \<and>
        rv_amount r = reservation_amount cheap_recorder (en_priced sample_env) (provider_name (fw_provider chat_forward))
          (fw_info chat_forward)))"
  by (rule enforced_requests_are_covered [OF chat_forwarded _ _ _ sample_runs_wf])
    (simp_all add: sample_ctx_def sample_principal_def cheap_gateway_def cheap_recorder_def new_recorder_with_options_def)

section \<open>Credentials\<close>

text \<open>
  C24. No credential of the caller reaches a vendor: whatever the request carried under the three
  credential headers, the forwarded header has the stored vendor key in the vendor's own place and
  nothing in the others; and a lease only spends that key on the providers it is scoped to.
\<close>

theorem client_credentials_are_replaced:
  assumes "handle_proxy g en ctx req body d = Some (Inr fw, d')"
  shows "\<exists>key. en_credentials en (provider_name (fw_provider fw)) = Inr key \<and>
    (case fw_provider fw of
       OpenAI _ _ \<Rightarrow> map_of (fw_header fw) ''Authorization'' = Some [''Bearer '' @ key] \<and>
         map_of (fw_header fw) ''X-Api-Key'' = None
     | Anthropic _ \<Rightarrow> map_of (fw_header fw) ''X-Api-Key'' = Some [key] \<and>
         map_of (fw_header fw) ''Authorization'' = None) \<and>
    map_of (fw_header fw) ''Api-Key'' = None \<and>
    (\<forall>l. au_lease ctx = Some l \<longrightarrow> allows_provider l (provider_name (fw_provider fw)))"
proof -
  obtain key where c: "case au_lease ctx of None \<Rightarrow> True | Some l \<Rightarrow> allows_provider l (provider_name (fw_provider fw))"
    "vendor_key_for (en_credentials en) (provider_name (fw_provider fw)) = Inr key"
    "fw_header fw = outbound_header (fw_provider fw) key (rq_header req)"
    by (rule forwarded_cases [OF assms])
  have "en_credentials en (provider_name (fw_provider fw)) = Inr key"
    using c(2) by (auto simp: vendor_key_for_def split: sum.splits vault_error.splits)
  then show ?thesis
    using c(1) unfolding c(3)
    by (cases "fw_provider fw") (auto simp: outbound_header_def strip_client_credentials_def Let_def split: option.splits if_splits)
qed

lemma client_credentials_are_replaced_witness:
  "\<exists>key. en_credentials sample_env (provider_name (fw_provider chat_forward)) = Inr key \<and>
    map_of (fw_header chat_forward) ''Authorization'' = Some [''Bearer '' @ key] \<and>
    map_of (fw_header chat_forward) ''X-Api-Key'' = None \<and> map_of (fw_header chat_forward) ''Api-Key'' = None"
proof -
  have "fw_provider chat_forward = OpenAI ''openai'' ''https://api.openai.com''"
    by (simp add: chat_defs sample_openai_def)
  then show ?thesis using client_credentials_are_replaced [OF chat_forwarded] by auto
qed

section \<open>Every request is answered\<close>

lemma subtree_usage_ends: "runs_wf (d_runs d) \<Longrightarrow> subtree_usage d i \<noteq> None"
  using subtree_total by (auto simp: subtree_usage_def split: option.splits)

lemma budget_walk_ends: "runs_wf (d_runs d) \<Longrightarrow> budget_walk d a ns dec \<noteq> None"
proof (induction ns arbitrary: dec)
  case (Cons n ns)
  show ?case
  proof (cases "subtree_usage d (run_id n)")
    case None
    with Cons.prems subtree_usage_ends show ?thesis by blast
  next
    case (Some x)
    with Cons show ?thesis by (auto simp: Let_def split: sum.splits)
  qed
qed simp

lemma try_reserve_ends:
  assumes "runs_wf (d_runs d)"
  shows "try_reserve r enforce d \<noteq> None"
proof (cases "ancestors (d_runs d) (rv_run r)")
  case (Some chain)
  obtain res where walk: "budget_walk d (rv_amount r) chain (new_decision r) = Some res"
    using budget_walk_ends [OF assms] by blast
  show ?thesis
  proof (cases chain)
    case (Cons c cs)
    note walk' = walk [unfolded Cons] and chain = Some [unfolded Cons]
    show ?thesis
      by (cases res; cases "lease_check d r (projr res)"; cases "create_reservation r d")
        (simp_all add: try_reserve_def Let_def chain walk' del: budget_walk.simps)
  qed (use Some in \<open>simp add: try_reserve_def\<close>)
next
  case None
  with ancestors_total [OF assms, of "rv_run r"] show ?thesis by simp
qed

lemma reserve_ends: "runs_wf (d_runs d) \<Longrightarrow> reserve rc priced now rid run_ctx lease_ctx p name info d \<noteq> None"
  by (simp add: reserve_def try_reserve_ends split: option.split sum.split prod.split)

lemma take_hold_ends: "runs_wf (d_runs d) \<Longrightarrow> take_hold recorder en ctx name info metered d \<noteq> None"
  by (simp add: take_hold_def Let_def reserve_ends split: option.split sum.split prod.split)

lemma refuse_or_hold_ends:
  assumes "runs_wf (d_runs d)"
  shows "(if c then Some (Inl e, d)
      else (case take_hold recorder en ctx name info metered d of
          None \<Rightarrow> None
        | Some (Inl e, d') \<Rightarrow> Some (Inl e, d')
        | Some (Inr rid, d') \<Rightarrow> Some (Inr (f rid), d'))) \<noteq> None"
  by (simp add: take_hold_ends [OF assms] split: option.split prod.split sum.split)

lemma handle_proxy_ends:
  assumes "runs_wf (d_runs d)"
  shows "handle_proxy g en ctx req body d \<noteq> None"
proof (cases "resolve (gw_registry g) req")
  case (Inl e)
  then show ?thesis by (cases e) (simp_all add: handle_proxy_def Let_def)
next
  case (Inr pu)
  obtain p up where pu: "pu = (p, up)" by (cases pu)
  show ?thesis
    unfolding handle_proxy_def Let_def Inr pu sum.case prod.case
    by (cases "vendor_key_for (en_credentials en) (provider_name p)"; cases "read_request_body body")
      (simp_all only: refuse_or_hold_ends [OF assms] sum.case option.case option.distinct refl not_False_eq_True split: if_split prod.split, simp_all)
qed

section \<open>The steps of a request\<close>

lemma if_some_other: "d' \<noteq> d \<Longrightarrow> (if c then Some (x, d) else y) = Some (z, d') \<Longrightarrow> y = Some (z, d')"
  by (auto split: if_splits)

lemma evolves_one:
  "store_step sha d op d' \<Longrightarrow> allowed op \<Longrightarrow> typed_op op \<Longrightarrow> int (length (d_ledger d)) < max_i64 \<Longrightarrow> evolves sha allowed d d'"
  by (rule evolves_step [OF evolves_refl])

lemma evolves_trans: "evolves sha allowed d1 d2 \<Longrightarrow> evolves sha allowed d0 d1 \<Longrightarrow> evolves sha allowed d0 d2"
  by (induction rule: evolves.induct) (auto intro: evolves_step)

text \<open>
  The operations a request of a principal makes: the enforced ones, and any when the principal only
  observes.
\<close>

definition permits :: "(store_op \<Rightarrow> bool) \<Rightarrow> principal \<Rightarrow> bool" where
  "permits allowed p \<longleftrightarrow> (\<forall>op. enforced_op op \<longrightarrow> allowed op) \<and> (pr_mode p = ModeEnforce \<or> (\<forall>op. allowed op))"

lemma permits_enforced [simp]: "permits enforced_op p \<longleftrightarrow> pr_mode p = ModeEnforce"
  by (auto simp: permits_def dest: spec [of _ "OpAppend 0 undefined"])

lemma permits_any [simp]: "permits (\<lambda>_. True) p"
  by (simp add: permits_def)

lemma evolves_mono: "evolves sha allowed d d' \<Longrightarrow> \<forall>op. allowed op \<longrightarrow> allowed' op \<Longrightarrow> evolves sha allowed' d d'"
  by (induction rule: evolves.induct) (auto intro: evolves_refl evolves_step)

text \<open>Authentication creates at most the principal's implicit run.\<close>

lemma resolve_run_step:
  assumes "resolve_run rc now p requested d = (res, d')"
  shows "d' = d \<or> create_run (implicit_row rc now p) d = Inr d'"
  using assms by (auto simp: resolve_run_def implicit_run_def Let_def split: if_splits sum.splits)

lemma authenticate_step:
  assumes "authenticate sha g now req revs d = (res, d')"
  shows "d' = d \<or> (\<exists>rc p. gw_recorder g = Some rc \<and> create_run (implicit_row rc now p) d = Inr d')"
proof -
  have "d' = d \<or> (\<exists>presented. key_auth sha (gw_recorder g) now presented (header_get (rq_header req) run_header) d = (res, d'))"
    using assms by (auto simp: authenticate_def split: if_splits option.splits)
  then show ?thesis
    using resolve_run_step by (fastforce simp: key_auth_def split: sum.splits option.splits prod.splits)
qed

lemma authenticated_principal:
  assumes "authenticate sha g now req revs d = (Inr ctx, d')"
  shows "au_principal ctx \<in> set (d_principals d)"
proof (cases "au_lease ctx")
  case (Some l)
  from authenticated_lease_facts [OF assms Some] show ?thesis by (auto simp: find_principal_def dest: find_SomeD)
next
  case None
  have "key_auth sha (gw_recorder g) now presented requested d = (Inr ctx, d') \<Longrightarrow> ?thesis" for presented requested
    by (auto simp: key_auth_def get_principal_by_key_hash_def split: sum.splits option.splits prod.splits dest: find_SomeD)
  moreover have "lease_auth (get_lease_by_token_hash d) (get_run d) (get_principal d) revs' set' now h \<noteq> Inr ctx" for revs' set' h
    using stored.lease_auth_sound [of d revs' set' now h ctx] None by auto
  ultimately show ?thesis using assms by (auto simp: authenticate_def split: if_splits option.splits)
qed

lemma create_run_frame: "create_run r d = Inr d' \<Longrightarrow> \<exists>rs. d' = d\<lparr>d_runs := rs\<rparr>"
  by (auto dest!: create_run_insert simp: insert_run_def split: if_splits)

abbreviation same_money :: "db \<Rightarrow> db \<Rightarrow> bool" where
  "same_money d d' \<equiv> same_books d d' \<and> d_reservations d' = d_reservations d"

lemma authenticate_same_money: "authenticate sha g now req revs d = (res, d') \<Longrightarrow> same_money d d'"
  using authenticate_step create_run_frame by fastforce

lemma authenticate_evolves:
  assumes "authenticate sha g now req revs d = (res, d')" and "\<forall>rc. gw_recorder g = Some rc \<longrightarrow> rc_default_budget rc \<le> max_i64"
    and "int (length (d_ledger d)) < max_i64"
  shows "evolves sha enforced_op d d'"
  using authenticate_step [OF assms(1)]
proof (elim disjE exE conjE)
  fix rc p assume rc: "gw_recorder g = Some rc" and created: "create_run (implicit_row rc now p) d = Inr d'"
  have budget: "run_budget (implicit_row rc now p) \<le> max_i64"
    using rc assms(2) by (simp add: implicit_row_def)
  show ?thesis
    by (rule evolves_one [OF step_create_run [OF created]]) (use budget assms(3) in simp_all)
qed (simp add: evolves_refl)

text \<open>A hold: at most one enforced reservation and one budget event; a refusal moves no money.\<close>

lemma reserve_evolves:
  assumes "reserve rc priced now rid run_ctx lease_ctx p name info d = Some (res, d')"
    and "permits allowed p" and "int (length (d_ledger d)) < max_i64"
  shows "evolves sha allowed d d' \<and> same_books d d'"
  using assms(1)
proof (cases rule: reserve_cases)
  case (failed e)
  then show ?thesis by (simp add: evolves_refl)
next
  case (decided dec d1)
  have op: "allowed (OpTryReserve (new_reservation rc priced now rid run_ctx lease_ctx name info) (pr_mode p = ModeEnforce))"
    and event: "allowed (OpBudgetEvent b)" for b
    using assms(2) by (auto simp: permits_def)
  have one: "evolves sha allowed d d1" "same_books d d1"
    using evolves_one [where allowed = allowed, OF step_try_reserve [OF decided(2)] op] assms(3) try_reserve_keeps_ledger [OF decided(2)] by simp_all
  from decided(3) show ?thesis
  proof
    assume "record_budget_event (decision_event now p lease_ctx name info dec) d1 = Inr d'"
    then have "evolves sha allowed d1 d'" "same_books d1 d'"
      using evolves_one [where allowed = allowed, OF step_budget_event event] assms(3) one(2) budget_event_frame by fastforce+
    then show ?thesis using evolves_trans one by fastforce
  qed (use one in simp)
qed

lemma take_hold_evolves:
  assumes "take_hold recorder en ctx name info metered d = Some (res, d')"
    and "permits allowed (au_principal ctx)" and "int (length (d_ledger d)) < max_i64"
  shows "evolves sha allowed d d' \<and> same_books d d'"
proof -
  have "d' = d \<or> (\<exists>rc l r'. reserve rc (en_priced en) (en_now en) (en_rid en) (au_run ctx) l (au_principal ctx) name info d =
      Some (r', d'))"
    using assms(1) by (auto simp: take_hold_def Let_def split: if_splits option.splits prod.splits sum.splits)
  then show ?thesis using reserve_evolves [OF _ assms(2,3)] evolves_refl by metis
qed

text \<open>The end of an exchange: a settlement, a release, or nothing.\<close>

lemma release_evolves:
  "int (length (d_ledger d)) < max_i64 \<Longrightarrow> permits allowed p \<Longrightarrow> evolves sha allowed d (release now rid d)"
  by (auto simp: release_def evolves_refl permits_def intro!: evolves_one [OF step_resolve] split: sum.split)

lemma record_evolves:
  assumes "int (length (d_ledger d)) < max_i64" and "permits allowed p" and "ob_reservation ob \<noteq> [] \<or> (\<forall>op. allowed op)"
  shows "evolves sha allowed d (record_spend sha rc now at_store ob d)"
proof -
  have settle: "evolves sha allowed d d'" if "settle_reservation sha at_store rid e d = Inr (sealed, d')" for rid e sealed d'
    using evolves_one [OF step_settle [OF that]] assms(1,2) by (simp add: permits_def)
  have append: "evolves sha allowed d d'" if "append_ledger sha at_store e d = Inr (sealed, d')" "\<forall>op. allowed op" for e sealed d'
    using evolves_one [OF step_append [OF that(1)]] assms(1) that(2) by simp
  show ?thesis
    using assms(3) settle append release_evolves [OF assms(1,2)]
    by (auto simp: record_spend_def evolves_refl split: sum.split)
qed

text \<open>What the recorder is handed for a metered answer.\<close>

definition recorded_by :: "auth_context \<Rightarrow> forward \<Rightarrow> observed \<Rightarrow> bool" where
  "recorded_by ctx fw ob \<longleftrightarrow> ob_reservation ob = fw_reservation fw \<and> ob_run ob = au_run ctx \<and> ob_request ob = fw_info fw \<and>
     ob_upstream_ok ob \<and> ob_principal ob = au_principal ctx \<and> ob_provider ob = provider_name (fw_provider fw)"

lemma observe_response_recorded:
  "observe_response unmarshal ctx fw cl h src = (delivered, ob) \<Longrightarrow> recorded_by ctx fw ob"
  by (auto simp: observe_response_def recorded_by_def Let_def split: prod.splits)

lemma finish_cases:
  assumes "finish_exchange sha g en ctx fw cl now at_store up d = (resp, d')"
  obtains (untouched) "d' = d" "gw_recorder g = None \<or> \<not> fw_metered fw"
  | (released) rc where "gw_recorder g = Some rc" "d' = release at_store (fw_reservation fw) d"
  | (recorded) rc ob where "gw_recorder g = Some rc" "fw_metered fw" "recorded_by ctx fw ob"
      "d' = gateway_record sha rc now at_store ob d"
proof -
  consider (gone) "gw_recorder g = None" | (unmetered) "\<not> fw_metered fw" "\<exists>a b c. up = UpstreamResponse a b c"
    | (failed) rc where "gw_recorder g = Some rc" "\<exists>c. up = TransportError c"
    | (answered) rc status h src where "gw_recorder g = Some rc" "fw_metered fw" "up = UpstreamResponse status h src"
    by (cases "gw_recorder g"; cases up) auto
  then show thesis
  proof cases
    case gone
    with assms have "d' = d" by (auto simp: finish_exchange_def Let_def split: upstream_result.splits if_splits)
    with gone untouched show ?thesis by blast
  next
    case unmetered
    with assms have "d' = d" by (auto simp: finish_exchange_def Let_def)
    with unmetered untouched show ?thesis by blast
  next
    case (failed rc)
    with assms have "d' = release at_store (fw_reservation fw) d" by (auto simp: finish_exchange_def)
    with failed released show ?thesis by blast
  next
    case (answered rc status h src)
    let ?h = "if fw_injected fw then header_set h stream_usage_header ''injected'' else h"
    obtain delivered ob where ob: "observe_response (en_unmarshal en) ctx fw cl ?h src = (delivered, ob)" by fastforce
    show ?thesis
    proof (cases "upstream_ok status")
      case True
      with answered ob assms have "d' = gateway_record sha rc now at_store ob d"
        by (simp add: finish_exchange_def)
      then show ?thesis using recorded [OF answered(1,2) observe_response_recorded [OF ob]] by blast
    next
      case False
      with answered assms have "d' = release at_store (fw_reservation fw) d" by (simp add: finish_exchange_def)
      with answered released show ?thesis by blast
    qed
  qed
qed

lemma finish_evolves:
  assumes "finish_exchange sha g en ctx fw cl now at_store up d = (resp, d')"
    and "int (length (d_ledger d)) < max_i64" and "permits allowed p"
    and "fw_metered fw \<longrightarrow> gw_recorder g = None \<or> fw_reservation fw \<noteq> [] \<or> (\<forall>op. allowed op)"
  shows "evolves sha allowed d d'"
  using assms(1)
proof (cases rule: finish_cases)
  case untouched
  then show ?thesis by (simp add: evolves_refl)
next
  case (released rc)
  then show ?thesis using release_evolves [OF assms(2,3)] by simp
next
  case (recorded rc ob)
  then show ?thesis
    using record_evolves [OF assms(2,3)] assms(4) by (auto simp: gateway_record_def recorded_by_def evolves_refl)
qed

section \<open>Refinement of the store\<close>

text \<open>The stages of \<open>serve\<close>.\<close>

lemma serve_cases:
  assumes "serve sha g en revs req body cl vendor now at_store d = Some (res, d')"
  obtains (rejected) e where "authenticate sha g (en_now en) req revs d = (Inl e, d')" "res = Inl e"
  | (refused) ctx d1 e where "authenticate sha g (en_now en) req revs d = (Inr ctx, d1)"
      "handle_proxy g en ctx req body d1 = Some (Inl e, d')" "res = Inl e"
  | (forwarded) ctx d1 fw d2 resp where "authenticate sha g (en_now en) req revs d = (Inr ctx, d1)"
      "handle_proxy g en ctx req body d1 = Some (Inr fw, d2)"
      "finish_exchange sha g en ctx fw cl now at_store (vendor fw) d2 = (resp, d')" "res = Inr resp"
  using assms by (auto simp: serve_def split: prod.splits sum.splits option.splits)

lemma refused_cases:
  assumes "handle_proxy g en ctx req body d = Some (Inl e, d')"
  shows "d' = d \<or> (\<exists>name info metered. take_hold (gw_recorder g) en ctx name info metered d = Some (Inl e, d'))"
proof -
  have inner: "(if c then Some (Inl e1, d)
      else (case take_hold recorder en ctx name info metered d of
          None \<Rightarrow> None
        | Some (Inl e, d') \<Rightarrow> Some (Inl e, d')
        | Some (Inr rid, d') \<Rightarrow> Some (Inr (f rid), d'))) = Some (Inl e, d') \<Longrightarrow>
      d' = d \<or> take_hold recorder en ctx name info metered d = Some (Inl e, d')" for c e1 recorder name info metered f
    by (auto split: if_splits option.splits prod.splits sum.splits)
  show ?thesis
  proof (cases "resolve (gw_registry g) req")
    case (Inl x)
    with assms show ?thesis by (cases x) (auto simp: handle_proxy_def Let_def)
  next
    case (Inr pu)
    obtain p up where pu: "pu = (p, up)" by (cases pu)
    note step = assms [unfolded handle_proxy_def Let_def Inr pu sum.case prod.case]
    show ?thesis
    proof (cases "vendor_key_for (en_credentials en) (provider_name p)")
      case (Inl x)
      with step show ?thesis by (auto split: if_splits)
    next
      case key: (Inr key)
      show ?thesis
      proof (cases "read_request_body body")
        case None
        with step key show ?thesis by (auto split: if_splits)
      next
        case (Some r)
        obtain ins insp where r: "r = (ins, insp)" by (cases r)
        note step = step [unfolded key Some r sum.case option.case prod.case]
        show ?thesis
        proof (rule ccontr)
          assume neg: "\<not> ?thesis"
          then have "d' \<noteq> d" by blast
          note step = step [THEN if_some_other [OF this], THEN if_some_other [OF this]]
          show False using inner [OF step] neg by blast
        qed
      qed
    qed
  qed
qed

text \<open>Metered requests of an enforced principal carry the reservation they took.\<close>

lemma enforced_hold_identified:
  assumes "take_hold recorder en ctx name info True d = Some (Inr rid, d')" and "pr_mode (au_principal ctx) = ModeEnforce"
  shows "recorder = None \<or> rid = en_rid en"
proof (cases recorder)
  case (Some rc)
  from assms(1) [unfolded Some] show ?thesis by (cases rule: take_hold_cases) (use assms(2) in simp_all)
qed simp

lemma handle_proxy_evolves:
  assumes "handle_proxy g en ctx req body d = Some (res, d')"
    and "permits allowed (au_principal ctx)" and "int (length (d_ledger d)) < max_i64"
  shows "evolves sha allowed d d' \<and> same_books d d'"
proof (cases res)
  case (Inl e)
  from refused_cases [OF assms(1) [unfolded Inl]] take_hold_evolves [OF _ assms(2,3)] evolves_refl show ?thesis by metis
next
  case (Inr fw)
  show ?thesis
    by (rule forwarded_cases [OF assms(1) [unfolded Inr]]) (rule take_hold_evolves [OF _ assms(2,3)])
qed

lemma enforced_forward_held:
  assumes "handle_proxy g en ctx req body d = Some (Inr fw, d')" "pr_mode (au_principal ctx) = ModeEnforce" "en_rid en \<noteq> []"
    and "fw_metered fw"
  shows "gw_recorder g = None \<or> fw_reservation fw \<noteq> []"
proof -
  obtain name info where "take_hold (gw_recorder g) en ctx name info (fw_metered fw) d = Some (Inr (fw_reservation fw), d')"
    by (rule forwarded_cases [OF assms(1)])
  then show ?thesis using enforced_hold_identified [of "gw_recorder g" en ctx name info] assms(2-4) by auto
qed

text \<open>
  C5. The gateway refines the store's enforced interface. When every principal is in enforce mode, one
  whole request, with its authentication, hold, exchange with an arbitrary vendor and accounting,
  changes the database only by a sequence of steps of the store in which every reservation is an
  enforced \<open>TryReserve\<close> and every charge settles one: so whatever the store's properties say of
  those steps (the budgets that hold, the ledger that verifies) is true of a served request.
\<close>

theorem gateway_refines_store:
  assumes "serve sha g en revs req body cl vendor now at_store d = Some (res, d')"
    and "\<forall>p \<in> set (d_principals d). pr_mode p = ModeEnforce"
    and "\<forall>rc. gw_recorder g = Some rc \<longrightarrow> rc_default_budget rc \<le> max_i64"
    and "int (length (d_ledger d)) < max_i64" and "en_rid en \<noteq> []"
  shows "evolves sha enforced_op d d'"
  using assms(1)
proof (cases rule: serve_cases)
  case (rejected e)
  then show ?thesis using authenticate_evolves [OF rejected(1) assms(3,4)] by simp
next
  case (refused ctx d1 e)
  have auth: "evolves sha enforced_op d d1" "d_ledger d1 = d_ledger d"
    using authenticate_evolves [OF refused(1) assms(3,4)] authenticate_same_money [OF refused(1)] by simp_all
  have mode: "permits enforced_op (au_principal ctx)" using authenticated_principal [OF refused(1)] assms(2) by simp
  show ?thesis
    using handle_proxy_evolves [OF refused(2) mode] auth assms(4) evolves_trans by fastforce
next
  case (forwarded ctx d1 fw d2 resp)
  have auth: "evolves sha enforced_op d d1" "d_ledger d1 = d_ledger d"
    using authenticate_evolves [OF forwarded(1) assms(3,4)] authenticate_same_money [OF forwarded(1)] by simp_all
  have mode: "pr_mode (au_principal ctx) = ModeEnforce" using authenticated_principal [OF forwarded(1)] assms(2) by blast
  have proxied: "evolves sha enforced_op d1 d2" "d_ledger d2 = d_ledger d1"
    using handle_proxy_evolves [OF forwarded(2), of enforced_op] mode auth(2) assms(4) by simp_all
  have "fw_metered fw \<longrightarrow> gw_recorder g = None \<or> fw_reservation fw \<noteq> []"
    using enforced_forward_held [OF forwarded(2) mode assms(5)] by blast
  then have "evolves sha enforced_op d2 d'"
    using finish_evolves [OF forwarded(3), of enforced_op] mode proxied auth assms(4) by (metis permits_enforced)
  then show ?thesis using evolves_trans auth(1) proxied(1) by blast
qed

text \<open>
  C13. Every request is answered: in a well-formed database the recursive queries behind a hold end, so
  \<open>serve\<close> returns a refusal or a response for every request, vendor answer and clock reading.
\<close>

theorem every_request_is_answered:
  assumes "rows_ok sha d" and "\<forall>rc. gw_recorder g = Some rc \<longrightarrow> rc_default_budget rc \<le> max_i64"
  shows "\<exists>res d'. serve sha g en revs req body cl vendor now at_store d = Some (res, d')"
proof -
  obtain a d1 where auth: "authenticate sha g (en_now en) req revs d = (a, d1)" by fastforce
  have "rows_ok sha d1"
    using authenticate_step [OF auth]
  proof (elim disjE exE conjE)
    fix rc p assume rc: "gw_recorder g = Some rc" and "create_run (implicit_row rc (en_now en) p) d = Inr d1"
    moreover have "run_budget (implicit_row rc (en_now en) p) \<le> max_i64" using rc assms(2) by (simp add: implicit_row_def)
    ultimately show ?thesis using insert_run_preserves(1) [OF assms(1) create_run_insert] by blast
  qed (use assms(1) in simp)
  then have wf: "runs_wf (d_runs d1)" by (simp add: rows_ok_def)
  show ?thesis
  proof (cases a)
    case (Inr ctx)
    obtain h d2 where "handle_proxy g en ctx req body d1 = Some (h, d2)"
      using handle_proxy_ends [OF wf] by (metis not_None_eq surj_pair)
    then show ?thesis using auth Inr by (cases h) (auto simp: serve_def split: prod.splits)
  qed (use auth in \<open>simp add: serve_def\<close>)
qed

lemma refused_reserve_same_money:
  assumes "reserve rc priced now rid run_ctx lease_ctx p name info d = Some (res, d')"
    and "\<And>dec. res = Inr dec \<Longrightarrow> \<not> bd_allowed dec"
  shows "same_money d d'"
  using assms(1)
proof (cases rule: reserve_cases)
  case (decided dec d1)
  have "d1 = d" by (rule try_reserve_cases [OF decided(2)]) (use assms(2) decided(1) in simp)
  then show ?thesis using decided(3) budget_event_frame by fastforce
qed simp

lemma refused_same_money:
  assumes "handle_proxy g en ctx req body d = Some (Inl e, d')"
  shows "same_money d d'"
  using refused_cases [OF assms]
proof (elim disjE exE)
  fix name info metered assume "take_hold (gw_recorder g) en ctx name info metered d = Some (Inl e, d')"
  then have "d' = d \<or> (\<exists>rc l res. reserve rc (en_priced en) (en_now en) (en_rid en) (au_run ctx) l (au_principal ctx) name info d =
      Some (res, d') \<and> (\<forall>dec. res = Inr dec \<longrightarrow> \<not> bd_allowed dec))"
    by (auto simp: take_hold_def Let_def split: if_splits option.splits prod.splits sum.splits)
  then show ?thesis using refused_reserve_same_money by blast
qed simp

text \<open>
  C14. A refused request costs nothing: when \<open>serve\<close> answers an error before egress, the ledger, the
  settlements and the reservations are what they were.
\<close>

theorem refused_requests_cost_nothing:
  assumes "serve sha g en revs req body cl vendor now at_store d = Some (Inl e, d')"
  shows "d_ledger d' = d_ledger d \<and> d_settlements d' = d_settlements d \<and> d_reservations d' = d_reservations d"
  using assms
proof (cases rule: serve_cases)
  case (rejected e')
  then show ?thesis using authenticate_same_money by blast
next
  case (refused ctx d1 e')
  then show ?thesis using authenticate_same_money [OF refused(1)] refused_same_money [OF refused(2)] by simp
qed simp

section \<open>A sample request, served\<close>

lemma chat_authenticated: "authenticate drop_sha cheap_gateway 5 lease_request [] sample_db = (Inr sample_ctx, sample_db)"
  by (simp add: authenticate_def lease_request_credential looks_like_lease_token_def lease_token_prefix_def
      hash_secret_def drop_sha_def lease_auth_def cheap_gateway_def sample_gateway_def revoked_def
      get_lease_by_token_hash_def sample_db_def sample_lease_def lease_active_def get_run_def find_run_def
      sample_run_def get_principal_def find_principal_def sample_principal_def sample_ctx_def)

definition sample_client :: client where "sample_client = \<lparr>ct_reads = 1, ct_buffer = 1\<rparr>"

lemma sample_served:
  "serve drop_sha cheap_gateway sample_env [] lease_request (BodyBytes chat_body) sample_client (\<lambda>_. TransportError True) 6 6 sample_db =
     Some (Inr None, release 6 ''rsv_1'' chat_held_db)"
proof -
  have "fw_reservation chat_forward = ''rsv_1''" "en_now sample_env = 5" "gw_recorder cheap_gateway = Some cheap_recorder"
    by (simp_all add: chat_defs sample_env_def cheap_gateway_def)
  then show ?thesis
    by (simp add: serve_def chat_authenticated chat_forwarded finish_exchange_def)
qed

lemma sample_refused:
  "\<exists>e. serve drop_sha cheap_gateway sample_env [] lease_request BodyFails sample_client (\<lambda>_. TransportError True) 6 6 sample_db =
     Some (Inl e, sample_db)"
proof -
  have env: "en_credentials sample_env = (\<lambda>_. Inr ''vendor'')" "au_principal sample_ctx = sample_principal"
    "au_lease sample_ctx = Some sample_lease" "gw_registry cheap_gateway = sample_registry" "en_now sample_env = 5"
    "rq_method lease_request = ''POST''"
    by (simp_all add: sample_env_def sample_ctx_def cheap_gateway_def sample_gateway_def lease_request_def)
  have "allows_provider sample_lease ''openai''" "provider_name sample_openai = ''openai''"
    by (simp_all add: allows_provider_def sample_lease_def sample_openai_def)
  then show ?thesis
    by (simp add: serve_def chat_authenticated env handle_proxy_def Let_def chat_resolves chat_billing token_billing_def
        vendor_key_for_def read_request_body_def)
qed

lemma cheap_default_budget: "\<forall>rc. gw_recorder cheap_gateway = Some rc \<longrightarrow> rc_default_budget rc \<le> max_i64"
  by (simp add: cheap_gateway_def cheap_recorder_def new_recorder_with_options_def max_i64_def)

lemma gateway_refines_store_witness:
  "evolves drop_sha enforced_op sample_db (release 6 ''rsv_1'' chat_held_db)"
  by (rule gateway_refines_store [OF sample_served _ cheap_default_budget])
    (simp_all add: sample_db_def sample_principal_def sample_env_def max_i64_def)

lemma every_request_is_answered_witness:
  "\<exists>res d'. serve drop_sha cheap_gateway sample_env [] lease_request (BodyBytes chat_body) sample_client
     (\<lambda>_. TransportError True) 6 6 sample_db = Some (res, d')"
  by (rule every_request_is_answered [OF reachable_rows_ok [OF sample_db_reachable] cheap_default_budget])

lemma refused_requests_cost_nothing_witness:
  "d_ledger sample_db = d_ledger sample_db \<and> d_settlements sample_db = d_settlements sample_db \<and>
   d_reservations sample_db = d_reservations sample_db"
  using sample_refused refused_requests_cost_nothing by blast

section \<open>Holds do not outlive their requests\<close>

lemma release_resolves:
  assumes "find_reservation d rid = Some r" and "rv_status r = ReservationPending" and "rid \<noteq> []"
  shows "find_reservation (release now rid d) rid = Some (r\<lparr>rv_status := ReservationReleased, rv_resolved := Some now\<rparr>)"
proof -
  have "resolve_reservation now rid ReservationReleased d =
      Inr (set_status (\<lambda>q. rv_id q = rid \<and> rv_status q = ReservationPending) ReservationReleased now d)"
    using assms by (simp add: resolve_reservation_def)
  then show ?thesis
    using assms find_reservation_SomeD [OF assms(1)] by (simp add: release_def find_reservation_set_status)
qed

text \<open>The stored text orders instants that are a second apart.\<close>

lemma stored_time_second_apart:
  assumes "valid_instant a" "valid_instant b" "a + 1000000000 \<le> b"
  shows "format_time a < format_time b"
proof -
  have "nat a + 1000000000 \<le> nat b" using assms by (simp add: valid_instant_def)
  then have "nat a div 1000000000 + 1 \<le> nat b div 1000000000"
    using div_le_mono [of "nat a + 1000000000" "nat b" 1000000000] by simp
  then show ?thesis using format_time_less_seconds [OF assms(1,2)] assms by simp
qed

lemma stored_time_late: "valid_instant a \<Longrightarrow> valid_instant b \<Longrightarrow> a + 1000000000 \<le> b \<Longrightarrow> time_le a b"
  using stored_time_second_apart less_imp_le unfolding time_le_def by blast

lemma stored_time_early: "valid_instant a \<Longrightarrow> valid_instant b \<Longrightarrow> a + 1000000000 \<le> b \<Longrightarrow> \<not> time_le b a"
  using stored_time_second_apart not_le unfolding time_le_def by blast

text \<open>
  C11. A metered exchange ends its hold: whatever the vendor does (a transport error, a refusal, a
  complete or broken answer, a client that hangs up), the reservation it held is afterwards released or
  settled, unless the store itself refuses the settlement, which then changes nothing.
\<close>

theorem exchange_resolves_its_hold:
  assumes "finish_exchange sha g en ctx fw cl now at_store up d = (resp, d')"
    and "rows_ok sha d" and "int (length (d_ledger d)) < max_i64"
    and "gw_recorder g = Some rc" and "fw_metered fw" and "fw_reservation fw \<noteq> []" and "au_run ctx \<noteq> []"
    and "ri_model (fw_info fw) \<noteq> []"
    and "find_reservation d (fw_reservation fw) = Some r" and "rv_status r = ReservationPending"
  shows "(\<exists>q. find_reservation d' (fw_reservation fw) = Some q \<and> rv_status q \<in> {ReservationReleased, ReservationSettled}) \<or>
    d' = d \<and> (\<exists>ob err. recorded_by ctx fw ob \<and>
      settle_reservation sha at_store (fw_reservation fw) (charge_entry sha rc now ob) d = Inl err)"
  using assms(1)
proof (cases rule: finish_cases)
  case (released rc')
  then show ?thesis using release_resolves [OF assms(9,10,6)] by simp
next
  case (recorded rc' ob)
  then have ob: "ob_reservation ob = fw_reservation fw" "ob_run ob = au_run ctx" "ob_request ob = fw_info fw" "ob_upstream_ok ob"
    and rc': "rc' = rc" using assms(4) by (simp_all add: recorded_by_def)
  then have d': "record_spend sha rc now at_store ob d = d'" using recorded(4) assms(7) by (simp add: gateway_record_def)
  obtain p known where look: "lookup_price (rc_book rc) (ob_provider ob) (ri_model (ob_request ob)) now = (p, known)" by fastforce
  from record_spend_cases [OF assms(2,3) _ assms(10) _ _ look d', unfolded ob, OF assms(9) assms(6) assms(8)] ob(4)
  show ?thesis using recorded(3) by (auto simp: ob)
qed (use assms(4,5) in simp)

lemma exchange_resolves_its_hold_witness:
  "(\<exists>q. find_reservation (release 6 ''rsv_1'' chat_held_db) (fw_reservation chat_forward) = Some q \<and>
      rv_status q \<in> {ReservationReleased, ReservationSettled}) \<or>
    release 6 ''rsv_1'' chat_held_db = chat_held_db \<and> (\<exists>ob err. recorded_by sample_ctx chat_forward ob \<and>
      settle_reservation drop_sha 6 (fw_reservation chat_forward) (charge_entry drop_sha cheap_recorder 6 ob) chat_held_db = Inl err)"
proof (rule exchange_resolves_its_hold)
  have rid: "fw_reservation chat_forward = ''rsv_1''" by (simp add: chat_defs sample_env_def)
  show "finish_exchange drop_sha cheap_gateway sample_env sample_ctx chat_forward sample_client 6 6 (TransportError True) chat_held_db =
      (None, release 6 ''rsv_1'' chat_held_db)"
    by (simp add: finish_exchange_def cheap_gateway_def rid)
  show "rows_ok drop_sha chat_held_db" by (rule chat_held_db_rows)
  show "find_reservation chat_held_db (fw_reservation chat_forward) = Some chat_hold" "rv_status chat_hold = ReservationPending"
    by (simp_all add: rid find_reservation_def chat_defs new_reservation_def sample_env_def)
  show "int (length (d_ledger chat_held_db)) < max_i64" by (simp add: chat_defs sample_db_def max_i64_def)
  show "ri_model (fw_info chat_forward) \<noteq> []" by (simp add: chat_defs chat_info_def)
qed (simp_all add: chat_defs sample_env_def cheap_gateway_def sample_ctx_def)



end
