(* ===== verification/Telemetry.thy ===== *)
theory Telemetry
  imports StoreSystem Http
begin

text \<open>
  The operational side of the gateway: \<open>internal/observability/observability.go\<close> (metrics, the bounded
  alert queue and its delivery), the request log of \<open>internal/gateway/logging.go\<close> and the reservation
  sweeper of \<open>internal/gateway/sweeper.go\<close>. The worker goroutine, the callers of \<open>Notify\<close> and \<open>Close\<close>
  interleave as the steps of \<open>alert_step\<close>; the mutexes make each of them atomic.
\<close>

section \<open>Counters and float64 sums\<close>

text \<open>uint64 addition wraps; a counter is read with the zero value when absent.\<close>

definition u64 :: "int \<Rightarrow> int" where
  "u64 x = x mod 18446744073709551616"

definition bump :: "int \<Rightarrow> 'k \<Rightarrow> ('k, int) go_map \<Rightarrow> ('k, int) go_map" where
  "bump n k m = put_key k (u64 (get_or 0 m k + n)) m"

text \<open>
  A float64 is the rational it denotes. \<open>nearest_int\<close> rounds half to even; \<open>float64 q\<close> is the double
  nearest to \<open>q\<close>, for the magnitudes a sum of durations has (neither subnormal nor infinite).
\<close>

definition nearest_int :: "rat \<Rightarrow> int" where
  "nearest_int q =
     (let f = floor q; d = q - of_int f
      in if d < 1 / 2 then f else if 1 / 2 < d then f + 1 else if even f then f else f + 1)"

definition two_to :: "int \<Rightarrow> rat" where
  "two_to e = (if 0 \<le> e then 2 ^ nat e else 1 / 2 ^ nat (- e))"

text \<open>The number of binary digits, and with it the exponent \<open>e\<close> such that \<open>2 ^ e \<le> q < 2 ^ (e + 1)\<close>.\<close>

function binary_digits :: "int \<Rightarrow> int" where
  "binary_digits n = (if n \<le> 0 then 0 else 1 + binary_digits (n div 2))"
  by auto
termination by (relation "measure nat") auto

declare binary_digits.simps [simp del]

definition exponent_of :: "rat \<Rightarrow> int" where
  "exponent_of q =
     (let (n, d) = quotient_of q; e = binary_digits n - binary_digits d
      in if two_to e \<le> q then e else e - 1)"

definition float64 :: "rat \<Rightarrow> rat" where
  "float64 q =
     (if q = 0 then 0
      else (let unit = two_to (exponent_of \<bar>q\<bar> - 52) in sgn q * of_int (nearest_int (\<bar>q\<bar> / unit)) * unit))"

text \<open>\<open>Duration.Seconds\<close>, and \<open>FormatFloat(x, 'f', 6, 64)\<close> of a value that is not negative.\<close>

definition seconds_of :: "int \<Rightarrow> rat" where
  "seconds_of d =
     float64 (float64 (of_int (go_div d 1000000000)) + float64 (float64 (of_int (go_rem d 1000000000)) / 1000000000))"

definition six_places :: "rat \<Rightarrow> string" where
  "six_places q =
     (let n = nearest_int (\<bar>q\<bar> * 1000000)
      in (if q < 0 then ''-'' else []) @ nat_str (nat n div 1000000) @ ''.'' @ fixed 6 (nat n mod 1000000))"

section \<open>Labels\<close>

type_synonym metric_key = "string \<times> string \<times> string"

definition surface :: "string \<Rightarrow> string" where
  "surface path =
     (if path = ''/healthz'' then ''liveness''
      else if path = ''/readyz'' then ''readiness''
      else if path = ''/metrics'' then ''metrics''
      else if has_prefix path ''/api/'' then ''operator_api''
      else if has_prefix path ''/admin/'' \<or> path = ''/'' \<or> path = ''/table'' then ''dashboard''
      else ''proxy'')"

definition status_class :: "int \<Rightarrow> string" where
  "status_class status = int_str (go_div status 100) @ ''xx''"

text \<open>
  \<open>strings.ToLower\<close> as far as ASCII letters come out of it: besides the capitals, the Kelvin sign
  (U+212A) and the dotted capital I (U+0130) lower to ASCII letters.
\<close>

function label_lower :: "string \<Rightarrow> string" where
  "label_lower s =
     (if has_prefix s [CHR 0xE2, CHR 0x84, CHR 0xAA] then CHR ''k'' # label_lower (drop 3 s)
      else if has_prefix s [CHR 0xC4, CHR 0xB0] then CHR ''i'' # label_lower (drop 2 s)
      else (case s of [] \<Rightarrow> [] | c # rest \<Rightarrow> to_lower [c] @ label_lower rest))"
  by auto
termination by (relation "measure length") (auto simp: has_prefix_iff)

declare label_lower.simps [simp del]

definition label_char :: "char \<Rightarrow> bool" where
  "label_char c \<longleftrightarrow> in_range (CHR ''a'') (CHR ''z'') c \<or> is_digit c \<or> c = CHR ''_'' \<or> c = CHR ''-''"

definition sanitize_label :: "string \<Rightarrow> string" where
  "sanitize_label v =
     (let out = filter label_char (label_lower (trim_space v)) in if out = [] then ''unknown'' else out)"

definition safe_provider :: "string \<Rightarrow> string" where
  "safe_provider p = (if p = [] then ''none'' else sanitize_label p)"

definition safe_mode :: "string \<Rightarrow> string" where
  "safe_mode m = (if m = ''observe'' \<or> m = ''enforce'' then m else ''unknown'')"

definition safe_outcome :: "string \<Rightarrow> string" where
  "safe_outcome r = (if r \<in> {''allowed'', ''blocked'', ''would_block'', ''limited''} then r else ''other'')"

section \<open>Metrics\<close>

record metrics =
  mt_requests :: "(metric_key, int) go_map"
  mt_seconds :: "(metric_key, rat) go_map"
  mt_bytes :: "(metric_key, int) go_map"
  mt_budget :: "(metric_key, int) go_map"
  mt_alerts :: "(string, int) go_map"

definition no_metrics :: metrics where
  "no_metrics = \<lparr>mt_requests = [], mt_seconds = [], mt_bytes = [], mt_budget = [], mt_alerts = []\<rparr>"

definition request_key :: "string \<Rightarrow> string \<Rightarrow> int \<Rightarrow> metric_key" where
  "request_key path provider status = (surface path, status_class status, safe_provider provider)"

definition observe_request :: "string \<Rightarrow> string \<Rightarrow> int \<Rightarrow> int \<Rightarrow> int \<Rightarrow> metrics \<Rightarrow> metrics" where
  "observe_request path provider status duration written m =
     (let k = request_key path provider status
      in m\<lparr>mt_requests := bump 1 k (mt_requests m),
           mt_seconds := put_key k (float64 (get_or 0 (mt_seconds m) k + seconds_of duration)) (mt_seconds m),
           mt_bytes := (if 0 < written then bump written k (mt_bytes m) else mt_bytes m)\<rparr>)"

definition observe_budget :: "string \<Rightarrow> string \<Rightarrow> string \<Rightarrow> metrics \<Rightarrow> metrics" where
  "observe_budget provider mode outcome m =
     m\<lparr>mt_budget := bump 1 (safe_provider provider, safe_mode mode, safe_outcome outcome) (mt_budget m)\<rparr>"

definition increment_alert :: "string \<Rightarrow> metrics \<Rightarrow> metrics" where
  "increment_alert outcome m = m\<lparr>mt_alerts := bump 1 outcome (mt_alerts m)\<rparr>"

subsection \<open>The scrape\<close>

definition key_text :: "metric_key \<Rightarrow> string" where
  "key_text k = fst k @ CHR 0x00 # fst (snd k) @ CHR 0x00 # snd (snd k)"

definition metric_le :: "metric_key \<Rightarrow> metric_key \<Rightarrow> bool" where
  "metric_le a b \<longleftrightarrow> key_text a \<le> key_text b"

interpretation metric_order: comparison metric_le
  by unfold_locales (auto simp: metric_le_def)

definition sorted_keys :: "(metric_key, 'v) go_map \<Rightarrow> metric_key list" where
  "sorted_keys m = sort_by metric_le (map fst m)"

definition labels_text :: "string list \<Rightarrow> metric_key \<Rightarrow> string" where
  "labels_text names k =
     ''{'' @ join CHR '','' (map2 (\<lambda>n v. n @ ''='' @ go_quote v) names [fst k, fst (snd k), snd (snd k)]) @ ''}''"

definition metric_lines :: "string \<Rightarrow> string list \<Rightarrow> ('v \<Rightarrow> string) \<Rightarrow> 'v \<Rightarrow> (metric_key, 'v) go_map \<Rightarrow> string list" where
  "metric_lines name names show_value zero m =
     (''# TYPE '' @ name @ '' counter'') #
     map (\<lambda>k. name @ labels_text names k @ '' '' @ show_value (get_or zero m k)) (sorted_keys m)"

definition request_labels :: "string list" where
  "request_labels = [''surface'', ''status_class'', ''provider'']"

definition write_metric_map :: "string \<Rightarrow> (metric_key, int) go_map \<Rightarrow> string list" where
  "write_metric_map name m = metric_lines name request_labels int_str 0 m"

definition write_float_metric_map :: "string \<Rightarrow> (metric_key, rat) go_map \<Rightarrow> string list" where
  "write_float_metric_map name m = metric_lines name request_labels six_places 0 m"

definition write_budget_map :: "(metric_key, int) go_map \<Rightarrow> string list" where
  "write_budget_map m =
     metric_lines ''spendlease_budget_decisions_total'' [''provider'', ''mode'', ''outcome''] int_str 0 m"

definition write_alerts :: "(string, int) go_map \<Rightarrow> string list" where
  "write_alerts m =
     ''# TYPE spendlease_alert_delivery_total counter'' #
     map (\<lambda>k. ''spendlease_alert_delivery_total{outcome='' @ go_quote k @ ''} '' @ int_str (get_or 0 m k))
       (sort_by (\<le>) (map fst m))"

definition handle_metrics :: "string \<Rightarrow> metrics \<Rightarrow> string list" where
  "handle_metrics build m =
     [''# HELP spendlease_build_info Build identity for the running gateway.'',
      ''# TYPE spendlease_build_info gauge'',
      ''spendlease_build_info{version='' @ go_quote build @ ''} 1''] @
     write_metric_map ''spendlease_http_requests_total'' (mt_requests m) @
     write_float_metric_map ''spendlease_http_request_duration_seconds_sum'' (mt_seconds m) @
     write_metric_map ''spendlease_http_response_bytes_total'' (mt_bytes m) @
     write_budget_map (mt_budget m) @ write_alerts (mt_alerts m)"

text \<open>\<open>handleReady\<close>, given whether the datastore answered the ping.\<close>

definition handle_ready :: "bool \<Rightarrow> int \<times> string" where
  "handle_ready pinged =
     (if pinged then (200, ''{'' @ go_quote ''status'' @ '':'' @ go_quote ''ready'' @ ''}'' @ [CHR 0x0A])
      else (503, ''{'' @ go_quote ''status'' @ '':'' @ go_quote ''not_ready'' @ '','' @ go_quote ''reason'' @ '':'' @
              go_quote ''datastore'' @ ''}'' @ [CHR 0x0A]))"

section \<open>Alerts\<close>

record alert =
  at_version :: string
  at_event :: string
  at_type :: string
  at_occurred :: instant
  at_fields :: "(string, string) go_map"

text \<open>\<open>cloneFields\<close>, visiting the map in the order of the list.\<close>

definition clone_fields :: "(string, string) go_map \<Rightarrow> (string, string) go_map" where
  "clone_fields attrs = foldl (\<lambda>out (k, v). put_key (sanitize_label k) (take 500 v) out) [] attrs"

definition new_event_id :: "nat list \<Rightarrow> string" where
  "new_event_id random = ''alt_'' @ base32 random"

definition new_alert :: "nat list \<Rightarrow> instant \<Rightarrow> string \<Rightarrow> (string, string) go_map \<Rightarrow> alert" where
  "new_alert random now kind attrs =
     \<lparr>at_version = ''v1'', at_event = new_event_id random, at_type = sanitize_label kind, at_occurred = now,
      at_fields = clone_fields attrs\<rparr>"

subsection \<open>Delivery\<close>

text \<open>
  The webhook's answers are an argument: a transport failure or a status for each request sent. The
  JSON text of an alert and the HMAC are parameters.
\<close>

datatype webhook_answer = TransportError | WebhookStatus int
datatype delivery_error = EncodeFailed | RequestFailed | AnsweredStatus int

record webhook_request =
  wr_body :: string
  wr_header :: header
  wr_attempt :: nat

definition webhook_headers :: "(string \<Rightarrow> string \<Rightarrow> string) \<Rightarrow> string \<Rightarrow> string \<Rightarrow> alert \<Rightarrow> string \<Rightarrow> header" where
  "webhook_headers hmac secret build event body =
     (let h = header_set (header_set (header_set [] ''Content-Type'' ''application/json'')
          ''User-Agent'' (''spendlease/'' @ build)) ''X-Spendlease-Event'' (at_event event)
      in if secret = [] then h else header_set h ''X-Spendlease-Signature'' (''sha256='' @ hmac secret body))"

definition permanent_refusal :: "int \<Rightarrow> bool" where
  "permanent_refusal status \<longleftrightarrow> 400 \<le> status \<and> status < 500 \<and> status \<noteq> 408 \<and> status \<noteq> 429"

text \<open>
  The attempts from number \<open>attempt\<close> on, \<open>fuel\<close> of them: the requests sent and the last error, absent
  when the webhook accepted one. \<open>built\<close> says whether the request could be built.
\<close>

fun deliver_from ::
  "bool \<Rightarrow> (webhook_request \<Rightarrow> webhook_answer) \<Rightarrow> string \<Rightarrow> header \<Rightarrow> nat \<Rightarrow> nat \<Rightarrow> delivery_error option \<Rightarrow>
     webhook_request list \<times> delivery_error option" where
  "deliver_from built answer body h attempt 0 last_error = ([], last_error)"
| "deliver_from built answer body h attempt (Suc fuel) last_error =
     (if \<not> built then deliver_from built answer body h (Suc attempt) fuel (Some RequestFailed)
      else (let rq = \<lparr>wr_body = body, wr_header = h, wr_attempt = attempt\<rparr>
            in case answer rq of
              TransportError \<Rightarrow>
                (case deliver_from built answer body h (Suc attempt) fuel (Some RequestFailed) of
                   (sent, e) \<Rightarrow> (rq # sent, e))
            | WebhookStatus s \<Rightarrow>
                if 200 \<le> s \<and> s < 300 then ([rq], None)
                else if permanent_refusal s then ([rq], Some (AnsweredStatus s))
                else (case deliver_from built answer body h (Suc attempt) fuel (Some (AnsweredStatus s)) of
                   (sent, e) \<Rightarrow> (rq # sent, e))))"

definition max_attempts :: nat where "max_attempts = 3"

definition deliver ::
  "(alert \<Rightarrow> string option) \<Rightarrow> (string \<Rightarrow> string \<Rightarrow> string) \<Rightarrow> string \<Rightarrow> string \<Rightarrow> bool \<Rightarrow>
     (webhook_request \<Rightarrow> webhook_answer) \<Rightarrow> alert \<Rightarrow> webhook_request list \<times> delivery_error option" where
  "deliver encode hmac secret build built answer event =
     (case encode event of
        None \<Rightarrow> ([], Some EncodeFailed)
      | Some body \<Rightarrow> deliver_from built answer body (webhook_headers hmac secret build event body) 0 max_attempts None)"

text \<open>The pause before an attempt, in nanoseconds.\<close>

definition attempt_delay :: "nat \<Rightarrow> int" where
  "attempt_delay attempt = int attempt * 250000000"

subsection \<open>The queue and its worker\<close>

text \<open>
  \<open>sv_in_flight\<close> is the alert the worker has received and is delivering; \<open>sv_done\<close> the closed \<open>done\<close>
  channel. Without a webhook there is no queue.
\<close>

record alert_service =
  sv_webhook :: bool
  sv_queue :: "alert list"
  sv_closed :: bool
  sv_in_flight :: "alert option"
  sv_done :: bool
  sv_metrics :: metrics

definition alert_queue_size :: nat where "alert_queue_size = 128"

definition new_service :: "bool \<Rightarrow> alert_service" where
  "new_service webhook =
     \<lparr>sv_webhook = webhook, sv_queue = [], sv_closed = False, sv_in_flight = None, sv_done = False,
      sv_metrics = no_metrics\<rparr>"

datatype notice = Ignored | Queued | Dropped

definition notify :: "alert \<Rightarrow> alert_service \<Rightarrow> notice \<times> alert_service" where
  "notify event s =
     (if \<not> sv_webhook s \<or> sv_closed s then (Ignored, s)
      else if length (sv_queue s) < alert_queue_size then (Queued, s\<lparr>sv_queue := sv_queue s @ [event]\<rparr>)
      else (Dropped, s\<lparr>sv_metrics := increment_alert ''dropped'' (sv_metrics s)\<rparr>))"

definition close_queue :: "alert_service \<Rightarrow> alert_service" where
  "close_queue s = (if sv_webhook s then s\<lparr>sv_closed := True\<rparr> else s)"

text \<open>One receive of the worker's range loop, which ends when the queue is closed and empty.\<close>

definition worker_receive :: "alert_service \<Rightarrow> (alert option \<times> alert_service) option" where
  "worker_receive s =
     (if \<not> sv_webhook s \<or> sv_in_flight s \<noteq> None \<or> sv_done s then None
      else (case sv_queue s of
          event # rest \<Rightarrow> Some (Some event, s\<lparr>sv_queue := rest, sv_in_flight := Some event\<rparr>)
        | [] \<Rightarrow> if sv_closed s then Some (None, s\<lparr>sv_done := True\<rparr>) else None))"

definition worker_resolve :: "bool \<Rightarrow> alert_service \<Rightarrow> alert_service" where
  "worker_resolve accepted s =
     s\<lparr>sv_in_flight := None,
       sv_metrics := increment_alert (if accepted then ''sent'' else ''failed'') (sv_metrics s)\<rparr>"

text \<open>
  What the goroutines do, one atomic step each: a caller of \<open>Notify\<close>, the worker receiving an alert,
  delivering it or ending, and \<open>Close\<close>. The queue's mutex keeps \<open>Close\<close> out of a running \<open>Notify\<close>.
\<close>

datatype alert_event = Accepted alert | Refused alert | Unheard | Received alert | Resolved alert bool | Closing | Stopped

inductive alert_step ::
  "(alert \<Rightarrow> string option) \<Rightarrow> (string \<Rightarrow> string \<Rightarrow> string) \<Rightarrow> string \<Rightarrow> string \<Rightarrow>
     alert_service \<Rightarrow> alert_event \<Rightarrow> alert_service \<Rightarrow> bool" for encode hmac secret build where
  step_queued: "notify event s = (Queued, s') \<Longrightarrow> alert_step encode hmac secret build s (Accepted event) s'"
| step_dropped: "notify event s = (Dropped, s') \<Longrightarrow> alert_step encode hmac secret build s (Refused event) s'"
| step_ignored: "notify event s = (Ignored, s') \<Longrightarrow> alert_step encode hmac secret build s Unheard s'"
| step_received: "worker_receive s = Some (Some event, s') \<Longrightarrow> alert_step encode hmac secret build s (Received event) s'"
| step_resolved: "sv_in_flight s = Some event \<Longrightarrow> deliver encode hmac secret build built answer event = (sent, err) \<Longrightarrow>
    alert_step encode hmac secret build s (Resolved event (err = None)) (worker_resolve (err = None) s)"
| step_closing: "alert_step encode hmac secret build s Closing (close_queue s)"
| step_stopped: "worker_receive s = Some (None, s') \<Longrightarrow> alert_step encode hmac secret build s Stopped s'"

inductive_cases alert_stepE: "alert_step encode hmac secret build s ev s'"

inductive alert_run ::
  "(alert \<Rightarrow> string option) \<Rightarrow> (string \<Rightarrow> string \<Rightarrow> string) \<Rightarrow> string \<Rightarrow> string \<Rightarrow>
     alert_service \<Rightarrow> alert_event list \<Rightarrow> alert_service \<Rightarrow> bool" for encode hmac secret build s0 where
  run_start: "alert_run encode hmac secret build s0 [] s0"
| run_next: "alert_run encode hmac secret build s0 tr s \<Longrightarrow> alert_step encode hmac secret build s ev s' \<Longrightarrow>
    alert_run encode hmac secret build s0 (tr @ [ev]) s'"

section \<open>The request log\<close>

record response_recorder =
  rr_status :: int
  rr_written :: int
  rr_flushes :: int

definition fresh_writer :: response_recorder where
  "fresh_writer = \<lparr>rr_status = 200, rr_written = 0, rr_flushes = 0\<rparr>"

text \<open>What a handler does to the writer; \<open>Write\<close> carries the count the underlying writer reported.\<close>

datatype writer_call = WriteHeader int | WriteBytes int | FlushNow bool

fun recorder_call :: "response_recorder \<Rightarrow> writer_call \<Rightarrow> response_recorder" where
  "recorder_call rr (WriteHeader code) = rr\<lparr>rr_status := code\<rparr>"
| "recorder_call rr (WriteBytes n) = rr\<lparr>rr_written := i64 (rr_written rr + n)\<rparr>"
| "recorder_call rr (FlushNow flusher) = (if flusher then rr\<lparr>rr_flushes := rr_flushes rr + 1\<rparr> else rr)"

record request_attribution =
  ra_principal :: string
  ra_provider :: string
  ra_model :: string
  ra_run :: string
  ra_mode :: string

datatype log_level = LogDebug | LogInfo | LogWarn | LogError
datatype log_value = LogText string | LogInt int | LogBool bool

definition known :: "string \<Rightarrow> string \<Rightarrow> (string \<times> log_value) list" where
  "known name v = (if v \<noteq> [] then [(name, LogText v)] else [])"

definition request_attrs ::
  "string \<Rightarrow> string \<Rightarrow> int \<Rightarrow> string \<Rightarrow> request_attribution \<Rightarrow> response_recorder \<Rightarrow> (string \<times> log_value) list" where
  "request_attrs meth path duration content_type info rr =
     [(''method'', LogText meth), (''path'', LogText path), (''status'', LogInt (rr_status rr)),
      (''duration_ms'', LogInt (go_div duration 1000000)), (''bytes'', LogInt (rr_written rr))] @
     known ''principal'' (ra_principal info) @ known ''provider'' (ra_provider info) @
     known ''model'' (ra_model info) @ known ''run'' (ra_run info) @ known ''mode'' (ra_mode info) @
     (if has_prefix content_type ''text/event-stream''
      then [(''streamed'', LogBool True), (''flushes'', LogInt (rr_flushes rr))] else [])"

text \<open>The levels of \<open>slog\<close> as numbers, and the order a handler compares them in.\<close>

fun level_value :: "log_level \<Rightarrow> int" where
  "level_value LogDebug = -4"
| "level_value LogInfo = 0"
| "level_value LogWarn = 4"
| "level_value LogError = 8"

instantiation log_level :: linorder
begin

definition less_eq_log_level :: "log_level \<Rightarrow> log_level \<Rightarrow> bool" where
  "less_eq_log_level a b \<longleftrightarrow> level_value a \<le> level_value b"

definition less_log_level :: "log_level \<Rightarrow> log_level \<Rightarrow> bool" where
  "less_log_level a b \<longleftrightarrow> level_value a < level_value b"

instance
proof
  show "a = b" if "a \<le> b" "b \<le> a" for a b :: log_level
    using that by (cases a; cases b) (simp_all add: less_eq_log_level_def)
qed (auto simp: less_eq_log_level_def less_log_level_def)

end

text \<open>A text handler writes the lines at or above its level.\<close>

definition log_written :: "log_level \<Rightarrow> log_level \<Rightarrow> bool" where
  "log_written configured level \<longleftrightarrow> configured \<le> level"

definition request_level :: "int \<Rightarrow> log_level" where
  "request_level status = (if 500 \<le> status then LogError else if 400 \<le> status then LogWarn else LogInfo)"

text \<open>The line of a failed request is written whatever level is configured, and a worse status never logs lower.\<close>

lemma failures_are_written: "500 \<le> status \<Longrightarrow> log_written configured (request_level status)"
  by (cases configured) (simp_all add: log_written_def request_level_def less_eq_log_level_def)

lemma request_level_mono: "status \<le> status' \<Longrightarrow> request_level status \<le> request_level status'"
  by (simp add: request_level_def less_eq_log_level_def)

text \<open>
  \<open>logRequests\<close> around a handler that made the given calls on the writer and left the attribution
  \<open>info\<close>: the line logged, and the metrics with the request observed.
\<close>

definition log_request ::
  "string \<Rightarrow> string \<Rightarrow> int \<Rightarrow> string \<Rightarrow> request_attribution \<Rightarrow> writer_call list \<Rightarrow> metrics option \<Rightarrow>
     (log_level \<times> (string \<times> log_value) list) \<times> metrics option" where
  "log_request meth path duration content_type info calls observer =
     (let rr = foldl recorder_call fresh_writer calls
      in ((request_level (rr_status rr), request_attrs meth path duration content_type info rr),
          map_option (observe_request path (ra_provider info) (rr_status rr) duration (rr_written rr)) observer))"

section \<open>The reservation sweeper\<close>

definition default_sweep_interval :: int where
  "default_sweep_interval = 30 * ns_per_second"

definition sweep_interval :: "int \<Rightarrow> int" where
  "sweep_interval interval = (if interval \<le> 0 then default_sweep_interval else interval)"

text \<open>
  One sweep at an instant, and what it logs; the sweeper sweeps when it starts and then at every tick
  until its context ends. Between two sweeps the database changes under it, as \<open>others\<close> says.
\<close>

definition sweep :: "instant \<Rightarrow> db \<Rightarrow> nat option \<times> db" where
  "sweep now d =
     (case expire_pending_reservations now d of (n, d') \<Rightarrow> (if 0 < n then Some n else None, d'))"

fun sweeper :: "(instant \<times> (db \<Rightarrow> db)) list \<Rightarrow> db \<Rightarrow> nat option list \<times> db" where
  "sweeper [] d = ([], d)"
| "sweeper ((now, others) # ticks) d =
     (let (logged, d') = sweep now d; (rest, d'') = sweeper ticks (others d') in (logged # rest, d''))"

section \<open>The metrics count every request under plain labels\<close>

datatype observation_event = SawRequest string string int int int | SawBudget string string string

fun observe_event :: "metrics \<Rightarrow> observation_event \<Rightarrow> metrics" where
  "observe_event m (SawRequest path provider status duration written) = observe_request path provider status duration written m"
| "observe_event m (SawBudget provider mode outcome) = observe_budget provider mode outcome m"

definition observed_metrics :: "observation_event list \<Rightarrow> metrics" where
  "observed_metrics obs = foldl observe_event no_metrics obs"

fun requests_under :: "metric_key \<Rightarrow> observation_event list \<Rightarrow> nat" where
  "requests_under k [] = 0"
| "requests_under k (SawRequest path provider status duration written # obs) =
     (if request_key path provider status = k then 1 else 0) + requests_under k obs"
| "requests_under k (SawBudget provider mode outcome # obs) = requests_under k obs"

definition plain_label :: "string \<Rightarrow> bool" where
  "plain_label v \<longleftrightarrow> v \<noteq> [] \<and> list_all label_char v"

lemma u64_add [simp]: "u64 (u64 a + b) = u64 (a + b)" "u64 (a + u64 b) = u64 (a + b)"
  by (simp_all add: u64_def mod_simps)

lemma keys_bump [simp]: "fst ` set (bump n k m) = insert k (fst ` set m)"
  by (simp add: bump_def)

lemma u64_idem [simp]: "u64 (u64 a) = u64 a"
  using u64_add(1) [of a 0] by simp

lemma get_or_bump: "get_or 0 (bump n k m) k' = (if k' = k then u64 (get_or 0 m k + n) else get_or 0 m k')"
  by (auto simp: bump_def get_or_def)

lemma label_char_digit [simp]: "is_digit c \<Longrightarrow> label_char c"
  by (simp add: label_char_def)

lemma plain_sanitized [simp]: "plain_label (sanitize_label v)"
proof -
  have "plain_label ''unknown''" by code_simp
  then show ?thesis by (auto simp: sanitize_label_def plain_label_def Let_def list_all_iff)
qed

lemma plain_provider [simp]: "plain_label (safe_provider p)"
proof -
  have "plain_label ''none''" by code_simp
  then show ?thesis by (simp add: safe_provider_def)
qed

lemma plain_class [simp]: "plain_label (status_class s)"
proof -
  have digits: "list_all label_char (nat_str n)" for n
    using nat_str_digits by (auto simp: list_all_iff)
  have "label_char (CHR ''x'')" and "label_char (CHR ''-'')" by code_simp+
  with digits show ?thesis by (simp add: status_class_def plain_label_def int_str_def)
qed

lemma quoted_plain:
  assumes "plain_label v"
  shows "go_quote v = CHR 0x22 # v @ [CHR 0x22]"
proof -
  have "quote_byte c = [c]" if "label_char c" for c
    using that by (auto simp: label_char_def is_digit_of_char quote_byte_def Let_def less_eq_char_def)
  then have "list_all label_char v \<Longrightarrow> concat (map quote_byte v) = v" by (induction v) auto
  then show ?thesis using assms by (simp add: go_quote_def plain_label_def)
qed

definition surfaces :: "string set" where
  "surfaces = {''liveness'', ''readiness'', ''metrics'', ''operator_api'', ''dashboard'', ''proxy''}"

definition budget_modes :: "string set" where "budget_modes = {''observe'', ''enforce'', ''unknown''}"

definition budget_outcomes :: "string set" where
  "budget_outcomes = {''allowed'', ''blocked'', ''would_block'', ''limited'', ''other''}"

lemma bounded_labels [simp]: "surface p \<in> surfaces" "safe_mode mode \<in> budget_modes" "safe_outcome r \<in> budget_outcomes"
  by (simp_all add: surface_def surfaces_def safe_mode_def budget_modes_def safe_outcome_def budget_outcomes_def)

definition metrics_plain :: "metrics \<Rightarrow> bool" where
  "metrics_plain m \<longleftrightarrow>
     fst ` set (mt_requests m) \<subseteq> surfaces \<times> {v. plain_label v} \<times> {v. plain_label v} \<and>
     fst ` set (mt_budget m) \<subseteq> {v. plain_label v} \<times> budget_modes \<times> budget_outcomes"

lemma observe_event_plain: "metrics_plain m \<Longrightarrow> metrics_plain (observe_event m ob)"
  by (cases ob) (simp_all add: metrics_plain_def observe_request_def observe_budget_def request_key_def Let_def)

lemma observe_event_count:
  assumes "u64 (get_or 0 (mt_requests m) k) = get_or 0 (mt_requests m) k"
  shows "get_or 0 (mt_requests (observe_event m ob)) k = u64 (get_or 0 (mt_requests m) k + int (requests_under k [ob]))"
  using assms by (cases ob) (auto simp: observe_request_def observe_budget_def get_or_bump Let_def)

lemma requests_under_Cons: "requests_under k (ob # obs) = requests_under k [ob] + requests_under k obs"
  by (cases ob) simp_all

lemma observed_count:
  assumes "u64 (get_or 0 (mt_requests m) k) = get_or 0 (mt_requests m) k"
  shows "get_or 0 (mt_requests (foldl observe_event m obs)) k = u64 (get_or 0 (mt_requests m) k + int (requests_under k obs))"
  using assms
proof (induction obs arbitrary: m)
  case (Cons ob obs)
  note step = observe_event_count [OF Cons.prems, of ob]
  have "u64 (get_or 0 (mt_requests (observe_event m ob)) k) = get_or 0 (mt_requests (observe_event m ob)) k"
    by (simp add: step)
  from Cons.IH [OF this] show ?case
    by (simp add: step requests_under_Cons [of k ob obs] add.assoc del: requests_under.simps)
qed simp

text \<open>
  After any sequence of observed requests and budget decisions, the counter of a label combination is
  the number of requests observed under it (as a uint64), and every label comes from a bounded
  alphabet: a client that controls paths, statuses and provider names can neither add a surface, a
  mode or an outcome nor smuggle a quote, a brace or a newline into the scrape, since the quoted label
  is the label itself between quotes.
\<close>

theorem metrics_count_requests:
  "get_or 0 (mt_requests (observed_metrics obs)) k = u64 (int (requests_under k obs)) \<and>
   metrics_plain (observed_metrics obs) \<and>
   (plain_label v \<longleftrightarrow> v \<noteq> [] \<and> list_all label_char v \<and> go_quote v = CHR 0x22 # v @ [CHR 0x22])"
proof -
  have "metrics_plain (foldl observe_event m obs)" if "metrics_plain m" for m
    using that by (induction obs arbitrary: m) (simp_all add: observe_event_plain)
  then have "metrics_plain (observed_metrics obs)" by (simp add: observed_metrics_def metrics_plain_def no_metrics_def)
  moreover have "get_or 0 (mt_requests (observed_metrics obs)) k = u64 (int (requests_under k obs))"
    using observed_count [of no_metrics k obs] by (simp add: observed_metrics_def no_metrics_def get_or_def u64_def)
  ultimately show ?thesis using quoted_plain [of v] by (auto simp: plain_label_def)
qed


section \<open>No alert is lost\<close>

fun accepted_alert :: "alert_event \<Rightarrow> alert list" where
  "accepted_alert (Accepted a) = [a]" | "accepted_alert _ = []"

fun resolved_alert :: "alert_event \<Rightarrow> (alert \<times> bool) list" where
  "resolved_alert (Resolved a ok) = [(a, ok)]" | "resolved_alert _ = []"

fun refused_alert :: "alert_event \<Rightarrow> alert list" where
  "refused_alert (Refused a) = [a]" | "refused_alert _ = []"

fun worker_event :: "alert_event \<Rightarrow> bool" where
  "worker_event (Received a) = True" | "worker_event (Resolved a ok) = True" | "worker_event Stopped = True"
| "worker_event _ = False"

definition in_flight :: "alert_service \<Rightarrow> alert list" where
  "in_flight s = (case sv_in_flight s of None \<Rightarrow> [] | Some a \<Rightarrow> [a])"

definition alerts_booked :: "alert_event list \<Rightarrow> alert_service \<Rightarrow> bool" where
  "alerts_booked tr s \<longleftrightarrow>
     concat (map accepted_alert tr) = map fst (concat (map resolved_alert tr)) @ in_flight s @ sv_queue s \<and>
     get_or 0 (mt_alerts (sv_metrics s)) ''sent'' = u64 (int (length (filter snd (concat (map resolved_alert tr))))) \<and>
     get_or 0 (mt_alerts (sv_metrics s)) ''failed'' =
       u64 (int (length (filter (\<lambda>r. \<not> snd r) (concat (map resolved_alert tr))))) \<and>
     get_or 0 (mt_alerts (sv_metrics s)) ''dropped'' = u64 (int (length (concat (map refused_alert tr)))) \<and>
     length (sv_queue s) \<le> alert_queue_size \<and>
     (sv_done s \<longrightarrow> sv_closed s \<and> sv_queue s = [] \<and> in_flight s = [])"

lemma alert_count_increment:
  "get_or 0 (mt_alerts (increment_alert r m)) k =
     (if k = r then u64 (get_or 0 (mt_alerts m) k + 1) else get_or 0 (mt_alerts m) k)"
  by (simp add: increment_alert_def get_or_bump)

lemma alert_outcomes [simp]:
  "''sent'' \<noteq> ''failed''" "''failed'' \<noteq> ''sent''" "''sent'' \<noteq> ''dropped''" "''dropped'' \<noteq> ''sent''"
  "''failed'' \<noteq> ''dropped''" "''dropped'' \<noteq> ''failed''"
  by simp_all

lemma notify_cases:
  "notify event s = (Queued, s') \<Longrightarrow>
     s' = s\<lparr>sv_queue := sv_queue s @ [event]\<rparr> \<and> length (sv_queue s) < alert_queue_size \<and> \<not> sv_closed s"
  "notify event s = (Dropped, s') \<Longrightarrow> s' = s\<lparr>sv_metrics := increment_alert ''dropped'' (sv_metrics s)\<rparr>"
  "notify event s = (Ignored, s') \<Longrightarrow> s' = s"
  by (auto simp: notify_def split: if_splits)

lemma worker_receive_cases:
  "worker_receive s = Some (Some event, s') \<Longrightarrow>
     \<exists>rest. sv_queue s = event # rest \<and> s' = s\<lparr>sv_queue := rest, sv_in_flight := Some event\<rparr> \<and>
       in_flight s = [] \<and> \<not> sv_done s"
  "worker_receive s = Some (None, s') \<Longrightarrow>
     s' = s\<lparr>sv_done := True\<rparr> \<and> sv_queue s = [] \<and> in_flight s = [] \<and> sv_closed s \<and> \<not> sv_done s"
  by (auto simp: worker_receive_def in_flight_def split: if_splits list.splits)

lemma in_flight_update [simp]:
  "in_flight (s\<lparr>sv_queue := q\<rparr>) = in_flight s" "in_flight (s\<lparr>sv_metrics := m\<rparr>) = in_flight s"
  "in_flight (s\<lparr>sv_closed := c\<rparr>) = in_flight s" "in_flight (s\<lparr>sv_done := c\<rparr>) = in_flight s"
  "in_flight (s\<lparr>sv_in_flight := Some a\<rparr>) = [a]" "in_flight (s\<lparr>sv_in_flight := None\<rparr>) = []"
  by (simp_all add: in_flight_def)

lemma alert_step_booked:
  assumes "alert_step encode hmac secret build s ev s'" "alerts_booked tr s"
  shows "alerts_booked (tr @ [ev]) s'"
  using assms(1)
proof cases
  case (step_queued event)
  from notify_cases(1) [OF step_queued(2)] step_queued(1) assms(2) show ?thesis
    by (simp add: alerts_booked_def)
next
  case (step_dropped event)
  from notify_cases(2) [OF step_dropped(2)] step_dropped(1) assms(2) show ?thesis
    by (simp add: alerts_booked_def alert_count_increment add.commute)
next
  case (step_ignored event)
  from notify_cases(3) [OF step_ignored(2)] step_ignored(1) assms(2) show ?thesis
    by (simp add: alerts_booked_def)
next
  case (step_received event)
  from worker_receive_cases(1) [OF step_received(2)] step_received(1) assms(2) show ?thesis
    by (auto simp: alerts_booked_def)
next
  case (step_resolved event built answer sent err)
  then have "in_flight s = [event]" by (simp add: in_flight_def)
  with step_resolved(1,2) assms(2) show ?thesis
    by (cases err) (simp_all add: worker_resolve_def alerts_booked_def alert_count_increment add.commute)
next
  case step_closing
  with assms(2) show ?thesis by (simp add: close_queue_def alerts_booked_def)
next
  case step_stopped
  from worker_receive_cases(2) [OF step_stopped(2)] step_stopped(1) assms(2) show ?thesis
    by (simp add: alerts_booked_def)
qed

text \<open>
  C30. Whatever the interleaving of \<open>Notify\<close>, \<open>Close\<close> and the worker, the alerts accepted so far are, in
  order, those resolved, the one in flight and those queued: none is lost, duplicated or overtaken. The
  sent, failed and dropped counters count the outcomes, the queue never exceeds its bound, and the
  worker only ends with nothing left.
\<close>

theorem alerts_are_accounted:
  assumes "alert_run encode hmac secret build (new_service webhook) tr s"
  shows "alerts_booked tr s"
  using assms
proof induction
  case run_start
  then show ?case by (simp add: alerts_booked_def new_service_def no_metrics_def in_flight_def get_or_def u64_def)
qed (rule alert_step_booked)


definition drain_steps :: "alert_service \<Rightarrow> nat" where
  "drain_steps s = 2 * length (sv_queue s) + length (in_flight s) + (if sv_done s then 0 else 1)"

lemma closed_step:
  assumes "alert_step encode hmac secret build s ev s'" "sv_webhook s" "sv_closed s"
  shows "sv_webhook s' \<and> sv_closed s' \<and> accepted_alert ev = [] \<and>
    drain_steps s' + (if worker_event ev then 1 else 0) = drain_steps s"
  using assms(1)
proof cases
  case (step_queued event)
  from notify_cases(1) [OF step_queued(2)] assms(3) show ?thesis by simp
next
  case (step_dropped event)
  from notify_cases(2) [OF step_dropped(2)] step_dropped(1) assms(2,3) show ?thesis by (simp add: drain_steps_def)
next
  case (step_ignored event)
  from notify_cases(3) [OF step_ignored(2)] step_ignored(1) assms(2,3) show ?thesis by simp
next
  case (step_received event)
  from worker_receive_cases(1) [OF step_received(2)] step_received(1) assms(2,3) show ?thesis
    by (auto simp: drain_steps_def)
next
  case (step_resolved event built answer sent err)
  then show ?thesis using assms(2,3) by (simp add: worker_resolve_def drain_steps_def in_flight_def)
next
  case step_closing
  then show ?thesis using assms(2,3) by (simp add: close_queue_def drain_steps_def)
next
  case step_stopped
  from worker_receive_cases(2) [OF step_stopped(2)] step_stopped(1) assms(2,3) show ?thesis
    by (simp add: drain_steps_def)
qed

lemma closed_progress:
  assumes "sv_webhook s" "sv_closed s" "\<not> sv_done s"
  shows "\<exists>ev s'. worker_event ev \<and> alert_step encode hmac secret build s ev s'"
proof (cases "sv_in_flight s")
  case None
  show ?thesis
  proof (cases "sv_queue s")
    case Nil
    with None assms have "worker_receive s = Some (None, s\<lparr>sv_done := True\<rparr>)" by (simp add: worker_receive_def)
    from step_stopped [OF this] show ?thesis using worker_event.simps(3) by blast
  next
    case (Cons event rest)
    with None assms have "worker_receive s = Some (Some event, s\<lparr>sv_queue := rest, sv_in_flight := Some event\<rparr>)"
      by (simp add: worker_receive_def)
    from step_received [OF this] show ?thesis using worker_event.simps(1) by blast
  qed
next
  case (Some event)
  obtain sent err where "deliver encode hmac secret build True (\<lambda>_. TransportError) event = (sent, err)" by fastforce
  from step_resolved [OF Some this] show ?thesis using worker_event.simps(2) by blast
qed

text \<open>
  C31. Once the queue is closed nothing more is accepted, every step of the worker brings it closer to its
  end, by one of a number fixed when the queue was closed, and until it has ended it can take one.
\<close>

theorem close_drains_the_queue:
  assumes "alert_run encode hmac secret build s tr s'" "sv_webhook s" "sv_closed s"
  shows "concat (map accepted_alert tr) = [] \<and>
    drain_steps s' + length (filter worker_event tr) = drain_steps s \<and>
    (sv_done s' \<or> (\<exists>ev s''. worker_event ev \<and> alert_step encode hmac secret build s' ev s''))"
proof -
  have "sv_webhook s' \<and> sv_closed s' \<and> concat (map accepted_alert tr) = [] \<and>
      drain_steps s' + length (filter worker_event tr) = drain_steps s"
    using assms(1)
  proof induction
    case (run_next tr s1 ev s2)
    then have "sv_webhook s1" "sv_closed s1" by simp_all
    with closed_step [OF run_next.hyps(2)] run_next.IH show ?case by (auto split: if_splits)
  qed (simp add: assms)
  then show ?thesis using closed_progress by blast
qed

section \<open>Delivery attempts\<close>

fun accepted_answer :: "webhook_answer \<Rightarrow> bool" where
  "accepted_answer (WebhookStatus s) \<longleftrightarrow> 200 \<le> s \<and> s < 300"
| "accepted_answer TransportError \<longleftrightarrow> False"

fun retryable :: "webhook_answer \<Rightarrow> bool" where
  "retryable (WebhookStatus s) \<longleftrightarrow> \<not> (200 \<le> s \<and> s < 300) \<and> \<not> permanent_refusal s"
| "retryable TransportError \<longleftrightarrow> True"

lemma retryable_not_accepted: "retryable a \<Longrightarrow> \<not> accepted_answer a"
  by (cases a) auto

definition signed_with :: "string \<Rightarrow> webhook_request \<Rightarrow> bool" where
  "signed_with sig rq \<longleftrightarrow> header_get (wr_header rq) ''X-Spendlease-Signature'' = sig"

lemma signature_name: "canonical_key ''X-Spendlease-Signature'' = ''X-Spendlease-Signature''"
  by code_simp

lemma deliver_from_attempts:
  assumes "deliver_from True answer body h attempt fuel prior = (sent, err)" "prior \<noteq> None \<or> fuel \<noteq> 0"
  shows "map wr_attempt sent = [attempt ..< attempt + length sent] \<and> length sent \<le> fuel \<and>
    list_all (\<lambda>rq. wr_body rq = body \<and> wr_header rq = h) sent \<and>
    list_all (\<lambda>rq. retryable (answer rq)) (butlast sent) \<and>
    (err = None \<longleftrightarrow> sent \<noteq> [] \<and> accepted_answer (answer (last sent))) \<and>
    (length sent < fuel \<longrightarrow> sent \<noteq> [] \<and> \<not> retryable (answer (last sent)))"
  using assms
proof (induction fuel arbitrary: attempt prior sent)
  case (Suc fuel)
  let ?rq = "\<lparr>wr_body = body, wr_header = h, wr_attempt = attempt\<rparr>"
  show ?case
  proof (cases "retryable (answer ?rq)")
    case True
    then obtain e rest where e: "e \<noteq> None" "deliver_from True answer body h (Suc attempt) fuel e = (rest, err)" "sent = ?rq # rest"
      using Suc.prems(1) by (cases "answer ?rq") (fastforce simp: Let_def split: prod.splits if_splits)+
    have "[attempt ..< attempt + length sent] = attempt # [Suc attempt ..< Suc attempt + length rest]"
      using e(3) by (simp add: upt_conv_Cons del: upt_Suc)
    moreover note Suc.IH [OF e(2)]
    ultimately show ?thesis using e True by (cases "rest = []") (auto dest: retryable_not_accepted)
  next
    case False
    then show ?thesis using Suc.prems(1) by (cases "answer ?rq") (auto simp: Let_def upt_conv_Cons split: if_splits)
  qed
qed auto

text \<open>
  A delivery sends at least one and at most three requests, numbered from zero, all with the same body
  and, when there is a secret, the body's signature. Only answers worth a retry are retried, three
  times unless one settles it, and the delivery succeeds exactly when the last answer accepts.
\<close>

theorem delivery_is_bounded:
  assumes "deliver encode hmac secret build True answer event = (sent, err)" "encode event = Some body"
  shows "map wr_attempt sent = [0 ..< length sent] \<and> sent \<noteq> [] \<and> length sent \<le> 3 \<and>
    list_all (\<lambda>rq. retryable (answer rq)) (butlast sent) \<and>
    (err = None \<longleftrightarrow> accepted_answer (answer (last sent))) \<and>
    (retryable (answer (last sent)) \<longrightarrow> length sent = 3) \<and>
    list_all (\<lambda>rq. wr_body rq = body \<and> (secret \<noteq> [] \<longrightarrow> signed_with (''sha256='' @ hmac secret body) rq)) sent"
proof -
  let ?h = "webhook_headers hmac secret build event body"
  have run: "deliver_from True answer body ?h 0 3 None = (sent, err)"
    using assms by (simp add: deliver_def max_attempts_def)
  have sign: "secret \<noteq> [] \<longrightarrow> header_get ?h ''X-Spendlease-Signature'' = ''sha256='' @ hmac secret body"
    by (simp add: webhook_headers_def Let_def signature_name)
  from deliver_from_attempts [OF run] show ?thesis
    using sign by (cases "length sent < 3") (auto simp: list_all_iff signed_with_def)
qed


section \<open>Sweeping\<close>

text \<open>A sweep is one step of the store, and the database a sweeper leaves is the one its ticks made.\<close>

lemma sweep_step: "store_step sha d (OpExpire now) (snd (sweep now d))"
  by (cases "expire_pending_reservations now d") (auto simp: sweep_def intro: step_expire)

lemma sweeper_append: "snd (sweeper (ticks @ later) d) = snd (sweeper later (snd (sweeper ticks d)))"
  by (induction ticks arbitrary: d) (auto simp: Let_def split_beta)

section \<open>Witnesses\<close>

definition sample_alert :: alert where
  "sample_alert = new_alert [] 0 ''budget_blocked'' [(''principal'', ''prn_a'')]"

text \<open>An alert queued, received and accepted by the webhook; the queue closed with another one waiting.\<close>

definition closed_service :: alert_service where
  "closed_service = (new_service True)\<lparr>sv_queue := [sample_alert], sv_closed := True\<rparr>"

lemma alerts_are_accounted_witness:
  "alerts_booked [Accepted sample_alert, Received sample_alert]
     ((new_service True)\<lparr>sv_in_flight := Some sample_alert\<rparr>)"
proof -
  let ?s0 = "new_service True" and ?s1 = "(new_service True)\<lparr>sv_queue := [sample_alert]\<rparr>"
  let ?s2 = "(new_service True)\<lparr>sv_in_flight := Some sample_alert\<rparr>"
  let ?encode = "\<lambda>_ :: alert. None :: string option" and ?hmac = "\<lambda>_ _ :: string. [] :: string"
  have "alert_step ?encode ?hmac [] [] ?s0 (Accepted sample_alert) ?s1"
    by (rule step_queued) (simp add: notify_def new_service_def alert_queue_size_def)
  note run1 = run_next [OF run_start this]
  have "alert_step ?encode ?hmac [] [] ?s1 (Received sample_alert) ?s2"
    by (rule step_received) (simp add: worker_receive_def new_service_def)
  from run_next [OF run1 this] show ?thesis using alerts_are_accounted by fastforce
qed

lemma close_drains_the_queue_witness:
  "drain_steps (closed_service\<lparr>sv_queue := [], sv_in_flight := Some sample_alert\<rparr>) + 1 = drain_steps closed_service"
proof -
  have "alert_step (\<lambda>_. None) (\<lambda>_ _. []) [] [] closed_service (Received sample_alert)
      (closed_service\<lparr>sv_queue := [], sv_in_flight := Some sample_alert\<rparr>)"
    by (rule step_received) (simp add: worker_receive_def closed_service_def new_service_def)
  from close_drains_the_queue [OF run_next [OF run_start this]] show ?thesis
    by (simp add: closed_service_def new_service_def)
qed

text \<open>A webhook that is down once and then accepts is sent the alert twice, signed.\<close>

definition flaky_webhook :: "webhook_request \<Rightarrow> webhook_answer" where
  "flaky_webhook rq = (if wr_attempt rq = 0 then WebhookStatus 503 else WebhookStatus 204)"

lemma delivery_is_bounded_witness:
  "\<exists>sent. deliver (\<lambda>_. Some ''{}'') (\<lambda>k b. k @ b) ''s'' ''dev'' True flaky_webhook sample_alert = (sent, None) \<and>
     map wr_attempt sent = [0, 1] \<and> list_all (signed_with ''sha256=s{}'') sent"
proof -
  obtain sent err where run: "deliver (\<lambda>_. Some ''{}'') (\<lambda>k b. k @ b) ''s'' ''dev'' True flaky_webhook sample_alert = (sent, err)"
    by fastforce
  then have "err = None" "length sent = 2"
    by (auto simp: deliver_def max_attempts_def numeral_3_eq_3 flaky_webhook_def permanent_refusal_def)
  with delivery_is_bounded [OF run refl] run show ?thesis by (auto simp: list_all_iff upt_rec)
qed

end
