(* ===== verification/Signals.thy ===== *)
theory Signals
  imports Exchange Telemetry
begin

text \<open>
  What the gateway tells its observer while it handles a request (\<open>ObserveBudget\<close> and \<open>Notify\<close> in
  \<open>gateway/proxy.go\<close>): which budget outcome is counted, which alert is raised, and that what is counted
  is what the client was answered. The interface \<open>budget_observer\<close> is what the gateway's \<open>Observer\<close> promises
  of its budget counter; the observability service of \<open>Telemetry\<close> provides it.
\<close>

section \<open>What is signalled\<close>

datatype signal = BudgetSeen string string string | Notified string "(string, string) go_map"

fun mode_text :: "mode \<Rightarrow> string" where
  "mode_text ModeObserve = ''observe''"
| "mode_text ModeEnforce = ''enforce''"
| "mode_text (ModeOther s) = s"

text \<open>\<open>observeUnenforceable\<close>.\<close>

definition unenforceable_signals :: "principal \<Rightarrow> string \<Rightarrow> string \<Rightarrow> signal list" where
  "unenforceable_signals p name reason =
     [BudgetSeen name (mode_text (pr_mode p)) ''limited'',
      Notified ''spend_unenforceable'' [(''principal'', pr_id p), (''provider'', name), (''reason'', reason)]]"

text \<open>After the store answered the reservation: an error, a refusal, or a hold.\<close>

definition decision_signals :: "principal \<Rightarrow> string \<Rightarrow> string \<Rightarrow> store_error + budget_decision \<Rightarrow> signal list" where
  "decision_signals p run_ctx name answer =
     (case answer of
        Inl _ \<Rightarrow>
          [BudgetSeen name (mode_text (pr_mode p)) ''other'',
           Notified ''budget_decision_error'' [(''principal'', pr_id p), (''run'', run_ctx), (''provider'', name)]]
      | Inr dec \<Rightarrow>
          if \<not> bd_allowed dec then
            [BudgetSeen name (mode_text (pr_mode p)) ''blocked'',
             Notified ''budget_blocked''
               [(''principal'', pr_id p), (''run'', bd_run dec), (''provider'', name),
                (''remaining_usd'', nanos_str (bd_remaining dec)), (''requested_usd'', nanos_str (bd_requested dec))]]
          else if bd_would_block dec then
            [BudgetSeen name (mode_text (pr_mode p)) ''would_block'',
             Notified ''budget_would_block''
               [(''principal'', pr_id p), (''run'', bd_run dec), (''provider'', name),
                (''shortfall_usd'', nanos_str (bd_shortfall dec))]]
          else [BudgetSeen name (mode_text (pr_mode p)) ''allowed''])"

definition hold_signals ::
  "recorder option \<Rightarrow> request_env \<Rightarrow> auth_context \<Rightarrow> string \<Rightarrow> request_info \<Rightarrow> bool \<Rightarrow> db \<Rightarrow> signal list option" where
  "hold_signals recorder en ctx name info metered d =
     (case recorder of
        None \<Rightarrow> Some []
      | Some rc \<Rightarrow>
          if \<not> metered then Some []
          else
            (let p = au_principal ctx;
                 reason = strict_unenforceable_reason rc (en_strict en) p name info
             in if reason \<noteq> [] then Some (unenforceable_signals p name reason)
                else map_option (\<lambda>(answer, _). decision_signals p (au_run ctx) name answer)
                  (reserve rc (en_priced en) (en_now en) (en_rid en) (au_run ctx)
                     (case au_lease ctx of None \<Rightarrow> [] | Some l \<Rightarrow> ls_id l) p name info d)))"

definition proxy_signals ::
  "gateway_config \<Rightarrow> request_env \<Rightarrow> auth_context \<Rightarrow> request \<Rightarrow> request_body \<Rightarrow> db \<Rightarrow> signal list option" where
  "proxy_signals g en ctx req body d =
     (let p = au_principal ctx in
      case resolve (gw_registry g) req of
        Inl _ \<Rightarrow> Some []
      | Inr (prov, upstream) \<Rightarrow>
          (let name = provider_name prov; bc = provider_billing prov (rq_method req) upstream in
           if (case au_lease ctx of None \<Rightarrow> False | Some l \<Rightarrow> \<not> allows_provider l name) then Some []
           else if bc_class bc = BillingUnsupported \<and> pr_mode p = ModeEnforce then
             Some (unenforceable_signals p name (bc_reason bc))
           else (case vendor_key_for (en_credentials en) name of
               Inl _ \<Rightarrow> Some []
             | Inr _ \<Rightarrow>
                 (case read_request_body body of
                    None \<Rightarrow> Some []
                  | Some (inspected, inspectable) \<Rightarrow>
                      (let info = (if inspectable then parse_request (en_unmarshal en) prov inspected else no_request_info)
                             \<lparr>ri_no_output := bc_no_output bc\<rparr>;
                           reason = unmetered_reason bc inspectable info
                       in if reason \<noteq> [] \<and> pr_mode p = ModeEnforce then Some (unenforceable_signals p name reason)
                          else hold_signals (gw_recorder g) en ctx name info (is_metered bc inspectable info) d)))))"

text \<open>
  The proxy's error handler: silent when the client has gone. It is given the outgoing request, so the
  path it reports is the vendor's.
\<close>

definition failure_signals :: "auth_context \<Rightarrow> forward \<Rightarrow> upstream_result \<Rightarrow> signal list" where
  "failure_signals ctx fw up =
     (case up of
        upstream_result.TransportError canceled \<Rightarrow>
          if canceled then []
          else [Notified ''upstream_error''
            [(''principal'', pr_id (au_principal ctx)), (''provider'', provider_name (fw_provider fw)), (''path'', fw_path fw)]]
      | UpstreamResponse _ _ _ \<Rightarrow> [])"

section \<open>The observer\<close>

text \<open>Signals reach the observer in order, whatever it does with each.\<close>

fun raise_with ::
  "(string \<Rightarrow> string \<Rightarrow> string \<Rightarrow> 's \<Rightarrow> 's) \<Rightarrow> (string \<Rightarrow> (string, string) go_map \<Rightarrow> 's \<Rightarrow> 's) \<Rightarrow> signal list \<Rightarrow> 's \<Rightarrow> 's" where
  "raise_with see tell [] s = s"
| "raise_with see tell (BudgetSeen name mode outcome # sigs) s = raise_with see tell sigs (see name mode outcome s)"
| "raise_with see tell (Notified kind attrs # sigs) s = raise_with see tell sigs (tell kind attrs s)"

definition budget_key :: "string \<Rightarrow> string \<Rightarrow> string \<Rightarrow> metric_key" where
  "budget_key name mode outcome = (safe_provider name, safe_mode mode, safe_outcome outcome)"

fun seen_under :: "metric_key \<Rightarrow> signal list \<Rightarrow> nat" where
  "seen_under k [] = 0"
| "seen_under k (BudgetSeen name mode outcome # sigs) = (if budget_key name mode outcome = k then 1 else 0) + seen_under k sigs"
| "seen_under k (Notified kind attrs # sigs) = seen_under k sigs"

locale budget_observer =
  fixes see :: "string \<Rightarrow> string \<Rightarrow> string \<Rightarrow> 's \<Rightarrow> 's"
    and tell :: "string \<Rightarrow> (string, string) go_map \<Rightarrow> 's \<Rightarrow> 's"
    and seen :: "'s \<Rightarrow> metric_key \<Rightarrow> int"
  assumes seen_see: "u64 (seen (see name mode outcome s) k) =
      u64 (seen s k + (if budget_key name mode outcome = k then 1 else 0))"
    and seen_tell: "seen (tell kind attrs s) k = seen s k"
begin

lemma raised_count: "u64 (seen (raise_with see tell sigs s) k) = u64 (seen s k + int (seen_under k sigs))"
proof (induction k sigs arbitrary: s rule: seen_under.induct)
  case (2 k name mode outcome sigs)
  have "u64 (seen (raise_with see tell (BudgetSeen name mode outcome # sigs) s) k) =
      u64 (u64 (seen (see name mode outcome s) k) + int (seen_under k sigs))"
    using 2 by simp
  also have "\<dots> = u64 (seen s k + (if budget_key name mode outcome = k then 1 else 0) + int (seen_under k sigs))"
    by (simp only: seen_see u64_add)
  finally show ?case by (simp add: algebra_simps split: if_splits)
qed (simp_all add: seen_tell)

end

text \<open>The service: \<open>ObserveBudget\<close> counts, \<open>Notify\<close> makes an alert and queues it.\<close>

definition service_see :: "string \<Rightarrow> string \<Rightarrow> string \<Rightarrow> alert_service \<Rightarrow> alert_service" where
  "service_see name mode outcome s = s\<lparr>sv_metrics := observe_budget name mode outcome (sv_metrics s)\<rparr>"

definition service_tell :: "nat list \<Rightarrow> instant \<Rightarrow> string \<Rightarrow> (string, string) go_map \<Rightarrow> alert_service \<Rightarrow> alert_service" where
  "service_tell random now kind attrs s = snd (notify (new_alert random now kind attrs) s)"

definition service_seen :: "alert_service \<Rightarrow> metric_key \<Rightarrow> int" where
  "service_seen s k = get_or 0 (mt_budget (sv_metrics s)) k"

interpretation sv: budget_observer service_see "service_tell random now" service_seen
  by unfold_locales
    (auto simp: service_see_def service_tell_def service_seen_def observe_budget_def get_or_bump budget_key_def notify_def
      increment_alert_def)

section \<open>Every decision is signalled once, as it was answered\<close>

fun budget_outcome :: "signal \<Rightarrow> string list" where
  "budget_outcome (BudgetSeen name mode outcome) = [outcome]"
| "budget_outcome (Notified kind attrs) = []"

definition outcomes_of :: "signal list \<Rightarrow> string list" where
  "outcomes_of sigs = concat (map budget_outcome sigs)"

text \<open>The outcomes that fit an answer: a refusal, or a request that goes on with the hold \<open>rid\<close>.\<close>

definition fitting_outcomes :: "principal \<Rightarrow> string \<Rightarrow> bool \<Rightarrow> api_error + string \<Rightarrow> string list set" where
  "fitting_outcomes p run_ctx metered answer =
     (case answer of
        Inl e \<Rightarrow>
          if ae_type e = ErrTypeSpendNotEnforceable then {[''limited'']}
          else if ae_type e = ErrTypeBudgetExceeded then {[''blocked'']}
          else if e = internal_budget_error p run_ctx then {[''other'']}
          else {[]}
      | Inr rid \<Rightarrow>
          if \<not> metered then {[]}
          else if rid = [] then {[''other'']}
          else if pr_mode p = ModeEnforce then {[''allowed'']}
          else {[''allowed''], [''would_block'']})"

lemma outcomes_of_simps [simp]:
  "outcomes_of [] = []"
  "outcomes_of (unenforceable_signals p name reason) = [''limited'']"
  "outcomes_of (decision_signals p run_ctx name (Inl e)) = [''other'']"
  "outcomes_of (decision_signals p run_ctx name (Inr dec)) =
     [if \<not> bd_allowed dec then ''blocked'' else if bd_would_block dec then ''would_block'' else ''allowed'']"
  by (simp_all add: outcomes_of_def unenforceable_signals_def decision_signals_def)

lemma fitting_errors [simp]:
  "fitting_outcomes p run_ctx m (Inl (unenforceable_error p name reason)) = {[''limited'']}"
  "fitting_outcomes p run_ctx m (Inl (budget_exceeded_error p dec)) = {[''blocked'']}"
  "fitting_outcomes p run_ctx m (Inl (internal_budget_error p run_ctx)) = {[''other'']}"
  by (simp_all add: fitting_outcomes_def unenforceable_error_def budget_exceeded_error_def internal_budget_error_def api_failure_def)

lemma fitting_held [simp]:
  "fitting_outcomes p run_ctx m (Inr rid) =
     (if \<not> m then {[]} else if rid = [] then {[''other'']}
      else if pr_mode p = ModeEnforce then {[''allowed'']} else {[''allowed''], [''would_block'']})"
  by (simp add: fitting_outcomes_def)

text \<open>The other errors of a request are silent: they differ from the three in type, status or message.\<close>

lemma fitting_silent:
  "ae_type e \<notin> {ErrTypeSpendNotEnforceable, ErrTypeBudgetExceeded} \<Longrightarrow>
   ae_status e \<noteq> 500 \<or> ae_message e \<noteq> ae_message (internal_budget_error p run_ctx) \<Longrightarrow>
   fitting_outcomes p run_ctx m (Inl e) = {[]}"
  by (auto simp: fitting_outcomes_def internal_budget_error_def api_failure_def)

text \<open>An enforced reservation that is allowed would not block.\<close>

lemma enforced_allowed:
  assumes "reserve rc priced now rid run_ctx lease_ctx p name info d = Some (Inr dec, d')" and "pr_mode p = ModeEnforce"
    and "bd_allowed dec"
  shows "\<not> bd_would_block dec"
  using assms(1)
proof (cases rule: reserve_cases)
  case (decided dec' d1)
  show ?thesis by (rule try_reserve_cases [OF decided(2)]) (use assms(2,3) decided(1) in auto)
qed simp

lemma hold_signalled:
  assumes held: "take_hold (Some rc) en ctx name info metered d = Some (answer, d')" and rid: "en_rid en \<noteq> []"
  shows "\<exists>sigs. hold_signals (Some rc) en ctx name info metered d = Some sigs \<and>
    outcomes_of sigs \<in> fitting_outcomes (au_principal ctx) (au_run ctx) metered answer"
proof (cases "metered \<and> strict_unenforceable_reason rc (en_strict en) (au_principal ctx) name info = []")
  case False
  with held show ?thesis by (auto simp: take_hold_def hold_signals_def Let_def split: if_splits)
next
  case True
  let ?lease = "case au_lease ctx of None \<Rightarrow> [] | Some l \<Rightarrow> ls_id l"
  obtain res d1 where res: "reserve rc (en_priced en) (en_now en) (en_rid en) (au_run ctx) ?lease (au_principal ctx) name info d = Some (res, d1)"
    using held True by (auto simp: take_hold_def Let_def split: option.splits)
  have sigs: "hold_signals (Some rc) en ctx name info metered d = Some (decision_signals (au_principal ctx) (au_run ctx) name res)"
    using True res by (simp add: hold_signals_def Let_def)
  show ?thesis
  proof (cases res)
    case (Inl e)
    with held True res sigs show ?thesis by (auto simp: take_hold_def Let_def split: if_splits)
  next
    case (Inr dec)
    with held True res sigs rid enforced_allowed [OF res [unfolded Inr]] show ?thesis
      by (auto simp: take_hold_def Let_def split: if_splits)
  qed
qed

lemma vendor_key_errors:
  "vendor_key_for creds name = Inl e \<Longrightarrow> ae_type e \<in> {ErrTypeNoCredential, ErrTypeInternal} \<and> ae_status e \<noteq> 500"
  by (auto simp: vendor_key_for_def api_failure_def split: sum.splits vault_error.splits)

lemma proxy_answers:
  assumes held: "handle_proxy g en ctx req body d = Some (answer, d')" and on: "gw_recorder g = Some rc" and rid: "en_rid en \<noteq> []"
  shows "\<exists>sigs. proxy_signals g en ctx req body d = Some sigs \<and>
    outcomes_of sigs \<in> fitting_outcomes (au_principal ctx) (au_run ctx)
      (case answer of Inl e \<Rightarrow> True | Inr fw \<Rightarrow> fw_metered fw) (map_sum id fw_reservation answer)"
proof (cases "resolve (gw_registry g) req")
  case (Inl e)
  with held show ?thesis
    by (cases e) (auto simp: handle_proxy_def proxy_signals_def Let_def fitting_silent api_failure_def internal_budget_error_def)
next
  case (Inr pu)
  obtain p up where pu: "pu = (p, up)" by (cases pu)
  let ?name = "provider_name p" and ?bc = "provider_billing p (rq_method req) up"
  let ?early = "(case au_lease ctx of None \<Rightarrow> False | Some l \<Rightarrow> \<not> allows_provider l ?name) \<or>
    bc_class ?bc = BillingUnsupported \<and> pr_mode (au_principal ctx) = ModeEnforce"
  show ?thesis
  proof (cases ?early)
    case True
    with held Inr pu show ?thesis
      by (auto simp: handle_proxy_def proxy_signals_def Let_def fitting_silent api_failure_def internal_budget_error_def split: if_splits option.splits)
  next
    case False
    then have late: "(case au_lease ctx of None \<Rightarrow> False | Some l \<Rightarrow> \<not> allows_provider l ?name) = False"
      "(bc_class ?bc = BillingUnsupported \<and> pr_mode (au_principal ctx) = ModeEnforce) = False" by blast+
    note held = held [unfolded handle_proxy_def Let_def Inr pu sum.case prod.case late if_False]
    note sigs = proxy_signals_def [of g en ctx req body d, unfolded Let_def Inr pu sum.case prod.case late if_False]
    show ?thesis
    proof (cases "vendor_key_for (en_credentials en) ?name")
      case (Inl e)
      with held sigs show ?thesis using vendor_key_errors [OF Inl] by (auto simp: fitting_silent)
    next
      case (Inr key)
      show ?thesis
      proof (cases "read_request_body body")
        case None
        with held sigs Inr show ?thesis by (auto simp: fitting_silent api_failure_def)
      next
        case (Some r)
        obtain ins insp where r: "r = (ins, insp)" by (cases r)
        let ?info = "(if insp then parse_request (en_unmarshal en) p ins else no_request_info)\<lparr>ri_no_output := bc_no_output ?bc\<rparr>"
        note held = held [unfolded Inr sum.case Some option.case r prod.case]
        note sigs = sigs [unfolded Inr sum.case Some option.case r prod.case]
        show ?thesis
        proof (cases "unmetered_reason ?bc insp ?info \<noteq> [] \<and> pr_mode (au_principal ctx) = ModeEnforce")
          case True
          with held sigs show ?thesis by auto
        next
          case False
          note held = held [unfolded if_not_P [OF False] on]
          note sigs = sigs [unfolded if_not_P [OF False] on]
          obtain h d1 where h: "take_hold (Some rc) en ctx ?name ?info (is_metered ?bc insp ?info) d = Some (h, d1)"
            using held by (auto split: option.splits)
          obtain ss where "hold_signals (Some rc) en ctx ?name ?info (is_metered ?bc insp ?info) d = Some ss"
            and fit: "outcomes_of ss \<in> fitting_outcomes (au_principal ctx) (au_run ctx) (is_metered ?bc insp ?info) h"
            using hold_signalled [OF h rid] by blast
          then show ?thesis using held [unfolded h option.case prod.case] sigs
            by (cases h) (auto simp: fitting_outcomes_def)
        qed
      qed
    qed
  qed
qed

text \<open>At most one outcome is signalled, and every outcome but \<open>allowed\<close> comes with one alert.\<close>

fun alert_kind :: "signal \<Rightarrow> string list" where
  "alert_kind (BudgetSeen name mode outcome) = []"
| "alert_kind (Notified kind attrs) = [kind]"

definition alerts_of :: "signal list \<Rightarrow> string list" where
  "alerts_of sigs = concat (map alert_kind sigs)"

definition paired :: "signal list \<Rightarrow> bool" where
  "paired sigs \<longleftrightarrow> length (outcomes_of sigs) \<le> 1 \<and>
     length (alerts_of sigs) = (if outcomes_of sigs \<in> {[], [''allowed'']} then 0 else 1)"

lemma paired_signals [simp]:
  "paired []" "paired (unenforceable_signals p name reason)" "paired (decision_signals p run_ctx name answer)"
  by (auto simp: paired_def alerts_of_def unenforceable_signals_def outcomes_of_def decision_signals_def split: sum.splits)

lemma hold_paired: "hold_signals recorder en ctx name info metered d = Some sigs \<Longrightarrow> paired sigs"
  by (auto simp: hold_signals_def Let_def split: option.splits if_splits)

lemma proxy_paired: "proxy_signals g en ctx req body d = Some sigs \<Longrightarrow> paired sigs"
  unfolding proxy_signals_def Let_def
  by (auto split: sum.splits prod.splits if_splits option.splits dest: hold_paired)

text \<open>
  The gateway signals each request's budget decision exactly once and as it answered it: \<open>limited\<close> for spend
  it cannot bound, \<open>blocked\<close> for a budget refusal, \<open>other\<close> for a decision it could not make, \<open>allowed\<close> or, for
  a principal that is only observed, \<open>would_block\<close> for a request that goes on with a hold, and nothing when no
  spend is decided. Every outcome but \<open>allowed\<close> raises one alert, and the service's counters rise by the
  outcomes signalled under each label and by nothing else.
\<close>

theorem decisions_are_signalled:
  assumes "handle_proxy g en ctx req body d = Some (answer, d')" and "gw_recorder g = Some rc" and "en_rid en \<noteq> []"
  shows "\<exists>sigs. proxy_signals g en ctx req body d = Some sigs \<and>
    outcomes_of sigs \<in> fitting_outcomes (au_principal ctx) (au_run ctx)
      (case answer of Inl e \<Rightarrow> True | Inr fw \<Rightarrow> fw_metered fw) (map_sum id fw_reservation answer) \<and>
    paired sigs \<and>
    (\<forall>k. u64 (service_seen (raise_with service_see (service_tell random now) sigs s) k) =
      u64 (service_seen s k + int (seen_under k sigs)))"
  using proxy_answers [OF assms] proxy_paired sv.raised_count by metis

end
