(* ===== verification/Schema.thy ===== *)
theory Schema
  imports StoreSystem
begin

text \<open>
  The typing discipline of the stored rows: the CHECK, UNIQUE and FOREIGN KEY constraints of the
  migrations, table by table, and that every operation of the store keeps all of them.
\<close>

section \<open>The tables\<close>

definition principals_ok :: "principal list \<Rightarrow> bool" where
  "principals_ok ps \<longleftrightarrow> distinct (map pr_id ps) \<and> distinct (map pr_name ps) \<and> distinct (map pr_key_hash ps) \<and>
     (\<forall>p \<in> set ps. mode_valid (pr_mode p))"

definition runs_ok :: "string set \<Rightarrow> run list \<Rightarrow> bool" where
  "runs_ok principals rs \<longleftrightarrow> distinct (map run_id rs) \<and>
     (\<forall>r \<in> set rs. run_checks r \<and> run_principal r \<in> principals \<and> (run_parent r = [] \<or> run_parent r \<in> run_id ` set rs))"

definition leases_ok :: "string set \<Rightarrow> lease list \<Rightarrow> bool" where
  "leases_ok runs ls \<longleftrightarrow> distinct (map ls_id ls) \<and> distinct (map ls_token_hash ls) \<and>
     (\<forall>l \<in> set ls. 0 \<le> ls_ceiling l \<and> ls_run l \<in> runs)"

definition reservations_ok :: "string set \<Rightarrow> string set \<Rightarrow> reservation list \<Rightarrow> bool" where
  "reservations_ok runs leases vs \<longleftrightarrow> distinct (map rv_id vs) \<and>
     (\<forall>r \<in> set vs. 0 \<le> rv_amount r \<and> reservation_status_valid (rv_status r) \<and>
        (rv_status r = ReservationPending \<longleftrightarrow> rv_resolved r = None) \<and> rv_run r \<in> runs \<and>
        (rv_lease r = [] \<or> rv_lease r \<in> leases))"

definition entries_ok :: "string set \<Rightarrow> string set \<Rightarrow> entry list \<Rightarrow> bool" where
  "entries_ok principals runs es \<longleftrightarrow> distinct (map e_seq es) \<and> distinct (map e_hash es) \<and>
     (\<forall>e \<in> set es. 0 \<le> e_input e \<and> 0 \<le> e_output e \<and> 0 \<le> e_cost e \<and> e_version e \<in> {1, 2} \<and>
        e_principal e \<in> principals \<and> e_run e \<in> runs)"

definition settlements_ok :: "string set \<Rightarrow> int set \<Rightarrow> settlement list \<Rightarrow> bool" where
  "settlements_ok reservations seqs ss \<longleftrightarrow> distinct (map st_reservation ss) \<and> distinct (map st_seq ss) \<and>
     (\<forall>s \<in> set ss. st_reservation s \<in> reservations \<and> st_seq s \<in> seqs)"

definition events_ok :: "string set \<Rightarrow> string set \<Rightarrow> string set \<Rightarrow> budget_event list \<Rightarrow> bool" where
  "events_ok principals runs leases bs \<longleftrightarrow>
     (\<forall>b \<in> set bs. 0 \<le> be_requested b \<and> 0 \<le> be_remaining b \<and> 0 \<le> be_shortfall b \<and> be_principal b \<in> principals \<and>
        be_run b \<in> runs \<and> (be_lease b = [] \<or> be_lease b \<in> leases))"

lemmas tables_ok_def = principals_ok_def runs_ok_def leases_ok_def reservations_ok_def entries_ok_def settlements_ok_def
  events_ok_def

abbreviation principal_ids :: "db \<Rightarrow> string set" where "principal_ids d \<equiv> pr_id ` set (d_principals d)"
abbreviation run_ids :: "db \<Rightarrow> string set" where "run_ids d \<equiv> run_id ` set (d_runs d)"
abbreviation lease_ids :: "db \<Rightarrow> string set" where "lease_ids d \<equiv> ls_id ` set (d_leases d)"
abbreviation reservation_ids :: "db \<Rightarrow> string set" where "reservation_ids d \<equiv> rv_id ` set (d_reservations d)"
abbreviation sequence_numbers :: "db \<Rightarrow> int set" where "sequence_numbers d \<equiv> e_seq ` set (d_ledger d)"

definition schema_ok :: "db \<Rightarrow> bool" where
  "schema_ok d \<longleftrightarrow> principals_ok (d_principals d) \<and> runs_ok (principal_ids d) (d_runs d) \<and>
     leases_ok (run_ids d) (d_leases d) \<and> reservations_ok (run_ids d) (lease_ids d) (d_reservations d) \<and>
     entries_ok (principal_ids d) (run_ids d) (d_ledger d) \<and>
     settlements_ok (reservation_ids d) (sequence_numbers d) (d_settlements d) \<and>
     events_ok (principal_ids d) (run_ids d) (lease_ids d) (d_events d)"

section \<open>References survive growth\<close>

lemma references_mono:
  "principals \<subseteq> principals' \<Longrightarrow> runs_ok principals rs \<Longrightarrow> runs_ok principals' rs"
  "runs \<subseteq> runs' \<Longrightarrow> leases_ok runs ls \<Longrightarrow> leases_ok runs' ls"
  "runs \<subseteq> runs' \<Longrightarrow> leases \<subseteq> leases' \<Longrightarrow> reservations_ok runs leases vs \<Longrightarrow> reservations_ok runs' leases' vs"
  "principals \<subseteq> principals' \<Longrightarrow> runs \<subseteq> runs' \<Longrightarrow> entries_ok principals runs es \<Longrightarrow> entries_ok principals' runs' es"
  "reservations \<subseteq> reservations' \<Longrightarrow> seqs \<subseteq> seqs' \<Longrightarrow> settlements_ok reservations seqs ss \<Longrightarrow>
     settlements_ok reservations' seqs' ss"
  "principals \<subseteq> principals' \<Longrightarrow> runs \<subseteq> runs' \<Longrightarrow> leases \<subseteq> leases' \<Longrightarrow> events_ok principals runs leases bs \<Longrightarrow>
     events_ok principals' runs' leases' bs"
  by (auto simp: tables_ok_def)

section \<open>The inserts check what they store\<close>

lemma found_ids:
  "find_principal d i \<noteq> None \<longleftrightarrow> i \<in> principal_ids d" "find_lease d i \<noteq> None \<longleftrightarrow> i \<in> lease_ids d"
  "find_reservation d i \<noteq> None \<longleftrightarrow> i \<in> reservation_ids d" "find_run rs i \<noteq> None \<longleftrightarrow> i \<in> run_id ` set rs"
  by (auto simp: find_principal_def find_lease_def find_reservation_def find_run_def find_None_iff)

lemma insert_principal_schema:
  assumes "schema_ok d" "insert_principal p d = Inr d'"
  shows "schema_ok d'"
proof -
  have d': "d' = d\<lparr>d_principals := d_principals d @ [p]\<rparr>" and new: "mode_valid (pr_mode p)"
    "\<not> (\<exists>q \<in> set (d_principals d). pr_id q = pr_id p \<or> pr_name q = pr_name p \<or> pr_key_hash q = pr_key_hash p)"
    using assms(2) by (auto simp: insert_principal_def split: if_splits)
  have grown: "principal_ids d \<subseteq> principal_ids d'" by (auto simp: d')
  have "principals_ok (d_principals d')" using assms(1) new by (auto simp: schema_ok_def principals_ok_def d' image_iff)
  then show ?thesis
    using assms(1) references_mono(1) [OF grown] references_mono(4) [OF grown order_refl]
      references_mono(6) [OF grown order_refl order_refl] by (auto simp: schema_ok_def d')
qed

lemma insert_run_schema:
  assumes "schema_ok d" "insert_run r d = Inr d'"
  shows "schema_ok d'"
proof -
  have d': "d' = d\<lparr>d_runs := d_runs d @ [r]\<rparr>" and new: "run_checks r" "run_id r \<notin> run_ids d"
    "run_principal r \<in> principal_ids d" "run_parent r = [] \<or> run_parent r \<in> run_ids d"
    using assms(2) found_ids by (auto simp: insert_run_def image_iff split: if_splits)
  have grown: "run_ids d \<subseteq> run_ids d'" by (auto simp: d')
  have "runs_ok (principal_ids d) (d_runs d')" using assms(1) new by (auto simp: schema_ok_def runs_ok_def d')
  then show ?thesis
    using assms(1) references_mono(2) [OF grown] references_mono(3) [OF grown order_refl] references_mono(4) [OF order_refl grown]
      references_mono(6) [OF order_refl grown order_refl] by (auto simp: schema_ok_def d')
qed

lemma insert_lease_schema:
  assumes "schema_ok d" "insert_lease l d = Inr d'"
  shows "schema_ok d'"
proof -
  have d': "d' = d\<lparr>d_leases := d_leases d @ [l\<lparr>ls_providers := decode_providers (encode_providers (ls_providers l))\<rparr>]\<rparr>"
    and new: "0 \<le> ls_ceiling l" "ls_run l \<in> run_ids d"
      "\<not> (\<exists>q \<in> set (d_leases d). ls_id q = ls_id l \<or> ls_token_hash q = ls_token_hash l)"
    using assms(2) found_ids(4) by (auto simp: insert_lease_def split: if_splits)
  have grown: "lease_ids d \<subseteq> lease_ids d'" by (auto simp: d')
  have "leases_ok (run_ids d) (d_leases d')" using assms(1) new by (auto simp: schema_ok_def leases_ok_def d' image_iff)
  then show ?thesis
    using assms(1) references_mono(3) [OF order_refl grown] references_mono(6) [OF order_refl order_refl grown]
    by (auto simp: schema_ok_def d')
qed

lemma insert_reservation_schema:
  assumes "schema_ok d" "insert_reservation r d = Inr d'"
  shows "schema_ok d'"
proof -
  have d': "d' = d\<lparr>d_reservations := d_reservations d @ [r]\<rparr>" and new: "0 \<le> rv_amount r" "reservation_status_valid (rv_status r)"
    "rv_status r = ReservationPending \<longleftrightarrow> rv_resolved r = None" "rv_id r \<notin> reservation_ids d" "rv_run r \<in> run_ids d"
    "rv_lease r = [] \<or> rv_lease r \<in> lease_ids d"
    using assms(2) found_ids(2,4) by (auto simp: insert_reservation_def image_iff split: if_splits)
  have grown: "reservation_ids d \<subseteq> reservation_ids d'" by (auto simp: d')
  have "reservations_ok (run_ids d) (lease_ids d) (d_reservations d')"
    using assms(1) new by (auto simp: schema_ok_def reservations_ok_def d')
  then show ?thesis
    using assms(1) references_mono(5) [OF grown order_refl] by (auto simp: schema_ok_def d')
qed

lemma insert_entry_schema:
  assumes "schema_ok d" "insert_entry e d = Inr d'"
  shows "schema_ok d'"
proof -
  have d': "d' = d\<lparr>d_ledger := d_ledger d @ [e]\<rparr>"
    and new: "0 \<le> e_input e" "0 \<le> e_output e" "0 \<le> e_cost e" "e_version e \<in> {1, 2}"
      "\<not> (\<exists>f \<in> set (d_ledger d). e_seq f = e_seq e \<or> e_hash f = e_hash e)"
      "e_run e \<in> run_ids d" "e_principal e \<in> principal_ids d"
    using assms(2) found_ids(1,4) by (auto simp: insert_entry_def split: if_splits)
  have grown: "sequence_numbers d \<subseteq> sequence_numbers d'" by (auto simp: d')
  have "entries_ok (principal_ids d) (run_ids d) (d_ledger d')"
    using assms(1) new by (auto simp: schema_ok_def entries_ok_def d' image_iff)
  then show ?thesis
    using assms(1) references_mono(5) [OF order_refl grown] by (auto simp: schema_ok_def d')
qed

lemma insert_settlement_schema:
  assumes "schema_ok d" "insert_settlement s d = Inr d'"
  shows "schema_ok d'"
proof -
  have d': "d' = d\<lparr>d_settlements := d_settlements d @ [s]\<rparr>"
    and new: "\<not> (\<exists>t \<in> set (d_settlements d). st_reservation t = st_reservation s \<or> st_seq t = st_seq s)"
      "st_reservation s \<in> reservation_ids d" "st_seq s \<in> sequence_numbers d"
    using assms(2) found_ids(3) by (force simp: insert_settlement_def find_None_iff image_iff split: if_splits)+
  then show ?thesis using assms(1) by (auto simp: schema_ok_def settlements_ok_def d' image_iff)
qed

lemma budget_event_schema:
  assumes "schema_ok d" "record_budget_event b d = Inr d'"
  shows "schema_ok d'"
proof -
  have d': "d' = d\<lparr>d_events := d_events d @ [b]\<rparr>"
    and new: "0 \<le> be_requested b" "0 \<le> be_remaining b" "0 \<le> be_shortfall b" "be_principal b \<in> principal_ids d"
      "be_run b \<in> run_ids d" "be_lease b = [] \<or> be_lease b \<in> lease_ids d"
    using assms(2) found_ids(1,2,4) by (auto simp: record_budget_event_def split: if_splits)
  then show ?thesis using assms(1) by (auto simp: schema_ok_def events_ok_def d')
qed

section \<open>The updates\<close>

lemma map_keys_schema:
  assumes "schema_ok d"
  shows "(\<And>p. pr_id (f p) = pr_id p \<and> pr_name (f p) = pr_name p \<and> pr_key_hash (f p) = pr_key_hash p) \<Longrightarrow>
      (\<And>p. mode_valid (pr_mode p) \<Longrightarrow> mode_valid (pr_mode (f p))) \<Longrightarrow>
      schema_ok (d\<lparr>d_principals := map f (d_principals d)\<rparr>)"
    and "(\<And>r. run_id (g r) = run_id r \<and> run_parent (g r) = run_parent r \<and> run_principal (g r) = run_principal r) \<Longrightarrow>
      (\<And>r. run_checks r \<Longrightarrow> run_checks (g r)) \<Longrightarrow> schema_ok (d\<lparr>d_runs := map g (d_runs d)\<rparr>)"
    and "(\<And>l. ls_id (h l) = ls_id l \<and> ls_token_hash (h l) = ls_token_hash l \<and> ls_run (h l) = ls_run l \<and> ls_ceiling (h l) = ls_ceiling l) \<Longrightarrow>
      schema_ok (d\<lparr>d_leases := map h (d_leases d)\<rparr>)"
proof -
  have keys: "map k (map u xs) = map k xs" "k ` set (map u xs) = k ` set xs" if "\<And>x. k (u x) = k x" for k :: "'x \<Rightarrow> 'y" and u xs
    using that by (simp_all add: o_def image_image)
  show "schema_ok (d\<lparr>d_principals := map f (d_principals d)\<rparr>)"
    if "\<And>p. pr_id (f p) = pr_id p \<and> pr_name (f p) = pr_name p \<and> pr_key_hash (f p) = pr_key_hash p"
      "\<And>p. mode_valid (pr_mode p) \<Longrightarrow> mode_valid (pr_mode (f p))"
    using assms that by (simp add: schema_ok_def principals_ok_def o_def image_image)
  show "schema_ok (d\<lparr>d_runs := map g (d_runs d)\<rparr>)"
    if "\<And>r. run_id (g r) = run_id r \<and> run_parent (g r) = run_parent r \<and> run_principal (g r) = run_principal r"
      "\<And>r. run_checks r \<Longrightarrow> run_checks (g r)"
    using assms that by (simp add: schema_ok_def runs_ok_def o_def image_image)
  show "schema_ok (d\<lparr>d_leases := map h (d_leases d)\<rparr>)"
    if "\<And>l. ls_id (h l) = ls_id l \<and> ls_token_hash (h l) = ls_token_hash l \<and> ls_run (h l) = ls_run l \<and> ls_ceiling (h l) = ls_ceiling l"
    using assms that by (simp add: schema_ok_def leases_ok_def o_def image_image)
qed

lemma set_status_schema:
  assumes "schema_ok d" and "reservation_status_valid s" and "s \<noteq> ReservationPending"
  shows "schema_ok (set_status P s now d)"
proof -
  define u where "u r = (if P r then r\<lparr>rv_status := s, rv_resolved := Some now\<rparr> else r)" for r
  have d': "set_status P s now d = d\<lparr>d_reservations := map u (d_reservations d)\<rparr>"
    by (simp add: set_status_def u_def)
  have u: "rv_id (u r) = rv_id r" "rv_run (u r) = rv_run r" "rv_lease (u r) = rv_lease r" "rv_amount (u r) = rv_amount r" for r
    by (simp_all add: u_def)
  have status: "rv_status r = ReservationPending \<longleftrightarrow> rv_resolved r = None \<Longrightarrow> reservation_status_valid (rv_status r) \<Longrightarrow>
      (rv_status (u r) = ReservationPending \<longleftrightarrow> rv_resolved (u r) = None) \<and> reservation_status_valid (rv_status (u r))" for r
    using assms(2,3) by (simp add: u_def)
  show ?thesis
    using assms(1) status by (simp add: schema_ok_def reservations_ok_def d' u o_def image_image)
qed

section \<open>Every operation keeps the schema\<close>

lemma append_ledger_tx_schema:
  assumes "schema_ok d" "append_ledger_tx sha now e d = Inr (sealed, d')"
  shows "schema_ok d'"
  using assms insert_entry_schema
  by (auto simp: append_ledger_tx_def Let_def split: if_splits sum.splits prod.splits option.splits)

lemma create_reservation_schema: "schema_ok d \<Longrightarrow> create_reservation r d = Inr d' \<Longrightarrow> schema_ok d'"
  using insert_reservation_schema by (auto simp: create_reservation_def split: if_splits)

lemma settle_schema:
  assumes "schema_ok d" "settle_reservation sha now i e d = Inr (sealed, d')"
  shows "schema_ok d'"
proof -
  have "d' = d \<or> (\<exists>s d1 st d2. append_ledger_tx sha now e d = Inr (s, d1) \<and> insert_settlement st d1 = Inr d2 \<and>
      (d' = d2 \<or> d' = set_status (\<lambda>q. rv_id q = i) ReservationSettled now d2))"
    using assms(2) by (auto simp: settle_reservation_def split: option.splits sum.splits if_splits prod.splits)
  then show ?thesis
  proof (elim disjE exE conjE)
    fix s d1 st d2
    assume "append_ledger_tx sha now e d = Inr (s, d1)" "insert_settlement st d1 = Inr d2"
    then have d2: "schema_ok d2" using assms(1) append_ledger_tx_schema insert_settlement_schema by blast
    then show "d' = d2 \<Longrightarrow> schema_ok d'" by simp
    show "d' = set_status (\<lambda>q. rv_id q = i) ReservationSettled now d2 \<Longrightarrow> schema_ok d'"
      using set_status_schema [OF d2, of ReservationSettled] by simp
  qed (use assms(1) in simp)
qed

lemma step_schema:
  assumes "store_step sha d op d'" "schema_ok d"
  shows "schema_ok d'"
  using assms(1)
proof (cases rule: store_step.cases)
  case (step_create_principal p)
  then show ?thesis using assms(2) insert_principal_schema by (auto simp: create_principal_def split: if_splits)
next
  case (step_onboard p r l)
  then obtain d1 d2 where "insert_principal p d = Inr d1" "insert_run r d1 = Inr d2" "insert_lease l d2 = Inr d'"
    by (auto simp: create_principal_run_lease_def split: if_splits sum.splits)
  then show ?thesis using assms(2) insert_principal_schema insert_run_schema insert_lease_schema by blast
next
  case (step_set_mode i m)
  then have "d' = d\<lparr>d_principals := map (\<lambda>p. if pr_id p = i then p\<lparr>pr_mode := m\<rparr> else p) (d_principals d)\<rparr>" "mode_valid m"
    by (auto simp: set_principal_mode_def split: if_splits sum.splits)
  then show ?thesis using map_keys_schema(1) [OF assms(2)] by simp
next
  case (step_create_run r)
  then show ?thesis using assms(2) insert_run_schema create_run_insert by blast
next
  case (step_close_run now i)
  then have "d' = d\<lparr>d_runs := map (close_row now i) (d_runs d)\<rparr>" by (auto simp: close_run_def split: if_splits)
  then show ?thesis
    by (simp only:) (rule map_keys_schema(2) [OF assms(2)], auto simp: close_row_def run_checks_def run_status_valid_def)
next
  case (step_create_lease l)
  then show ?thesis using assms(2) insert_lease_schema by (auto simp: create_lease_def split: option.splits if_splits)
next
  case (step_revoke_lease now i)
  then show ?thesis using map_keys_schema(3) [OF assms(2)] by (auto simp: revoke_lease_def split: if_splits)
next
  case (step_revoke_principal now i n)
  then show ?thesis using map_keys_schema(3) [OF assms(2)] by (auto simp: revoke_leases_for_principal_def)
next
  case (step_create_reservation r)
  then show ?thesis using assms(2) create_reservation_schema by blast
next
  case (step_try_reserve r enforce dec)
  from step_try_reserve(2) show ?thesis
    by (rule try_reserve_cases) (use assms(2) create_reservation_schema in \<open>auto split: if_splits\<close>)
next
  case (step_resolve now i s)
  then have "reservation_status_valid s" by (auto simp: resolve_reservation_def split: if_splits)
  then show ?thesis using resolve_ok [OF step_resolve(2)] set_status_schema [OF assms(2)] by simp
next
  case (step_expire now n)
  then show ?thesis using set_status_schema [OF assms(2)] by (auto simp: expire_pending_reservations_def)
next
  case (step_settle now i e sealed)
  then show ?thesis using settle_schema [OF assms(2)] by blast
next
  case (step_append now e sealed)
  then show ?thesis using append_ledger_tx_schema [OF assms(2)] by (simp add: append_ledger_def)
next
  case (step_budget_event b)
  then show ?thesis using budget_event_schema [OF assms(2)] by blast
qed

lemma evolves_schema: "evolves sha allowed d0 d \<Longrightarrow> schema_ok d0 \<Longrightarrow> schema_ok d"
  by (induction rule: evolves.induct) (use step_schema in blast)+



end
