(* ===== verification/Migrations.thy ===== *)
theory Migrations
  imports GoStrings
begin

text \<open>
  How the two stores prepare their database: the migrations of \<open>internal/store/sqlite/migrate.go\<close> and
  \<open>internal/store/postgres/migrate.go\<close>, the placeholders \<open>internal/store/postgres/driver.go\<close> rewrites
  and the connection options of \<open>internal/store/postgres/postgres.go\<close>. What a migration's SQL does to
  the schema is the database's business: \<open>exec\<close> is an argument, absent when the statement fails.
\<close>

section \<open>Rewriting placeholders\<close>

text \<open>
  \<open>rebind\<close> from parameter number \<open>n\<close> on, inside the quotes \<open>quote\<close> names, if any: a quote doubled inside
  its own quotes does not end them.
\<close>

fun rebind_from :: "nat \<Rightarrow> char option \<Rightarrow> string \<Rightarrow> string" where
  "rebind_from n quote [] = []"
| "rebind_from n (Some q) [c] = [c]"
| "rebind_from n (Some q) (c # d # s) =
     (if c = q then (if d = q then c # d # rebind_from n (Some q) s else c # rebind_from n None (d # s))
      else c # rebind_from n (Some q) (d # s))"
| "rebind_from n None (c # s) =
     (if c = CHR 0x27 \<or> c = CHR 0x22 then c # rebind_from n (Some c) s
      else if c = CHR ''?'' then CHR ''$'' # nat_str n @ rebind_from (Suc n) None s
      else c # rebind_from n None s)"

definition rebind :: "string \<Rightarrow> string" where
  "rebind query = (if CHR ''?'' \<notin> set query then query else rebind_from 1 None query)"

section \<open>Loading migrations\<close>

record migration =
  mg_version :: int
  mg_name :: string
  mg_sql :: string

datatype migration_error =
    NotNamed string | NotNumbered string | SameVersion string string | Unreadable string
  | ApplyFailed int | RecordFailed int | NoConnection

text \<open>The embedded directory: name, whether it is a directory, content unless it cannot be read.\<close>

type_synonym embedded = "string \<times> bool \<times> string option"

fun read_migrations :: "(int \<times> string) list \<Rightarrow> embedded list \<Rightarrow> migration_error + migration list" where
  "read_migrations seen [] = Inr []"
| "read_migrations seen ((name, is_dir, content) # files) =
     (if is_dir \<or> \<not> has_suffix name ''.sql'' then read_migrations seen files
      else (case cut CHR ''_'' name of (prefix, _, found) \<Rightarrow>
        if \<not> found then Inl (NotNamed name)
        else (case parse_int prefix of
            None \<Rightarrow> Inl (NotNumbered name)
          | Some version \<Rightarrow>
              (case map_of seen version of
                 Some prior \<Rightarrow> Inl (SameVersion prior name)
               | None \<Rightarrow>
                   (case content of
                      None \<Rightarrow> Inl (Unreadable name)
                    | Some sql \<Rightarrow>
                        (case read_migrations ((version, name) # seen) files of
                           Inl e \<Rightarrow> Inl e
                         | Inr ms \<Rightarrow> Inr (\<lparr>mg_version = version, mg_name = name, mg_sql = sql\<rparr> # ms)))))))"

definition version_le :: "migration \<Rightarrow> migration \<Rightarrow> bool" where
  "version_le a b \<longleftrightarrow> mg_version a \<le> mg_version b"

interpretation version_order: comparison version_le
  by unfold_locales (auto simp: version_le_def)

definition load_migrations :: "embedded list \<Rightarrow> migration_error + migration list" where
  "load_migrations files = map_sum id (sort_by version_le) (read_migrations [] files)"

section \<open>Applying migrations\<close>

text \<open>The schema a database has, and the rows of its \<open>schema_migrations\<close> table.\<close>

record 's schema_db =
  sd_schema :: 's
  sd_applied :: "(int \<times> string \<times> string) list"

definition applied_versions :: "'s schema_db \<Rightarrow> int set" where
  "applied_versions d = fst ` set (sd_applied d)"

text \<open>The insert that records a migration; the version is the table's primary key.\<close>

definition record_migration :: "(migration \<Rightarrow> string) \<Rightarrow> migration \<Rightarrow> 's schema_db \<Rightarrow> migration_error + 's schema_db" where
  "record_migration stamp m d =
     (if mg_version m \<in> applied_versions d then Inl (RecordFailed (mg_version m))
      else Inr (d\<lparr>sd_applied := sd_applied d @ [(mg_version m, mg_name m, stamp m)]\<rparr>))"

definition apply_one ::
  "(string \<Rightarrow> 's \<Rightarrow> 's option) \<Rightarrow> (migration \<Rightarrow> string) \<Rightarrow> migration \<Rightarrow> 's schema_db \<Rightarrow> migration_error + 's schema_db" where
  "apply_one exec stamp m d =
     (case exec (mg_sql m) (sd_schema d) of
        None \<Rightarrow> Inl (ApplyFailed (mg_version m))
      | Some schema \<Rightarrow> record_migration stamp m (d\<lparr>sd_schema := schema\<rparr>))"

text \<open>
  SQLite's runner commits each migration before the next, so an error leaves those before it applied.
  The set of applied versions is read once, before the first.
\<close>

fun apply_each ::
  "(string \<Rightarrow> 's \<Rightarrow> 's option) \<Rightarrow> (migration \<Rightarrow> string) \<Rightarrow> int set \<Rightarrow> migration list \<Rightarrow> 's schema_db \<Rightarrow>
     migration_error option \<times> 's schema_db" where
  "apply_each exec stamp applied [] d = (None, d)"
| "apply_each exec stamp applied (m # ms) d =
     (if mg_version m \<in> applied then apply_each exec stamp applied ms d
      else (case apply_one exec stamp m d of
          Inl e \<Rightarrow> (Some e, d)
        | Inr d' \<Rightarrow> apply_each exec stamp applied ms d'))"

definition migrate_sqlite ::
  "(string \<Rightarrow> 's \<Rightarrow> 's option) \<Rightarrow> (migration \<Rightarrow> string) \<Rightarrow> embedded list \<Rightarrow> 's schema_db \<Rightarrow>
     migration_error option \<times> 's schema_db" where
  "migrate_sqlite exec stamp files d =
     (case load_migrations files of
        Inl e \<Rightarrow> (Some e, d)
      | Inr ms \<Rightarrow> apply_each exec stamp (applied_versions d) ms d)"

text \<open>PostgreSQL's runner does the whole work in one transaction, under a lock.\<close>

definition migrate_postgres ::
  "(string \<Rightarrow> 's \<Rightarrow> 's option) \<Rightarrow> (migration \<Rightarrow> string) \<Rightarrow> embedded list \<Rightarrow> 's schema_db \<Rightarrow>
     migration_error option \<times> 's schema_db" where
  "migrate_postgres exec stamp files d =
     (case load_migrations files of
        Inl e \<Rightarrow> (Some e, d)
      | Inr ms \<Rightarrow>
          (case apply_each exec stamp (applied_versions d) ms d of
             (Some e, _) \<Rightarrow> (Some e, d)
           | (None, d') \<Rightarrow> (None, d')))"

section \<open>Connecting to PostgreSQL\<close>

record pool_options =
  po_max_open :: int
  po_max_idle :: int
  po_lifetime :: int

text \<open>The defaults \<open>Open\<close> puts in place of options that are not positive; the lifetime is in nanoseconds.\<close>

definition pool_settings :: "pool_options \<Rightarrow> pool_options" where
  "pool_settings o' =
     (let open' = (if po_max_open o' \<le> 0 then 20 else po_max_open o')
      in \<lparr>po_max_open = open', po_max_idle = (if po_max_idle o' \<le> 0 then open' else po_max_idle o'),
          po_lifetime = (if po_lifetime o' \<le> 0 then 1800000000000 else po_lifetime o')\<rparr>)"

datatype dsn_error = BadDSN | WrongScheme | NoHost

text \<open>\<open>parse_url\<close> is \<open>url.Parse\<close>: the scheme and the host, absent on an error.\<close>

definition validate_dsn :: "(string \<Rightarrow> (string \<times> string) option) \<Rightarrow> string \<Rightarrow> dsn_error + unit" where
  "validate_dsn parse_url dsn =
     (case parse_url dsn of
        None \<Rightarrow> Inl BadDSN
      | Some (scheme, host) \<Rightarrow>
          if to_lower scheme \<noteq> ''postgres'' \<and> to_lower scheme \<noteq> ''postgresql'' then Inl WrongScheme
          else if host = [] then Inl NoHost else Inr ())"

section \<open>Rebinding numbers the placeholders\<close>

text \<open>
  The reference: a query cut into the placeholders outside quotes and the text between them. \<open>glue\<close> puts
  a text for each placeholder back.
\<close>

fun onto :: "string \<Rightarrow> string list \<Rightarrow> string list" where
  "onto t [] = [t]"
| "onto t (u # us) = (t @ u) # us"

fun segments :: "char option \<Rightarrow> string \<Rightarrow> string list" where
  "segments quote [] = [[]]"
| "segments (Some q) [c] = [[c]]"
| "segments (Some q) (c # d # s) =
     (if c = q \<and> d = q then onto [c, d] (segments (Some q) s)
      else onto [c] (segments (if c = q then None else Some q) (d # s)))"
| "segments None (c # s) =
     (if c = CHR ''?'' then [] # segments None s
      else onto [c] (segments (if c = CHR 0x27 \<or> c = CHR 0x22 then Some c else None) s))"

fun glue :: "(nat \<Rightarrow> string) \<Rightarrow> nat \<Rightarrow> string list \<Rightarrow> string" where
  "glue f n [] = []"
| "glue f n [t] = t"
| "glue f n (t # u # ts) = t @ f n @ glue f (Suc n) (u # ts)"

definition dollar_sign :: "nat \<Rightarrow> string" where
  "dollar_sign n = CHR ''$'' # nat_str n"

lemma glue_onto [simp]: "glue f n (onto t ts) = t @ glue f n ts"
proof (cases ts)
  case (Cons u us)
  then show ?thesis by (cases us) simp_all
qed simp

lemma glue_Nil [simp]: "ts \<noteq> [] \<Longrightarrow> glue f n ([] # ts) = f n @ glue f (Suc n) ts"
  by (cases ts) simp_all

lemma onto_nonempty [simp]: "onto t ts \<noteq> []"
  by (cases ts) simp_all

lemma onto_onto [simp]: "onto t (onto u ts) = onto (t @ u) ts"
  by (cases ts) simp_all

lemma segments_nonempty [simp]: "segments quote s \<noteq> []"
  by (induction quote s rule: segments.induct) simp_all

lemma onto_Nil [simp]: "onto [] (segments quote s) = segments quote s"
  by (cases "segments quote s") simp_all

lemma segments_parts: "glue (\<lambda>_. ''?'') n (segments quote s) = s"
  by (induction quote s arbitrary: n rule: segments.induct) simp_all

lemma rebind_from_segments: "rebind_from n quote s = glue dollar_sign n (segments quote s)"
  by (induction n quote s rule: rebind_from.induct) (simp_all add: dollar_sign_def)

lemma no_placeholder: "CHR ''?'' \<notin> set s \<Longrightarrow> segments quote s = [s]"
  by (induction quote s rule: segments.induct) auto

lemma segments_plain:
  assumes "list_all (\<lambda>c. c \<notin> {CHR ''?'', CHR 0x27, CHR 0x22}) t"
  shows "segments None (t @ s) = onto t (segments None s)"
  using assms by (induction t) auto

lemma dollar_sign_plain: "list_all (\<lambda>c. c \<notin> {CHR ''?'', CHR 0x27, CHR 0x22}) (dollar_sign n)"
proof -
  have "c \<notin> {CHR ''?'', CHR 0x27, CHR 0x22}" if "c \<in> set (nat_str n)" for c
    using nat_str_digits [OF that] by (auto simp: is_digit_of_char)
  then show ?thesis by (auto simp: dollar_sign_def list_all_iff)
qed

lemma rebound_head:
  "\<exists>c' s'. rebind_from n None (c # s) = c' # s' \<and> (c' = c \<or> c' = CHR ''$'')"
  by simp

lemma rebound_once:
  "quote \<in> {None, Some (CHR 0x27), Some (CHR 0x22)} \<Longrightarrow> segments quote (rebind_from n quote s) = [rebind_from n quote s]"
proof (induction n quote s rule: rebind_from.induct)
  case (3 n q c d s)
  show ?case
  proof (cases "c = q \<and> d \<noteq> q")
    case True
    obtain c' s' where rest: "rebind_from n None (d # s) = c' # s'" "c' = d \<or> c' = CHR ''$''"
      using rebound_head by blast
    moreover have "c' \<noteq> q" using rest(2) True 3(4) by auto
    moreover have "segments None (c' # s') = [c' # s']" using 3(2) True rest(1) by simp
    ultimately show ?thesis using True by (simp del: segments.simps(4))
  next
    case False
    then show ?thesis using 3 by (cases "rebind_from n (Some q) (d # s)") auto
  qed
next
  case (4 n c s)
  show ?case
  proof (cases "c = CHR ''?''")
    case True
    then have "rebind_from n None (c # s) = dollar_sign n @ rebind_from (Suc n) None s" by (simp add: dollar_sign_def)
    then show ?thesis using 4(2) True segments_plain [OF dollar_sign_plain] by (simp del: rebind_from.simps segments.simps)
  next
    case False
    then show ?thesis using 4 by auto
  qed
qed auto

text \<open>
  The query sent to PostgreSQL is the query of the shared store with its placeholders, those outside
  quoted strings and identifiers, numbered from \<open>$1\<close> in order and every other byte unchanged; no
  placeholder is left.
\<close>

theorem rebind_numbers_parameters:
  "glue (\<lambda>_. ''?'') 1 (segments None query) = query \<and>
   rebind query = glue dollar_sign 1 (segments None query) \<and>
   segments None (rebind query) = [rebind query]"
proof -
  have "rebind query = rebind_from 1 None query"
    using no_placeholder [of query None] by (simp add: rebind_def rebind_from_segments)
  then show ?thesis
    using rebound_once [of None 1 query] by (simp add: segments_parts rebind_from_segments)
qed

section \<open>Migrations run once and in order\<close>

definition pending :: "'s schema_db \<Rightarrow> migration list \<Rightarrow> migration list" where
  "pending d ms = filter (\<lambda>m. mg_version m \<notin> applied_versions d) ms"

definition applied_row :: "(migration \<Rightarrow> string) \<Rightarrow> migration \<Rightarrow> int \<times> string \<times> string" where
  "applied_row stamp m = (mg_version m, mg_name m, stamp m)"

fun run_sql :: "(string \<Rightarrow> 's \<Rightarrow> 's option) \<Rightarrow> migration list \<Rightarrow> 's \<Rightarrow> 's option" where
  "run_sql exec [] schema = Some schema"
| "run_sql exec (m # ms) schema = (case exec (mg_sql m) schema of None \<Rightarrow> None | Some schema' \<Rightarrow> run_sql exec ms schema')"

text \<open>The database \<open>d'\<close> is \<open>d\<close> with the migrations \<open>applied\<close> on top, and nothing else.\<close>

definition migrated :: "(string \<Rightarrow> 's \<Rightarrow> 's option) \<Rightarrow> (migration \<Rightarrow> string) \<Rightarrow> 's schema_db \<Rightarrow> migration list \<Rightarrow> 's schema_db \<Rightarrow> bool" where
  "migrated exec stamp d applied d' \<longleftrightarrow>
     run_sql exec applied (sd_schema d) = Some (sd_schema d') \<and>
     sd_applied d' = sd_applied d @ map (applied_row stamp) applied"

lemma read_migrations_versions:
  "read_migrations seen files = Inr ms \<Longrightarrow> distinct (map mg_version ms) \<and> mg_version ` set ms \<inter> fst ` set seen = {}"
proof (induction seen files arbitrary: ms rule: read_migrations.induct)
  case (2 seen name is_dir content files)
  show ?case
  proof (cases "is_dir \<or> \<not> has_suffix name ''.sql''")
    case True
    then show ?thesis using 2(1) 2(3) by simp
  next
    case False
    obtain prefix rest found where cut: "cut CHR ''_'' name = (prefix, rest, found)" by (cases "cut CHR ''_'' name")
    from 2(3) False cut obtain version sql ms' where
      parts: "found" "parse_int prefix = Some version" "map_of seen version = None" "content = Some sql"
        "read_migrations ((version, name) # seen) files = Inr ms'" "ms = \<lparr>mg_version = version, mg_name = name, mg_sql = sql\<rparr> # ms'"
      by (auto split: if_splits option.splits sum.splits)
    from parts(1-4) 2(2) [OF False cut [symmetric] refl] parts(5) have
      "distinct (map mg_version ms') \<and> mg_version ` set ms' \<inter> fst ` set ((version, name) # seen) = {}"
      by auto
    moreover have "version \<notin> fst ` set seen" using parts(3) by (simp add: map_of_eq_None_iff)
    ultimately show ?thesis using parts(6) by auto
  qed
qed simp

lemma load_migrations_ordered:
  assumes "load_migrations files = Inr ms"
  shows "sorted_wrt (\<lambda>a b. mg_version a < mg_version b) ms"
proof -
  from assms obtain raw where raw: "read_migrations [] files = Inr raw" "ms = sort_by version_le raw"
    by (cases "read_migrations [] files") (auto simp: load_migrations_def)
  have "sorted_wrt version_le ms" using raw(2) version_order.sorted_sort_by by simp
  moreover have "distinct (map mg_version ms)"
    using read_migrations_versions [OF raw(1)] raw(2) by (auto simp: distinct_map)
  ultimately show ?thesis
  proof (induction ms)
    case (Cons m ms)
    then show ?case by (auto simp: version_le_def less_le)
  qed simp
qed

lemma apply_each_outcome:
  assumes "apply_each exec stamp applied ms d = (err, d')"
    and "sorted_wrt (\<lambda>a b. mg_version a < mg_version b) ms"
    and "\<And>m. m \<in> set ms \<Longrightarrow> mg_version m \<in> applied_versions d \<longleftrightarrow> mg_version m \<in> applied"
  shows "\<exists>n. migrated exec stamp d (take n (filter (\<lambda>m. mg_version m \<notin> applied) ms)) d' \<and>
    (err = None \<longrightarrow> length (filter (\<lambda>m. mg_version m \<notin> applied) ms) \<le> n) \<and>
    (\<forall>e. err = Some e \<longrightarrow> n < length (filter (\<lambda>m. mg_version m \<notin> applied) ms) \<and>
       e = ApplyFailed (mg_version (filter (\<lambda>m. mg_version m \<notin> applied) ms ! n)))"
  using assms
proof (induction ms arbitrary: d)
  case Nil
  then show ?case by (auto simp: migrated_def)
next
  case (Cons m ms)
  show ?case
  proof (cases "mg_version m \<in> applied")
    case True
    with Cons show ?thesis by auto
  next
    case False
    show ?thesis
    proof (cases "exec (mg_sql m) (sd_schema d)")
      case None
      then have "err = Some (ApplyFailed (mg_version m)) \<and> d' = d"
        using False Cons.prems(1) by (auto simp: apply_one_def)
      then show ?thesis using False by (intro exI [of _ 0]) (simp add: migrated_def)
    next
      case (Some schema)
      let ?d1 = "d\<lparr>sd_schema := schema, sd_applied := sd_applied d @ [applied_row stamp m]\<rparr>"
      have one: "apply_one exec stamp m d = Inr ?d1"
        using Some False Cons.prems(3) [of m]
        by (simp add: apply_one_def record_migration_def applied_versions_def applied_row_def)
      have "\<And>k. k \<in> set ms \<Longrightarrow> mg_version k \<in> applied_versions ?d1 \<longleftrightarrow> mg_version k \<in> applied"
        using Cons.prems(2,3) by (auto simp: applied_versions_def applied_row_def)
      with Cons.IH [of ?d1] Cons.prems(1,2) False one obtain n where
        n: "migrated exec stamp ?d1 (take n (filter (\<lambda>m. mg_version m \<notin> applied) ms)) d'"
          "err = None \<longrightarrow> length (filter (\<lambda>m. mg_version m \<notin> applied) ms) \<le> n"
          "\<forall>e. err = Some e \<longrightarrow> n < length (filter (\<lambda>m. mg_version m \<notin> applied) ms) \<and>
             e = ApplyFailed (mg_version (filter (\<lambda>m. mg_version m \<notin> applied) ms ! n))"
        by auto
      then show ?thesis using False Some by (intro exI [of _ "Suc n"]) (simp add: migrated_def)
    qed
  qed
qed

lemma pending_none: "migrated exec stamp d (pending d ms) d' \<Longrightarrow> pending d' ms = []"
  by (auto simp: pending_def migrated_def applied_versions_def applied_row_def filter_empty_conv image_Un image_image)

lemma apply_each_pending:
  assumes "load_migrations files = Inr ms" "apply_each exec stamp (applied_versions d) ms d = (err, d')"
  shows "\<exists>n. migrated exec stamp d (take n (pending d ms)) d' \<and> (err = None \<longrightarrow> length (pending d ms) \<le> n) \<and>
    (\<forall>e. err = Some e \<longrightarrow> n < length (pending d ms) \<and> e = ApplyFailed (mg_version (pending d ms ! n)))"
  using apply_each_outcome [OF assms(2) load_migrations_ordered [OF assms(1)]] by (simp add: pending_def)

text \<open>
  C32. A successful start of either store has applied exactly the migrations its database lacked, each
  once, in the order of their versions, and recorded them; the two runners end alike, and the next start
  finds nothing to do.
\<close>

theorem migrations_apply_once:
  assumes "migrate_sqlite exec stamp files d = (None, d')"
  shows "(\<exists>ms. load_migrations files = Inr ms \<and> sorted_wrt (\<lambda>a b. mg_version a < mg_version b) (pending d ms) \<and>
      migrated exec stamp d (pending d ms) d') \<and>
    migrate_postgres exec stamp files d = (None, d') \<and>
    migrate_sqlite exec again files d' = (None, d')"
proof (intro conjI)
  from assms obtain ms where ms: "load_migrations files = Inr ms" "apply_each exec stamp (applied_versions d) ms d = (None, d')"
    by (auto simp: migrate_sqlite_def split: sum.splits)
  from apply_each_pending [OF ms] have finished: "migrated exec stamp d (pending d ms) d'" by auto
  with ms(1) load_migrations_ordered [OF ms(1)]
  show "\<exists>ms. load_migrations files = Inr ms \<and> sorted_wrt (\<lambda>a b. mg_version a < mg_version b) (pending d ms) \<and>
      migrated exec stamp d (pending d ms) d'"
    by (auto simp: pending_def sorted_wrt_filter)
  show "migrate_postgres exec stamp files d = (None, d')" using ms by (simp add: migrate_postgres_def)
  obtain err d2 where run: "apply_each exec again (applied_versions d') ms d' = (err, d2)" by fastforce
  from apply_each_pending [OF ms(1) run] pending_none [OF finished] have "err = None" "migrated exec again d' [] d2"
    by (cases err; simp)+
  then have "d2 = d'" by (simp add: migrated_def schema_db.equality)
  with run ms(1) \<open>err = None\<close> show "migrate_sqlite exec again files d' = (None, d')" by (simp add: migrate_sqlite_def)
qed

text \<open>
  C33. A start that fails while migrating leaves PostgreSQL as it was, and SQLite at the last migration
  that was complete: the ones before the failing one, in order, and nothing of it.
\<close>

theorem failed_migration_is_undone:
  assumes "migrate_sqlite exec stamp files d = (Some e, d')" "load_migrations files = Inr ms"
  shows "migrate_postgres exec stamp files d = (Some e, d) \<and>
    (\<exists>before failing after. pending d ms = before @ failing # after \<and> e = ApplyFailed (mg_version failing) \<and>
       migrated exec stamp d before d')"
proof -
  from assms have run: "apply_each exec stamp (applied_versions d) ms d = (Some e, d')" by (simp add: migrate_sqlite_def)
  from apply_each_pending [OF assms(2) run] obtain n where
    n: "migrated exec stamp d (take n (pending d ms)) d'" "n < length (pending d ms)"
      "e = ApplyFailed (mg_version (pending d ms ! n))" by auto
  have "pending d ms = take n (pending d ms) @ pending d ms ! n # drop (Suc n) (pending d ms)"
    using id_take_nth_drop [OF n(2)] .
  with n run assms(2) show ?thesis by (auto simp: migrate_postgres_def)
qed

text \<open>Three migrations, the first applied already; and one whose SQL the database refuses.\<close>

definition sample_files :: "embedded list" where
  "sample_files = [(''0002_b.sql'', False, Some ''b''), (''0001_a.sql'', False, Some ''a''), (''0003_c.sql'', False, Some ''c'')]"

definition sample_schema :: "string schema_db" where
  "sample_schema = \<lparr>sd_schema = ''a'', sd_applied = [(1, ''0001_a.sql'', [])]\<rparr>"

definition append_sql :: "string \<Rightarrow> string \<Rightarrow> string option" where
  "append_sql sql schema = Some (schema @ sql)"

definition refuse_last :: "string \<Rightarrow> string \<Rightarrow> string option" where
  "refuse_last sql schema = (if sql = ''c'' then None else Some (schema @ sql))"

lemma migrations_apply_once_witness:
  "migrate_postgres append_sql (\<lambda>_. []) sample_files sample_schema =
     (None, \<lparr>sd_schema = ''abc'', sd_applied = [(1, ''0001_a.sql'', []), (2, ''0002_b.sql'', []), (3, ''0003_c.sql'', [])]\<rparr>)"
proof -
  have "migrate_sqlite append_sql (\<lambda>_. []) sample_files sample_schema =
      (None, \<lparr>sd_schema = ''abc'', sd_applied = [(1, ''0001_a.sql'', []), (2, ''0002_b.sql'', []), (3, ''0003_c.sql'', [])]\<rparr>)"
    by code_simp
  from migrations_apply_once [OF this] show ?thesis by blast
qed

lemma failed_migration_is_undone_witness:
  "migrate_postgres refuse_last (\<lambda>_. []) sample_files sample_schema = (Some (ApplyFailed 3), sample_schema)"
proof -
  obtain ms where "load_migrations sample_files = Inr ms"
    by (rule sumE [of "load_migrations sample_files"]) (simp_all, code_simp)
  moreover have "migrate_sqlite refuse_last (\<lambda>_. []) sample_files sample_schema =
      (Some (ApplyFailed 3), \<lparr>sd_schema = ''ab'', sd_applied = [(1, ''0001_a.sql'', []), (2, ''0002_b.sql'', [])]\<rparr>)"
    by code_simp
  ultimately show ?thesis using failed_migration_is_undone by blast
qed

end
