(* ===== verification/Isolation.thy ===== *)
theory Isolation
  imports StoreSystem
begin

text \<open>
  \<open>TryReserve\<close> statement by statement. On PostgreSQL several processes run its transaction at once: each
  statement sees what is committed when it starts, and \<open>lockBudgetTx\<close> takes an advisory lock on the
  principal's budget that is held until the transaction ends (\<open>sqlite.go\<close>). Here the statements of
  any number of open transactions interleave with each other and with the other operations of the store, and
  the budgets still hold. \<open>hash\<close> is the server's \<open>hashtextextended\<close>; a constant function gives the one mutex
  \<open>reserveMu\<close> of a single process.
\<close>

section \<open>The transaction\<close>

datatype reserve_stage =
    Begun
  | Locked
  | Walking "run list" budget_decision
  | Decided budget_decision
  | Finished "store_error + budget_decision"

record reserve_tx =
  rt_hold :: reservation
  rt_enforce :: bool
  rt_lock :: "int option"
  rt_stage :: reserve_stage

definition begin_reserve :: "reservation \<Rightarrow> bool \<Rightarrow> reserve_tx" where
  "begin_reserve r enforce = \<lparr>rt_hold = r, rt_enforce = enforce, rt_lock = None, rt_stage = Begun\<rparr>"

text \<open>The end of a transaction, committed or rolled back, gives its lock back.\<close>

definition end_reserve :: "store_error + budget_decision \<Rightarrow> reserve_tx \<Rightarrow> reserve_tx" where
  "end_reserve res t = t\<lparr>rt_lock := None, rt_stage := Finished res\<rparr>"

text \<open>The key \<open>lockBudgetTx\<close> computes from the run's principal, and whether another transaction holds it.\<close>

definition principal_lock :: "(string \<Rightarrow> int) \<Rightarrow> string \<Rightarrow> int" where
  "principal_lock hash p = hash (''spendlease:budget:'' @ p)"

definition budget_lock :: "(string \<Rightarrow> int) \<Rightarrow> db \<Rightarrow> string \<Rightarrow> int option" where
  "budget_lock hash d i =
     map_option (\<lambda>q. principal_lock hash (run_principal q)) (find_run (d_runs d) i)"

definition lock_is_free :: "reserve_tx list \<Rightarrow> int \<Rightarrow> bool" where
  "lock_is_free txs k \<longleftrightarrow> list_all (\<lambda>t. rt_lock t \<noteq> Some k) txs"

text \<open>
  The next statement of a transaction: its new stage and the committed database. \<open>None\<close> is a transaction that has
  ended, one that waits for the lock, or a recursive query that does not end.
\<close>

definition reserve_statement ::
    "(string \<Rightarrow> int) \<Rightarrow> reserve_tx list \<Rightarrow> db \<Rightarrow> reserve_tx \<Rightarrow> (reserve_tx \<times> db) option" where
  "reserve_statement hash txs d t =
     (let r = rt_hold t in
      case rt_stage t of
        Begun \<Rightarrow>
          (case budget_lock hash d (rv_run r) of
             None \<Rightarrow> Some (end_reserve (Inl ErrNotFound) t, d)
           | Some k \<Rightarrow> if lock_is_free txs k then Some (t\<lparr>rt_lock := Some k, rt_stage := Locked\<rparr>, d) else None)
      | Locked \<Rightarrow>
          (case ancestors (d_runs d) (rv_run r) of
             None \<Rightarrow> None
           | Some chain \<Rightarrow>
               if chain = [] then Some (end_reserve (Inl ErrNotFound) t, d)
               else Some (t\<lparr>rt_stage := Walking chain (new_decision r)\<rparr>, d))
      | Walking (n # ns) dec \<Rightarrow>
          (case budget_walk d (rv_amount r) [n] dec of
             None \<Rightarrow> None
           | Some (Inl e) \<Rightarrow> Some (end_reserve (Inl e) t, d)
           | Some (Inr dec') \<Rightarrow> Some (t\<lparr>rt_stage := Walking ns dec'\<rparr>, d))
      | Walking [] dec \<Rightarrow>
          (case lease_check d r dec of
             Inl e \<Rightarrow> Some (end_reserve (Inl e) t, d)
           | Inr dec' \<Rightarrow>
               Some (t\<lparr>rt_stage := Decided (dec'\<lparr>bd_allowed := \<not> rt_enforce t \<or> \<not> bd_would_block dec'\<rparr>)\<rparr>, d))
      | Decided dec \<Rightarrow>
          if bd_allowed dec
          then (case create_reservation r d of
              Inl e \<Rightarrow> Some (end_reserve (Inl e) t, d)
            | Inr d' \<Rightarrow> Some (end_reserve (Inr dec) t, d'))
          else Some (end_reserve (Inr dec) t, d)
      | Finished res \<Rightarrow> None)"

text \<open>The transaction left alone: \<open>n\<close> statements with nothing between them.\<close>

fun reserve_alone :: "(string \<Rightarrow> int) \<Rightarrow> nat \<Rightarrow> db \<Rightarrow> reserve_tx \<Rightarrow> reserve_tx \<times> db" where
  "reserve_alone hash 0 d t = (t, d)"
| "reserve_alone hash (Suc n) d t =
     (case reserve_statement hash [] d t of None \<Rightarrow> (t, d) | Some (t', d') \<Rightarrow> reserve_alone hash n d' t')"

section \<open>The transactions and the store\<close>

text \<open>The other operations that take the budget lock, and of which run.\<close>

fun locked_run :: "store_op \<Rightarrow> string option" where
  "locked_run (OpCreateRun r) = (if run_parent r = [] then None else Some (run_parent r))"
| "locked_run (OpCloseRun now i) = Some i"
| "locked_run (OpCreateLease l) = Some (ls_run l)"
| "locked_run _ = None"

definition lock_permits :: "(string \<Rightarrow> int) \<Rightarrow> reserve_tx list \<Rightarrow> db \<Rightarrow> store_op \<Rightarrow> bool" where
  "lock_permits hash txs d op \<longleftrightarrow>
     (case locked_run op of
        None \<Rightarrow> True
      | Some i \<Rightarrow> (case budget_lock hash d i of None \<Rightarrow> True | Some k \<Rightarrow> lock_is_free txs k))"

fun is_try_reserve :: "store_op \<Rightarrow> bool" where
  "is_try_reserve (OpTryReserve r enforce) \<longleftrightarrow> True"
| "is_try_reserve _ \<longleftrightarrow> False"

inductive isolation_run ::
    "(string \<Rightarrow> int) \<Rightarrow> (string \<Rightarrow> string) \<Rightarrow> db \<Rightarrow> db \<Rightarrow> reserve_tx list \<Rightarrow> bool" for hash sha d0 where
  iso_start: "isolation_run hash sha d0 d0 []"
| iso_begin: "isolation_run hash sha d0 d txs \<Longrightarrow> rv_status r = ReservationPending \<Longrightarrow>
    isolation_run hash sha d0 d (txs @ [begin_reserve r enforce])"
| iso_statement: "isolation_run hash sha d0 d txs \<Longrightarrow> i < length txs \<Longrightarrow>
    reserve_statement hash txs d (txs ! i) = Some (t, d') \<Longrightarrow> isolation_run hash sha d0 d' (txs[i := t])"
| iso_abort: "isolation_run hash sha d0 d txs \<Longrightarrow> i < length txs \<Longrightarrow>
    isolation_run hash sha d0 d (txs[i := end_reserve (Inl ErrInternal) (txs ! i)])"
| iso_other: "isolation_run hash sha d0 d txs \<Longrightarrow> store_step sha d op d' \<Longrightarrow> enforced_op op \<Longrightarrow>
    \<not> is_try_reserve op \<Longrightarrow> typed_op op \<Longrightarrow> int (length (d_ledger d)) < max_i64 \<Longrightarrow>
    lock_permits hash txs d op \<Longrightarrow> isolation_run hash sha d0 d' txs"

section \<open>One principal per hierarchy\<close>

definition family_ok :: "run list \<Rightarrow> bool" where
  "family_ok runs \<longleftrightarrow> (\<forall>q \<in> set runs. \<forall>p \<in> set runs. run_parent q \<noteq> [] \<and> run_parent q = run_id p \<longrightarrow>
     run_principal q = run_principal p)"

lemma family_principal:
  assumes "runs_wf runs" "family_ok runs" "(run_id a, y) \<in> (parent_rel runs)\<^sup>*" "a \<in> set runs"
  shows "b \<in> set runs \<Longrightarrow> run_id b = y \<Longrightarrow> run_principal b = run_principal a"
  using assms(3)
proof (induction arbitrary: b rule: rtrancl_induct)
  case base
  then show ?case using assms(4) runs_wf_distinct [OF assms(1)] by (metis distinct_map inj_onD)
next
  case (step y z)
  obtain c where c: "c \<in> set runs" "run_id c = y" "run_parent c = z" "z \<noteq> []"
    using step.hyps(2) by (auto simp: in_parent_rel)
  then have "run_principal c = run_principal b" using assms(2) step.prems by (simp add: family_ok_def)
  then show ?case using step.IH [OF c(1,2)] by simp
qed

lemma family_ok_snoc:
  assumes fam: "family_ok runs" and wf: "runs_wf (runs @ [r])"
    and parent: "run_parent r = [] \<or> (\<exists>p. find_run runs (run_parent r) = Some p \<and> run_principal p = run_principal r)"
  shows "family_ok (runs @ [r])"
proof -
  have wf0: "runs_wf runs" and fresh: "run_id r \<notin> run_id ` set runs"
    and old: "run_parent r = [] \<or> run_parent r \<in> run_id ` set runs"
    using wf by (simp_all add: runs_wf_snoc)
  have "run_parent q = [] \<or> run_parent q \<noteq> run_id r" if "q \<in> set runs" for q
    using that fresh parent_rank(2) [OF wf0, of "run_id q" "run_parent q"] by (force simp: in_parent_rel)
  moreover have "run_parent r = [] \<or> run_parent r \<noteq> run_id r" using old fresh by metis
  moreover have "run_principal r = run_principal p" if "p \<in> set runs" "run_parent r = run_id p" "run_parent r \<noteq> []" for p
    using that parent find_run_in [OF wf0, of "run_id p" p] by auto
  ultimately show ?thesis using fam by (auto simp: family_ok_def)
qed

lemma family_ok_step:
  assumes "store_step sha d op d'" "family_ok (d_runs d)" "runs_wf (d_runs d')"
  shows "family_ok (d_runs d')"
  using assms(1)
proof (cases rule: step_runs_cases)
  case (new r)
  then show ?thesis using family_ok_snoc [OF assms(2)] assms(3) by simp
next
  case (close now i)
  have "run_principal (close_row now i q) = run_principal q" for q by (simp add: close_row_def)
  then show ?thesis using assms(2) by (simp add: family_ok_def close(2) close_row_keeps)
qed (use assms(2) in simp)

lemma reachable_family_ok: "reachable sha allowed d \<Longrightarrow> family_ok (d_runs d)"
  unfolding reachable_def
proof (induction rule: evolves.induct)
  case (evolves_step d op d')
  have "evolves sha allowed empty_db d'" by (rule evolves.evolves_step [OF evolves_step.hyps])
  then have "runs_wf (d_runs d')" using reachable_rows_ok unfolding reachable_def rows_ok_def by blast
  then show ?case using family_ok_step [OF evolves_step.hyps(5) evolves_step.IH] by blast
qed (simp add: family_ok_def empty_db_def)

section \<open>What the other operations leave to a decision\<close>

lemma step_exposure:
  assumes step: "store_step sha d op d'" and rows: "rows_ok sha d" and "enforced_op op" "\<not> is_try_reserve op"
    and "int (length (d_ledger d)) < max_i64" and n: "n \<in> run_id ` set (d_runs d)"
  shows "exposure d' n \<le> exposure d n"
  using step
proof (cases rule: store_step.cases)
  case (step_create_principal p)
  then show ?thesis using insert_principal_ok by (fastforce simp: create_principal_def split: if_splits)
next
  case (step_onboard p r l)
  then obtain ps d2 ls where o: "insert_run r (d\<lparr>d_principals := ps\<rparr>) = Inr d2" "d' = d2\<lparr>d_leases := ls\<rparr>"
    using onboard_parts by blast
  have "run_id r \<notin> run_id ` set (d_runs d)" using insert_run_ok [OF o(1)] by simp
  then have "n \<noteq> run_id r" using n by metis
  then show ?thesis using exposure_insert_run [OF _ o(1)] rows o(2) by simp
next
  case (step_create_run r)
  note i = create_run_insert [OF step_create_run(2)]
  have "n \<noteq> run_id r" using insert_run_ok [OF i] n by metis
  then show ?thesis using exposure_insert_run [OF rows i] by simp
next
  case (step_close_run now i)
  then show ?thesis
    using map_runs_preserves(3) [OF rows close_row_keeps] by (auto simp: close_run_def split: if_splits)
next
  case (step_create_lease l)
  then show ?thesis using insert_lease_ok by (fastforce simp: create_lease_def split: option.splits if_splits)
next
  case (step_resolve now i s)
  note r = resolve_ok [OF step_resolve(2)]
  show ?thesis unfolding r [THEN conjunct1] by (rule exposure_set_status [OF rows]) (use r in auto)
next
  case (step_expire now n')
  then show ?thesis
    using exposure_set_status [OF rows, of "expirable now"] by (auto simp: expire_pending_reservations_def expirable_def)
next
  case (step_settle now i e sealed)
  then show ?thesis using settle_exposure [OF rows _ assms(5)] by blast
qed (use assms(3,4) in \<open>auto simp: set_principal_mode_def revoke_lease_def revoke_leases_for_principal_def
    record_budget_event_def split: if_splits sum.splits\<close>)

text \<open>The rows of a run and its ancestors, and the room a level leaves for a hold.\<close>

definition line_of :: "db \<Rightarrow> reservation \<Rightarrow> run set" where
  "line_of d r = {q \<in> set (d_runs d). (rv_run r, run_id q) \<in> (parent_rel (d_runs d))\<^sup>*}"

definition room :: "db \<Rightarrow> reservation \<Rightarrow> run \<Rightarrow> bool" where
  "room d r q \<longleftrightarrow> rv_amount r \<le> 0 \<or> run_budget q = 0 \<or> exposure d (run_id q) + rv_amount r \<le> run_budget q"

definition covered :: "db \<Rightarrow> reservation \<Rightarrow> run list \<Rightarrow> bool \<Rightarrow> bool" where
  "covered d r rest ok \<longleftrightarrow>
     (\<forall>q \<in> line_of d r. q \<in> set rest \<or> run_status q = RunActive \<and> (ok \<longrightarrow> room d r q))"

lemma budget_lock_row:
  assumes "runs_wf (d_runs d)"
  shows "budget_lock hash d i = Some k \<longleftrightarrow>
    (\<exists>a \<in> set (d_runs d). run_id a = i \<and> k = principal_lock hash (run_principal a))"
  using find_run_in [OF assms, of i] unfolding budget_lock_def map_option_eq_Some by blast

lemma budget_lock_exists:
  "budget_lock hash d i = Some k \<Longrightarrow> runs_wf (d_runs d) \<Longrightarrow> i \<in> run_id ` set (d_runs d)"
  using budget_lock_row by fastforce

lemma budget_lock_line:
  assumes "runs_wf (d_runs d)" "family_ok (d_runs d)" "q \<in> line_of d r" "budget_lock hash d (rv_run r) = Some k"
  shows "budget_lock hash d (run_id q) = Some k"
proof -
  obtain a where a: "a \<in> set (d_runs d)" "run_id a = rv_run r" "k = principal_lock hash (run_principal a)"
    using assms(4) budget_lock_row [OF assms(1)] by blast
  have q: "q \<in> set (d_runs d)" "(run_id a, run_id q) \<in> (parent_rel (d_runs d))\<^sup>*"
    using assms(3) a(2) by (simp_all add: line_of_def)
  have "run_principal q = run_principal a"
    using family_principal [OF assms(1,2) q(2) a(1) q(1)] by simp
  then show ?thesis using a(3) q(1) budget_lock_row [OF assms(1)] by metis
qed

text \<open>An operation that the lock permits changes no row of a locked line and raises no exposure on it.\<close>

lemma step_line:
  assumes step: "store_step sha d op d'" and rows: "rows_ok sha d" "family_ok (d_runs d)" and op: "enforced_op op" "\<not> is_try_reserve op"
    and bound: "int (length (d_ledger d)) < max_i64" and lock: "lock_permits hash txs d op"
    and held: "budget_lock hash d (rv_run r) = Some k" "\<not> lock_is_free txs k"
    and q: "q \<in> line_of d' r" and wf': "runs_wf (d_runs d')"
  shows "q \<in> line_of d r \<and> exposure d' (run_id q) \<le> exposure d (run_id q)"
proof -
  have wf: "runs_wf (d_runs d)" using rows(1) by (simp add: rows_ok_def)
  have exists: "rv_run r \<in> run_id ` set (d_runs d)"
    using budget_lock_exists held(1) wf by blast
  have "q \<in> line_of d r"
    using step
  proof (cases rule: step_runs_cases)
    case same
    then show ?thesis using q by (simp add: line_of_def)
  next
    case (new x)
    have path: "(rv_run r, run_id q) \<in> (parent_rel (d_runs d))\<^sup>*"
      using q rtrancl_snoc [of "d_runs d" x, OF _ exists] wf' by (simp add: line_of_def new(1))
    then have "run_id q \<in> run_id ` set (d_runs d)"
      using exists by (induction rule: rtrancl_induct) (use parent_rank(2) [OF wf] in auto)
    then show ?thesis using path q new(1,2) by (auto simp: line_of_def)
  next
    case (close now i)
    obtain p where p: "p \<in> set (d_runs d)" "q = close_row now i p" using q by (auto simp: line_of_def close(2))
    have "parent_rel (map (close_row now i) (d_runs d)) = parent_rel (d_runs d)" "run_id q = run_id p"
      using map_runs_preserves(2) [OF rows(1), of "close_row now i"] close_row_keeps p(2) by simp_all
    then have line: "p \<in> line_of d r" using q p(1) by (simp add: line_of_def close(2))
    have "run_id p \<noteq> i"
      using budget_lock_line [OF wf rows(2) line held(1)] lock held(2) by (auto simp: lock_permits_def close(1))
    then show ?thesis using p line by (simp add: close_row_def)
  qed
  then show ?thesis using step_exposure [OF step rows(1) op bound] by (auto simp: line_of_def)
qed

section \<open>The invariant of the interleaving\<close>

definition holds_lock :: "(string \<Rightarrow> int) \<Rightarrow> db \<Rightarrow> reserve_tx \<Rightarrow> bool" where
  "holds_lock hash d t \<longleftrightarrow> (\<exists>k. rt_lock t = Some k \<and> budget_lock hash d (rv_run (rt_hold t)) = Some k)"

fun stage_ok :: "(string \<Rightarrow> int) \<Rightarrow> db \<Rightarrow> reserve_tx \<Rightarrow> reserve_stage \<Rightarrow> bool" where
  "stage_ok hash d t Begun \<longleftrightarrow> rt_lock t = None"
| "stage_ok hash d t Locked \<longleftrightarrow> holds_lock hash d t"
| "stage_ok hash d t (Walking rest dec) \<longleftrightarrow> holds_lock hash d t \<and> covered d (rt_hold t) rest (\<not> bd_would_block dec)"
| "stage_ok hash d t (Decided dec) \<longleftrightarrow> holds_lock hash d t \<and> covered d (rt_hold t) [] (\<not> bd_would_block dec) \<and>
     (bd_allowed dec \<longrightarrow> rt_enforce t \<longrightarrow> \<not> bd_would_block dec)"
| "stage_ok hash d t (Finished res) \<longleftrightarrow> rt_lock t = None"

definition tx_ok :: "(string \<Rightarrow> int) \<Rightarrow> db \<Rightarrow> reserve_tx \<Rightarrow> bool" where
  "tx_ok hash d t \<longleftrightarrow> rv_status (rt_hold t) = ReservationPending \<and> stage_ok hash d t (rt_stage t)"

definition locks_apart :: "reserve_tx list \<Rightarrow> bool" where
  "locks_apart txs \<longleftrightarrow> (\<forall>i < length txs. \<forall>j < length txs. i \<noteq> j \<longrightarrow> rt_lock (txs ! i) \<noteq> None \<longrightarrow>
     rt_lock (txs ! i) \<noteq> rt_lock (txs ! j))"

definition iso_inv :: "(string \<Rightarrow> int) \<Rightarrow> (string \<Rightarrow> string) \<Rightarrow> db \<Rightarrow> reserve_tx list \<Rightarrow> bool" where
  "iso_inv hash sha d txs \<longleftrightarrow> rows_ok sha d \<and> family_ok (d_runs d) \<and> (\<forall>t \<in> set txs. tx_ok hash d t) \<and> locks_apart txs \<and>
     (list_all rt_enforce txs \<longrightarrow> budgets_hold d)"

lemma tx_ok_unlocked: "rt_lock t = None \<Longrightarrow> tx_ok hash d t \<Longrightarrow> tx_ok hash d' t"
  by (cases "rt_stage t") (simp_all add: tx_ok_def holds_lock_def)

lemma tx_ok_locked: "tx_ok hash d t \<Longrightarrow> rt_lock t = Some k \<Longrightarrow> budget_lock hash d (rv_run (rt_hold t)) = Some k"
  by (cases "rt_stage t") (auto simp: tx_ok_def holds_lock_def)

lemma covered_mono:
  assumes "covered d r rest ok"
    and "\<And>q. q \<in> line_of d' r \<Longrightarrow> q \<in> line_of d r \<and> exposure d' (run_id q) \<le> exposure d (run_id q)"
  shows "covered d' r rest ok"
  using assms unfolding covered_def room_def by (meson add_right_mono order_trans)

lemma tx_ok_mono:
  assumes "tx_ok hash d t" "rt_lock t = Some k" "budget_lock hash d' (rv_run (rt_hold t)) = Some k"
    and "\<And>q. q \<in> line_of d' (rt_hold t) \<Longrightarrow> q \<in> line_of d (rt_hold t) \<and> exposure d' (run_id q) \<le> exposure d (run_id q)"
  shows "tx_ok hash d' t"
proof -
  have "holds_lock hash d' t" using assms(2,3) by (simp add: holds_lock_def)
  then show ?thesis
    using assms(1,2) covered_mono [OF _ assms(4)] by (cases "rt_stage t") (simp_all add: tx_ok_def)
qed

lemma locks_apart_begin: "locks_apart txs \<Longrightarrow> locks_apart (txs @ [begin_reserve r enforce])"
  by (auto simp: locks_apart_def begin_reserve_def nth_append less_Suc_eq)

lemma locks_apart_update:
  assumes "locks_apart txs" "i < length txs"
    and "rt_lock t = rt_lock (txs ! i) \<or> rt_lock t = None \<or> (\<exists>k. rt_lock t = Some k \<and> lock_is_free txs k)"
  shows "locks_apart (txs[i := t])"
  unfolding locks_apart_def
proof (intro allI impI)
  fix a b assume ab: "a < length (txs[i := t])" "b < length (txs[i := t])" "a \<noteq> b" "rt_lock (txs[i := t] ! a) \<noteq> None"
  have free: "rt_lock (txs ! j) \<noteq> Some k" if "lock_is_free txs k" "j < length txs" for j k
    using that by (simp add: lock_is_free_def list_all_length)
  show "rt_lock (txs[i := t] ! a) \<noteq> rt_lock (txs[i := t] ! b)"
    using assms ab free by (cases "a = i"; cases "b = i") (auto simp: locks_apart_def, (metis not_None_eq)+)
qed

lemma all_update: "\<forall>u \<in> set xs. P u \<Longrightarrow> P t \<Longrightarrow> \<forall>u \<in> set (xs[i := t]). P u"
  using set_update_subset_insert [of xs i t] by blast

lemma enforce_update: "i < length txs \<Longrightarrow> rt_enforce t = rt_enforce (txs ! i) \<Longrightarrow>
  list_all rt_enforce (txs[i := t]) \<longleftrightarrow> list_all rt_enforce txs"
  by (metis list_all_length length_list_update nth_list_update_eq nth_list_update_neq)

section \<open>One statement\<close>

lemma remaining_room:
  assumes "rows_ok sha d" "q \<in> set (d_runs d)" "rv_amount r \<le> remaining_of (run_budget q) (spent_in d (run_id q)) (held_in d (run_id q))"
  shows "room d r q"
proof (cases "0 < rv_amount r")
  case True
  have "spent_in d (run_id q) + held_in d (run_id q) + rv_amount r \<le> run_budget q"
    using assms True spent_nonneg [OF assms(1)] held_nonneg [OF assms(1)]
    by (intro remaining_of_bound) (auto simp: rows_ok_def)
  then show ?thesis using overrun_nonneg [of d "run_id q"] by (simp add: room_def exposure_def)
qed (simp add: room_def)

lemma covered_level:
  assumes rows: "rows_ok sha d" and walk: "budget_walk d (rv_amount r) [n] dec = Some (Inr dec')"
    and cov: "covered d r (n # ns) (\<not> bd_would_block dec)"
  shows "covered d r ns (\<not> bd_would_block dec')"
  unfolding covered_def
proof
  fix q assume q: "q \<in> line_of d r"
  have wf: "runs_wf (d_runs d)" using rows by (simp add: rows_ok_def)
  have here: "run_status n = RunActive \<and> (\<not> bd_would_block dec' \<longrightarrow> room d r n)" if "n \<in> set (d_runs d)"
    using budget_walk_active [OF walk, of n] budget_walk_pass [OF wf walk] remaining_room [OF rows that, of r]
    by (auto simp: room_def)
  have "\<not> bd_would_block dec' \<Longrightarrow> \<not> bd_would_block dec" using budget_walk_sticky [OF walk] by blast
  then show "q \<in> set ns \<or> run_status q = RunActive \<and> (\<not> bd_would_block dec' \<longrightarrow> room d r q)"
    using cov q here by (cases "q = n") (auto simp: covered_def line_of_def)
qed

lemma covered_chain:
  assumes rows: "rows_ok sha d" and chain: "ancestors (d_runs d) (rv_run r) = Some chain" and lock: "budget_lock hash d (rv_run r) = Some k"
  shows "covered d r chain ok"
proof -
  have wf: "runs_wf (d_runs d)" using rows by (simp add: rows_ok_def)
  have exists: "rv_run r \<in> run_id ` set (d_runs d)"
    using budget_lock_exists lock wf by blast
  have "q \<in> set chain" if "q \<in> line_of d r" for q
  proof -
    have "run_id q \<in> run_id ` set chain" "q \<in> set (d_runs d)"
      using ancestors_set(1) [OF wf chain exists] that by (auto simp: line_of_def)
    then show ?thesis
      using runs_wf_distinct [OF wf] ancestors_set(2) [OF wf chain exists] by (auto simp: distinct_map dest: inj_onD)
  qed
  then show ?thesis by (simp add: covered_def)
qed

text \<open>What a statement does: it moves its own transaction on, and only the insert of an allowed hold changes the rows.\<close>

lemma statement_effect:
  assumes stmt: "reserve_statement hash txs d t = Some (t', d')" and rows: "rows_ok sha d" and ok: "tx_ok hash d t"
  shows "rt_enforce t' = rt_enforce t \<and>
    (rt_lock t' = rt_lock t \<or> rt_lock t' = None \<or> (\<exists>k. rt_lock t' = Some k \<and> lock_is_free txs k)) \<and>
    tx_ok hash d' t' \<and>
    (d' = d \<or> (\<exists>dec. rt_stage t = Decided dec \<and> bd_allowed dec \<and> create_reservation (rt_hold t) d = Inr d'))"
proof -
  let ?r = "rt_hold t"
  have ended: "tx_ok hash x (end_reserve res t)" for x res using ok by (simp add: tx_ok_def end_reserve_def)
  have pending: "rv_status ?r = ReservationPending" using ok by (simp add: tx_ok_def)
  show ?thesis
  proof (cases "rt_stage t")
    case Begun
    then show ?thesis using stmt ended pending
      by (auto simp: reserve_statement_def Let_def end_reserve_def tx_ok_def holds_lock_def split: option.splits if_splits)
  next
    case Locked
    have l: "holds_lock hash d t" using ok Locked by (simp add: tx_ok_def)
    then obtain k where k: "rt_lock t = Some k" "budget_lock hash d (rv_run ?r) = Some k" by (auto simp: holds_lock_def)
    show ?thesis using stmt ended pending k Locked covered_chain [OF rows _ k(2)]
      by (auto simp: reserve_statement_def Let_def end_reserve_def tx_ok_def holds_lock_def split: option.splits if_splits)
  next
    case (Walking rest dec)
    have l: "holds_lock hash d t" "covered d ?r rest (\<not> bd_would_block dec)" using ok Walking by (simp_all add: tx_ok_def)
    show ?thesis
    proof (cases rest)
      case Nil
      show ?thesis
      proof (cases "lease_check d ?r dec")
        case (Inr dec')
        let ?dec = "dec'\<lparr>bd_allowed := \<not> rt_enforce t \<or> \<not> bd_would_block dec'\<rparr>"
        have t': "t' = t\<lparr>rt_stage := Decided ?dec\<rparr>" "d' = d"
          using stmt Walking Nil Inr by (simp_all add: reserve_statement_def Let_def)
        have "covered d ?r [] (\<not> bd_would_block dec')"
          using l(2) Nil lease_check_sticky [OF Inr] by (auto simp: covered_def)
        then show ?thesis using l(1) pending by (simp add: t' tx_ok_def holds_lock_def)
      qed (use stmt Walking Nil ended in \<open>auto simp: reserve_statement_def Let_def end_reserve_def\<close>)
    next
      case (Cons n ns)
      show ?thesis using stmt ended pending l Walking Cons covered_level [OF rows, of ?r n dec _ ns]
        by (auto simp: reserve_statement_def Let_def end_reserve_def tx_ok_def holds_lock_def
            simp del: budget_walk.simps split: option.splits sum.splits)
    qed
  next
    case (Decided dec)
    then show ?thesis using stmt ended
      by (auto simp: reserve_statement_def Let_def end_reserve_def split: sum.splits if_splits)
  next
    case (Finished res)
    then show ?thesis using stmt by (simp add: reserve_statement_def)
  qed
qed

text \<open>The insert: the levels of its own line have room for it, and no other locked line is above it.\<close>

lemma exposure_reserve:
  assumes "rows_ok sha d" "rv_status r = ReservationPending" "create_reservation r d = Inr d'" "q \<in> set (d_runs d)"
  shows "exposure d' (run_id q) = exposure d (run_id q) + (if q \<in> line_of d r then rv_amount r else 0)"
proof -
  have wf: "runs_wf (d_runs d)" using assms(1) by (simp add: rows_ok_def)
  have "q \<in> line_of d r \<longleftrightarrow> rv_run r \<in> set (subtree_ids (d_runs d) (run_id q))"
    using assms(4) by (simp add: line_of_def set_subtree_ids [OF wf])
  then show ?thesis
    using amounts_reserve [OF assms(1,2), of "run_id q"] create_reservation_ok [OF assms(3)] by (simp add: exposure_def)
qed

lemma insert_keeps_budgets:
  assumes rows: "rows_ok sha d" and "tx_ok hash d t" "rt_stage t = Decided dec" "bd_allowed dec" "rt_enforce t"
    and ins: "create_reservation (rt_hold t) d = Inr d'" and "budgets_hold d"
  shows "budgets_hold d'"
  unfolding budgets_hold_exposure
proof
  let ?r = "rt_hold t"
  have r: "rv_status ?r = ReservationPending" "covered d ?r [] True" using assms(2-5) by (auto simp: tx_ok_def)
  note new = create_reservation_ok [OF ins]
  fix q assume "q \<in> set (d_runs d')"
  then have q: "q \<in> set (d_runs d)" using new by simp
  then have "run_budget q = 0 \<or> exposure d (run_id q) \<le> run_budget q" using assms(7) by (simp add: budgets_hold_exposure)
  moreover have "q \<in> line_of d ?r \<Longrightarrow> room d ?r q" using r(2) by (simp add: covered_def)
  ultimately show "run_budget q = 0 \<or> exposure d' (run_id q) \<le> run_budget q"
    using exposure_reserve [OF rows r(1) ins q] new by (auto simp: room_def)
qed

lemma insert_keeps_others:
  assumes rows: "rows_ok sha d" "family_ok (d_runs d)" and t: "tx_ok hash d t" "rt_lock t = Some k"
    and ins: "create_reservation (rt_hold t) d = Inr d'" and u: "tx_ok hash d u" "rt_lock u \<noteq> Some k"
  shows "tx_ok hash d' u"
proof (cases "rt_lock u")
  case (Some l)
  have wf: "runs_wf (d_runs d)" using rows(1) by (simp add: rows_ok_def)
  note new = create_reservation_ok [OF ins]
  have runs: "d_runs d' = d_runs d" using new by simp
  have pending: "rv_status (rt_hold t) = ReservationPending" using t(1) by (simp add: tx_ok_def)
  show ?thesis
  proof (rule tx_ok_mono [OF u(1) Some])
    show "budget_lock hash d' (rv_run (rt_hold u)) = Some l"
      using tx_ok_locked [OF u(1) Some] by (simp add: budget_lock_def runs)
    fix q assume "q \<in> line_of d' (rt_hold u)"
    then have q: "q \<in> line_of d (rt_hold u)" by (simp add: line_of_def runs)
    have "q \<notin> line_of d (rt_hold t)"
      using budget_lock_line [OF wf rows(2) q tx_ok_locked [OF u(1) Some]]
        budget_lock_line [OF wf rows(2) _ tx_ok_locked [OF t]] u(2) Some by fastforce
    then show "q \<in> line_of d (rt_hold u) \<and> exposure d' (run_id q) \<le> exposure d (run_id q)"
      using q exposure_reserve [OF rows(1) pending ins, of q] by (simp add: line_of_def)
  qed
qed (use tx_ok_unlocked u in blast)

section \<open>The invariant holds\<close>

lemma tx_ok_step:
  assumes step: "store_step sha d op d'" and rows: "rows_ok sha d" "family_ok (d_runs d)" "rows_ok sha d'"
    and op: "enforced_op op" "\<not> is_try_reserve op" and bound: "int (length (d_ledger d)) < max_i64"
    and lock: "lock_permits hash txs d op" and t: "t \<in> set txs" "tx_ok hash d t"
  shows "tx_ok hash d' t"
proof (cases "rt_lock t")
  case (Some k)
  have wf: "runs_wf (d_runs d)" "runs_wf (d_runs d')" using rows by (simp_all add: rows_ok_def)
  note k = tx_ok_locked [OF t(2) Some]
  have busy: "\<not> lock_is_free txs k" using t(1) Some by (auto simp: lock_is_free_def list_all_iff)
  have "budget_lock hash d' i = Some k" if k: "budget_lock hash d i = Some k" for i
  proof -
    obtain a where a: "a \<in> set (d_runs d)" "run_id a = i" "k = principal_lock hash (run_principal a)"
      using k budget_lock_row [OF wf(1)] by blast
    then obtain b where "b \<in> set (d_runs d')" "run_id b = i" "run_principal b = run_principal a"
      using step_runs_kept [OF step] by (auto simp: runs_kept_def)
    then show ?thesis using a(3) budget_lock_row [OF wf(2)] by metis
  qed
  then show ?thesis
    using step_line [OF step rows(1,2) op bound lock k busy _ wf(2)] k by (intro tx_ok_mono [OF t(2) Some]) blast+
qed (use tx_ok_unlocked t in blast)

lemma iso_inv_statement:
  assumes inv: "iso_inv hash sha d txs" and i: "i < length txs" and stmt: "reserve_statement hash txs d (txs ! i) = Some (t, d')"
  shows "iso_inv hash sha d' (txs[i := t])"
proof -
  have rows: "rows_ok sha d" "family_ok (d_runs d)" and oks: "\<forall>u \<in> set txs. tx_ok hash d u" and apart: "locks_apart txs"
    and budgets: "list_all rt_enforce txs \<longrightarrow> budgets_hold d"
    using inv by (simp_all add: iso_inv_def)
  let ?t = "txs ! i"
  have ok: "tx_ok hash d ?t" using oks i by simp
  note eff = statement_effect [OF stmt rows(1) ok]
  have apart': "locks_apart (txs[i := t])" using locks_apart_update [OF apart i] eff by blast
  have enforced: "list_all rt_enforce (txs[i := t]) \<longleftrightarrow> list_all rt_enforce txs"
    using enforce_update [OF i] eff by simp
  from eff consider "d' = d" | dec where "rt_stage ?t = Decided dec" "bd_allowed dec" "create_reservation (rt_hold ?t) d = Inr d'"
    by blast
  then show ?thesis
  proof cases
    case 1
    then have "\<forall>u \<in> set (txs[i := t]). tx_ok hash d u" using all_update [OF oks] eff by blast
    with 1 show ?thesis using rows apart' budgets enforced by (simp add: iso_inv_def)
  next
    case (2 dec)
    note new = create_reservation_ok [OF 2(3)]
    obtain k where k: "rt_lock ?t = Some k" using ok 2(1) by (auto simp: tx_ok_def holds_lock_def)
    have "tx_ok hash d' u" if u: "u \<in> set (txs[i := t])" for u
    proof -
      obtain j where j: "j < length txs" "txs[i := t] ! j = u" using u by (auto simp: in_set_conv_nth)
      show ?thesis
      proof (cases "j = i")
        case False
        then have "rt_lock (txs ! j) \<noteq> Some k" using apart i j(1) k unfolding locks_apart_def by (metis option.distinct(1))
        then show ?thesis using insert_keeps_others [OF rows ok k 2(3), of "txs ! j"] oks j False by simp
      qed (use eff j i in simp)
    qed
    moreover have "rows_ok sha d'" "family_ok (d_runs d')" using rows_ok_reserve [OF rows(1)] rows(2) new by auto
    moreover have "list_all rt_enforce txs \<longrightarrow> budgets_hold d'"
      using insert_keeps_budgets [OF rows(1) ok 2(1,2) _ 2(3)] budgets i by (simp add: list_all_length)
    ultimately show ?thesis using apart' enforced by (simp add: iso_inv_def)
  qed
qed

lemma isolation_inv:
  assumes "isolation_run hash sha d0 d txs" "rows_ok sha d0" "family_ok (d_runs d0)" "budgets_hold d0"
  shows "iso_inv hash sha d txs"
  using assms(1)
proof (induction rule: isolation_run.induct)
  case iso_start
  then show ?case using assms(2-4) by (simp add: iso_inv_def locks_apart_def)
next
  case (iso_begin d txs r enforce)
  then show ?case using locks_apart_begin
    by (auto simp: iso_inv_def tx_ok_def begin_reserve_def)
next
  case (iso_statement d txs i t d')
  then show ?case using iso_inv_statement by blast
next
  case (iso_abort d txs i)
  let ?t = "end_reserve (Inl ErrInternal) (txs ! i)"
  have "tx_ok hash d ?t" using iso_abort by (auto simp: iso_inv_def tx_ok_def end_reserve_def)
  moreover have "locks_apart (txs[i := ?t])"
    using locks_apart_update [of txs i ?t] iso_abort by (simp add: iso_inv_def end_reserve_def)
  moreover have "list_all rt_enforce (txs[i := ?t]) \<longleftrightarrow> list_all rt_enforce txs"
    using enforce_update [OF iso_abort.hyps(2), of ?t] by (simp add: end_reserve_def)
  ultimately show ?case
    using iso_abort.IH all_update [of txs "tx_ok hash d" ?t i] by (simp add: iso_inv_def)
next
  case (iso_other d txs op d')
  have rows: "rows_ok sha d" "family_ok (d_runs d)" using iso_other.IH by (simp_all add: iso_inv_def)
  have rows': "rows_ok sha d'"
    using step_rows_ok [OF iso_other.hyps(2) rows(1)] iso_other.hyps by blast
  moreover have "family_ok (d_runs d')"
    using family_ok_step [OF iso_other.hyps(2) rows(2)] rows' by (simp add: rows_ok_def)
  moreover have "tx_ok hash d' t" if "t \<in> set txs" for t
    using tx_ok_step [OF iso_other.hyps(2) rows rows' iso_other.hyps(3,4,6,7) that] iso_other.IH that
    by (simp add: iso_inv_def)
  moreover have "budgets_hold d \<Longrightarrow> budgets_hold d'"
    using step_store_inv [OF iso_other.hyps(2)] rows iso_other.hyps by (simp add: store_inv_def)
  ultimately show ?case using iso_other.IH by (simp add: iso_inv_def)
qed

lemma reachable_isolation:
  assumes "reachable sha enforced_op d0" "isolation_run hash sha d0 d txs"
  shows "iso_inv hash sha d txs"
  using isolation_inv [OF assms(2)] reachable_store_inv [OF assms(1)] reachable_family_ok [OF assms(1)]
  by (simp add: store_inv_def)

section \<open>A transaction left alone\<close>

definition alone_reaches :: "(string \<Rightarrow> int) \<Rightarrow> db \<Rightarrow> reserve_tx \<Rightarrow> reserve_tx \<times> db \<Rightarrow> bool" where
  "alone_reaches hash d t res \<longleftrightarrow> (\<exists>n. reserve_alone hash n d t = res)"

lemma alone_here: "alone_reaches hash d t (t, d)"
  unfolding alone_reaches_def by (rule exI [of _ 0]) simp

lemma alone_step: "reserve_statement hash [] d t = Some (t', d') \<Longrightarrow> alone_reaches hash d' t' res \<Longrightarrow> alone_reaches hash d t res"
  unfolding alone_reaches_def by (elim exE, rule_tac x = "Suc n" in exI) simp

lemma alone_last: "reserve_statement hash [] d t = Some (t', d') \<Longrightarrow> alone_reaches hash d t (t', d')"
  using alone_step alone_here by blast

lemma budget_walk_Cons:
  "budget_walk d a (n # ns) dec =
     (case budget_walk d a [n] dec of
        None \<Rightarrow> None | Some (Inl e) \<Rightarrow> Some (Inl e) | Some (Inr dec') \<Rightarrow> budget_walk d a ns dec')"
  by (auto simp: Let_def split: option.splits sum.splits)

lemma alone_walk:
  assumes "rt_stage t = Walking rest dec" "budget_walk d (rv_amount (rt_hold t)) rest dec = Some res"
    and "\<And>dec'. res = Inr dec' \<Longrightarrow> alone_reaches hash d (t\<lparr>rt_stage := Walking [] dec'\<rparr>) out"
    and "\<And>e. res = Inl e \<Longrightarrow> out = (end_reserve (Inl e) t, d)"
  shows "alone_reaches hash d t out"
  using assms
proof (induction rest arbitrary: t dec)
  case Nil
  then show ?case by (cases t) auto
next
  case (Cons n ns)
  let ?a = "rv_amount (rt_hold t)"
  have walk: "(case budget_walk d ?a [n] dec of None \<Rightarrow> None | Some (Inl e) \<Rightarrow> Some (Inl e)
      | Some (Inr dec') \<Rightarrow> budget_walk d ?a ns dec') = Some res"
    using Cons.prems(2) unfolding budget_walk_Cons [of d ?a n ns] .
  then consider e where "budget_walk d ?a [n] dec = Some (Inl e)" "res = Inl e"
    | dec' where "budget_walk d ?a [n] dec = Some (Inr dec')" "budget_walk d ?a ns dec' = Some res"
    by (auto simp del: budget_walk.simps split: option.splits sum.splits)
  then show ?case
  proof cases
    case (1 e)
    then have "reserve_statement hash [] d t = Some (end_reserve (Inl e) t, d)"
      using Cons.prems(1) by (simp add: reserve_statement_def Let_def del: budget_walk.simps)
    then show ?thesis using alone_last Cons.prems(4) 1(2) by simp
  next
    case (2 dec')
    let ?t = "t\<lparr>rt_stage := Walking ns dec'\<rparr>"
    have "reserve_statement hash [] d t = Some (?t, d)"
      using Cons.prems(1) 2(1) by (simp add: reserve_statement_def Let_def del: budget_walk.simps)
    moreover have "alone_reaches hash d ?t out"
      by (rule Cons.IH) (use 2 Cons.prems in \<open>simp_all add: end_reserve_def del: budget_walk.simps\<close>)
    ultimately show ?thesis by (rule alone_step)
  qed
qed

lemma alone_decides:
  assumes t: "rt_stage t = Walking [] dec" and out: "case lease_check d (rt_hold t) dec of
      Inl e \<Rightarrow> out = (end_reserve (Inl e) t, d)
    | Inr dec1 \<Rightarrow>
        (let dec2 = dec1\<lparr>bd_allowed := \<not> rt_enforce t \<or> \<not> bd_would_block dec1\<rparr>
         in if bd_allowed dec2
            then (case create_reservation (rt_hold t) d of
                Inl e \<Rightarrow> out = (end_reserve (Inl e) t, d)
              | Inr d' \<Rightarrow> out = (end_reserve (Inr dec2) t, d'))
            else out = (end_reserve (Inr dec2) t, d))"
  shows "alone_reaches hash d t out"
proof (cases "lease_check d (rt_hold t) dec")
  case (Inl e)
  then have "reserve_statement hash [] d t = Some (end_reserve (Inl e) t, d)" using t by (simp add: reserve_statement_def Let_def)
  then show ?thesis using alone_last out Inl by simp
next
  case (Inr dec1)
  let ?dec = "dec1\<lparr>bd_allowed := \<not> rt_enforce t \<or> \<not> bd_would_block dec1\<rparr>"
  let ?t = "t\<lparr>rt_stage := Decided ?dec\<rparr>"
  have "reserve_statement hash [] d t = Some (?t, d)" using t Inr by (simp add: reserve_statement_def Let_def)
  moreover have "reserve_statement hash [] d ?t = Some out"
    using out Inr by (auto simp: reserve_statement_def Let_def end_reserve_def split: sum.splits if_splits)
  then have "alone_reaches hash d ?t out" using alone_last by (cases out) blast
  ultimately show ?thesis by (rule alone_step)
qed

text \<open>What \<open>TryReserve\<close> answers in one piece, as the end of its transaction.\<close>

fun reserve_outcome :: "reserve_tx \<Rightarrow> db \<Rightarrow> store_error + budget_decision \<times> db \<Rightarrow> reserve_tx \<times> db" where
  "reserve_outcome t d (Inl e) = (end_reserve (Inl e) t, d)"
| "reserve_outcome t d (Inr (dec, d')) = (end_reserve (Inr dec) t, d')"

lemma alone_reserves:
  assumes whole: "try_reserve r enforce d = Some res" and pending: "rv_status r = ReservationPending"
  shows "alone_reaches hash d (begin_reserve r enforce) (reserve_outcome (begin_reserve r enforce) d res)"
proof (cases "find_run (d_runs d) (rv_run r)")
  case None
  then have "res = Inl ErrNotFound" using whole pending by (simp add: try_reserve_def ancestors_def)
  moreover have "reserve_statement hash [] d (begin_reserve r enforce) =
      Some (end_reserve (Inl ErrNotFound) (begin_reserve r enforce), d)"
    using None by (simp add: reserve_statement_def begin_reserve_def budget_lock_def)
  ultimately show ?thesis using alone_last by simp
next
  case (Some q)
  let ?t0 = "begin_reserve r enforce"
  let ?k = "principal_lock hash (run_principal q)"
  define t1 where "t1 = ?t0\<lparr>rt_lock := Some ?k, rt_stage := Locked\<rparr>"
  obtain c cs where chain: "ancestors (d_runs d) (rv_run r) = Some (c # cs)"
    using whole pending Some by (auto simp: try_reserve_def ancestors_def split: option.splits list.splits if_splits)
  define t2 where "t2 = t1\<lparr>rt_stage := Walking (c # cs) (new_decision r)\<rparr>"
  have t2: "rt_hold t2 = r" "rt_enforce t2 = enforce" "rt_stage t2 = Walking (c # cs) (new_decision r)"
    "end_reserve x (t2\<lparr>rt_stage := y\<rparr>) = end_reserve x ?t0" "end_reserve x t2 = end_reserve x ?t0" for x y
    by (simp_all add: t2_def t1_def begin_reserve_def end_reserve_def)
  obtain wres where walk: "budget_walk d (rv_amount r) (c # cs) (new_decision r) = Some wres"
    using whole pending chain by (auto simp: try_reserve_def simp del: budget_walk.simps split: option.splits)
  have walk': "budget_walk d (rv_amount (rt_hold t2)) (c # cs) (new_decision r) = Some wres"
    using walk by (simp only: t2(1))
  have s1: "reserve_statement hash [] d ?t0 = Some (t1, d)"
    using Some by (simp add: reserve_statement_def t1_def begin_reserve_def budget_lock_def lock_is_free_def)
  have s2: "reserve_statement hash [] d t1 = Some (t2, d)"
    using chain by (simp add: reserve_statement_def t2_def t1_def begin_reserve_def)
  have "alone_reaches hash d t2 (reserve_outcome ?t0 d res)"
  proof (rule alone_walk [OF t2(3) walk'])
    fix e assume "wres = Inl e"
    then show "reserve_outcome ?t0 d res = (end_reserve (Inl e) t2, d)"
      using whole pending chain walk t2 by (simp add: try_reserve_def del: budget_walk.simps) (metis reserve_outcome.simps(1))
  next
    fix dec assume dec: "wres = Inr dec"
    show "alone_reaches hash d (t2\<lparr>rt_stage := Walking [] dec\<rparr>) (reserve_outcome ?t0 d res)"
      by (rule alone_decides)
        (use whole pending chain walk dec t2 in
          \<open>auto simp: try_reserve_def Let_def simp del: budget_walk.simps split: sum.splits if_splits\<close>)
  qed
  then show ?thesis using alone_step [OF s1] alone_step [OF s2] by blast
qed

section \<open>Settlement against expiry\<close>

text \<open>
  The rest of \<open>SettleReservation\<close> once it has read the hold's status. Its transaction takes the lock of
  the ledger, not the budget's, and it updates the hold by identifier alone.
\<close>

definition settle_tail ::
    "(string \<Rightarrow> string) \<Rightarrow> instant \<Rightarrow> string \<Rightarrow> entry \<Rightarrow> reservation_status \<Rightarrow> db \<Rightarrow> store_error + entry \<times> db" where
  "settle_tail sha now i e status d =
     (case append_ledger_tx sha now e d of
        Inl err \<Rightarrow> Inl err
      | Inr (sealed, d1) \<Rightarrow>
          (case insert_settlement \<lparr>st_reservation = i, st_seq = e_seq sealed, st_created = now\<rparr> d1 of
             Inl err \<Rightarrow> Inl err
           | Inr d2 \<Rightarrow>
               Inr (sealed,
                 if status = ReservationPending then set_status (\<lambda>q. rv_id q = i) ReservationSettled now d2 else d2)))"

lemma settle_reservation_tail:
  "find (\<lambda>s. st_reservation s = i) (d_settlements d) = None \<Longrightarrow> find_reservation d i = Some r \<Longrightarrow> e_run e = rv_run r \<Longrightarrow>
   rv_status r \<in> {ReservationPending, ReservationExpired} \<Longrightarrow>
   settle_reservation sha now i e d = settle_tail sha now i e (rv_status r) d"
  by (auto simp: settle_reservation_def settle_tail_def split: sum.splits)

section \<open>Properties of concurrent reservations\<close>


text \<open>A transaction alone is a run of the interleaving.\<close>

lemma statement_alone:
  assumes "reserve_statement hash [] d t = Some (t', d')" "rt_stage t = Begun \<longrightarrow> rt_lock t = None"
  shows "reserve_statement hash [t] d t = Some (t', d') \<and> (rt_stage t' = Begun \<longrightarrow> rt_lock t' = None)"
  using assms
  by (auto simp: reserve_statement_def Let_def lock_is_free_def end_reserve_def
      simp del: budget_walk.simps split: reserve_stage.splits list.splits option.splits sum.splits if_splits)

lemma alone_isolated:
  "isolation_run hash sha d0 d [t] \<Longrightarrow> (rt_stage t = Begun \<longrightarrow> rt_lock t = None) \<Longrightarrow>
   reserve_alone hash n d t = (t', d') \<Longrightarrow> isolation_run hash sha d0 d' [t']"
proof (induction n arbitrary: d t)
  case (Suc n)
  show ?case
  proof (cases "reserve_statement hash [] d t")
    case (Some out)
    obtain u e where u: "reserve_statement hash [] d t = Some (u, e)" using Some by (cases out) simp
    note alone = statement_alone [OF u Suc.prems(2)]
    have "isolation_run hash sha d0 e [u]"
      using iso_statement [OF Suc.prems(1), of 0 u e] alone by simp
    then show ?thesis using Suc.IH [of e u] Suc.prems(3) u alone by simp
  qed (use Suc.prems in simp)
qed simp

lemma sample_begun: "isolation_run hash sha sample_db sample_db [begin_reserve (sample_reservation 50) True]"
  using iso_begin [OF iso_start, of "sample_reservation 50" hash sha sample_db True] by (simp add: sample_reservation_def)


text \<open>
  A hold is inserted only below active runs: when a \<open>TryReserve\<close> transaction has decided and not yet
  committed, the run of its hold and every ancestor of it are still active, whatever was committed since
  they were read.
\<close>

theorem decided_line_is_active:
  assumes "reachable sha enforced_op d0" "isolation_run hash sha d0 d txs" "t \<in> set txs" "rt_stage t = Decided dec"
  shows "\<exists>chain. ancestors (d_runs d) (rv_run (rt_hold t)) = Some chain \<and> chain \<noteq> [] \<and>
    list_all (\<lambda>q. run_status q = RunActive) chain"
proof -
  have inv: "rows_ok sha d" "tx_ok hash d t" using reachable_isolation [OF assms(1,2)] assms(3) by (simp_all add: iso_inv_def)
  have wf: "runs_wf (d_runs d)" using inv(1) by (simp add: rows_ok_def)
  obtain k where "budget_lock hash d (rv_run (rt_hold t)) = Some k"
    using inv(2) assms(4) by (auto simp: tx_ok_def holds_lock_def)
  then have exists: "rv_run (rt_hold t) \<in> run_id ` set (d_runs d)"
    by (rule budget_lock_exists [OF _ wf])
  obtain chain where chain: "ancestors (d_runs d) (rv_run (rt_hold t)) = Some chain" using ancestors_total [OF wf] by blast
  note set = ancestors_set [OF wf chain exists]
  have "chain \<noteq> []" using set(1) [of "rv_run (rt_hold t)"] by auto
  moreover have "q \<in> line_of d (rt_hold t)" if "q \<in> set chain" for q using set that by (auto simp: line_of_def)
  then have "list_all (\<lambda>q. run_status q = RunActive) chain"
    using inv(2) assms(4) by (auto simp: tx_ok_def covered_def list_all_iff)
  ultimately show ?thesis using chain by blast
qed

lemma sample_decides:
  "\<exists>dec. reserve_alone (\<lambda>s. 0) 5 sample_db (begin_reserve (sample_reservation 50) True) =
     (\<lparr>rt_hold = sample_reservation 50, rt_enforce = True, rt_lock = Some 0, rt_stage = Decided dec\<rparr>, sample_db)"
  by (simp add: eval_nat_numeral reserve_statement_def begin_reserve_def budget_lock_def principal_lock_def lock_is_free_def
      sample_db_def sample_reservation_def sample_run_def ancestors_def find_run_def
      new_decision_def subtree_usage_def subtree_def children_of_def costs_in_def holds_in_def sql_sum_def in_i64_def
      max_i64_def min_i64_def note_block_def Let_def remaining_of_def i64_def lease_check_def)

theorem decided_line_is_active_witness:
  "\<exists>chain. ancestors (d_runs sample_db) ''run_b'' = Some chain \<and> chain \<noteq> [] \<and> list_all (\<lambda>q. run_status q = RunActive) chain"
proof -
  let ?t = "begin_reserve (sample_reservation 50) True"
  obtain dec where "reserve_alone (\<lambda>s. 0) 5 sample_db ?t =
     (\<lparr>rt_hold = sample_reservation 50, rt_enforce = True, rt_lock = Some 0, rt_stage = Decided dec\<rparr>, sample_db)"
    using sample_decides by blast
  from alone_isolated [OF sample_begun _ this] show ?thesis
    using decided_line_is_active [OF sample_db_reachable, of "\<lambda>s. 0"] by (fastforce simp: begin_reserve_def sample_reservation_def)
qed

text \<open>
  C21. The statements make up the operation: a pending hold's transaction that nothing interrupts ends, and with
  exactly the answer and the database that \<open>TryReserve\<close> as one atomic operation gives.
\<close>

theorem undisturbed_reservation_is_try_reserve:
  assumes "rv_status r = ReservationPending" "try_reserve r enforce d = Some res"
  shows "\<exists>n. reserve_alone hash n d (begin_reserve r enforce) =
    (case res of Inl e \<Rightarrow> (end_reserve (Inl e) (begin_reserve r enforce), d)
     | Inr (dec, d') \<Rightarrow> (end_reserve (Inr dec) (begin_reserve r enforce), d'))"
proof -
  have "reserve_outcome t d res = (case res of Inl e \<Rightarrow> (end_reserve (Inl e) t, d) | Inr (dec, d') \<Rightarrow> (end_reserve (Inr dec) t, d'))" for t
    by (cases res) (auto split: prod.splits)
  then show ?thesis using alone_reserves [OF assms(2,1)] by (simp add: alone_reaches_def)
qed

theorem undisturbed_reservation_is_try_reserve_witness:
  "\<exists>n. snd (reserve_alone (\<lambda>s. 0) n sample_db (begin_reserve (sample_reservation 50) True)) = held_db"
proof -
  have "rv_status (sample_reservation 50) = ReservationPending" by (simp add: sample_reservation_def)
  from undisturbed_reservation_is_try_reserve [OF this sample_try_reserve] show ?thesis
    by (simp add: held_db_def) (metis snd_conv)
qed

section \<open>An expiry between the statements of a settlement\<close>

definition late_reservation :: reservation where
  "late_reservation = sample_reservation 50\<lparr>rv_id := ''rsv_b''\<rparr>"

text \<open>
  Two processes on PostgreSQL: one settles a hold and has read it as pending, the other expires the hold
  and grants its room to a new one. The settlement's last update does not ask for a pending row, so
  it turns the expired hold into a settled one, and the run has spent and holds more than its budget
  with no overrun that would account for it.
\<close>

theorem settlement_revives_expired_hold:
  "\<exists>d1 d2 sealed d3. find_reservation held_db ''rsv_a'' = Some (sample_reservation 50) \<and>
     store_step sample_sha held_db (OpExpire 5) d1 \<and>
     store_step sample_sha d1 (OpTryReserve late_reservation True) d2 \<and>
     settle_tail sample_sha 7 ''rsv_a'' (sample_charge 40) ReservationPending d2 = Inr (sealed, d3) \<and>
     map rv_status (d_reservations d3) = [ReservationSettled, ReservationPending] \<and>
     spent_in d3 ''run_b'' = 40 \<and> held_in d3 ''run_b'' = 50 \<and> overrun_in d3 ''run_b'' = 0 \<and>
     sample_run ''run_b'' ''run_a'' 60 \<in> set (d_runs d3)"
proof -
  define gone where "gone = (sample_reservation 50)\<lparr>rv_status := ReservationExpired, rv_resolved := Some 5\<rparr>"
  define d1 where "d1 = held_db\<lparr>d_reservations := [gone]\<rparr>"
  define d2 where "d2 = held_db\<lparr>d_reservations := [gone, late_reservation]\<rparr>"
  have find: "find_reservation held_db ''rsv_a'' = Some (sample_reservation 50)"
    by (simp add: held_db_def find_reservation_def sample_reservation_def)
  have "expire_pending_reservations 5 held_db = (1, d1)"
    by (simp add: expire_pending_reservations_def expirable_def set_status_def d1_def gone_def held_db_def
        sample_reservation_def time_le_def)
  then have s1: "store_step sample_sha held_db (OpExpire 5) d1" by (rule step_expire)
  have "\<exists>dec. try_reserve late_reservation True d1 = Some (Inr (dec, d2))"
    by (simp add: try_reserve_def d1_def d2_def gone_def late_reservation_def held_db_def sample_db_def
      sample_reservation_def sample_run_def ancestors_def find_run_def
      new_decision_def subtree_usage_def subtree_def children_of_def costs_in_def holds_in_def sql_sum_def in_i64_def
      max_i64_def min_i64_def note_block_def Let_def remaining_of_def i64_def lease_check_def create_reservation_def
      insert_reservation_def find_reservation_def)
  then have s2: "store_step sample_sha d1 (OpTryReserve late_reservation True) d2" using step_try_reserve by blast
  have "\<exists>sealed d3. settle_tail sample_sha 7 ''rsv_a'' (sample_charge 40) ReservationPending d2 = Inr (sealed, d3) \<and>
     map rv_status (d_reservations d3) = [ReservationSettled, ReservationPending] \<and>
     spent_in d3 ''run_b'' = 40 \<and> held_in d3 ''run_b'' = 50 \<and> overrun_in d3 ''run_b'' = 0 \<and>
     sample_run ''run_b'' ''run_a'' 60 \<in> set (d_runs d3)"
    by (simp add: settle_tail_def d2_def held_db_def sample_db_def find_reservation_def sample_reservation_def gone_def
      late_reservation_def append_ledger_tx_def Let_def sample_charge_def time_is_zero_def entry_validate_def hash_version_usage_def
      hash_version_legacy_def itemized_usage_def token_usage_zero ledger_head_def seal_entry_def canonical_json_def
      normalized_def insert_entry_def find_run_def find_principal_def sample_run_def sample_principal_def
      insert_settlement_def current_hash_version_def set_status_def spent_in_def held_in_def overrun_in_def
      costs_in_def holds_in_def subtree_ids_def subtree_def children_of_def settlement_overrun_def uncovered_def i64_def)
  then show ?thesis using find s1 s2 by (intro exI [of _ d1] exI [of _ d2]) simp
qed

end
