(* ===== verification/Estimation.thy ===== *)
theory Estimation
  imports Pricing Telemetry
begin

text \<open>
  The token estimate of a text (\<open>internal/pricing/estimate.go\<close>): the runes of the text are counted, those of
  dense scripts apart, and the two counts are turned into tokens with a float64 product. A string is a list of
  bytes, which \<open>range\<close> decodes as UTF-8; a byte that starts no valid sequence is U+FFFD.
\<close>

section \<open>Runes\<close>

definition trailing :: "nat \<Rightarrow> bool" where
  "trailing b \<longleftrightarrow> 128 \<le> b \<and> b \<le> 191"

text \<open>The second byte, narrowed after the first bytes that could give an overlong form or a surrogate.\<close>

definition second_byte :: "nat \<Rightarrow> nat \<Rightarrow> bool" where
  "second_byte b c \<longleftrightarrow>
     (if b = 224 then 160 \<le> c \<and> c \<le> 191
      else if b = 237 then 128 \<le> c \<and> c \<le> 159
      else if b = 240 then 144 \<le> c \<and> c \<le> 191
      else if b = 244 then 128 \<le> c \<and> c \<le> 143
      else trailing c)"

fun decode_rune :: "nat \<Rightarrow> nat list \<Rightarrow> nat \<times> nat list" where
  "decode_rune b bs =
     (if b < 128 then (b, bs)
      else if 194 \<le> b \<and> b \<le> 223 then
        (case bs of
           c # r \<Rightarrow> if trailing c then ((b - 192) * 64 + (c - 128), r) else (65533, bs)
         | _ \<Rightarrow> (65533, bs))
      else if 224 \<le> b \<and> b \<le> 239 then
        (case bs of
           c # e # r \<Rightarrow>
             if second_byte b c \<and> trailing e
             then ((b - 224) * 4096 + (c - 128) * 64 + (e - 128), r) else (65533, bs)
         | _ \<Rightarrow> (65533, bs))
      else if 240 \<le> b \<and> b \<le> 244 then
        (case bs of
           c # e # f # r \<Rightarrow>
             if second_byte b c \<and> trailing e \<and> trailing f
             then ((b - 240) * 262144 + (c - 128) * 4096 + (e - 128) * 64 + (f - 128), r) else (65533, bs)
         | _ \<Rightarrow> (65533, bs))
      else (65533, bs))"

lemma decode_rune_shrinks: "length (snd (decode_rune b bs)) \<le> length bs"
  by (auto split: list.split)

function runes_of :: "nat list \<Rightarrow> nat list" where
  "runes_of [] = []"
| "runes_of (b # bs) = fst (decode_rune b bs) # runes_of (snd (decode_rune b bs))"
  by pat_completeness auto
termination
  by (relation "measure length") (simp_all add: decode_rune_shrinks less_Suc_eq_le del: decode_rune.simps)

definition runes :: "string \<Rightarrow> nat list" where
  "runes s = runes_of (map of_char s)"

text \<open>The tables of the \<open>unicode\<close> package for the five scripts, as inclusive ranges.\<close>

definition han :: "(nat \<times> nat) list" where
  "han = [(0x2E80, 0x2E99), (0x2E9B, 0x2EF3), (0x2F00, 0x2FD5), (0x3005, 0x3005), (0x3007, 0x3007),
     (0x3021, 0x3029), (0x3038, 0x303B), (0x3400, 0x4DBF), (0x4E00, 0x9FFF), (0xF900, 0xFA6D), (0xFA70, 0xFAD9),
     (0x16FE2, 0x16FE3), (0x16FF0, 0x16FF1), (0x20000, 0x2A6DF), (0x2A700, 0x2B739), (0x2B740, 0x2B81D),
     (0x2B820, 0x2CEA1), (0x2CEB0, 0x2EBE0), (0x2F800, 0x2FA1D), (0x30000, 0x3134A), (0x31350, 0x323AF)]"

definition hiragana :: "(nat \<times> nat) list" where
  "hiragana = [(0x3041, 0x3096), (0x309D, 0x309F), (0x1B001, 0x1B11F), (0x1B132, 0x1B132), (0x1B150, 0x1B152),
     (0x1F200, 0x1F200)]"

definition katakana :: "(nat \<times> nat) list" where
  "katakana = [(0x30A1, 0x30FA), (0x30FD, 0x30FF), (0x31F0, 0x31FF), (0x32D0, 0x32FE), (0x3300, 0x3357),
     (0xFF66, 0xFF6F), (0xFF71, 0xFF9D), (0x1AFF0, 0x1AFF3), (0x1AFF5, 0x1AFFB), (0x1AFFD, 0x1AFFE),
     (0x1B000, 0x1B000), (0x1B120, 0x1B122), (0x1B155, 0x1B155), (0x1B164, 0x1B167)]"

definition hangul :: "(nat \<times> nat) list" where
  "hangul = [(0x1100, 0x11FF), (0x302E, 0x302F), (0x3131, 0x318E), (0x3200, 0x321E), (0x3260, 0x327E),
     (0xA960, 0xA97C), (0xAC00, 0xD7A3), (0xD7B0, 0xD7C6), (0xD7CB, 0xD7FB), (0xFFA0, 0xFFBE), (0xFFC2, 0xFFC7),
     (0xFFCA, 0xFFCF), (0xFFD2, 0xFFD7), (0xFFDA, 0xFFDC)]"

definition thai :: "(nat \<times> nat) list" where
  "thai = [(0x0E01, 0x0E3A), (0x0E40, 0x0E5B)]"

definition in_table :: "(nat \<times> nat) list \<Rightarrow> nat \<Rightarrow> bool" where
  "in_table t r \<longleftrightarrow> list_ex (\<lambda>(lo, hi). lo \<le> r \<and> r \<le> hi) t"

definition is_dense_script :: "nat \<Rightarrow> bool" where
  "is_dense_script r \<longleftrightarrow>
     in_table han r \<or> in_table hiragana r \<or> in_table katakana r \<or> in_table hangul r \<or> in_table thai r"

section \<open>The estimate\<close>

record estimator =
  es_chars_per_token :: int
  es_dense_factor :: rat

record token_estimate =
  te_tokens :: int
  te_approximate :: bool
  te_method :: string

definition default_dense_factor :: rat where "default_dense_factor = 4"

text \<open>The conversion of a float64 to int64, in range, drops the fraction.\<close>

definition truncated :: "rat \<Rightarrow> int" where
  "truncated q = (if q < 0 then - \<lfloor>- q\<rfloor> else \<lfloor>q\<rfloor>)"

definition estimate :: "estimator \<Rightarrow> string \<Rightarrow> token_estimate" where
  "estimate e text =
     (if text = [] then \<lparr>te_tokens = 0, te_approximate = True, te_method = ''chars/4''\<rparr>
      else (let per = (if es_chars_per_token e \<le> 0 then default_chars_per_token else es_chars_per_token e);
                factor = (if es_dense_factor e \<le> 0 then default_dense_factor else es_dense_factor e);
                dense = int (length (filter is_dense_script (runes text)));
                plain = int (length (filter (\<lambda>r. \<not> is_dense_script r) (runes text)));
                whole = go_div (i64 (i64 (plain + per) - 1)) per;
                weighted = float64 (float64 (float64 (of_int dense) * factor) / float64 (of_int per));
                tokens = i64 (whole + truncated weighted)
            in \<lparr>te_tokens = (if tokens < 1 \<and> 0 < length (runes text) then 1 else tokens),
                te_approximate = True, te_method = ''chars/4''\<rparr>))"

definition estimate_tokens :: "string \<Rightarrow> token_estimate" where
  "estimate_tokens text = estimate \<lparr>es_chars_per_token = 0, es_dense_factor = 0\<rparr> text"

section \<open>Counts below 2^53 are exact\<close>

lemma binary_digits_bound: "0 \<le> n \<Longrightarrow> n < 2 ^ k \<Longrightarrow> binary_digits n \<le> int k"
proof (induction n arbitrary: k rule: binary_digits.induct)
  case (1 n)
  show ?case
  proof (cases "n = 0")
    case False
    then obtain j where j: "k = Suc j" using 1 by (cases k) auto
    then have "n div 2 < 2 ^ j" using 1 by auto
    then show ?thesis using 1 False j by (subst binary_digits.simps) auto
  qed (simp add: binary_digits.simps)
qed

lemma nearest_int_of_int [simp]: "nearest_int (of_int n) = n"
  by (simp add: nearest_int_def)

lemma float64_count:
  assumes "0 \<le> n" "n < 2 ^ 53"
  shows "float64 (of_int n) = of_int n"
proof (cases "n = 0")
  case False
  have one: "binary_digits 1 = 1" by (simp add: binary_digits.simps)
  have "quotient_of (of_int n) = (n, 1)" by (simp add: quotient_of_int)
  then have "exponent_of (of_int n) \<le> 52"
    using binary_digits_bound [of n 53] assms by (simp add: exponent_of_def one Let_def)
  then obtain k where k: "exponent_of (of_int n) - 52 = - int k" by (metis diff_le_0_iff_le nonpos_int_cases)
  have unit: "two_to (exponent_of (of_int n) - 52) = 1 / 2 ^ k" unfolding k by (simp add: two_to_def)
  have "nearest_int (of_int n * 2 ^ k) = n * 2 ^ k" using nearest_int_of_int [of "n * 2 ^ k"] by simp
  then show ?thesis using False assms(1) by (simp add: float64_def Let_def unit sgn_if)
qed (simp add: float64_def)

lemma filter_lengths: "length (filter P xs) + length (filter (\<lambda>x. \<not> P x) xs) = length xs"
  by (rule sum_length_filter_compl)

lemma runes_of_length: "length (runes_of bs) \<le> length bs"
proof (induction bs rule: runes_of.induct)
  case (2 b bs)
  then show ?case using decode_rune_shrinks [of b bs] by (simp del: decode_rune.simps)
qed simp

lemma runes_length: "length (runes s) \<le> length s"
  using runes_of_length [of "map of_char s"] by (simp add: runes_def)

lemma runes_nonempty: "s \<noteq> [] \<Longrightarrow> runes s \<noteq> []"
  by (cases s) (simp_all add: runes_def)

section \<open>Properties of the estimate\<close>

text \<open>
  C35. Texts are never under-counted: for a text of at most 2^50 bytes the default estimate is a quarter of the
  characters outside the dense scripts, rounded up, plus one token for every dense character; it is at least
  what \<open>EstimateFromChars\<close> gives for the number of characters, and at least one unless the text is empty.
\<close>

theorem estimate_never_under_counts:
  assumes "length text \<le> 2 ^ 50"
  shows "te_tokens (estimate_tokens text) =
      (int (length (filter (\<lambda>r. \<not> is_dense_script r) (runes text))) + 3) div 4
        + int (length (filter is_dense_script (runes text))) \<and>
    estimate_from_chars (int (length (runes text))) \<le> te_tokens (estimate_tokens text) \<and>
    (text = [] \<or> 1 \<le> te_tokens (estimate_tokens text))"
proof (cases "text = []")
  case True
  then show ?thesis by (simp add: estimate_tokens_def estimate_def runes_def estimate_from_chars_def)
next
  case False
  define dense where "dense = int (length (filter is_dense_script (runes text)))"
  define plain where "plain = int (length (filter (\<lambda>r. \<not> is_dense_script r) (runes text)))"
  have total: "dense + plain = int (length (runes text))"
    using filter_lengths [of is_dense_script "runes text"] by (simp add: dense_def plain_def)
  have bounds: "0 \<le> dense" "0 \<le> plain" "dense + plain \<le> 2 ^ 50" "1 \<le> dense + plain"
    using total runes_length [of "text"] assms runes_nonempty [OF False] by (auto simp: dense_def plain_def Suc_le_eq)
  have prod: "float64 (of_int dense) * 4 = of_int (dense * 4)" using float64_count [of dense] bounds by simp
  have "float64 (float64 (float64 (of_int dense) * default_dense_factor) / float64 (of_int default_chars_per_token)) = of_int dense"
    using float64_count [of "dense * 4"] float64_count [of dense] float64_count [of 4] bounds
    by (simp add: default_dense_factor_def default_chars_per_token_def prod)
  then have weighted: "truncated (float64 (float64 (float64 (of_int dense) * default_dense_factor) / float64 (of_int default_chars_per_token))) = dense"
    using bounds by (simp add: truncated_def)
  have div4: "go_div (i64 (i64 (n + 4) - 1)) 4 = (n + 3) div 4" if "0 \<le> n" "n \<le> 2 ^ 50" for n
    using that by (simp add: i64_def go_div_def)
  have small: "0 \<le> (plain + 3) div 4" "(plain + 3) div 4 \<le> 2 ^ 50" using bounds by simp_all
  have least: "1 \<le> (plain + 3) div 4 + dense" using bounds by linarith
  have "te_tokens (estimate_tokens text) = (plain + 3) div 4 + dense"
    using False bounds small least weighted div4 [of plain]
    by (simp add: estimate_tokens_def estimate_def Let_def default_chars_per_token_def
        flip: dense_def plain_def) (simp add: i64_def)
  moreover have "1 \<le> (dense + plain + 3) div 4" "(dense + plain + 3) div 4 \<le> (plain + 3) div 4 + dense"
    using bounds by linarith+
  then have "estimate_from_chars (dense + plain) \<le> (plain + 3) div 4 + dense"
    using bounds div4 [of "dense + plain"] by (simp add: estimate_from_chars_def default_chars_per_token_def Let_def)
  ultimately show ?thesis using least by (simp flip: total dense_def plain_def)
qed

theorem estimate_never_under_counts_witness:
  "te_tokens (estimate_tokens [CHR 0xE6, CHR 0x97, CHR 0xA5, CHR ''a'']) = 2"
proof -
  have "runes [CHR 0xE6, CHR 0x97, CHR 0xA5, CHR ''a''] = [0x65E5, 97]"
    by (simp add: runes_def second_byte_def trailing_def)
  then show ?thesis
    using estimate_never_under_counts [of "[CHR 0xE6, CHR 0x97, CHR 0xA5, CHR ''a'']"]
    by (simp add: is_dense_script_def in_table_def han_def hiragana_def katakana_def hangul_def thai_def)
qed

end
