(* ===== verification/Flags.thy ===== *)
theory Flags
  imports Telemetry
begin

text \<open>
  What the command line (\<open>cmd/spendlease\<close>) uses of Go's \<open>flag\<close>, \<open>strconv\<close> and \<open>time\<close> packages: flag
  sets, and the texts of booleans, integers with a base prefix and durations.
\<close>

section \<open>Values in flags\<close>

definition parse_bool :: "string \<Rightarrow> bool option" where
  "parse_bool s =
     (if s \<in> {''1'', ''t'', ''T'', ''true'', ''TRUE'', ''True''} then Some True
      else if s \<in> {''0'', ''f'', ''F'', ''false'', ''FALSE'', ''False''} then Some False else None)"

text \<open>
  \<open>strconv.ParseInt(s, 0, 64)\<close>: the base is read off the prefix, and underscores may separate digits.
\<close>

definition digit_in :: "char \<Rightarrow> int option" where
  "digit_in c =
     (if is_digit c then Some (int (digit_val c))
      else if in_range (CHR ''a'') (CHR ''z'') c then Some (of_char c - 87)
      else if in_range (CHR ''A'') (CHR ''Z'') c then Some (of_char c - 55) else None)"

fun int_base :: "string \<Rightarrow> int \<times> string" where
  "int_base (z # b # d # s) =
     (if z \<noteq> CHR ''0'' then (10, z # b # d # s)
      else if b \<in> {CHR ''b'', CHR ''B''} then (2, d # s)
      else if b \<in> {CHR ''o'', CHR ''O''} then (8, d # s)
      else if b \<in> {CHR ''x'', CHR ''X''} then (16, d # s)
      else (8, b # d # s))"
| "int_base (z # s) = (if z = CHR ''0'' then (8, s) else (10, z # s))"
| "int_base [] = (10, [])"

fun digits_in_base :: "int \<Rightarrow> int \<Rightarrow> string \<Rightarrow> int option" where
  "digits_in_base base acc [] = Some acc"
| "digits_in_base base acc (c # s) =
     (if c = CHR ''_'' then digits_in_base base acc s
      else (case digit_in c of
          None \<Rightarrow> None
        | Some d \<Rightarrow> if base \<le> d then None else digits_in_base base (base * acc + d) s))"

text \<open>\<open>seen\<close> is whether the last byte was a digit (or the prefix), an underscore or anything else.\<close>

datatype last_seen = SeenDigit | SeenUnderscore | SeenOther

fun underscores_ok :: "bool \<Rightarrow> last_seen \<Rightarrow> string \<Rightarrow> bool" where
  "underscores_ok hex seen [] \<longleftrightarrow> seen \<noteq> SeenUnderscore"
| "underscores_ok hex seen (c # s) \<longleftrightarrow>
     (if is_digit c \<or> hex \<and> (in_range (CHR ''a'') (CHR ''f'') c \<or> in_range (CHR ''A'') (CHR ''F'') c)
      then underscores_ok hex SeenDigit s
      else if c = CHR ''_'' then seen = SeenDigit \<and> underscores_ok hex SeenUnderscore s
      else seen \<noteq> SeenUnderscore \<and> underscores_ok hex SeenOther s)"

definition prefixed :: "string \<Rightarrow> bool" where
  "prefixed s =
     (case s of z # b # _ \<Rightarrow> z = CHR ''0'' \<and> b \<in> {CHR ''b'', CHR ''B'', CHR ''o'', CHR ''O'', CHR ''x'', CHR ''X''} | _ \<Rightarrow> False)"

definition parse_uint_any :: "string \<Rightarrow> int option" where
  "parse_uint_any s =
     (if s = [] then None
      else (case int_base s of (base, ds) \<Rightarrow>
        (case digits_in_base base 0 ds of
           None \<Rightarrow> None
         | Some n \<Rightarrow>
             if CHR ''_'' \<in> set ds \<and>
               \<not> (if prefixed s then underscores_ok (s ! 1 \<in> {CHR ''x'', CHR ''X''}) SeenDigit (drop 2 s)
                  else underscores_ok False SeenOther s)
             then None else Some n)))"

definition parse_int_any :: "string \<Rightarrow> int option" where
  "parse_int_any s =
     (case (if has_prefix s ''-'' \<or> has_prefix s ''+'' then parse_uint_any (tl s) else parse_uint_any s) of
        None \<Rightarrow> None
      | Some n \<Rightarrow>
          (let v = (if has_prefix s ''-'' then - n else n) in if in_i64 v then Some v else None))"

section \<open>Durations\<close>

text \<open>\<open>time.ParseDuration\<close>, with its overflow checks; the fraction of a unit goes through float64.\<close>

definition two63 :: int where "two63 = 9223372036854775808"

fun leading_int :: "int \<Rightarrow> string \<Rightarrow> (int \<times> string) option" where
  "leading_int x [] = Some (x, [])"
| "leading_int x (c # s) =
     (if \<not> is_digit c then Some (x, c # s)
      else if two63 div 10 < x then None
      else (let y = 10 * x + int (digit_val c) in if two63 < y then None else leading_int y s))"

fun leading_fraction :: "int \<Rightarrow> int \<Rightarrow> bool \<Rightarrow> string \<Rightarrow> int \<times> int \<times> string" where
  "leading_fraction x scale full [] = (x, scale, [])"
| "leading_fraction x scale full (c # s) =
     (if \<not> is_digit c then (x, scale, c # s)
      else (let y = 10 * x + int (digit_val c)
            in if full \<or> (two63 - 1) div 10 < x \<or> two63 < y then leading_fraction x scale True s
               else leading_fraction y (10 * scale) False s))"

definition unit_of :: "string \<Rightarrow> int option" where
  "unit_of u =
     map_of [(''ns'', 1), (''us'', 1000), ([CHR 0xC2, CHR 0xB5, CHR ''s''], 1000), ([CHR 0xCE, CHR 0xBC, CHR ''s''], 1000),
       (''ms'', 1000000), (''s'', 1000000000), (''m'', 60000000000), (''h'', 3600000000000)] u"

definition unit_char :: "char \<Rightarrow> bool" where
  "unit_char c \<longleftrightarrow> c \<noteq> CHR ''.'' \<and> \<not> is_digit c"

text \<open>One number with its unit: the nanoseconds it adds and the rest of the text.\<close>

definition duration_part :: "string \<Rightarrow> (int \<times> string) option" where
  "duration_part s =
     (case leading_int 0 s of
        None \<Rightarrow> None
      | Some (v, s1) \<Rightarrow>
          (let dotted = has_prefix s1 ''.'';
               (f, scale, s2) = (if dotted then leading_fraction 0 1 False (tl s1) else (0, 1, s1));
               pre = length s1 \<noteq> length s;
               post = dotted \<and> length s2 \<noteq> length (tl s1);
               u = takeWhile unit_char s2; s3 = dropWhile unit_char s2
           in if \<not> pre \<and> \<not> post \<or> u = [] then None
              else (case unit_of u of
                  None \<Rightarrow> None
                | Some unit \<Rightarrow>
                    if two63 div unit < v then None
                    else (let w = v * unit + (if 0 < f
                            then floor (float64 (float64 (of_int f) * float64 (of_int unit / of_int scale))) else 0)
                          in if two63 < w then None else Some (w, s3)))))"

lemma leading_int_length: "leading_int x s = Some (v, rest) \<Longrightarrow> length rest \<le> length s"
  by (induction x s rule: leading_int.induct) (auto simp: Let_def split: if_splits)

lemma leading_fraction_length: "leading_fraction x scale full s = (f, e, rest) \<Longrightarrow> length rest \<le> length s"
  by (induction x scale full s rule: leading_fraction.induct) (auto simp: Let_def split: if_splits)

lemma duration_part_shorter: "duration_part s = Some (w, rest) \<Longrightarrow> length rest < length s"
proof -
  assume part: "duration_part s = Some (w, rest)"
  then obtain v s1 where v: "leading_int 0 s = Some (v, s1)" by (auto simp: duration_part_def split: option.splits)
  obtain f e s2 where f: "(if has_prefix s1 ''.'' then leading_fraction 0 1 False (tl s1) else (0, 1, s1)) = (f, e, s2)"
    by (metis prod_cases3)
  have "length s2 \<le> length s1"
    using f leading_fraction_length [of 0 1 False "tl s1"] by (fastforce split: if_splits)
  moreover have "takeWhile unit_char s2 \<noteq> []" "rest = dropWhile unit_char s2"
    using part v f by (auto simp: duration_part_def Let_def split: if_splits option.splits)
  moreover have "length s2 = length (takeWhile unit_char s2) + length (dropWhile unit_char s2)"
    by (metis length_append takeWhile_dropWhile_id)
  moreover have "length (takeWhile unit_char s2) \<noteq> 0" "length rest = length (dropWhile unit_char s2)"
    using calculation(2,3) by simp_all
  ultimately show ?thesis using leading_int_length [OF v] by linarith
qed

function duration_parts :: "int \<Rightarrow> string \<Rightarrow> int option" where
  "duration_parts d s =
     (if s = [] then Some d
      else if \<not> (is_digit (hd s) \<or> hd s = CHR ''.'') then None
      else (case duration_part s of
          None \<Rightarrow> None
        | Some (w, rest) \<Rightarrow> if two63 < d + w then None else duration_parts (d + w) rest))"
  by auto
termination by (relation "measure (length \<circ> snd)") (auto dest: duration_part_shorter)

declare duration_parts.simps [simp del]

definition parse_duration :: "string \<Rightarrow> int option" where
  "parse_duration s =
     (let neg = has_prefix s ''-'';
          s' = (if neg \<or> has_prefix s ''+'' then tl s else s)
      in if s' = ''0'' then Some 0
         else if s' = [] then None
         else (case duration_parts 0 s' of
             None \<Rightarrow> None
           | Some d \<Rightarrow> if neg then Some (- d) else if d = two63 then None else Some d))"

section \<open>Flag sets\<close>

datatype flag_value = FlagText string | FlagBool bool | FlagInt int | FlagDuration int

type_synonym flag_set = "(string, flag_value) go_map"

datatype flag_error = HelpWanted | BadSyntax string | NotDefined string | NeedsArgument string | BadValue string string

text \<open>Setting a flag: its kind is that of the value it has.\<close>

fun set_flag :: "flag_value \<Rightarrow> string \<Rightarrow> flag_value option" where
  "set_flag (FlagText _) v = Some (FlagText v)"
| "set_flag (FlagBool _) v = map_option FlagBool (parse_bool v)"
| "set_flag (FlagInt _) v = map_option FlagInt (parse_int_any v)"
| "set_flag (FlagDuration _) v = map_option FlagDuration (parse_duration v)"

fun is_bool_flag :: "flag_value \<Rightarrow> bool" where
  "is_bool_flag (FlagBool _) = True" | "is_bool_flag _ = False"

text \<open>\<open>FlagSet.Parse\<close>: the flags as set and the arguments left, in the order Go tests them.\<close>

function parse_flags :: "flag_set \<Rightarrow> string list \<Rightarrow> flag_error + (flag_set \<times> string list)" where
  "parse_flags fs [] = Inr (fs, [])"
| "parse_flags fs (s # args) =
     (if length s < 2 \<or> hd s \<noteq> CHR ''-'' then Inr (fs, s # args)
      else if s = ''--'' then Inr (fs, args)
      else (case cut CHR ''='' (drop (if s ! 1 = CHR ''-'' then 2 else 1) s) of (name, value, valued) \<Rightarrow>
        if name = [] \<or> hd name = CHR ''-'' then Inl (BadSyntax s)
        else (case map_of fs name of
            None \<Rightarrow> if name = ''help'' \<or> name = ''h'' then Inl HelpWanted else Inl (NotDefined name)
          | Some old \<Rightarrow>
              if is_bool_flag old \<or> valued then
                (case set_flag old (if valued then value else ''true'') of
                   None \<Rightarrow> Inl (BadValue name value)
                 | Some new \<Rightarrow> parse_flags (put_key name new fs) args)
              else (case args of
                  [] \<Rightarrow> Inl (NeedsArgument name)
                | v # rest \<Rightarrow>
                    (case set_flag old v of
                       None \<Rightarrow> Inl (BadValue name v)
                     | Some new \<Rightarrow> parse_flags (put_key name new fs) rest)))))"
  by pat_completeness auto
termination by (relation "measure (length \<circ> snd)") auto

text \<open>Reading a flag that is defined with the kind read.\<close>

definition text_flag :: "flag_set \<Rightarrow> string \<Rightarrow> string" where
  "text_flag fs name = (case map_of fs name of Some (FlagText v) \<Rightarrow> v | _ \<Rightarrow> [])"

definition bool_flag :: "flag_set \<Rightarrow> string \<Rightarrow> bool" where
  "bool_flag fs name = (case map_of fs name of Some (FlagBool b) \<Rightarrow> b | _ \<Rightarrow> False)"

definition number_flag :: "flag_set \<Rightarrow> string \<Rightarrow> int" where
  "number_flag fs name = (case map_of fs name of Some (FlagInt n) \<Rightarrow> n | Some (FlagDuration d) \<Rightarrow> d | _ \<Rightarrow> 0)"

end
