(* ===== verification/Operators.thy ===== *)
theory Operators
  imports Entities
begin

text \<open>
  The operators of the control plane (\<open>internal/operator/operator.go\<close>) and their two tables
  (\<open>internal/store/sqlite/operators.go\<close>, migration \<open>0005_operator_rbac.sql\<close>): roles, the changes to an
  identity with the guard on the last active admin, and the append-only audit trail. The bytes of
  identifiers and tokens are random, the digest is the argument \<open>sha\<close>.
\<close>

section \<open>Roles and tokens\<close>

datatype role = RoleViewer | RoleOperator | RoleAdmin | RoleOther string

fun role_valid :: "role \<Rightarrow> bool" where
  "role_valid (RoleOther _) = False"
| "role_valid _ = True"

fun role_rank :: "role \<Rightarrow> nat" where
  "role_rank RoleViewer = 1"
| "role_rank RoleOperator = 2"
| "role_rank RoleAdmin = 3"
| "role_rank (RoleOther _) = 0"

definition role_allows :: "role \<Rightarrow> role \<Rightarrow> bool" where
  "role_allows r required \<longleftrightarrow> role_rank required \<le> role_rank r"

text \<open>Roles are ordered by what they allow; unknown ones are all at the bottom, so the order is a preorder.\<close>

instantiation role :: preorder
begin

definition less_eq_role :: "role \<Rightarrow> role \<Rightarrow> bool" where
  "less_eq_role r s \<longleftrightarrow> role_rank r \<le> role_rank s"

definition less_role :: "role \<Rightarrow> role \<Rightarrow> bool" where
  "less_role r s \<longleftrightarrow> role_rank r < role_rank s"

instance
  by standard (auto simp: less_eq_role_def less_role_def)

end

lemma role_allows_le: "role_allows r required \<longleftrightarrow> required \<le> r"
  by (simp add: role_allows_def less_eq_role_def)

definition operator_token_prefix :: string where "operator_token_prefix = ''slo_''"
definition operator_id_prefix :: string where "operator_id_prefix = ''opr_''"
definition audit_id_prefix :: string where "audit_id_prefix = ''aud_''"

definition looks_like_token :: "string \<Rightarrow> bool" where
  "looks_like_token token = has_prefix token operator_token_prefix"

definition new_operator_id :: "nat list \<Rightarrow> string" where
  "new_operator_id random = operator_id_prefix @ base32 (take 16 random)"

definition new_audit_id :: "nat list \<Rightarrow> string" where
  "new_audit_id random = audit_id_prefix @ base32 (take 16 random)"

definition new_operator_token :: "(string \<Rightarrow> string) \<Rightarrow> nat list \<Rightarrow> string \<times> string" where
  "new_operator_token sha random = (let plain = operator_token_prefix @ base32 (take 32 random) in (plain, hash_secret sha plain))"

section \<open>Rows\<close>

record operator_row =
  op_id :: string
  op_name :: string
  op_token_hash :: string
  op_role :: role
  op_disabled :: "instant option"
  op_created :: instant
  op_updated :: instant

definition op_active :: "operator_row \<Rightarrow> bool" where
  "op_active op \<longleftrightarrow> op_disabled op = None"

datatype audit_phase = PhaseAttempt | PhaseResult | PhaseOther string

record audit_record =
  ar_id :: string
  ar_request :: string
  ar_actor :: string
  ar_actor_name :: string
  ar_role :: role
  ar_phase :: audit_phase
  ar_action :: string
  ar_resource :: string
  ar_remote :: string
  ar_status :: int
  ar_created :: instant

record audit_filter =
  af_actor :: string
  af_action :: string
  af_since :: instant
  af_limit :: int

record operator_db =
  od_operators :: "operator_row list"
  od_audit :: "audit_record list"

section \<open>Operations on identities\<close>

definition insert_operator :: "operator_row \<Rightarrow> operator_db \<Rightarrow> store_error + operator_db" where
  "insert_operator op d =
     (if \<exists>q \<in> set (od_operators d). op_id q = op_id op \<or> op_name q = op_name op \<or> op_token_hash q = op_token_hash op
      then Inl ErrConflict
      else Inr (d\<lparr>od_operators := od_operators d @ [op]\<rparr>))"

definition stored_operator :: "instant \<Rightarrow> operator_row \<Rightarrow> operator_row" where
  "stored_operator clock op =
     (let now = (if time_is_zero (op_created op) then clock else op_created op)
      in op\<lparr>op_name := trim_space (op_name op), op_created := now,
           op_updated := (if time_is_zero (op_updated op) then now else op_updated op)\<rparr>)"

definition create_operator :: "instant \<Rightarrow> operator_row \<Rightarrow> operator_db \<Rightarrow> store_error + operator_db" where
  "create_operator clock op d =
     (if trim_space (op_name op) = [] \<or> \<not> role_valid (op_role op) \<or> op_token_hash op = [] then Inl ErrConflict
      else insert_operator (stored_operator clock op) d)"

definition get_operator_by_token_hash :: "operator_db \<Rightarrow> string \<Rightarrow> store_error + operator_row" where
  "get_operator_by_token_hash d h =
     (case find (\<lambda>op. op_token_hash op = h) (od_operators d) of None \<Rightarrow> Inl ErrNotFound | Some op \<Rightarrow> Inr op)"

definition has_active_operators :: "operator_db \<Rightarrow> bool" where
  "has_active_operators d \<longleftrightarrow> 0 < length (filter op_active (od_operators d))"

definition list_operators :: "operator_db \<Rightarrow> operator_row list" where
  "list_operators d = sort_by (oldest_first op_created op_id) (od_operators d)"

definition require_another_admin :: "string \<Rightarrow> operator_db \<Rightarrow> store_error + unit" where
  "require_another_admin excluding d =
     (if length (filter (\<lambda>op. op_role op = RoleAdmin \<and> op_active op \<and> op_id op \<noteq> excluding) (od_operators d)) = 0
      then Inl ErrConflict else Inr ())"

text \<open>\<open>changeOperator\<close>: the current row is read in the transaction; an error rolls back.\<close>

definition change_operator ::
  "string \<Rightarrow> (operator_row \<Rightarrow> store_error + operator_db) \<Rightarrow> operator_db \<Rightarrow> store_error + operator_db" where
  "change_operator i change d =
     (case find (\<lambda>op. op_id op = i) (od_operators d) of None \<Rightarrow> Inl ErrNotFound | Some current \<Rightarrow> change current)"

definition update_operator ::
  "string \<Rightarrow> (operator_row \<Rightarrow> bool) \<Rightarrow> (operator_row \<Rightarrow> operator_row) \<Rightarrow> operator_db \<Rightarrow> store_error + operator_db" where
  "update_operator i only change d =
     (case require_affected (length (filter (\<lambda>op. op_id op = i \<and> only op) (od_operators d))) of
        Inl e \<Rightarrow> Inl e
      | Inr _ \<Rightarrow> Inr (d\<lparr>od_operators := map (\<lambda>op. if op_id op = i \<and> only op then change op else op) (od_operators d)\<rparr>))"

definition set_operator_role :: "string \<Rightarrow> role \<Rightarrow> instant \<Rightarrow> operator_db \<Rightarrow> store_error + operator_db" where
  "set_operator_role i r at_time d =
     (if \<not> role_valid r then Inl ErrConflict
      else change_operator i (\<lambda>current.
        case (if op_role current = RoleAdmin \<and> r \<noteq> RoleAdmin \<and> op_active current
              then require_another_admin i d else Inr ()) of
          Inl e \<Rightarrow> Inl e
        | Inr _ \<Rightarrow> update_operator i (\<lambda>_. True) (\<lambda>op. op\<lparr>op_role := r, op_updated := at_time\<rparr>) d) d)"

text \<open>The unique index on the token digest makes a collision a conflict.\<close>

definition rotate_operator_token :: "string \<Rightarrow> string \<Rightarrow> instant \<Rightarrow> operator_db \<Rightarrow> store_error + operator_db" where
  "rotate_operator_token i h at_time d =
     (if h = [] then Inl ErrConflict
      else change_operator i (\<lambda>current.
        if \<not> op_active current then Inl ErrConflict
        else if \<exists>q \<in> set (od_operators d). op_id q \<noteq> i \<and> op_token_hash q = h then Inl ErrConflict
        else update_operator i (\<lambda>_. True) (\<lambda>op. op\<lparr>op_token_hash := h, op_updated := at_time\<rparr>) d) d)"

definition disable_operator :: "string \<Rightarrow> instant \<Rightarrow> operator_db \<Rightarrow> store_error + operator_db" where
  "disable_operator i at_time d =
     change_operator i (\<lambda>current.
       if \<not> op_active current then Inr d
       else (case (if op_role current = RoleAdmin then require_another_admin i d else Inr ()) of
           Inl e \<Rightarrow> Inl e
         | Inr _ \<Rightarrow> update_operator i op_active (\<lambda>op. op\<lparr>op_disabled := Some at_time, op_updated := at_time\<rparr>) d)) d"

section \<open>The audit trail\<close>

text \<open>The CHECK constraints: a declared role and phase, a status that is not negative.\<close>

definition append_operator_audit :: "audit_record \<Rightarrow> operator_db \<Rightarrow> store_error + operator_db" where
  "append_operator_audit r d =
     (if \<not> role_valid (ar_role r) \<or> ar_id r = [] \<or> ar_request r = [] \<or> ar_action r = [] then Inl ErrConflict
      else if ar_phase r \<notin> {PhaseAttempt, PhaseResult} \<or> ar_status r < 0 then Inl ErrConflict
      else if \<exists>q \<in> set (od_audit d). ar_id q = ar_id r then Inl ErrConflict
      else Inr (d\<lparr>od_audit := od_audit d @ [r]\<rparr>))"

text \<open>\<open>ORDER BY created_at DESC, id DESC\<close>.\<close>

definition newest_audit :: "audit_record \<Rightarrow> audit_record \<Rightarrow> bool" where
  "newest_audit x y \<longleftrightarrow>
     format_time (ar_created y) < format_time (ar_created x) \<or>
     format_time (ar_created x) = format_time (ar_created y) \<and> ar_id y \<le> ar_id x"

interpretation newest_audit: comparison newest_audit
  by unfold_locales (auto simp: newest_audit_def)

definition audit_limit :: "int \<Rightarrow> nat" where
  "audit_limit limit = (if limit \<le> 0 \<or> 1000 < limit then 100 else nat limit)"

definition audit_matches :: "audit_filter \<Rightarrow> audit_record \<Rightarrow> bool" where
  "audit_matches f r \<longleftrightarrow>
     (af_actor f = [] \<or> ar_actor r = af_actor f) \<and> (af_action f = [] \<or> ar_action r = af_action f) \<and>
     (time_is_zero (af_since f) \<or> time_le (af_since f) (ar_created r))"

definition list_operator_audit :: "operator_db \<Rightarrow> audit_filter \<Rightarrow> audit_record list" where
  "list_operator_audit d f = take (audit_limit (af_limit f)) (sort_by newest_audit (filter (audit_matches f) (od_audit d)))"

section \<open>The steps of the operator tables\<close>

inductive operator_step :: "operator_db \<Rightarrow> operator_db \<Rightarrow> bool" where
  op_create: "create_operator clock op d = Inr d' \<Longrightarrow> operator_step d d'"
| op_role: "set_operator_role i r at_time d = Inr d' \<Longrightarrow> operator_step d d'"
| op_rotate: "rotate_operator_token i h at_time d = Inr d' \<Longrightarrow> operator_step d d'"
| op_disable: "disable_operator i at_time d = Inr d' \<Longrightarrow> operator_step d d'"
| op_audit: "append_operator_audit r d = Inr d' \<Longrightarrow> operator_step d d'"

definition active_admin :: "operator_row \<Rightarrow> bool" where
  "active_admin op \<longleftrightarrow> op_role op = RoleAdmin \<and> op_active op"

definition operators_unique :: "operator_db \<Rightarrow> bool" where
  "operators_unique d \<longleftrightarrow> distinct (map op_id (od_operators d)) \<and> distinct (map op_token_hash (od_operators d))"

lemma require_another_admin_iff:
  "require_another_admin i d = Inr u \<longleftrightarrow> (\<exists>op \<in> set (od_operators d). active_admin op \<and> op_id op \<noteq> i)"
  by (auto simp: require_another_admin_def active_admin_def filter_empty_conv)

lemma change_operator_ok:
  "change_operator i change d = Inr d' \<Longrightarrow> \<exists>cur. find (\<lambda>op. op_id op = i) (od_operators d) = Some cur \<and> change cur = Inr d'"
  by (auto simp: change_operator_def split: option.splits)

lemma update_operator_ok:
  "update_operator i only change d = Inr d' \<Longrightarrow>
     d' = d\<lparr>od_operators := map (\<lambda>op. if op_id op = i \<and> only op then change op else op) (od_operators d)\<rparr>"
  by (auto simp: update_operator_def split: sum.splits)

text \<open>Each change as a map over the rows, with what its guard established.\<close>

lemma set_operator_role_ok:
  assumes "set_operator_role i r at_time d = Inr d'"
  obtains cur where "find (\<lambda>op. op_id op = i) (od_operators d) = Some cur" "role_valid r"
    "d' = d\<lparr>od_operators := map (\<lambda>op. if op_id op = i then op\<lparr>op_role := r, op_updated := at_time\<rparr> else op) (od_operators d)\<rparr>"
    "active_admin cur \<Longrightarrow> r \<noteq> RoleAdmin \<Longrightarrow> \<exists>op \<in> set (od_operators d). active_admin op \<and> op_id op \<noteq> i"
  using assms
  by (auto simp: set_operator_role_def active_admin_def require_another_admin_iff
      dest!: change_operator_ok update_operator_ok split: if_splits sum.splits)

lemma rotate_operator_token_ok:
  assumes "rotate_operator_token i h at_time d = Inr d'"
  obtains cur where "find (\<lambda>op. op_id op = i) (od_operators d) = Some cur" "op_active cur" "h \<noteq> []"
    "\<forall>q \<in> set (od_operators d). op_id q = i \<or> op_token_hash q \<noteq> h"
    "d' = d\<lparr>od_operators := map (\<lambda>op. if op_id op = i then op\<lparr>op_token_hash := h, op_updated := at_time\<rparr> else op) (od_operators d)\<rparr>"
  using assms
  by (auto simp: rotate_operator_token_def dest!: change_operator_ok update_operator_ok split: if_splits)

lemma disable_operator_ok:
  assumes "disable_operator i at_time d = Inr d'"
  obtains (already) cur where "find (\<lambda>op. op_id op = i) (od_operators d) = Some cur" "\<not> op_active cur" "d' = d"
  | (disabled) cur where "find (\<lambda>op. op_id op = i) (od_operators d) = Some cur" "op_active cur"
    "d' = d\<lparr>od_operators := map (\<lambda>op. if op_id op = i \<and> op_active op
       then op\<lparr>op_disabled := Some at_time, op_updated := at_time\<rparr> else op) (od_operators d)\<rparr>"
    "active_admin cur \<Longrightarrow> \<exists>op \<in> set (od_operators d). active_admin op \<and> op_id op \<noteq> i"
  using assms
  by (auto simp: disable_operator_def active_admin_def require_another_admin_iff
      dest!: change_operator_ok update_operator_ok split: if_splits sum.splits)

lemma create_operator_ok:
  assumes "create_operator clock op d = Inr d'"
  shows "d' = d\<lparr>od_operators := od_operators d @ [stored_operator clock op]\<rparr> \<and> role_valid (op_role op) \<and>
    op_id op \<notin> op_id ` set (od_operators d) \<and> op_token_hash op \<notin> op_token_hash ` set (od_operators d)"
proof -
  have "insert_operator (stored_operator clock op) d = Inr d'" "role_valid (op_role op)"
    using assms by (auto simp: create_operator_def split: if_splits)
  moreover have "op_id (stored_operator clock op) = op_id op" "op_token_hash (stored_operator clock op) = op_token_hash op"
    by (simp_all add: stored_operator_def Let_def)
  ultimately show ?thesis by (auto simp: insert_operator_def split: if_splits)
qed

lemma append_audit_ok: "append_operator_audit r d = Inr d' \<Longrightarrow> d' = d\<lparr>od_audit := od_audit d @ [r]\<rparr>"
  by (auto simp: append_operator_audit_def split: if_splits)

section \<open>What every sequence of changes keeps\<close>

inductive operator_steps :: "operator_db \<Rightarrow> operator_db \<Rightarrow> bool" for d0 where
  steps_none: "operator_steps d0 d0"
| steps_more: "operator_steps d0 d \<Longrightarrow> operator_step d d' \<Longrightarrow> operator_steps d0 d'"

lemma unique_map:
  assumes "od_operators d' = map u (od_operators d)"
    and "\<And>op. op_id (u op) = op_id op \<and> op_token_hash (u op) = op_token_hash op" and "operators_unique d"
  shows "operators_unique d'"
  using assms by (simp add: operators_unique_def o_def)

lemma step_unique: "operator_step d d' \<Longrightarrow> operators_unique d \<Longrightarrow> operators_unique d'"
proof (induction rule: operator_step.induct)
  case (op_create clock op d d')
  have "op_id (stored_operator clock op) = op_id op" "op_token_hash (stored_operator clock op) = op_token_hash op"
    by (simp_all add: stored_operator_def Let_def)
  then show ?case using create_operator_ok [OF op_create(1)] op_create(2) by (auto simp: operators_unique_def)
next
  case (op_role i r at_time d d')
  let ?u = "\<lambda>op. if op_id op = i then op\<lparr>op_role := r, op_updated := at_time\<rparr> else op"
  have "od_operators d' = map ?u (od_operators d)" by (rule set_operator_role_ok [OF op_role(1)]) simp
  then show ?case by (rule unique_map) (use op_role(2) in simp_all)
next
  case (op_rotate i h at_time d d')
  from op_rotate(1) show ?case
  proof (rule rotate_operator_token_ok)
    assume other: "\<forall>q \<in> set (od_operators d). op_id q = i \<or> op_token_hash q \<noteq> h"
      and d': "d' = d\<lparr>od_operators := map (\<lambda>op. if op_id op = i then op\<lparr>op_token_hash := h, op_updated := at_time\<rparr> else op) (od_operators d)\<rparr>"
    have key: "distinct (map (\<lambda>op. if op_id op = i then h else op_token_hash op) ops)"
      if "distinct (map op_id ops)" "distinct (map op_token_hash ops)" "\<forall>q \<in> set ops. op_id q = i \<or> op_token_hash q \<noteq> h" for ops
      using that by (induction ops) (auto simp: image_iff split: if_splits)
    show ?case
      using key [of "od_operators d"] other op_rotate(2)
      by (simp add: d' operators_unique_def o_def if_distrib cong: if_cong)
  qed
next
  case (op_disable i at_time d d')
  let ?u = "\<lambda>op. if op_id op = i \<and> op_active op then op\<lparr>op_disabled := Some at_time, op_updated := at_time\<rparr> else op"
  from op_disable(1) show ?case
  proof (cases rule: disable_operator_ok)
    case (disabled cur)
    then have "od_operators d' = map ?u (od_operators d)" by simp
    then show ?thesis by (rule unique_map) (use op_disable(2) in simp_all)
  qed (use op_disable(2) in simp)
next
  case (op_audit r d d')
  then show ?case using append_audit_ok [OF op_audit(1)] by (simp add: operators_unique_def)
qed

abbreviation has_admin :: "operator_db \<Rightarrow> bool" where
  "has_admin d \<equiv> \<exists>op \<in> set (od_operators d). active_admin op"

text \<open>The row found by identifier is the only one with it.\<close>

lemma only_row:
  "operators_unique d \<Longrightarrow> find (\<lambda>op. op_id op = i) (od_operators d) = Some cur \<Longrightarrow> op \<in> set (od_operators d) \<Longrightarrow>
     op_id op = i \<Longrightarrow> op = cur"
  using find_distinct_key [of op_id "od_operators d" op] by (auto simp: operators_unique_def)

lemma step_keeps_admin: "operator_step d d' \<Longrightarrow> operators_unique d \<Longrightarrow> has_admin d \<Longrightarrow> has_admin d'"
proof (induction rule: operator_step.induct)
  case (op_create clock op d d')
  then show ?case using create_operator_ok [OF op_create(1)] by auto
next
  case (op_role i r at_time d d')
  obtain a where a: "a \<in> set (od_operators d)" "active_admin a" using op_role(3) by blast
  from op_role(1) show ?case
  proof (rule set_operator_role_ok)
    fix cur assume cur: "find (\<lambda>op. op_id op = i) (od_operators d) = Some cur"
      and d': "d' = d\<lparr>od_operators := map (\<lambda>op. if op_id op = i then op\<lparr>op_role := r, op_updated := at_time\<rparr> else op) (od_operators d)\<rparr>"
      and guard: "active_admin cur \<Longrightarrow> r \<noteq> RoleAdmin \<Longrightarrow> \<exists>op \<in> set (od_operators d). active_admin op \<and> op_id op \<noteq> i"
    have "\<exists>b \<in> set (od_operators d). active_admin b \<and> (op_id b \<noteq> i \<or> r = RoleAdmin)"
      using a guard only_row [OF op_role(2) cur a(1)] by blast
    then obtain b where b: "b \<in> set (od_operators d)" "active_admin b" "op_id b \<noteq> i \<or> r = RoleAdmin" by blast
    let ?u = "\<lambda>op. if op_id op = i then op\<lparr>op_role := r, op_updated := at_time\<rparr> else op"
    have "?u b \<in> set (od_operators d')" using b(1) by (simp add: d')
    moreover have "active_admin (?u b)" using b(2,3) by (auto simp: active_admin_def op_active_def)
    ultimately show ?case by blast
  qed
next
  case (op_rotate i h at_time d d')
  obtain a where a: "a \<in> set (od_operators d)" "active_admin a" using op_rotate(3) by blast
  let ?u = "\<lambda>op. if op_id op = i then op\<lparr>op_token_hash := h, op_updated := at_time\<rparr> else op"
  have "od_operators d' = map ?u (od_operators d)" by (rule rotate_operator_token_ok [OF op_rotate(1)]) simp
  then have "?u a \<in> set (od_operators d')" using a(1) by simp
  moreover have "active_admin (?u a)" using a(2) by (simp add: active_admin_def op_active_def)
  ultimately show ?case by blast
next
  case (op_disable i at_time d d')
  obtain a where a: "a \<in> set (od_operators d)" "active_admin a" using op_disable(3) by blast
  from op_disable(1) show ?case
  proof (cases rule: disable_operator_ok)
    case (already cur)
    then show ?thesis using op_disable(3) by simp
  next
    case (disabled cur)
    obtain b where b: "b \<in> set (od_operators d)" "active_admin b" "op_id b \<noteq> i"
      using a disabled(4) only_row [OF op_disable(2) disabled(1) a(1)] by blast
    let ?u = "\<lambda>op. if op_id op = i \<and> op_active op then op\<lparr>op_disabled := Some at_time, op_updated := at_time\<rparr> else op"
    have "?u b \<in> set (od_operators d')" unfolding disabled(3) using b(1) by simp
    then show ?thesis using b(2,3) by auto
  qed
next
  case (op_audit r d d')
  then show ?case using append_audit_ok [OF op_audit(1)] by simp
qed

lemma steps_unique: "operator_steps d0 d \<Longrightarrow> operators_unique d0 \<Longrightarrow> operators_unique d"
  by (induction rule: operator_steps.induct) (auto intro: step_unique)

text \<open>Rows are kept, and a disabled one for good with the token it had.\<close>

definition operators_kept :: "operator_db \<Rightarrow> operator_db \<Rightarrow> bool" where
  "operators_kept d d' \<longleftrightarrow> (\<forall>op \<in> set (od_operators d). \<exists>op' \<in> set (od_operators d').
     op_id op' = op_id op \<and> op_name op' = op_name op \<and>
     (\<not> op_active op \<longrightarrow> op_disabled op' = op_disabled op \<and> op_token_hash op' = op_token_hash op))"

lemma operators_kept_map:
  assumes "od_operators d' = map u (od_operators d)"
    and "\<And>op. op \<in> set (od_operators d) \<Longrightarrow> op_id (u op) = op_id op \<and> op_name (u op) = op_name op \<and>
      (\<not> op_active op \<longrightarrow> op_disabled (u op) = op_disabled op \<and> op_token_hash (u op) = op_token_hash op)"
  shows "operators_kept d d'"
  unfolding operators_kept_def assms(1) using assms(2) by auto

lemma operators_kept_refl: "od_operators d' = od_operators d \<Longrightarrow> operators_kept d d'"
  by (auto simp: operators_kept_def)

lemma operators_kept_trans: "operators_kept d1 d2 \<Longrightarrow> operators_kept d2 d3 \<Longrightarrow> operators_kept d1 d3"
  unfolding operators_kept_def op_active_def by metis

lemma step_history:
  "operator_step d d' \<Longrightarrow> operators_unique d \<Longrightarrow> operators_kept d d' \<and> (\<exists>new. od_audit d' = od_audit d @ new)"
proof (induction rule: operator_step.induct)
  case (op_create clock op d d')
  then show ?case using create_operator_ok [OF op_create(1)] by (auto simp: operators_kept_def)
next
  case (op_role i r at_time d d')
  let ?u = "\<lambda>op. if op_id op = i then op\<lparr>op_role := r, op_updated := at_time\<rparr> else op"
  have d': "d' = d\<lparr>od_operators := map ?u (od_operators d)\<rparr>" by (rule set_operator_role_ok [OF op_role(1)]) simp
  then have "operators_kept d d'" by (intro operators_kept_map [of _ ?u]) simp_all
  then show ?case by (simp add: d')
next
  case (op_rotate i h at_time d d')
  from op_rotate(1) show ?case
  proof (rule rotate_operator_token_ok)
    fix cur assume cur: "find (\<lambda>op. op_id op = i) (od_operators d) = Some cur" "op_active cur"
      and d': "d' = d\<lparr>od_operators := map (\<lambda>op. if op_id op = i then op\<lparr>op_token_hash := h, op_updated := at_time\<rparr> else op) (od_operators d)\<rparr>"
    have "op_active op" if "op \<in> set (od_operators d)" "op_id op = i" for op
      using only_row [OF op_rotate(2) cur(1) that] cur(2) by simp
    then have "operators_kept d d'"
      by (intro operators_kept_map [of _ "\<lambda>op. if op_id op = i then op\<lparr>op_token_hash := h, op_updated := at_time\<rparr> else op"])
        (auto simp: d')
    then show ?case by (simp add: d')
  qed
next
  case (op_disable i at_time d d')
  let ?u = "\<lambda>op. if op_id op = i \<and> op_active op then op\<lparr>op_disabled := Some at_time, op_updated := at_time\<rparr> else op"
  from op_disable(1) show ?case
  proof (cases rule: disable_operator_ok)
    case (disabled cur)
    then have "operators_kept d d'" by (intro operators_kept_map [of _ ?u]) simp_all
    then show ?thesis by (simp add: disabled(3))
  qed (simp add: operators_kept_refl)
next
  case (op_audit r d d')
  then show ?case using append_audit_ok [OF op_audit(1)] by (simp add: operators_kept_refl)
qed

definition sample_operator :: "string \<Rightarrow> operator_row" where
  "sample_operator i = \<lparr>op_id = i, op_name = i, op_token_hash = i, op_role = RoleAdmin, op_disabled = None,
     op_created = 1, op_updated = 1\<rparr>"

definition sample_operators :: operator_db where
  "sample_operators = \<lparr>od_operators = [sample_operator ''a'', sample_operator ''b''], od_audit = []\<rparr>"

definition one_disabled :: operator_db where
  "one_disabled = \<lparr>od_operators = [sample_operator ''a''\<lparr>op_disabled := Some 2, op_updated := 2\<rparr>, sample_operator ''b''], od_audit = []\<rparr>"

lemma sample_disable: "operator_steps sample_operators one_disabled"
proof -
  have "disable_operator ''a'' 2 sample_operators = Inr one_disabled"
    by (simp add: disable_operator_def change_operator_def sample_operators_def sample_operator_def op_active_def
        require_another_admin_def update_operator_def require_affected_def one_disabled_def)
  then show ?thesis by (rule steps_more [OF steps_none op_disable])
qed

lemma sample_operators_unique: "operators_unique sample_operators"
  by (simp add: operators_unique_def sample_operators_def sample_operator_def)

text \<open>
  C27. Administration is never locked out: starting from tables with an active admin, whatever sequence of
  creations, role changes, token rotations and revocations is accepted, there is still an active admin.
\<close>

theorem an_admin_remains:
  assumes "operator_steps d0 d" and "operators_unique d0" and "op0 \<in> set (od_operators d0)"
    and "op_role op0 = RoleAdmin" and "op_active op0"
  shows "\<exists>op \<in> set (od_operators d). op_role op = RoleAdmin \<and> op_active op"
proof -
  have start: "has_admin d0" using assms(3-5) by (auto simp: active_admin_def)
  from assms(1) have "has_admin d"
    by (induction rule: operator_steps.induct) (use start step_keeps_admin steps_unique assms(2) in blast)+
  then show ?thesis by (auto simp: active_admin_def)
qed

lemma an_admin_remains_witness: "\<exists>op \<in> set (od_operators one_disabled). op_role op = RoleAdmin \<and> op_active op"
  by (rule an_admin_remains [OF sample_disable sample_operators_unique, of "sample_operator ''a''"])
    (simp_all add: sample_operators_def sample_operator_def op_active_def)

text \<open>
  The operators' history is kept: no accepted sequence of changes removes or renames an identity,
  re-enables a revoked one or gives it another token, or changes or drops an audit record that was
  written.
\<close>

theorem operator_history_is_kept:
  assumes "operator_steps d0 d" and "operators_unique d0"
  shows "(\<exists>new. od_audit d = od_audit d0 @ new) \<and>
    (\<forall>op \<in> set (od_operators d0). \<exists>op' \<in> set (od_operators d). op_id op' = op_id op \<and> op_name op' = op_name op \<and>
       (\<not> op_active op \<longrightarrow> op_disabled op' = op_disabled op \<and> op_token_hash op' = op_token_hash op))"
proof -
  have "operators_kept d0 d \<and> (\<exists>new. od_audit d = od_audit d0 @ new)"
    using assms(1)
  proof (induction rule: operator_steps.induct)
    case (steps_more d d')
    have "operators_kept d d'" "\<exists>new. od_audit d' = od_audit d @ new"
      using step_history [OF steps_more(2) steps_unique [OF steps_more(1) assms(2)]] by simp_all
    then show ?case using steps_more(3) operators_kept_trans by fastforce
  qed (simp add: operators_kept_refl)
  then show ?thesis by (simp add: operators_kept_def)
qed

lemma operator_history_is_kept_witness:
  "(\<exists>new. od_audit one_disabled = od_audit sample_operators @ new) \<and>
    (\<exists>op' \<in> set (od_operators one_disabled). op_id op' = ''a'' \<and> op_name op' = ''a'')"
proof -
  have "sample_operator ''a'' \<in> set (od_operators sample_operators)" "op_id (sample_operator ''a'') = ''a''"
    "op_name (sample_operator ''a'') = ''a''"
    by (simp_all add: sample_operators_def sample_operator_def)
  then show ?thesis using operator_history_is_kept [OF sample_disable sample_operators_unique] by fastforce
qed

end
