(* ===== verification/Net.thy ===== *)
theory Net
  imports Http
begin

text \<open>
  The parts of \<open>net\<close>, \<open>net/http\<close>, \<open>strings\<close> and \<open>encoding/base64\<close> that decide whether a request is
  local and which credential it carries: \<open>SplitHostPort\<close>, \<open>ParseIP\<close> with \<open>IsLoopback\<close>, \<open>EqualFold\<close>
  against an ASCII string and \<open>Request.BasicAuth\<close>.
\<close>

section \<open>Folding and trimming\<close>

text \<open>
  \<open>EqualFold(s, t)\<close> for an ASCII \<open>t\<close>: besides the letters' cases, the long s (U+017F) and the Kelvin
  sign (U+212A) fold to ASCII letters.
\<close>

function ascii_fold :: "string \<Rightarrow> string" where
  "ascii_fold s =
     (if has_prefix s [CHR 0xC5, CHR 0xBF] then CHR ''s'' # ascii_fold (drop 2 s)
      else if has_prefix s [CHR 0xE2, CHR 0x84, CHR 0xAA] then CHR ''k'' # ascii_fold (drop 3 s)
      else (case s of [] \<Rightarrow> [] | c # rest \<Rightarrow> to_lower [c] @ ascii_fold rest))"
  by auto
termination by (relation "measure length") (auto simp: has_prefix_iff)

declare ascii_fold.simps [simp del]

definition equal_fold :: "string \<Rightarrow> string \<Rightarrow> bool" where
  "equal_fold s t \<longleftrightarrow> ascii_fold s = to_lower t"

text \<open>\<open>strings.Trim(s, cutset)\<close>.\<close>

definition trim_set :: "char set \<Rightarrow> string \<Rightarrow> string" where
  "trim_set cs s = rev (dropWhile (\<lambda>c. c \<in> cs) (rev (dropWhile (\<lambda>c. c \<in> cs) s)))"

section \<open>Host and port\<close>

text \<open>The text before and after the last occurrence of a byte.\<close>

definition cut_last :: "char \<Rightarrow> string \<Rightarrow> (string \<times> string) option" where
  "cut_last c s =
     (if c \<in> set s
      then Some (rev (tl (dropWhile (\<lambda>x. x \<noteq> c) (rev s))), rev (takeWhile (\<lambda>x. x \<noteq> c) (rev s)))
      else None)"

text \<open>\<open>net.SplitHostPort\<close>: \<open>None\<close> for each of its errors.\<close>

definition split_host_port :: "string \<Rightarrow> (string \<times> string) option" where
  "split_host_port hostport =
     (case cut_last CHR '':'' hostport of
        None \<Rightarrow> None
      | Some (host, port) \<Rightarrow>
          if has_prefix hostport ''['' then
            (case cut CHR '']'' hostport of
               (inside, after, found) \<Rightarrow>
                 if \<not> found \<or> host \<noteq> inside @ '']'' \<or> CHR ''['' \<in> set (tl hostport) \<or> CHR '']'' \<in> set after
                 then None else Some (tl inside, port))
          else if CHR '':'' \<in> set host \<or> CHR ''['' \<in> set hostport \<or> CHR '']'' \<in> set hostport then None
          else Some (host, port))"

section \<open>IP addresses\<close>

definition v4_field :: "string \<Rightarrow> nat option" where
  "v4_field s =
     (if s = [] \<or> \<not> list_all is_digit s \<or> (hd s = CHR ''0'' \<and> s \<noteq> ''0'') \<or> 255 < digits_val s then None
      else Some (digits_val s))"

definition parse_v4 :: "string \<Rightarrow> nat list option" where
  "parse_v4 s =
     (case map v4_field (split_at CHR ''.'' s) of
        [Some a, Some b, Some c, Some d] \<Rightarrow> Some [a, b, c, d]
      | _ \<Rightarrow> None)"

definition hex_digit :: "char \<Rightarrow> nat option" where
  "hex_digit c =
     (if is_digit c then Some (digit_val c)
      else if CHR ''a'' \<le> c \<and> c \<le> CHR ''f'' then Some (of_char c - 87)
      else if CHR ''A'' \<le> c \<and> c \<le> CHR ''F'' then Some (of_char c - 55)
      else None)"

definition hex_group :: "string \<Rightarrow> nat" where
  "hex_group s = foldl (\<lambda>n c. 16 * n + (case hex_digit c of Some d \<Rightarrow> d | None \<Rightarrow> 0)) 0 s"

text \<open>
  The loop of \<open>netip.parseIPv6\<close>: \<open>room\<close> of the eight groups are still free, \<open>groups\<close> are those read and
  \<open>ellipsis\<close> is the number of groups before a double colon. The result is the groups, the position of
  the double colon and whether the whole string was used.
\<close>

fun v6_groups :: "nat \<Rightarrow> string \<Rightarrow> nat list \<Rightarrow> nat option \<Rightarrow> (nat list \<times> nat option \<times> bool) option" where
  "v6_groups 0 s groups ellipsis = Some (groups, ellipsis, s = [])"
| "v6_groups (Suc room) s groups ellipsis =
     (let hex = takeWhile (\<lambda>c. hex_digit c \<noteq> None) s;
          rest = dropWhile (\<lambda>c. hex_digit c \<noteq> None) s
      in if hex = [] \<or> 4 < length hex then None
         else if has_prefix rest ''.'' then
           (if (ellipsis = None \<and> length groups \<noteq> 6) \<or> room = 0 then None
            else (case parse_v4 s of
                Some [a, b, c, d] \<Rightarrow> Some (groups @ [256 * a + b, 256 * c + d], ellipsis, True)
              | _ \<Rightarrow> None))
         else (let groups' = groups @ [hex_group hex] in
           case rest of
             [] \<Rightarrow> Some (groups', ellipsis, True)
           | c # tail \<Rightarrow>
               if c \<noteq> CHR '':'' \<or> tail = [] then None
               else if has_prefix tail '':'' then
                 (if ellipsis \<noteq> None then None
                  else if tl tail = [] then Some (groups', Some (length groups'), True)
                  else v6_groups room (tl tail) groups' (Some (length groups')))
               else v6_groups room tail groups' ellipsis))"

definition parse_v6 :: "string \<Rightarrow> nat list option" where
  "parse_v6 s =
     (if CHR ''%'' \<in> set s then None
      else (case (if has_prefix s ''::'' then (if drop 2 s = [] then Some ([], Some 0, True) else v6_groups 8 (drop 2 s) [] (Some 0))
                  else v6_groups 8 s [] None) of
          None \<Rightarrow> None
        | Some (groups, ellipsis, used) \<Rightarrow>
            if \<not> used then None
            else if length groups < 8 then
              (case ellipsis of
                 None \<Rightarrow> None
               | Some e \<Rightarrow> Some (take e groups @ replicate (8 - length groups) 0 @ drop e groups))
            else if ellipsis \<noteq> None then None
            else Some groups))"

text \<open>\<open>net.ParseIP\<close>: the eight groups of the 16-byte form; an address with a zone is not an \<open>IP\<close>.\<close>

definition parse_ip :: "string \<Rightarrow> nat list option" where
  "parse_ip s =
     (case find (\<lambda>c. c \<in> {CHR ''.'', CHR '':'', CHR ''%''}) s of
        None \<Rightarrow> None
      | Some c \<Rightarrow>
          if c = CHR ''.'' then
            (case parse_v4 s of Some [a, b, c, d] \<Rightarrow> Some [0, 0, 0, 0, 0, 65535, 256 * a + b, 256 * c + d] | _ \<Rightarrow> None)
          else if c = CHR '':'' then parse_v6 s
          else None)"

text \<open>\<open>IP.IsLoopback\<close>: 127.0.0.0/8, also when mapped into IPv6, and ::1.\<close>

definition ip_is_loopback :: "nat list \<Rightarrow> bool" where
  "ip_is_loopback g \<longleftrightarrow>
     (if take 6 g = [0, 0, 0, 0, 0, 65535] then g ! 6 div 256 = 127 else g = [0, 0, 0, 0, 0, 0, 0, 1])"

section \<open>Basic credentials\<close>

definition base64_digit :: "char \<Rightarrow> nat option" where
  "base64_digit c =
     (if CHR ''A'' \<le> c \<and> c \<le> CHR ''Z'' then Some (of_char c - 65)
      else if CHR ''a'' \<le> c \<and> c \<le> CHR ''z'' then Some (of_char c - 71)
      else if is_digit c then Some (digit_val c + 52)
      else if c = CHR ''+'' then Some 62
      else if c = CHR ''/'' then Some 63
      else None)"

text \<open>One quantum of four digits, the last of which may be padded; \<open>None\<close> is a corrupt input.\<close>

definition base64_full :: "char \<Rightarrow> char \<Rightarrow> char \<Rightarrow> char \<Rightarrow> string option" where
  "base64_full a b c d =
     (case (base64_digit a, base64_digit b, base64_digit c, base64_digit d) of
        (Some w, Some x, Some y, Some z) \<Rightarrow>
          Some [char_of (4 * w + x div 16), char_of (16 * (x mod 16) + y div 4), char_of (64 * (y mod 4) + z)]
      | _ \<Rightarrow> None)"

definition base64_last :: "char \<Rightarrow> char \<Rightarrow> char \<Rightarrow> char \<Rightarrow> string option" where
  "base64_last a b c d =
     (if d \<noteq> CHR ''='' then base64_full a b c d
      else if c = CHR ''='' then
        (case (base64_digit a, base64_digit b) of
           (Some w, Some x) \<Rightarrow> Some [char_of (4 * w + x div 16)]
         | _ \<Rightarrow> None)
      else (case (base64_digit a, base64_digit b, base64_digit c) of
          (Some w, Some x, Some y) \<Rightarrow> Some [char_of (4 * w + x div 16), char_of (16 * (x mod 16) + y div 4)]
        | _ \<Rightarrow> None))"

fun base64_quanta :: "string \<Rightarrow> string option" where
  "base64_quanta [] = Some []"
| "base64_quanta [a, b, c, d] = base64_last a b c d"
| "base64_quanta (a # b # c # d # rest) =
     (case (base64_full a b c d, base64_quanta rest) of
        (Some q, Some r) \<Rightarrow> Some (q @ r)
      | _ \<Rightarrow> None)"
| "base64_quanta _ = None"

definition base64_decode :: "string \<Rightarrow> string option" where
  "base64_decode s = base64_quanta (filter (\<lambda>c. c \<noteq> CHR 0x0A \<and> c \<noteq> CHR 0x0D) s)"

definition basic_auth :: "header \<Rightarrow> (string \<times> string) option" where
  "basic_auth h =
     (let auth = header_get h ''Authorization'' in
      if length auth < 6 \<or> \<not> equal_fold (take 6 auth) ''Basic '' then None
      else (case base64_decode (drop 6 auth) of
          None \<Rightarrow> None
        | Some cs \<Rightarrow> (case cut CHR '':'' cs of (user, password, found) \<Rightarrow> if found then Some (user, password) else None)))"

section \<open>Some addresses\<close>

lemma sample_hosts:
  "split_host_port ''127.0.0.1:8080'' = Some (''127.0.0.1'', ''8080'')"
  "split_host_port ''[::1]:8080'' = Some (''::1'', ''8080'')"
  "split_host_port ''::1'' = None" "split_host_port ''localhost'' = None" "split_host_port ''[::1]'' = None"
  by (simp_all add: split_host_port_def cut_last_def cut_def)

lemma sample_addresses:
  "map_option ip_is_loopback (parse_ip ''127.0.0.1'') = Some True"
  "map_option ip_is_loopback (parse_ip ''10.0.0.7'') = Some False"
  "parse_ip ''127.0.0.01'' = None"
  by (simp_all add: parse_ip_def parse_v4_def v4_field_def digits_val_def is_digit_def digit_val_def ip_is_loopback_def)

end
