(* ===== verification/DashboardAuth.thy ===== *)
theory DashboardAuth
  imports Operators Net
begin

text \<open>
  The guard in front of the dashboard and the control API (\<open>internal/dashboard/auth.go\<close>): who is local,
  which operator a request presents, which role an action needs, the cross-site check on mutations and
  the audit records around them. \<open>url.Parse\<close> of the \<open>Origin\<close> header is the argument \<open>origin_host\<close>; the
  handler behind the guard is an argument that changes a state of its own.
\<close>

section \<open>The request and where it comes from\<close>

record admin_request = request +
  aq_remote :: string
  aq_host :: string
  aq_pattern :: string
  aq_uri :: string

definition admin_request_header :: string where "admin_request_header = ''X-Spendlease-Admin''"

definition is_loopback :: "string \<Rightarrow> bool" where
  "is_loopback remote =
     (let host = (case split_host_port remote of None \<Rightarrow> remote | Some (h, _) \<Rightarrow> h)
      in (case parse_ip (trim_set {CHR ''['', CHR '']''} host) of None \<Rightarrow> False | Some ip \<Rightarrow> ip_is_loopback ip))"

definition is_loopback_host :: "string \<Rightarrow> bool" where
  "is_loopback_host hostport =
     (let host = trim_set {CHR ''['', CHR '']''} (case split_host_port hostport of None \<Rightarrow> hostport | Some (h, _) \<Rightarrow> h)
      in equal_fold host ''localhost'' \<or> (case parse_ip host of None \<Rightarrow> False | Some ip \<Rightarrow> ip_is_loopback ip))"

definition is_local :: "admin_request \<Rightarrow> bool" where
  "is_local r \<longleftrightarrow> is_loopback (aq_remote r) \<and> is_loopback_host (aq_host r)"

definition safe_method :: "string \<Rightarrow> bool" where
  "safe_method m \<longleftrightarrow> m \<in> {''GET'', ''HEAD'', ''OPTIONS''}"

definition trusted_mutation :: "(string \<Rightarrow> string option) \<Rightarrow> admin_request \<Rightarrow> bool" where
  "trusted_mutation origin_host r =
     (if header_get (rq_header r) admin_request_header \<noteq> ''1'' then False
      else if equal_fold (header_get (rq_header r) ''Sec-Fetch-Site'') ''cross-site'' then False
      else (let origin = trim_space (header_get (rq_header r) ''Origin'') in
        if origin = [] then True
        else (case origin_host origin of None \<Rightarrow> False | Some host \<Rightarrow> host \<noteq> [] \<and> equal_fold host (aq_host r))))"

section \<open>Identities\<close>

record identity =
  id_id :: string
  id_name :: string
  id_role :: role

definition local_identity :: identity where
  "local_identity = \<lparr>id_id = ''local'', id_name = ''local'', id_role = RoleAdmin\<rparr>"

definition legacy_identity :: identity where
  "legacy_identity = \<lparr>id_id = ''legacy-admin'', id_name = ''legacy-admin'', id_role = RoleAdmin\<rparr>"

text \<open>The guard: its legacy token, the operator lookups when they are configured, and whether it audits.\<close>

record guard =
  gd_token :: string
  gd_lookup :: "(string \<Rightarrow> store_error + operator_row) option"
  gd_configured :: "store_error + bool"
  gd_audits :: bool

definition token_matches :: "string \<Rightarrow> string \<Rightarrow> bool" where
  "token_matches presented want \<longleftrightarrow> presented \<noteq> [] \<and> want \<noteq> [] \<and> presented = want"

definition presented_token :: "header \<Rightarrow> string" where
  "presented_token h =
     (case basic_auth h of
        Some (_, token) \<Rightarrow> token
      | None \<Rightarrow> (case cut_prefix (header_get h ''Authorization'') ''Bearer '' of None \<Rightarrow> [] | Some rest \<Rightarrow> trim_space rest))"

definition remote_access_configured :: "guard \<Rightarrow> store_error + bool" where
  "remote_access_configured g =
     (if gd_token g \<noteq> [] then Inr True else if gd_lookup g = None then Inr False else gd_configured g)"

definition legacy_or_none :: "guard \<Rightarrow> string \<Rightarrow> store_error + identity option" where
  "legacy_or_none g token = Inr (if token_matches token (gd_token g) then Some legacy_identity else None)"

definition authorized_identity :: "(string \<Rightarrow> string) \<Rightarrow> guard \<Rightarrow> header \<Rightarrow> store_error + identity option" where
  "authorized_identity sha g h =
     (let basic = (basic_auth h \<noteq> None);
          username = (case basic_auth h of Some (u, _) \<Rightarrow> u | None \<Rightarrow> []);
          token = presented_token h
      in if token = [] then Inr None
         else (case (if looks_like_token token then gd_lookup g else None) of
             None \<Rightarrow> legacy_or_none g token
           | Some look \<Rightarrow>
               (case look (hash_secret sha token) of
                  Inr op \<Rightarrow>
                    if op_active op \<and> (\<not> basic \<or> username = [] \<or> username = op_name op)
                    then Inr (Some \<lparr>id_id = op_id op, id_name = op_name op, id_role = op_role op\<rparr>)
                    else legacy_or_none g token
                | Inl e \<Rightarrow> if e \<noteq> ErrNotFound then Inl e else legacy_or_none g token)))"

section \<open>Access\<close>

text \<open>The decision before the handler: the status of a refusal, or who is acting.\<close>

definition access ::
  "(string \<Rightarrow> string) \<Rightarrow> (string \<Rightarrow> string option) \<Rightarrow> guard \<Rightarrow> role \<Rightarrow> admin_request \<Rightarrow> nat + identity" where
  "access sha origin_host g required r =
     (case (if is_local r then Inr local_identity
            else (case (if presented_token (rq_header r) = [] then remote_access_configured g else Inr True) of
                Inl _ \<Rightarrow> Inl 503
              | Inr False \<Rightarrow> Inl 403
              | Inr True \<Rightarrow>
                  (case authorized_identity sha g (rq_header r) of
                     Inl _ \<Rightarrow> Inl 503
                   | Inr None \<Rightarrow> Inl 401
                   | Inr (Some i) \<Rightarrow> Inr i))) of
        Inl status \<Rightarrow> Inl status
      | Inr i \<Rightarrow>
          if \<not> role_allows (id_role i) required then Inl 403
          else if \<not> safe_method (rq_method r) \<and> \<not> trusted_mutation origin_host r then Inl 403
          else Inr i)"

text \<open>
  What a role may do its betters may do: a request that passes for a required role passes for every
  weaker one, and for an identity whose role has been raised.
\<close>

lemma access_weaker:
  "access sha origin_host g required r = Inr i \<Longrightarrow> weaker \<le> required \<Longrightarrow> access sha origin_host g weaker r = Inr i"
  by (auto simp: access_def role_allows_le split: sum.splits if_splits option.splits bool.splits intro: order_trans)

section \<open>Audited mutations\<close>

text \<open>Random identifiers and clock readings of one request's audit records.\<close>

record audit_env =
  ae_request_id :: string
  ae_attempt_id :: string
  ae_attempt_at :: instant
  ae_result_id :: string
  ae_result_at :: instant

definition audit_base :: "audit_env \<Rightarrow> admin_request \<Rightarrow> identity \<Rightarrow> audit_record" where
  "audit_base en r i =
     (let given = trim_space (header_get (rq_header r) ''X-Request-ID'');
          action = trim_space (aq_pattern r)
      in \<lparr>ar_id = [], ar_request = (if given = [] \<or> 200 < length given then ae_request_id en else given),
          ar_actor = id_id i, ar_actor_name = id_name i, ar_role = id_role i, ar_phase = PhaseOther [],
          ar_action = (if action = [] then rq_method r @ '' '' @ rq_path r else action),
          ar_resource = aq_uri r, ar_remote = aq_remote r, ar_status = 0, ar_created = 0\<rparr>)"

definition audit_attempt :: "audit_env \<Rightarrow> admin_request \<Rightarrow> identity \<Rightarrow> audit_record" where
  "audit_attempt en r i =
     (audit_base en r i)\<lparr>ar_id := ae_attempt_id en, ar_phase := PhaseAttempt, ar_created := ae_attempt_at en\<rparr>"

definition audit_result :: "audit_env \<Rightarrow> admin_request \<Rightarrow> identity \<Rightarrow> int \<Rightarrow> audit_record" where
  "audit_result en r i status =
     (audit_base en r i)\<lparr>ar_id := ae_result_id en, ar_phase := PhaseResult, ar_status := status, ar_created := ae_result_at en\<rparr>"

text \<open>
  \<open>auditMutation\<close>: the status the client sees, the operator tables and the handler's state. A result
  that cannot be written is only reported.
\<close>

definition audit_mutation ::
  "audit_env \<Rightarrow> admin_request \<Rightarrow> identity \<Rightarrow> ('s \<Rightarrow> int \<times> 's) \<Rightarrow> operator_db \<times> 's \<Rightarrow> int \<times> operator_db \<times> 's" where
  "audit_mutation en r i handler ds =
     (case ds of (od, s) \<Rightarrow>
       (case append_operator_audit (audit_attempt en r i) od of
          Inl _ \<Rightarrow> (503, od, s)
        | Inr od1 \<Rightarrow>
            (case handler s of (status, s') \<Rightarrow>
              (status,
               (case append_operator_audit (audit_result en r i status) od1 of Inl _ \<Rightarrow> od1 | Inr od2 \<Rightarrow> od2),
               s'))))"

definition protect_role ::
  "(string \<Rightarrow> string) \<Rightarrow> (string \<Rightarrow> string option) \<Rightarrow> guard \<Rightarrow> audit_env \<Rightarrow> role \<Rightarrow> admin_request \<Rightarrow>
     (identity \<Rightarrow> 's \<Rightarrow> int \<times> 's) \<Rightarrow> operator_db \<times> 's \<Rightarrow> int \<times> operator_db \<times> 's" where
  "protect_role sha origin_host g en required r handler ds =
     (case access sha origin_host g required r of
        Inl status \<Rightarrow> (int status, ds)
      | Inr i \<Rightarrow>
          if safe_method (rq_method r) \<or> \<not> gd_audits g then (case handler i (snd ds) of (status, s') \<Rightarrow> (status, fst ds, s'))
          else audit_mutation en r i (handler i) ds)"

definition protect ::
  "(string \<Rightarrow> string) \<Rightarrow> (string \<Rightarrow> string option) \<Rightarrow> guard \<Rightarrow> audit_env \<Rightarrow> admin_request \<Rightarrow>
     (identity \<Rightarrow> 's \<Rightarrow> int \<times> 's) \<Rightarrow> operator_db \<times> 's \<Rightarrow> int \<times> operator_db \<times> 's" where
  "protect sha origin_host g en = protect_role sha origin_host g en RoleViewer"

section \<open>The lookup the guard relies on\<close>

locale operator_lookup =
  fixes by_token :: "'d \<Rightarrow> string \<Rightarrow> store_error + operator_row"
    and rows :: "'d \<Rightarrow> operator_row list"
  assumes operator_found: "by_token d h = Inr op \<Longrightarrow> op \<in> set (rows d) \<and> op_token_hash op = h"
begin

lemma identity_is_presented:
  assumes "authorized_identity sha g h = Inr (Some i)" and "gd_lookup g = Some (by_token d)"
  shows "(i = legacy_identity \<and> gd_token g \<noteq> [] \<and> presented_token h = gd_token g) \<or>
    (\<exists>op \<in> set (rows d). op_active op \<and> op_token_hash op = hash_secret sha (presented_token h) \<and>
       i = \<lparr>id_id = op_id op, id_name = op_name op, id_role = op_role op\<rparr>)"
  using assms operator_found
  by (auto simp: authorized_identity_def legacy_or_none_def token_matches_def Let_def split: if_splits sum.splits option.splits)

end

interpretation operators: operator_lookup get_operator_by_token_hash od_operators
  by unfold_locales (auto simp: get_operator_by_token_hash_def split: option.splits dest: find_SomeD)

section \<open>No mutation without authority and a trace\<close>

lemma access_cases:
  assumes "access sha origin_host g required r = Inr i"
  shows "(is_local r \<and> i = local_identity \<or> \<not> is_local r \<and> authorized_identity sha g (rq_header r) = Inr (Some i)) \<and>
    role_allows (id_role i) required \<and> (safe_method (rq_method r) \<or> trusted_mutation origin_host r)"
  using assms by (auto simp: access_def split: if_splits sum.splits bool.splits option.splits)

lemma append_audit_fields:
  "append_operator_audit a od = Inr od' \<Longrightarrow> od_audit od' = od_audit od @ [a] \<and> od_operators od' = od_operators od"
  using append_audit_ok by fastforce

lemma audit_mutation_trace:
  assumes "audit_mutation en r i handler (od, s) = (status, od', s')"
  shows "status = 503 \<and> od' = od \<and> s' = s \<or>
    handler s = (status, s') \<and> od_operators od' = od_operators od \<and>
    (od_audit od' = od_audit od @ [audit_attempt en r i] \<or>
     od_audit od' = od_audit od @ [audit_attempt en r i, audit_result en r i status])"
proof (cases "append_operator_audit (audit_attempt en r i) od")
  case (Inl e)
  with assms show ?thesis by (simp add: audit_mutation_def)
next
  case (Inr od1)
  obtain st s1 where h: "handler s = (st, s1)" by fastforce
  have first: "od_audit od1 = od_audit od @ [audit_attempt en r i]" "od_operators od1 = od_operators od"
    using append_audit_fields [OF Inr] by simp_all
  show ?thesis
  proof (cases "append_operator_audit (audit_result en r i st) od1")
    case (Inl e)
    with assms Inr h first show ?thesis by (auto simp: audit_mutation_def)
  next
    case second: (Inr od2)
    with assms Inr h first append_audit_fields [OF second] show ?thesis by (auto simp: audit_mutation_def)
  qed
qed

text \<open>
  C26. A mutation behind the guard is authorised and traced. With auditing on and the operators in the
  database, either nothing changes, or the handler ran for one identity: the local one for a request
  whose peer and host are both loopback, the legacy admin who presented the configured token, or an
  operator whose row is active and has the presented token's digest; whose role includes the one the
  action needs, on a request that passed the cross-site check; and an attempt record naming that
  identity was in the audit trail before the handler ran.
\<close>

theorem mutations_are_authorised_and_traced:
  assumes "protect_role sha origin_host g en required r handler (od, s) = (status, od', s')"
    and "\<not> safe_method (rq_method r)" and "gd_audits g" and "gd_lookup g = Some (get_operator_by_token_hash od)"
  shows "od' = od \<and> s' = s \<or>
    (\<exists>i results. handler i s = (status, s') \<and>
       (is_local r \<and> i = local_identity \<or>
        gd_token g \<noteq> [] \<and> presented_token (rq_header r) = gd_token g \<and> i = legacy_identity \<or>
        (\<exists>op \<in> set (od_operators od). op_active op \<and> op_token_hash op = hash_secret sha (presented_token (rq_header r)) \<and>
           i = \<lparr>id_id = op_id op, id_name = op_name op, id_role = op_role op\<rparr>)) \<and>
       role_allows (id_role i) required \<and> trusted_mutation origin_host r \<and> od_operators od' = od_operators od \<and>
       od_audit od' = od_audit od @ audit_attempt en r i # results)"
proof (cases "access sha origin_host g required r")
  case (Inl st)
  with assms(1) show ?thesis by (simp add: protect_role_def)
next
  case (Inr i)
  note acc = access_cases [OF Inr]
  have who: "is_local r \<and> i = local_identity \<or>
      gd_token g \<noteq> [] \<and> presented_token (rq_header r) = gd_token g \<and> i = legacy_identity \<or>
      (\<exists>op \<in> set (od_operators od). op_active op \<and> op_token_hash op = hash_secret sha (presented_token (rq_header r)) \<and>
         i = \<lparr>id_id = op_id op, id_name = op_name op, id_role = op_role op\<rparr>)"
    using acc operators.identity_is_presented [OF _ assms(4)] by blast
  have "audit_mutation en r i (handler i) (od, s) = (status, od', s')"
    using assms(1-3) Inr by (simp add: protect_role_def)
  from audit_mutation_trace [OF this] show ?thesis
  proof (elim disjE conjE)
    assume "handler i s = (status, s')" "od_operators od' = od_operators od" "od_audit od' = od_audit od @ [audit_attempt en r i]"
    then show ?thesis using who acc assms(2) by blast
  next
    assume "handler i s = (status, s')" "od_operators od' = od_operators od"
      "od_audit od' = od_audit od @ [audit_attempt en r i, audit_result en r i status]"
    then show ?thesis using who acc assms(2) by blast
  qed simp
qed

definition sample_guard :: guard where
  "sample_guard = \<lparr>gd_token = [], gd_lookup = Some (get_operator_by_token_hash sample_operators), gd_configured = Inr True, gd_audits = True\<rparr>"

definition sample_mutation :: admin_request where
  "sample_mutation = \<lparr>rq_method = ''POST'', rq_path = ''/api/mode'',
     rq_header = [(''Authorization'', [''Bearer slo_a'']), (''X-Spendlease-Admin'', [''1''])],
     aq_remote = ''10.0.0.7'', aq_host = ''gw'', aq_pattern = [], aq_uri = ''/api/mode''\<rparr>"

lemma mutations_are_authorised_and_traced_witness:
  "\<exists>status od' s'. protect_role (\<lambda>t. drop 4 t) (\<lambda>_. None) sample_guard
      \<lparr>ae_request_id = ''r'', ae_attempt_id = ''aud_1'', ae_attempt_at = 1, ae_result_id = ''aud_2'', ae_result_at = 2\<rparr>
      RoleAdmin sample_mutation (\<lambda>i s. (200, Suc s)) (sample_operators, 0) = (status, od', s') \<and>
    (od' = sample_operators \<and> s' = (0 :: nat) \<or>
    (\<exists>i results. (200, Suc 0) = (status, s') \<and>
       (is_local sample_mutation \<and> i = local_identity \<or>
        gd_token sample_guard \<noteq> [] \<and> presented_token (rq_header sample_mutation) = gd_token sample_guard \<and> i = legacy_identity \<or>
        (\<exists>op \<in> set (od_operators sample_operators). op_active op \<and>
           op_token_hash op = hash_secret (\<lambda>t. drop 4 t) (presented_token (rq_header sample_mutation)) \<and>
           i = \<lparr>id_id = op_id op, id_name = op_name op, id_role = op_role op\<rparr>)) \<and>
       role_allows (id_role i) RoleAdmin \<and> trusted_mutation (\<lambda>_. None) sample_mutation \<and>
       od_operators od' = od_operators sample_operators \<and>
       od_audit od' = od_audit sample_operators @ audit_attempt
         \<lparr>ae_request_id = ''r'', ae_attempt_id = ''aud_1'', ae_attempt_at = 1, ae_result_id = ''aud_2'', ae_result_at = 2\<rparr>
         sample_mutation i # results))"
proof -
  let ?en = "\<lparr>ae_request_id = ''r'', ae_attempt_id = ''aud_1'', ae_attempt_at = 1, ae_result_id = ''aud_2'', ae_result_at = 2\<rparr>"
  obtain status od' s' where run: "protect_role (\<lambda>t. drop 4 t) (\<lambda>_. None) sample_guard ?en RoleAdmin sample_mutation
      (\<lambda>i s. (200, Suc s)) (sample_operators, 0) = (status, od', s')" by (metis prod_cases3)
  have "\<not> safe_method (rq_method sample_mutation)" by (simp add: safe_method_def sample_mutation_def)
  from mutations_are_authorised_and_traced [OF run this] run show ?thesis by (simp add: sample_guard_def)
qed

end
