(* ===== verification/TimeParse.thy ===== *)
theory TimeParse
  imports Clock
begin

text \<open>
  Reading timestamps: \<open>time.Parse\<close> on the RFC 3339 layouts, as the stores use it on their TEXT columns
  (\<open>parseTime\<close> in \<open>store/sqlite/helpers.go\<close>) and the control API and the commands on what callers send.
  The standard library is as lenient as its source: one digit is enough for the hour, a comma may
  stand for the full stop, fraction digits after the ninth are dropped, and an offset may be 24 hours
  or 60 minutes. The result is the instant in UTC.
\<close>

section \<open>Dates\<close>

definition days_in :: "bool \<Rightarrow> nat \<Rightarrow> nat" where
  "days_in leap m = (if m = 12 then 31 else month_starts leap ! m - month_starts leap ! (m - 1))"

text \<open>Days from January 1 of year 1 to a date; year 0 is a leap year before it.\<close>

definition date_days :: "nat \<Rightarrow> nat \<Rightarrow> nat \<Rightarrow> int" where
  "date_days y m d =
     (if y = 0 then - 366 else int (year_start (y - 1))) + int (month_starts (is_leap y) ! (m - 1)) + int d - 1"

section \<open>The layout\<close>

text \<open>\<open>getnum\<close>: two digits, or one where the layout does not fix the width.\<close>

fun getnum :: "bool \<Rightarrow> string \<Rightarrow> (nat \<times> string) option" where
  "getnum fixd [] = None"
| "getnum fixd [c] = (if is_digit c \<and> \<not> fixd then Some (digit_val c, []) else None)"
| "getnum fixd (c # c' # s) =
     (if \<not> is_digit c then None
      else if \<not> is_digit c' then (if fixd then None else Some (digit_val c, c' # s))
      else Some (10 * digit_val c + digit_val c', s))"

definition parse_date :: "string \<Rightarrow> ((nat \<times> nat \<times> nat) \<times> string) option" where
  "parse_date v =
     (if length v < 4 \<or> \<not> list_all is_digit (take 4 v) then None
      else (case cut_prefix (drop 4 v) ''-'' of
          None \<Rightarrow> None
        | Some v1 \<Rightarrow>
            (case getnum True v1 of
               None \<Rightarrow> None
             | Some (m, v2) \<Rightarrow>
                 (case cut_prefix v2 ''-'' of
                    None \<Rightarrow> None
                  | Some v3 \<Rightarrow>
                      (case getnum True v3 of
                         None \<Rightarrow> None
                       | Some (d, v4) \<Rightarrow>
                           (let y = digits_val (take 4 v)
                            in if m < 1 \<or> 12 < m \<or> d < 1 \<or> days_in (is_leap y) m < d then None
                               else Some ((y, m, d), v4)))))))"

definition parse_clock :: "string \<Rightarrow> (nat \<times> string) option" where
  "parse_clock v =
     (case getnum False v of
        None \<Rightarrow> None
      | Some (h, v1) \<Rightarrow>
          (case cut_prefix v1 '':'' of
             None \<Rightarrow> None
           | Some v2 \<Rightarrow>
               (case getnum True v2 of
                  None \<Rightarrow> None
                | Some (mi, v3) \<Rightarrow>
                    (case cut_prefix v3 '':'' of
                       None \<Rightarrow> None
                     | Some v4 \<Rightarrow>
                         (case getnum True v4 of
                            None \<Rightarrow> None
                          | Some (s, v5) \<Rightarrow>
                              if 23 < h \<or> 59 < mi \<or> 59 < s then None
                              else Some (3600 * h + 60 * mi + s, v5))))))"

text \<open>A fraction, when there is one: its nanoseconds from the first nine digits.\<close>

definition parse_fraction :: "string \<Rightarrow> nat \<times> string" where
  "parse_fraction v =
     (if 2 \<le> length v \<and> (v ! 0 = CHR ''.'' \<or> v ! 0 = CHR '','') \<and> is_digit (v ! 1)
      then (let ds = take 9 (takeWhile is_digit (tl v))
            in (digits_val ds * 10 ^ (9 - length ds), dropWhile is_digit (tl v)))
      else (0, v))"

text \<open>The zone to the end of the text: \<open>Z\<close>, or a sign, hours and minutes; the offset in seconds.\<close>

definition parse_zone :: "string \<Rightarrow> int option" where
  "parse_zone v =
     (if v = ''Z'' then Some 0
      else if length v \<noteq> 6 \<or> v ! 3 \<noteq> CHR '':'' then None
      else (case (getnum True (take 2 (drop 1 v)), getnum True (drop 4 v)) of
          (Some (h, _), Some (mi, _)) \<Rightarrow>
            if 24 < h \<or> 60 < mi then None
            else if v ! 0 = CHR ''+'' then Some (int (60 * (60 * h + mi)))
            else if v ! 0 = CHR ''-'' then Some (- int (60 * (60 * h + mi)))
            else None
        | _ \<Rightarrow> None))"

definition parse_rfc3339 :: "string \<Rightarrow> instant option" where
  "parse_rfc3339 v =
     (case parse_date v of
        None \<Rightarrow> None
      | Some ((y, m, d), v1) \<Rightarrow>
          (case cut_prefix v1 ''T'' of
             None \<Rightarrow> None
           | Some v2 \<Rightarrow>
               (case parse_clock v2 of
                  None \<Rightarrow> None
                | Some (secs, v3) \<Rightarrow>
                    (case parse_fraction v3 of
                       (ns, v4) \<Rightarrow>
                         (case parse_zone v4 of
                            None \<Rightarrow> None
                          | Some off \<Rightarrow>
                              Some (ns_per_second * (86400 * date_days y m d + int secs - off) + int ns))))))"

text \<open>The stored form: \<open>parseTime\<close>, and \<open>parseNullTime\<close> on a nullable column.\<close>

definition parse_time :: "string \<Rightarrow> instant option" where
  "parse_time s = parse_rfc3339 s"

definition null_time :: "instant option \<Rightarrow> string option" where
  "null_time t = map_option format_time t"

definition parse_null_time :: "string option \<Rightarrow> instant option option" where
  "parse_null_time ns =
     (case ns of
        None \<Rightarrow> Some None
      | Some s \<Rightarrow> if s = [] then Some None else (case parse_time s of None \<Rightarrow> None | Some t \<Rightarrow> Some (Some t)))"

section \<open>Every day of the calendar is read back\<close>

lemma year_length:
  "year_start (Suc y) = year_start y + (if is_leap (Suc y) then 366 else 365)"
proof -
  define m where "m = y mod 400"
  define k where "k = m mod 100"
  define a b c e where "a = y div 400" and "b = m div 100" and "c = k div 4" and "e = k mod 4"
  have y: "y = 400 * a + 100 * b + 4 * c + e"
    using mult_div_mod_eq [of 400 y] mult_div_mod_eq [of 100 m] mult_div_mod_eq [of 4 k]
    unfolding m_def [symmetric] k_def [symmetric] a_def b_def c_def e_def by linarith
  have le: "b \<le> 3" "c \<le> 24" "e \<le> 3"
    using mod_less_divisor [of 400 y] mod_less_divisor [of 100 m] by (auto simp: m_def k_def b_def c_def e_def)
  have "is_leap (Suc y) \<longleftrightarrow> \<not> (e < 3 \<or> c = 24 \<and> b < 3)"
  proof -
    have parts: "Suc y = 4 * (100 * a + 25 * b + c) + Suc e" "Suc y = 100 * (4 * a + b) + Suc (4 * c + e)"
      "Suc y = 400 * a + Suc (100 * b + 4 * c + e)" unfolding y by simp_all
    have mods: "Suc y mod 4 = Suc e mod 4" "Suc y mod 100 = Suc (4 * c + e) mod 100"
      "Suc y mod 400 = Suc (100 * b + 4 * c + e) mod 400"
      by (subst parts, rule mod_mult_self4)+
    consider "e < 3" | "e = 3" "c < 24" | "e = 3" "c = 24" "b < 3" | "e = 3" "c = 24" "b = 3"
      using le by linarith
    then show ?thesis by cases (auto simp: is_leap_def mods)
  qed
  then show ?thesis
    unfolding y year_start_next [OF le] year_start_parts [OF le] using le by auto
qed

lemma year_day_length:
  assumes "year_day d = (y, yd)"
  shows "yd < (if is_leap (Suc y) then 366 else 365)"
  using year_day_start(1,2) [OF assms] year_length [of y] by simp

lemma days_in_facts:
  assumes "month_day l yd = (m, day)" "yd < (if l then 366 else 365)"
  shows "1 \<le> day" "day \<le> days_in l m"
proof -
  note f = month_day_start [OF assms(1)]
  show "1 \<le> day" using f(3,4) by simp
  show "day \<le> days_in l m"
  proof (cases "m = 12")
    case True
    then show ?thesis using f(4) assms(2) by (auto simp: days_in_def month_starts_def split: if_splits)
  next
    case False
    then have "yd < month_starts l ! m" using f(2,5) by simp
    then show ?thesis using f(3,4) False by (simp add: days_in_def)
  qed
qed

lemma getnum_fixed: "n < 100 \<Longrightarrow> getnum b (fixed 2 n @ s) = Some (n, s)"
  by (simp add: numeral_2_eq_2 less_mult_imp_div_less)

lemma cut_prefix_Cons [simp]: "cut_prefix (c # s) [c] = Some s"
  by (simp add: cut_prefix_def)

lemma parse_date_text:
  assumes "d < 3652059"
  obtains y m day where "\<forall>s. parse_date (date_text d @ s) = Some ((y, m, day), s)" "date_days y m day = int d"
proof -
  obtain y0 yd where y: "year_day d = (y0, yd)" by fastforce
  obtain m day where m: "month_day (is_leap (Suc y0)) yd = (m, day)" by fastforce
  note days = days_in_facts [OF m year_day_length [OF y]]
  note f = month_day_start [OF m]
  have "Suc y0 < 10000" by (rule year_day_bound [OF y assms])
  then have "digits_val (fixed 4 (Suc y0)) = Suc y0"
    by (simp add: digits_val_fixed del: fixed.simps)
  moreover have "list_all is_digit (fixed 4 (Suc y0))"
    using fixed_digits by (auto simp: list_all_iff)
  moreover note month_day_bounds [OF m year_day_start(3) [OF y]]
  ultimately have "\<forall>s. parse_date (date_text d @ s) = Some ((Suc y0, m, day), s)"
    using days f(1,2) by (simp add: parse_date_def date_text_def y m getnum_fixed Let_def del: fixed.simps)
  moreover have "date_days (Suc y0) m day = int d"
    using year_day_start(1) [OF y] f(3,4) by (simp add: date_days_def)
  ultimately show thesis by (rule that)
qed

lemma parse_clock_text: "s < 86400 \<Longrightarrow> parse_clock (clock_text s @ r) = Some (s, r)"
  using clock_parts [of s] by (simp add: parse_clock_def clock_text_def getnum_fixed del: fixed.simps)

lemma parse_fraction_text:
  assumes "n < 1000000000"
  shows "parse_fraction (fraction_text n @ ''Z'') = (n, ''Z'')"
proof (cases "n = 0")
  case True
  then show ?thesis by (simp add: fraction_text_def parse_fraction_def)
next
  case False
  let ?t = "trim_right CHR ''0'' (fixed 9 n)"
  obtain k where k: "fixed 9 n = ?t @ replicate k CHR ''0''" using trim_right_replicate by blast
  have len: "length ?t + k = 9" using arg_cong [OF k, of length] by simp
  have digits: "\<forall>c \<in> set ?t. is_digit c" using k fixed_digits by (metis Un_iff set_append)
  have zero: "digits_val (replicate k CHR ''0'') = 0"
    by (induction k) (simp_all add: digits_val_Cons digit_val_def)
  have val: "digits_val ?t * 10 ^ k = n"
    using arg_cong [OF k, of digits_val] assms
    by (simp add: digits_val_append zero digits_val_fixed del: fixed.simps)
  then have ne: "?t \<noteq> []" using False by auto
  obtain c r where cr: "?t = c # r" using ne by (cases ?t) auto
  have z: "\<not> is_digit CHR ''Z''" by (simp add: is_digit_def less_eq_char_def)
  have "takeWhile is_digit (?t @ ''Z'') = ?t" "dropWhile is_digit (?t @ ''Z'') = ''Z''"
    using digits z by (simp_all add: takeWhile_append2 dropWhile_append2)
  moreover have "take 9 ?t = ?t" "9 - length ?t = k" using len by simp_all
  ultimately show ?thesis
    using False val digits cr by (simp add: parse_fraction_def fraction_text_def Let_def del: fixed.simps)
qed

lemma int_div_mult_mod: "int (n div k) * int k + int (n mod k) = int n"
  by (metis div_mult_mod_eq of_nat_add of_nat_mult)

lemma parse_format_time:
  assumes "valid_instant t"
  shows "parse_rfc3339 (format_time t) = Some t"
proof -
  let ?s = "nat t div 1000000000" and ?n = "nat t mod 1000000000"
  have "?s div 86400 < 3652059" using valid_instant_seconds [OF assms] by (simp add: less_mult_imp_div_less)
  from parse_date_text [OF this] obtain y m day where
    "\<forall>s. parse_date (date_text (?s div 86400) @ s) = Some ((y, m, day), s)"
    and d: "date_days y m day = int (?s div 86400)" .
  moreover have "int (?s div 86400) * 86400 + int (?s mod 86400) = int ?s"
    using int_div_mult_mod [of ?s 86400] by simp
  moreover have "int ?s * 1000000000 + int ?n = t"
    using int_div_mult_mod [of "nat t" 1000000000] assms by (simp add: valid_instant_def)
  ultimately show ?thesis
    by (simp add: parse_rfc3339_def format_time_def seconds_text_def parse_clock_text parse_fraction_text
        parse_zone_def ns_per_second_def)
qed

section \<open>Stored timestamps come back\<close>

text \<open>
  A timestamp survives its column: any optional instant of the years 1 to 9999 that \<open>nullTime\<close> writes
  is what \<open>parseNullTime\<close> reads, to the nanosecond, and an absent one stays absent.
\<close>

theorem stored_time_is_read_back:
  assumes "case t of None \<Rightarrow> True | Some u \<Rightarrow> valid_instant u"
  shows "parse_null_time (null_time t) = Some t"
  using assms
  by (auto simp: parse_null_time_def null_time_def parse_time_def parse_format_time format_time_nonempty split: option.splits)

theorem stored_time_is_read_back_witness:
  "parse_null_time (null_time (Some 1500000000)) = Some (Some 1500000000)"
  by (rule stored_time_is_read_back) (simp add: valid_instant_def)

end
