(* ===== verification/Query.thy ===== *)
theory Query
  imports Http TimeParse
begin

text \<open>
  Query strings and form values, from Go's \<open>net/url\<close> and \<open>net/http\<close>: \<open>QueryEscape\<close> and its inverse,
  \<open>Values.Encode\<close> for one value per key, \<open>ParseQuery\<close> and \<open>FormValue\<close>; and the round trips the
  dashboard's links rely on.
\<close>

section \<open>Escaping\<close>

definition unreserved :: "char \<Rightarrow> bool" where
  "unreserved c \<longleftrightarrow>
     in_range (CHR ''a'') (CHR ''z'') c \<or> in_range (CHR ''A'') (CHR ''Z'') c \<or> is_digit c \<or>
     c \<in> {CHR ''-'', CHR ''_'', CHR ''.'', CHR ''~''}"

definition upper_hex :: "nat \<Rightarrow> char" where
  "upper_hex n = (if n < 10 then digit n else char_of (55 + n))"

definition unhex :: "char \<Rightarrow> nat option" where
  "unhex c =
     (if is_digit c then Some (digit_val c)
      else if CHR ''a'' \<le> c \<and> c \<le> CHR ''f'' then Some (of_char c - 87)
      else if CHR ''A'' \<le> c \<and> c \<le> CHR ''F'' then Some (of_char c - 55)
      else None)"

definition escape_byte :: "char \<Rightarrow> string" where
  "escape_byte c =
     (if unreserved c then [c]
      else if c = CHR '' '' then ''+''
      else [CHR ''%'', upper_hex (of_char c div 16), upper_hex (of_char c mod 16)])"

definition query_escape :: "string \<Rightarrow> string" where
  "query_escape s = concat (map escape_byte s)"

fun query_unescape :: "string \<Rightarrow> string option" where
  "query_unescape [] = Some []"
| "query_unescape (c # s) =
     (if c = CHR ''%'' then
        (case s of
           a # b # rest \<Rightarrow>
             (case (unhex a, unhex b, query_unescape rest) of
                (Some x, Some y, Some t) \<Rightarrow> Some (char_of (16 * x + y) # t)
              | _ \<Rightarrow> None)
         | _ \<Rightarrow> None)
      else map_option (\<lambda>t. (if c = CHR ''+'' then CHR '' '' else c) # t) (query_unescape s))"

section \<open>Values\<close>

text \<open>\<open>Values.Encode\<close> of a map with one value per key: the keys in order.\<close>

definition encode_values :: "(string \<times> string) list \<Rightarrow> string" where
  "encode_values kvs =
     join CHR ''&'' (map (\<lambda>(k, v). query_escape k @ CHR ''='' # query_escape v) (sort_by (\<lambda>x y. fst x \<le> fst y) kvs))"

text \<open>\<open>ParseQuery\<close> with its errors dropped, as \<open>ParseForm\<close>'s callers here drop them.\<close>

definition parse_pair :: "string \<Rightarrow> (string \<times> string) list" where
  "parse_pair piece =
     (if CHR '';'' \<in> set piece \<or> piece = [] then []
      else (case cut CHR ''='' piece of
          (k, v, _) \<Rightarrow>
            (case (query_unescape k, query_unescape v) of
               (Some k', Some v') \<Rightarrow> [(k', v')]
             | _ \<Rightarrow> [])))"

definition parse_query :: "string \<Rightarrow> (string \<times> string) list" where
  "parse_query q = concat (map parse_pair (split_at CHR ''&'' q))"

definition form_value :: "(string \<times> string) list \<Rightarrow> string \<Rightarrow> string" where
  "form_value form k = (case map_of form k of None \<Rightarrow> [] | Some v \<Rightarrow> v)"

definition form_values :: "(string \<times> string) list \<Rightarrow> string \<Rightarrow> string list" where
  "form_values form k = map snd (filter (\<lambda>kv. fst kv = k) form)"

section \<open>Round trips\<close>

lemma upper_hex_code: "n < 16 \<Longrightarrow> (of_char (upper_hex n) :: nat) = (if n < 10 then 48 + n else 55 + n)"
  by (simp add: upper_hex_def)

lemma unhex_upper_hex [simp]:
  assumes "n < 16"
  shows "unhex (upper_hex n) = Some n"
proof (cases "n < 10")
  case True
  then show ?thesis by (simp add: unhex_def upper_hex_def)
next
  case False
  then show ?thesis
    using assms upper_hex_code [OF assms] by (simp add: unhex_def is_digit_of_char less_eq_char_def)
qed

lemma unescape_escape_append:
  "query_unescape (escape_byte c @ s) = map_option (\<lambda>t. c # t) (query_unescape s)"
proof -
  have c: "(of_char c :: nat) < 256" by (rule nat_of_char_less_256) 
  have "char_of (16 * (of_char c div 16) + of_char c mod 16 :: nat) = c"
    by simp
  moreover have "unreserved c \<Longrightarrow> c \<noteq> CHR ''%'' \<and> c \<noteq> CHR ''+''"
    by (auto simp: unreserved_def is_digit_of_char less_eq_char_def)
  ultimately show ?thesis
    using c by (cases "query_unescape s") (auto simp: escape_byte_def less_mult_imp_div_less)
qed

lemma unescape_escape [simp]: "query_unescape (query_escape s) = Some s"
  by (induction s) (simp_all add: query_escape_def unescape_escape_append)

lemma escaped_bytes: "c \<in> set (query_escape s) \<Longrightarrow> c \<notin> {CHR ''&'', CHR ''='', CHR '';''}"
proof -
  have "x \<notin> {CHR ''&'', CHR ''='', CHR '';''}" if "x \<in> set (escape_byte d)" for x d
  proof -
    have "(of_char d :: nat) div 16 < 16" using nat_of_char_less_256 [of d] by (simp add: less_mult_imp_div_less)
    then have "upper_hex (of_char d div 16) \<notin> {CHR ''&'', CHR ''='', CHR '';''}"
      "upper_hex (of_char d mod 16) \<notin> {CHR ''&'', CHR ''='', CHR '';''}"
      using upper_hex_code [of "of_char d div 16"] upper_hex_code [of "of_char d mod 16"]
      by (auto dest!: arg_cong [where f = "of_char :: char \<Rightarrow> nat"] split: if_splits)
    then show ?thesis
      using that by (auto simp: escape_byte_def unreserved_def is_digit_of_char less_eq_char_def split: if_splits)
  qed
  then show "c \<in> set (query_escape s) \<Longrightarrow> c \<notin> {CHR ''&'', CHR ''='', CHR '';''}"
    unfolding query_escape_def by fastforce
qed

lemma parse_pair_escaped: "parse_pair (query_escape k @ CHR ''='' # query_escape v) = [(k, v)]"
proof -
  have "CHR ''='' \<notin> set (query_escape k)" "CHR '';'' \<notin> set (query_escape k @ CHR ''='' # query_escape v)"
    using escaped_bytes by fastforce+
  then show ?thesis by (simp add: parse_pair_def cut_append)
qed

lemma parse_encode_values:
  assumes "kvs \<noteq> []"
  shows "parse_query (encode_values kvs) = sort_by (\<lambda>x y. fst x \<le> fst y) kvs"
proof -
  let ?f = "\<lambda>(k, v). query_escape k @ CHR ''='' # query_escape v"
  have "sort_by (\<lambda>x y. fst x \<le> fst y) kvs \<noteq> []"
    using assms set_sort_by [of "\<lambda>x y. fst x \<le> fst y" kvs] by (metis set_empty)
  moreover have "\<forall>s \<in> set (map ?f xs). CHR ''&'' \<notin> set s" for xs
    using escaped_bytes by fastforce
  ultimately have "split_at CHR ''&'' (encode_values kvs) = map ?f (sort_by (\<lambda>x y. fst x \<le> fst y) kvs)"
    unfolding encode_values_def by (intro split_join) auto
  moreover have "concat (map parse_pair (map ?f xs)) = xs" for xs
    by (induction xs) (auto simp: parse_pair_escaped)
  ultimately show ?thesis by (simp add: parse_query_def)
qed

lemma parse_int_str: "in_i64 n \<Longrightarrow> parse_int (int_str n) = Some n"
proof -
  assume n: "in_i64 n"
  have digits: "list_all is_digit (nat_str m)" for m using nat_str_digits by (auto simp: list_all_iff)
  have "\<not> has_prefix (nat_str m) ''-''" "\<not> has_prefix (nat_str m) ''+''" for m
    using hd_nat_str_digit [of m] by (auto simp: has_prefix_iff is_digit_def less_eq_char_def)
  then show ?thesis
    using n digits by (auto simp: parse_int_def int_str_def Let_def)
qed

lemma trim_words_step:
  "find (\<lambda>w. w \<noteq> [] \<and> has_prefix s w) ws = None \<Longrightarrow> trim_words ws s = s"
  "find (\<lambda>w. w \<noteq> [] \<and> has_prefix s w) ws = Some v \<Longrightarrow> trim_words ws s = trim_words ws (drop (length v) s)"
  by (subst trim_words.simps, simp)+

lemma trim_words_none:
  assumes "w \<in> set ws" "w \<noteq> []"
  shows "\<not> has_prefix (trim_words ws s) w"
  using assms
proof (induction ws s rule: trim_words.induct)
  case (1 ws s)
  show ?case
  proof (cases "find (\<lambda>w. w \<noteq> [] \<and> has_prefix s w) ws")
    case None
    then show ?thesis using 1(2,3) find_None_iff [of "\<lambda>w. w \<noteq> [] \<and> has_prefix s w" ws] by (auto simp: trim_words_step(1))
  next
    case (Some v)
    then show ?thesis using 1 by (simp add: trim_words_step(2))
  qed
qed

lemma trim_words_suffix: "\<exists>u. s = u @ trim_words ws s"
proof (induction ws s rule: trim_words.induct)
  case (1 ws s)
  show ?case
  proof (cases "find (\<lambda>w. w \<noteq> [] \<and> has_prefix s w) ws")
    case None
    then show ?thesis by (simp add: trim_words_step(1))
  next
    case (Some v)
    then have "s = v @ drop (length v) s" using find_SomeD [OF Some] by (auto simp: has_prefix_iff)
    moreover obtain u where "drop (length v) s = u @ trim_words ws (drop (length v) s)" using 1 [OF Some] by blast
    ultimately have "s = (v @ u) @ trim_words ws (drop (length v) s)" by simp
    then show ?thesis unfolding trim_words_step(2) [OF Some] by blast
  qed
qed

lemma trim_space_idem [simp]: "trim_space (trim_space s) = trim_space s"
proof -
  let ?front = "trim_words go_spaces s" and ?tails = "map rev go_spaces"
  have "\<not> has_prefix (trim_space s) w" if w: "w \<in> set go_spaces" "w \<noteq> []" for w
  proof
    assume "has_prefix (trim_space s) w"
    moreover obtain u where "rev ?front = u @ rev (trim_space s)"
      using trim_words_suffix [of "rev ?front" ?tails] by (auto simp: trim_space_def)
    then have "?front = trim_space s @ rev u" by (metis rev_append rev_rev_ident)
    ultimately have "has_prefix ?front w" by (auto simp: has_prefix_iff)
    then show False using trim_words_none [OF w] by blast
  qed
  then have "trim_words go_spaces (trim_space s) = trim_space s" by (rule trim_words_id)
  moreover have "trim_words ?tails (rev (trim_space s)) = rev (trim_space s)"
    by (rule trim_words_id) (use trim_words_none in \<open>auto simp: trim_space_def\<close>)
  ultimately show ?thesis by (simp add: trim_space_def [of "trim_space s"])
qed

lemma plain_not_space: "48 \<le> (of_char c :: nat) \<Longrightarrow> (of_char c :: nat) \<le> 122 \<Longrightarrow> \<not> space_byte c"
  by (auto simp: space_byte_code go_spaces_def)

lemma plain_trimmed: "list_all (\<lambda>c. 48 \<le> (of_char c :: nat) \<and> (of_char c :: nat) \<le> 122) s \<Longrightarrow> trim_space s = s"
  by (rule trim_space_id) (metis last_in_set list.set_sel(1) list_all_iff plain_not_space)

end
