(* ===== verification/Dashboard.thy ===== *)
theory Dashboard
  imports Exchange DashboardAuth Query
begin

text \<open>
  The dashboard page (\<open>internal/dashboard/dashboard.go\<close>): its labels, the table of principals, the
  filtered timeline with its links, the mode switch and the kill switch. A page is the view the HTML
  templates render; the templates are left out. The parsed form of a request is a list of pairs, the
  body's before the query's; clock readings are arguments.
\<close>

section \<open>Dates and ages\<close>

text \<open>The separator of the labels, a middle dot between spaces, in UTF-8.\<close>

definition middot :: string where
  "middot = [CHR '' '', CHR 0xC2, CHR 0xB7, CHR '' '']"

definition month_names :: "string list" where
  "month_names = [''Jan'', ''Feb'', ''Mar'', ''Apr'', ''May'', ''Jun'', ''Jul'', ''Aug'', ''Sep'', ''Oct'', ''Nov'', ''Dec'']"

text \<open>\<open>2 Jan 2006\<close> and \<open>2 Jan 2006 15:04 UTC\<close>, for instants of the years 1 to 9999.\<close>

definition short_date :: "instant \<Rightarrow> string" where
  "short_date t =
     (let (y, yday) = year_day (nat t div 1000000000 div 86400); (m, day) = month_day (is_leap (Suc y)) yday
      in nat_str day @ '' '' @ month_names ! (m - 1) @ '' '' @ fixed 4 (Suc y))"

definition minute_stamp :: "instant \<Rightarrow> string" where
  "minute_stamp t =
     (let s = nat t div 1000000000 mod 86400
      in short_date t @ '' '' @ fixed 2 (s div 3600) @ '':'' @ fixed 2 (s mod 3600 div 60) @ '' UTC'')"

text \<open>\<open>Time.Sub\<close> saturates at the range of a duration.\<close>

definition time_sub :: "instant \<Rightarrow> instant \<Rightarrow> int" where
  "time_sub t u = max min_i64 (min max_i64 (t - u))"

definition plural :: "nat \<Rightarrow> string \<Rightarrow> string" where
  "plural n unit = (if n = 1 then ''1 '' @ unit @ '' ago'' else nat_str n @ '' '' @ unit @ ''s ago'')"

definition plural_word :: "nat \<Rightarrow> string \<Rightarrow> string" where
  "plural_word n word = (if n = 1 then word else word @ ''s'')"

text \<open>
  \<open>relative\<close>. The code divides in floating point, which is taken as exact here: the two differ at most
  within nanoseconds of a whole day, years back.
\<close>

definition relative_age :: "instant option \<Rightarrow> instant \<Rightarrow> string" where
  "relative_age t now =
     (case t of
        None \<Rightarrow> ''never''
      | Some u \<Rightarrow>
          (let d = time_sub now u
           in if d < ns_per_minute then ''just now''
              else if d < ns_per_hour then plural (nat (d div ns_per_minute)) ''minute''
              else if d < 24 * ns_per_hour then plural (nat (d div ns_per_hour)) ''hour''
              else plural (nat (d div (24 * ns_per_hour))) ''day''))"

section \<open>Labels\<close>

definition build_label :: "string \<Rightarrow> string" where
  "build_label version =
     (if version = [] \<or> version = ''dev'' then ''Local development build'' else ''Build '' @ version)"

definition price_book_label :: "string \<Rightarrow> instant \<Rightarrow> string" where
  "price_book_label revision effective =
     (let r = take 8 (trim_space revision); r = (if r = [] then ''unknown'' else r)
      in if time_is_zero effective then ''Price book '' @ r
         else ''Price book '' @ r @ middot @ ''rates through '' @ short_date effective)"

definition price_book_detail :: "instant \<Rightarrow> nat \<Rightarrow> nat \<Rightarrow> string" where
  "price_book_detail loaded providers models =
     (let detail = nat_str providers @ '' providers'' @ middot @ nat_str models @ '' price entries''
      in if time_is_zero loaded then detail else ''Loaded '' @ minute_stamp loaded @ middot @ detail)"

definition price_book_freshness :: "instant \<Rightarrow> nat \<Rightarrow> nat \<Rightarrow> instant \<Rightarrow> int \<Rightarrow> string \<times> string \<times> string" where
  "price_book_freshness oldest unverified future now max_age =
     (if 0 < unverified then
        (''Pricing verification incomplete'',
         nat_str unverified @ '' active price '' @ (if unverified = 1 then ''entry has'' else ''entries have'') @
           '' no vendor-review date'',
         ''freshness-warning'')
      else if 0 < future then
        (''Pricing verification invalid'',
         nat_str future @ '' active price entries have a future vendor-review date'', ''freshness-warning'')
      else if time_is_zero oldest then
        (''Pricing verification unavailable'', ''Active price entries have no vendor-review date'', ''freshness-warning'')
      else if max_age < time_sub now oldest then
        (''Pricing verification stale'',
         ''Oldest active price was checked '' @ short_date oldest @ ''; run spendlease pricing verify'', ''freshness-warning'')
      else (''Pricing verified '' @ short_date oldest, ''Oldest vendor review among active price entries'', ''freshness-ok''))"

section \<open>Construction\<close>

text \<open>
  The options, with the optional collaborators reduced to whether they are there: \<open>do_credentials\<close>
  the vault's write interface, \<open>do_status\<close> a separate source of configured providers (the vault is one itself).
\<close>

record dashboard_options =
  do_version :: string
  do_revision :: string
  do_effective :: instant
  do_loaded :: instant
  do_oldest :: instant
  do_unverified :: nat
  do_future :: nat
  do_max_age :: int
  do_price_providers :: nat
  do_price_models :: nat
  do_policy :: string
  do_warning :: string
  do_revoker :: bool
  do_manager :: bool
  do_lease_revoker :: bool
  do_credentials :: bool
  do_status :: bool
  do_providers :: "string list"

record dashboard =
  da_build :: string
  da_pricing_label :: string
  da_pricing_detail :: string
  da_freshness :: "string \<times> string \<times> string"
  da_policy_label :: string
  da_policy_option :: string
  da_warning :: string
  da_revoker :: bool
  da_manager :: bool
  da_lease_revoker :: bool
  da_credentials :: bool
  da_status :: bool
  da_providers :: "string list"

fun normalize_names :: "string list \<Rightarrow> string list \<Rightarrow> string list" where
  "normalize_names seen [] = rev seen"
| "normalize_names seen (raw # rest) =
     (let name = to_lower (trim_space raw)
      in if name = [] \<or> name \<in> set seen then normalize_names seen rest else normalize_names (name # seen) rest)"

definition normalize_provider_names :: "string list \<Rightarrow> string list" where
  "normalize_provider_names names = sort_by (\<le>) (normalize_names [] names)"

definition default_review_age :: int where
  "default_review_age = 45 * 24 * ns_per_hour"

definition new_dashboard :: "dashboard_options \<Rightarrow> instant \<Rightarrow> dashboard" where
  "new_dashboard opts now =
     (let best_effort = equal_fold (trim_space (do_policy opts)) ''best-effort''
      in \<lparr>da_build = build_label (do_version opts),
          da_pricing_label = price_book_label (do_revision opts) (do_effective opts),
          da_pricing_detail = price_book_detail (do_loaded opts) (do_price_providers opts) (do_price_models opts),
          da_freshness = price_book_freshness (do_oldest opts) (do_unverified opts) (do_future opts) now
            (if do_max_age opts \<le> 0 then default_review_age else do_max_age opts),
          da_policy_label = (if best_effort then ''best-effort'' else ''strict''),
          da_policy_option = (if best_effort then ''Best-effort enforcement'' else ''Strict enforcement''),
          da_warning = do_warning opts, da_revoker = do_revoker opts, da_manager = do_manager opts,
          da_lease_revoker = do_lease_revoker opts, da_credentials = do_credentials opts,
          da_status = (do_status opts \<or> do_credentials opts),
          da_providers = normalize_provider_names (do_providers opts)\<rparr>)"

section \<open>The timeline's filter\<close>

definition event_page_size :: int where "event_page_size = 20"
definition max_event_limit :: int where "max_event_limit = 200"

definition attention_kinds :: "event_kind list" where
  "attention_kinds = [EventBudgetBlocked, EventBudgetWouldBlock, EventLeaseRevoked, EventLeaseExpired]"

text \<open>An empty list stands for Go's nil, which selects every kind.\<close>

definition event_kinds :: "string \<Rightarrow> event_kind list" where
  "event_kinds name =
     (if name = ''attention'' then attention_kinds
      else if name = ''blocked'' then [EventBudgetBlocked]
      else if name = ''would_block'' then [EventBudgetWouldBlock]
      else if name = ''revoked'' then [EventLeaseRevoked]
      else if name = ''expired'' then [EventLeaseExpired]
      else if name = ''allowed'' then [EventAllowed]
      else [])"

record filter_option =
  fo_value :: string
  fo_label :: string
  fo_selected :: bool

record event_filter_view =
  fv_principal :: string
  fv_kind :: string
  fv_since :: string
  fv_query :: string
  fv_limit :: int
  fv_options :: "filter_option list"
  fv_refresh :: string
  fv_next :: string
  fv_more :: bool

definition form_kind :: "(string \<times> string) list \<Rightarrow> string" where
  "form_kind form =
     (let kind = trim_space (form_value form ''event_kind'');
          kind = (if kind = [] then ''attention'' else kind)
      in if event_kinds kind = [] \<and> kind \<noteq> ''all'' then ''attention'' else kind)"

definition form_since :: "(string \<times> string) list \<Rightarrow> string" where
  "form_since form =
     (let name = trim_space (form_value form ''event_since'')
      in if name \<in> {''1h'', ''24h'', ''7d'', ''all''} then name else ''24h'')"

definition since_instant :: "string \<Rightarrow> instant \<Rightarrow> instant" where
  "since_instant name now =
     (if name = ''1h'' then now - ns_per_hour
      else if name = ''24h'' then now - 24 * ns_per_hour
      else if name = ''7d'' then now - 7 * 24 * ns_per_hour
      else 0)"

definition form_limit :: "(string \<times> string) list \<Rightarrow> int" where
  "form_limit form =
     (let limit = (case parse_int (form_value form ''event_limit'') of
            None \<Rightarrow> event_page_size
          | Some n \<Rightarrow> if n < event_page_size then event_page_size else n)
      in min limit max_event_limit)"

definition parse_event_filter :: "(string \<times> string) list \<Rightarrow> instant \<Rightarrow> event_filter \<times> event_filter_view" where
  "parse_event_filter form now =
     (let principal = trim_space (form_value form ''event_agent'');
          query = trim_space (form_value form ''event_q'');
          kind = form_kind form; since = form_since form; limit = form_limit form
      in (\<lparr>ef_principal = principal, ef_kinds = event_kinds kind, ef_query = query,
           ef_since = since_instant since now, ef_limit = limit\<rparr>,
          \<lparr>fv_principal = principal, fv_kind = kind, fv_since = since, fv_query = query, fv_limit = limit,
           fv_options = [], fv_refresh = [], fv_next = [], fv_more = False\<rparr>))"

definition filter_pairs :: "event_filter_view \<Rightarrow> int \<Rightarrow> (string \<times> string) list" where
  "filter_pairs v limit =
     [(''event_kind'', fv_kind v), (''event_since'', fv_since v)] @
     (if fv_principal v \<noteq> [] then [(''event_agent'', fv_principal v)] else []) @
     (if fv_query v \<noteq> [] then [(''event_q'', fv_query v)] else []) @
     (if event_page_size < limit then [(''event_limit'', int_str limit)] else [])"

definition event_filter_url :: "string \<Rightarrow> event_filter_view \<Rightarrow> int \<Rightarrow> string" where
  "event_filter_url path v limit = path @ ''?'' @ encode_values (filter_pairs v limit)"

section \<open>The view\<close>

record principal_row =
  pw_id :: string
  pw_name :: string
  pw_mode :: mode
  pw_runs :: nat
  pw_entries :: nat
  pw_estimated :: nat
  pw_spend :: nanos
  pw_over_budget :: bool
  pw_active :: nat
  pw_revoked :: nat
  pw_expired :: nat
  pw_blocks :: nat
  pw_would_block :: nat
  pw_status :: "string \<times> string"
  pw_lease_summary :: string
  pw_last_event :: string

record event_row =
  ew_kind :: string
  ew_class :: string
  ew_principal :: string
  ew_run :: string
  ew_detail :: string
  ew_when :: string

definition principal_status :: "principal_summary \<Rightarrow> string \<times> string" where
  "principal_status s =
     (if 0 < ps_active_leases s then (''Active'', ''ok'')
      else if 0 < ps_revoked_leases s then (''Revoked'', ''danger'')
      else if 0 < ps_expired_leases s then (''Expired'', ''muted'')
      else (''No leases'', ''muted''))"

definition lease_summary :: "principal_summary \<Rightarrow> string" where
  "lease_summary s =
     nat_str (ps_active_leases s) @ '' active'' @ middot @ nat_str (ps_revoked_leases s) @ '' revoked'' @ middot @
     nat_str (ps_expired_leases s) @ '' expired''"

definition principal_row_of :: "instant \<Rightarrow> principal_summary \<Rightarrow> principal_row" where
  "principal_row_of now s =
     \<lparr>pw_id = pr_id (ps_principal s), pw_name = pr_name (ps_principal s), pw_mode = pr_mode (ps_principal s),
      pw_runs = ps_runs s, pw_entries = ps_entries s, pw_estimated = ps_estimated s, pw_spend = ps_spend s,
      pw_over_budget = 0 < ps_over_budget s, pw_active = ps_active_leases s, pw_revoked = ps_revoked_leases s,
      pw_expired = ps_expired_leases s, pw_blocks = ps_blocks s, pw_would_block = ps_would_block s,
      pw_status = principal_status s, pw_lease_summary = lease_summary s, pw_last_event = relative_age (ps_last_event s) now\<rparr>"

definition event_text :: "operational_event \<Rightarrow> string \<times> string \<times> string" where
  "event_text e =
     (case oe_kind e of
        EventAllowed \<Rightarrow> (''Allowed'', ''ok'', oe_provider e @ ''/'' @ oe_model e @ middot @ ''$'' @ nanos_str (oe_amount e))
      | EventBudgetBlocked \<Rightarrow> (''Budget blocked'', ''danger'',
          ''needed $'' @ nanos_str (oe_amount e) @ ''; $'' @ nanos_str (oe_remaining e) @ '' remaining'')
      | EventBudgetWouldBlock \<Rightarrow> (''Would block'', ''warning'',
          ''needed $'' @ nanos_str (oe_amount e) @ ''; $'' @ nanos_str (oe_remaining e) @ '' remaining'')
      | EventLeaseRevoked \<Rightarrow> (''Lease revoked'', ''danger'', oe_lease e)
      | EventLeaseExpired \<Rightarrow> (''Lease expired'', ''muted'', oe_lease e)
      | EventKindOther _ \<Rightarrow> ([], [], []))"

definition event_row_of :: "instant \<Rightarrow> operational_event \<Rightarrow> event_row" where
  "event_row_of now e =
     (case event_text e of (kind, cls, detail) \<Rightarrow>
        \<lparr>ew_kind = kind, ew_class = cls, ew_principal = oe_principal_name e, ew_run = oe_run e, ew_detail = detail,
         ew_when = relative_age (Some (oe_created e)) now\<rparr>)"

record view =
  vw_labels :: dashboard
  vw_operator :: string
  vw_admin :: bool
  vw_operate :: bool
  vw_manage :: bool
  vw_onboard :: bool
  vw_set_keys :: bool
  vw_principals :: "principal_row list"
  vw_total :: nanos
  vw_notice :: string
  vw_events :: "event_row list"
  vw_filter :: event_filter_view

fun role_text :: "role \<Rightarrow> string" where
  "role_text RoleViewer = ''viewer''"
| "role_text RoleOperator = ''operator''"
| "role_text RoleAdmin = ''admin''"
| "role_text (RoleOther s) = s"

definition summed :: "principal_summary list \<Rightarrow> nanos" where
  "summed ss = foldl (\<lambda>total s. i64 (total + ps_spend s)) 0 ss"

definition by_label :: "filter_option \<Rightarrow> filter_option \<Rightarrow> bool" where
  "by_label x y \<longleftrightarrow> to_lower (fo_label x) \<le> to_lower (fo_label y)"

interpretation by_label: comparison by_label
  by unfold_locales (auto simp: by_label_def)

text \<open>
  \<open>build\<close>: \<open>stored_now\<close> is the clock reading inside \<open>PrincipalSummaries\<close>, the identity the one the guard put
  in the request's context. One event more than the page holds tells whether there are others.
\<close>

definition timeline :: "event_filter \<Rightarrow> instant \<Rightarrow> db \<Rightarrow> store_error + operational_event list \<times> bool" where
  "timeline f now d =
     (let wanted = (if ef_limit f < max_event_limit then f\<lparr>ef_limit := ef_limit f + 1\<rparr> else f)
      in case recent_operational_events wanted now d of
           Inl e \<Rightarrow> Inl e
         | Inr events \<Rightarrow>
             if ef_limit f < int (length events) then Inr (take (nat (ef_limit f)) events, True) else Inr (events, False))"

definition build_view ::
  "dashboard \<Rightarrow> identity option \<Rightarrow> (string \<times> string) list \<Rightarrow> instant \<Rightarrow> instant \<Rightarrow> db \<Rightarrow> store_error + view" where
  "build_view da who form stored_now now d =
     (case principal_summaries stored_now d of
        Inl e \<Rightarrow> Inl e
      | Inr summaries \<Rightarrow>
          (case parse_event_filter form now of
             (f, fv) \<Rightarrow>
               (case timeline f now d of
                  Inl e \<Rightarrow> Inl e
                | Inr (events, more_events) \<Rightarrow>
                    (let allows = (\<lambda>r. case who of None \<Rightarrow> False | Some i \<Rightarrow> role_allows (id_role i) r);
                         options = sort_by by_label (map (\<lambda>s. \<lparr>fo_value = pr_id (ps_principal s),
                           fo_label = pr_name (ps_principal s), fo_selected = pr_id (ps_principal s) = fv_principal fv\<rparr>) summaries);
                         fv' = fv\<lparr>fv_options := options, fv_more := more_events\<rparr>
                     in Inr \<lparr>vw_labels = da, vw_operator = (case who of None \<Rightarrow> [] | Some i \<Rightarrow> id_name i @ middot @ role_text (id_role i)),
                          vw_admin = allows RoleAdmin, vw_operate = allows RoleOperator,
                          vw_manage = allows RoleOperator \<and> da_manager da,
                          vw_onboard = allows RoleAdmin \<and> da_manager da \<and> da_providers da \<noteq> [],
                          vw_set_keys = allows RoleAdmin \<and> da_credentials da \<and> da_providers da \<noteq> [],
                          vw_principals = map (principal_row_of now) summaries, vw_total = summed summaries, vw_notice = [],
                          vw_events = map (event_row_of now) events,
                          vw_filter = fv'\<lparr>fv_refresh := event_filter_url ''/table'' fv' (ef_limit f),
                            fv_next := (if more_events
                              then event_filter_url ''/table'' fv' (min (ef_limit f + event_page_size) max_event_limit)
                              else [])\<rparr>\<rparr>))))"

section \<open>Links keep the filter\<close>

lemma sort_by_map_of:
  assumes "distinct (map fst kvs)"
  shows "map_of (sort_by r kvs) = map_of kvs"
proof -
  have "distinct (map fst (sort_by r kvs))" using assms by (simp add: distinct_map)
  then show ?thesis using assms map_of_inject_set [of "sort_by r kvs" kvs] by simp
qed

lemma form_value_of_url:
  assumes "distinct (map fst (filter_pairs v limit))"
  shows "form_value (parse_query (encode_values (filter_pairs v limit))) k = form_value (filter_pairs v limit) k"
proof -
  have "filter_pairs v limit \<noteq> []" by (simp add: filter_pairs_def)
  from parse_encode_values [OF this] show ?thesis by (simp add: form_value_def sort_by_map_of [OF assms])
qed

lemma filter_pairs_distinct: "distinct (map fst (filter_pairs v limit))"
  by (simp add: filter_pairs_def)

lemma filter_pairs_values:
  "form_value (filter_pairs v limit) ''event_kind'' = fv_kind v"
  "form_value (filter_pairs v limit) ''event_since'' = fv_since v"
  "form_value (filter_pairs v limit) ''event_agent'' = fv_principal v"
  "form_value (filter_pairs v limit) ''event_q'' = fv_query v"
  "form_value (filter_pairs v limit) ''event_limit'' = (if event_page_size < limit then int_str limit else [])"
  by (simp_all add: filter_pairs_def form_value_def)

lemma form_limit_bounds: "event_page_size \<le> form_limit form" "form_limit form \<le> max_event_limit"
  by (auto simp: form_limit_def event_page_size_def max_event_limit_def Let_def split: option.splits)

lemma limit_read_back:
  assumes "event_page_size \<le> limit" "limit \<le> max_event_limit"
  shows "form_limit (parse_query (encode_values (filter_pairs v limit))) = limit"
proof -
  have "in_i64 limit" using assms by (simp add: in_i64_def event_page_size_def max_event_limit_def min_i64_def max_i64_def)
  then have "parse_int (int_str limit) = Some limit" by (rule parse_int_str)
  moreover have "parse_int [] = None" by (simp add: parse_int_def Let_def)
  ultimately show ?thesis
    using assms by (simp add: form_limit_def form_value_of_url filter_pairs_distinct filter_pairs_values Let_def)
qed

lemma form_kind_known: "form_kind form \<in> {''attention'', ''blocked'', ''would_block'', ''revoked'', ''expired'', ''allowed'', ''all''}"
  by (auto simp: form_kind_def Let_def event_kinds_def split: if_splits)

lemma form_since_known: "form_since form \<in> {''1h'', ''24h'', ''7d'', ''all''}"
  by (simp add: form_since_def Let_def)

lemma known_words_trimmed:
  "s \<in> {''attention'', ''blocked'', ''would_block'', ''revoked'', ''expired'', ''allowed'', ''all'', ''1h'', ''24h'', ''7d''} \<Longrightarrow>
     trim_space s = s"
  by (rule plain_trimmed) (elim insertE emptyE; simp)

lemma link_read_back:
  assumes "parse_event_filter form now = (f, v)" and "event_page_size \<le> limit" and "limit \<le> max_event_limit"
  shows "parse_event_filter (parse_query (drop (length ''/table?'') (event_filter_url ''/table'' v limit))) now =
    (f\<lparr>ef_limit := limit\<rparr>, v\<lparr>fv_limit := limit\<rparr>)"
proof -
  let ?form = "parse_query (encode_values (filter_pairs v limit))"
  have fields: "fv_kind v = form_kind form" "fv_since v = form_since form"
    "fv_principal v = trim_space (form_value form ''event_agent'')" "fv_query v = trim_space (form_value form ''event_q'')"
    using assms(1) by (auto simp: parse_event_filter_def Let_def)
  have value_of: "form_value ?form k = form_value (filter_pairs v limit) k" for k
    by (rule form_value_of_url [OF filter_pairs_distinct])
  have "form_kind ?form = form_kind form"
  proof -
    have "trim_space (form_kind form) = form_kind form" using form_kind_known [of form] known_words_trimmed by blast
    moreover have "form_kind form \<noteq> []" "event_kinds (form_kind form) \<noteq> [] \<or> form_kind form = ''all''"
      using form_kind_known [of form] by (auto simp: event_kinds_def attention_kinds_def)
    ultimately show ?thesis
      unfolding form_kind_def [of ?form] by (auto simp: value_of filter_pairs_values fields Let_def)
  qed
  moreover have "form_since ?form = form_since form"
  proof -
    have "trim_space (form_since form) = form_since form" using form_since_known [of form] known_words_trimmed by blast
    then show ?thesis
      unfolding form_since_def [of ?form] using form_since_known [of form] by (auto simp: value_of filter_pairs_values fields Let_def)
  qed
  moreover note limit_read_back [OF assms(2,3)]
  ultimately show ?thesis
    using assms(1) by (auto simp: parse_event_filter_def event_filter_url_def Let_def value_of filter_pairs_values fields)
qed

text \<open>The events a page can show, newest first.\<close>

definition matching_events :: "event_filter \<Rightarrow> instant \<Rightarrow> db \<Rightarrow> operational_event list" where
  "matching_events f now d =
     map snd (sort_by event_order (filter (\<lambda>(_, e). event_matches f e)
       (charge_events d @ budget_block_events d @ lease_events d now)))"

lemma event_matches_limit [simp]: "event_matches (f\<lparr>ef_limit := n\<rparr>) = event_matches f"
  by (rule ext) (simp add: event_matches_def)

lemma matching_events_limit [simp]: "matching_events (f\<lparr>ef_limit := n\<rparr>) now d = matching_events f now d"
  by (simp add: matching_events_def)

lemma recent_is_matching:
  assumes "list_all valid_event_kind (ef_kinds f)" and "0 < ef_limit f" and "ef_limit f \<le> 200"
  shows "recent_operational_events f now d = Inr (take (nat (ef_limit f)) (matching_events f now d))"
  using assms by (simp add: recent_operational_events_def matching_events_def clamp_limit_def Let_def)

lemma timeline_page:
  assumes "list_all valid_event_kind (ef_kinds f)" and "0 < ef_limit f" and "ef_limit f \<le> 200"
  shows "timeline f now d = Inr (take (nat (ef_limit f)) (matching_events f now d),
    ef_limit f < max_event_limit \<and> ef_limit f < int (length (matching_events f now d)))"
proof (cases "ef_limit f < max_event_limit")
  case True
  let ?f = "f\<lparr>ef_limit := ef_limit f + 1\<rparr>"
  have "recent_operational_events ?f now d = Inr (take (nat (ef_limit f + 1)) (matching_events f now d))"
    using recent_is_matching [of ?f] assms True by (simp add: max_event_limit_def)
  then show ?thesis
    using True assms(2) by (auto simp: timeline_def min_def Let_def nat_add_distrib)
next
  case False
  then show ?thesis using recent_is_matching [OF assms] assms by (auto simp: timeline_def Let_def min_def)
qed

lemma event_kinds_valid: "list_all valid_event_kind (event_kinds name)"
  by (simp add: event_kinds_def attention_kinds_def)

lemma build_view_parts:
  assumes "build_view da who form stored_now now d = Inr w" and "parse_event_filter form now = (f, v)"
  shows "vw_events w = map (event_row_of now) (take (nat (ef_limit f)) (matching_events f now d)) \<and>
    fv_more (vw_filter w) = (ef_limit f < max_event_limit \<and> ef_limit f < int (length (matching_events f now d))) \<and>
    fv_refresh (vw_filter w) = event_filter_url ''/table'' v (ef_limit f) \<and>
    (fv_more (vw_filter w) \<longrightarrow>
      fv_next (vw_filter w) = event_filter_url ''/table'' v (min (ef_limit f + event_page_size) max_event_limit))"
proof -
  have "ef_limit f = form_limit form" "ef_kinds f = event_kinds (form_kind form)"
    using assms(2) by (auto simp: parse_event_filter_def Let_def)
  then have page: "timeline f now d = Inr (take (nat (ef_limit f)) (matching_events f now d),
      ef_limit f < max_event_limit \<and> ef_limit f < int (length (matching_events f now d)))"
    using form_limit_bounds [of form] event_kinds_valid [of "form_kind form"]
    by (intro timeline_page) (simp_all add: event_page_size_def max_event_limit_def)
  have "event_filter_url path (v\<lparr>fv_options := opts, fv_more := m\<rparr>) l = event_filter_url path v l" for path opts m l
    by (simp add: event_filter_url_def filter_pairs_def)
  then show ?thesis
    using assms by (auto simp: build_view_def page Let_def split: sum.splits)
qed

text \<open>
  The page's links keep its filter. The refresh link of a page selects, when it is opened, the
  agent, the kind, the period, the search text and the page size of the request that built the page,
  whatever bytes the request's values had; and the link to more events changes nothing but the page
  size, by one page up to the limit.
\<close>

theorem links_keep_the_filter:
  assumes "build_view da who form stored_now now d = Inr w" and "parse_event_filter form now = (f, v)"
    and "bigger = min (ef_limit f + event_page_size) max_event_limit"
  shows "parse_event_filter (parse_query (drop (length ''/table?'') (fv_refresh (vw_filter w)))) now = (f, v) \<and>
    (fv_more (vw_filter w) \<longrightarrow>
      parse_event_filter (parse_query (drop (length ''/table?'') (fv_next (vw_filter w)))) now =
        (f\<lparr>ef_limit := bigger\<rparr>, v\<lparr>fv_limit := bigger\<rparr>))"
proof -
  have limit: "ef_limit f = form_limit form" "fv_limit v = form_limit form"
    using assms(2) by (auto simp: parse_event_filter_def Let_def)
  note bounds = form_limit_bounds [of form]
  have big: "event_page_size \<le> bigger" "bigger \<le> max_event_limit"
    using bounds limit assms(3) by (simp_all add: event_page_size_def max_event_limit_def)
  have same: "f\<lparr>ef_limit := form_limit form\<rparr> = f" "v\<lparr>fv_limit := form_limit form\<rparr> = v"
    using limit by simp_all
  show ?thesis
    using link_read_back [OF assms(2) bounds] link_read_back [OF assms(2) big] build_view_parts [OF assms(1,2)] same
    by (simp add: limit(1) assms(3))
qed

text \<open>
  The timeline shows the newest matching events, all of them up to the page size, and says that
  there are more exactly when there are and a larger page may be asked for.
\<close>

theorem timeline_shows_newest:
  assumes "build_view da who form stored_now now d = Inr w" and "parse_event_filter form now = (f, v)"
  shows "vw_events w = map (event_row_of now) (take (nat (ef_limit f)) (matching_events f now d)) \<and>
    20 \<le> ef_limit f \<and> ef_limit f \<le> 200 \<and>
    (fv_more (vw_filter w) \<longleftrightarrow> ef_limit f < 200 \<and> ef_limit f < int (length (matching_events f now d))) \<and>
    sorted_wrt (\<lambda>x y. format_time (oe_created y) \<le> format_time (oe_created x)) (matching_events f now d)"
proof -
  have "sorted_wrt event_order (sort_by event_order rows)" for rows by (rule event_order.sorted_sort_by)
  then have "sorted_wrt (\<lambda>x y. format_time (oe_created (snd y)) \<le> format_time (oe_created (snd x))) (sort_by event_order rows)"
    for rows by (rule sorted_wrt_mono_rel [rotated]) (auto simp: event_order_def)
  then have "sorted_wrt (\<lambda>x y. format_time (oe_created y) \<le> format_time (oe_created x)) (matching_events f now d)"
    by (simp add: matching_events_def sorted_wrt_map)
  moreover have "ef_limit f = form_limit form" using assms(2) by (auto simp: parse_event_filter_def Let_def)
  ultimately show ?thesis
    using build_view_parts [OF assms] form_limit_bounds [of form] by (simp add: event_page_size_def max_event_limit_def)
qed

text \<open>The page can be built whenever the sums of the ledger fit the database's integers.\<close>

lemma build_view_ok:
  assumes "sums_fit d"
  shows "\<exists>w. build_view da who form stored_now now d = Inr w"
proof -
  obtain f v where p: "parse_event_filter form now = (f, v)" by fastforce
  then have "ef_limit f = form_limit form" "ef_kinds f = event_kinds (form_kind form)"
    by (auto simp: parse_event_filter_def Let_def)
  then have "timeline f now d = Inr (take (nat (ef_limit f)) (matching_events f now d),
      ef_limit f < max_event_limit \<and> ef_limit f < int (length (matching_events f now d)))"
    using form_limit_bounds [of form] event_kinds_valid [of "form_kind form"]
    by (intro timeline_page) (simp_all add: event_page_size_def max_event_limit_def)
  then show ?thesis using assms p by (simp add: build_view_def principal_summaries_def Let_def)
qed

definition sample_dashboard :: dashboard where
  "sample_dashboard = new_dashboard \<lparr>do_version = [], do_revision = [], do_effective = 0, do_loaded = 0, do_oldest = 0,
     do_unverified = 0, do_future = 0, do_max_age = 0, do_price_providers = 0, do_price_models = 0, do_policy = [],
     do_warning = [], do_revoker = True, do_manager = True, do_lease_revoker = True, do_credentials = True, do_status = False,
     do_providers = [''openai'']\<rparr> 1"

lemma sample_db_sums: "sums_fit sample_db"
  by (simp add: sums_fit_def sample_db_def)

lemma links_keep_the_filter_witness:
  "\<exists>w. build_view sample_dashboard None [(''event_q'', ''a&b'')] 7 7 sample_db = Inr w \<and>
    parse_event_filter (parse_query (drop (length ''/table?'') (fv_refresh (vw_filter w)))) 7 =
      parse_event_filter [(''event_q'', ''a&b'')] 7"
proof -
  obtain w where w: "build_view sample_dashboard None [(''event_q'', ''a&b'')] 7 7 sample_db = Inr w"
    using build_view_ok [OF sample_db_sums] by blast
  obtain f v where p: "parse_event_filter [(''event_q'', ''a&b'')] 7 = (f, v)" by fastforce
  from links_keep_the_filter [OF w p refl] show ?thesis using w p by auto
qed

lemma timeline_shows_newest_witness:
  "\<exists>w. build_view sample_dashboard None [] 7 7 sample_db = Inr w \<and>
    vw_events w = map (event_row_of 7) (take (nat (ef_limit (fst (parse_event_filter [] 7))))
      (matching_events (fst (parse_event_filter [] 7)) 7 sample_db))"
proof -
  obtain w where w: "build_view sample_dashboard None [] 7 7 sample_db = Inr w"
    using build_view_ok [OF sample_db_sums] by blast
  obtain f v where p: "parse_event_filter [] 7 = (f, v)" by fastforce
  from timeline_shows_newest [OF w p] show ?thesis using w p by auto
qed

end
