(* ===== verification/ControlPlane.thy ===== *)
theory ControlPlane
  imports Exchange Schema DashboardAuth TimeParse
begin

text \<open>
  The JSON control API (\<open>internal/controlplane/controlplane.go\<close>): its eleven endpoints behind the guard,
  with their roles, guards and answers, over the store, the kill switch and the operator audit. The
  request multiplexer, which picks the endpoint and its path value, gives the \<open>api_call\<close>; the query
  parameters and the JSON decoder's answers on the body are arguments. A query that would not end is
  ended with the request's context, an error that wraps no sentinel. Error texts other than the
  error kind are left out.
\<close>

section \<open>Answers\<close>

record run_dto =
  rd_id :: string
  rd_principal :: string
  rd_parent :: string
  rd_budget :: string
  rd_status :: run_status
  rd_created :: instant
  rd_closed :: "instant option"

definition run_response :: "run \<Rightarrow> run_dto" where
  "run_response r = \<lparr>rd_id = run_id r, rd_principal = run_principal r, rd_parent = run_parent r,
     rd_budget = nanos_str (run_budget r), rd_status = run_status r, rd_created = run_created r, rd_closed = run_closed r\<rparr>"

record lease_dto =
  ld_id :: string
  ld_run :: string
  ld_providers :: "string list"
  ld_ceiling :: string
  ld_expires :: instant
  ld_revoked :: "instant option"
  ld_created :: instant
  ld_status :: string
  ld_token :: string

definition lease_response :: "lease \<Rightarrow> instant \<Rightarrow> lease_dto" where
  "lease_response l now = \<lparr>ld_id = ls_id l, ld_run = ls_run l, ld_providers = ls_providers l,
     ld_ceiling = nanos_str (ls_ceiling l), ld_expires = ls_expires l, ld_revoked = ls_revoked l, ld_created = ls_created l,
     ld_status = (if ls_revoked l \<noteq> None then ''revoked'' else if \<not> now < ls_expires l then ''expired'' else ''active''),
     ld_token = []\<rparr>"

record budget_level_dto =
  vd_run :: string
  vd_status :: run_status
  vd_budget :: string
  vd_spent :: string
  vd_held :: string
  vd_remaining :: string
  vd_unlimited :: bool

record budget_dto =
  bg_run :: string
  bg_status :: run_status
  bg_allowed :: bool
  bg_blocking :: string
  bg_unlimited :: bool
  bg_remaining :: string
  bg_limiting :: string
  bg_levels :: "budget_level_dto list"

definition budget_response :: "run_budget_status \<Rightarrow> budget_dto" where
  "budget_response s = \<lparr>bg_run = bs_run s, bg_status = bs_status s, bg_allowed = bs_allowed s, bg_blocking = bs_blocking s,
     bg_unlimited = bs_unlimited s, bg_remaining = nanos_str (bs_remaining s), bg_limiting = bs_limiting s,
     bg_levels = map (\<lambda>v. \<lparr>vd_run = bl_run v, vd_status = bl_status v, vd_budget = nanos_str (bl_budget v),
       vd_spent = nanos_str (bl_spent v), vd_held = nanos_str (bl_held v), vd_remaining = nanos_str (bl_remaining v),
       vd_unlimited = bl_unlimited v\<rparr>) (bs_levels s)\<rparr>"

datatype api_body =
    RunBody run_dto
  | RunsBody "run_dto list"
  | BudgetBody budget_dto
  | LeaseBody lease_dto
  | LeasesBody "lease_dto list"
  | VerifiedBody nat string "int option"
  | JsonExport "export_entry list"
  | CsvExport "billing_error + string list list"
  | AuditBody "audit_record list"

text \<open>An error carries its status and kind.\<close>

datatype api_response = ApiError nat string | ApiReply nat api_body

fun response_status :: "api_response \<Rightarrow> nat" where
  "response_status (ApiError status kind) = status"
| "response_status (ApiReply status body) = status"

definition invalid_request :: api_response where
  "invalid_request = ApiError 400 ''invalid_request''"

fun store_failure :: "store_error \<Rightarrow> api_response" where
  "store_failure ErrNotFound = ApiError 404 ''not_found''"
| "store_failure ErrConflict = ApiError 409 ''conflict''"
| "store_failure _ = ApiError 500 ''internal''"

text \<open>A store call under the request's context.\<close>

definition ended :: "(store_error + 'a) option \<Rightarrow> store_error + 'a" where
  "ended r = (case r of None \<Rightarrow> Inl ErrInternal | Some x \<Rightarrow> x)"

section \<open>Reading a request\<close>

text \<open>
  \<open>decodeJSON\<close>: the decoder's first answer on the body, and whether the second call meets the end of
  the input. A body beyond the limit fails one of the two.
\<close>

record api_request = admin_request +
  ap_query :: "string \<Rightarrow> string"
  ap_body :: string

definition max_json_body :: nat where "max_json_body = 1048576"

definition decode_json :: "(string \<Rightarrow> ('a \<times> bool) option) \<Rightarrow> api_request \<Rightarrow> api_response + 'a" where
  "decode_json decoder r =
     (if \<not> has_prefix (to_lower (header_get (rq_header r) ''Content-Type'')) ''application/json''
      then Inl (ApiError 415 ''invalid_request'')
      else if max_json_body < length (ap_body r) then Inl invalid_request
      else (case decoder (ap_body r) of
          None \<Rightarrow> Inl invalid_request
        | Some (v, at_end) \<Rightarrow> if at_end then Inr v else Inl invalid_request))"

definition parse_nonnegative_usd :: "string \<Rightarrow> nanos option" where
  "parse_nonnegative_usd raw = (case parse_usd raw of Inl _ \<Rightarrow> None | Inr v \<Rightarrow> if v < 0 then None else Some v)"

definition default_string :: "string \<Rightarrow> string \<Rightarrow> string" where
  "default_string value fallback = (if trim_space value = [] then fallback else value)"

fun normalize_from :: "string list \<Rightarrow> string list \<Rightarrow> string list option" where
  "normalize_from seen [] = Some (rev seen)"
| "normalize_from seen (raw # rest) =
     (let item = to_lower (trim_space raw)
      in if item = [] \<or> item \<in> set seen then None else normalize_from (item # seen) rest)"

definition normalize_providers :: "string list \<Rightarrow> string list option" where
  "normalize_providers raw = normalize_from [] raw"

definition query_param :: "api_request \<Rightarrow> string \<Rightarrow> string" where
  "query_param r name = trim_space (ap_query r name)"

text \<open>The ledger filter of an export: \<open>None\<close> when \<open>since\<close> is not a timestamp.\<close>

definition query_since :: "api_request \<Rightarrow> instant option" where
  "query_since r = (if query_param r ''since'' = [] then Some 0 else parse_rfc3339 (query_param r ''since''))"

definition query_ledger_filter :: "api_request \<Rightarrow> ledger_filter option" where
  "query_ledger_filter r =
     (case query_since r of
        None \<Rightarrow> None
      | Some since \<Rightarrow> Some \<lparr>lf_run = query_param r ''run_id'', lf_principal = query_param r ''principal_id'',
          lf_since = since, lf_limit = 0\<rparr>)"

section \<open>The endpoints\<close>

type_synonym api_state = "revocation_set \<times> db"

record api_env =
  ev_now :: instant
  ev_id_bytes :: "nat list"
  ev_token_bytes :: "nat list"

record create_run_request =
  cr_budget :: string
  cr_parent :: string

record issue_lease_request =
  il_ttl :: int
  il_providers :: "string list"
  il_ceiling :: string

record api_codec =
  ac_run :: "string \<Rightarrow> (create_run_request \<times> bool) option"
  ac_lease :: "string \<Rightarrow> (issue_lease_request \<times> bool) option"

definition list_runs_call :: "string \<Rightarrow> db \<Rightarrow> api_response" where
  "list_runs_call p d =
     (case get_principal d p of
        Inl e \<Rightarrow> store_failure e
      | Inr _ \<Rightarrow> ApiReply 200 (RunsBody (map run_response (list_runs_by_principal d p))))"

definition new_run :: "api_env \<Rightarrow> string \<Rightarrow> create_run_request \<Rightarrow> nanos \<Rightarrow> run" where
  "new_run en p input budget =
     \<lparr>run_id = new_id run_prefix (ev_id_bytes en), run_principal = p, run_parent = trim_space (cr_parent input),
      run_budget = budget, run_status = RunActive, run_created = ev_now en, run_closed = None\<rparr>"

definition create_run_call :: "api_codec \<Rightarrow> api_env \<Rightarrow> api_request \<Rightarrow> string \<Rightarrow> db \<Rightarrow> api_response \<times> db" where
  "create_run_call codec en r p d =
     (case get_principal d p of
        Inl e \<Rightarrow> (store_failure e, d)
      | Inr _ \<Rightarrow>
          (case decode_json (ac_run codec) r of
             Inl response \<Rightarrow> (response, d)
           | Inr input \<Rightarrow>
               (case parse_nonnegative_usd (cr_budget input) of
                  None \<Rightarrow> (invalid_request, d)
                | Some budget \<Rightarrow>
                    (let run = new_run en p input budget
                     in case create_run run d of
                          Inl e \<Rightarrow> (store_failure e, d)
                        | Inr d' \<Rightarrow> (ApiReply 201 (RunBody (run_response run)), d')))))"

definition get_run_call :: "string \<Rightarrow> db \<Rightarrow> api_response" where
  "get_run_call i d =
     (case get_run d i of Inl e \<Rightarrow> store_failure e | Inr run \<Rightarrow> ApiReply 200 (RunBody (run_response run)))"

definition close_run_call :: "api_env \<Rightarrow> string \<Rightarrow> db \<Rightarrow> api_response \<times> db" where
  "close_run_call en i d =
     (case close_run (ev_now en) i d of
        Inl e \<Rightarrow> (store_failure e, d)
      | Inr d' \<Rightarrow> (get_run_call i d', d'))"

definition get_budget_call :: "string \<Rightarrow> db \<Rightarrow> api_response" where
  "get_budget_call i d =
     (case ended (budget_status d i) of
        Inl e \<Rightarrow> store_failure e
      | Inr status \<Rightarrow> ApiReply 200 (BudgetBody (budget_response status)))"

definition default_ttl :: int where "default_ttl = 900"
definition max_ttl :: int where "max_ttl = 2592000"

definition new_lease :: "(string \<Rightarrow> string) \<Rightarrow> api_env \<Rightarrow> string \<Rightarrow> string list \<Rightarrow> nanos \<Rightarrow> int \<Rightarrow> lease" where
  "new_lease sha en i scope cap ttl =
     \<lparr>ls_id = new_id lease_prefix (ev_id_bytes en), ls_run = i, ls_token_hash = snd (new_lease_token sha (ev_token_bytes en)),
      ls_providers = scope, ls_ceiling = cap, ls_expires = ev_now en + i64 (ttl * ns_per_second), ls_revoked = None,
      ls_created = ev_now en\<rparr>"

definition issue_lease_call ::
  "(string \<Rightarrow> string) \<Rightarrow> api_codec \<Rightarrow> api_env \<Rightarrow> api_request \<Rightarrow> string \<Rightarrow> db \<Rightarrow> api_response \<times> db" where
  "issue_lease_call sha codec en r i d =
     (case get_run d i of
        Inl e \<Rightarrow> (store_failure e, d)
      | Inr run \<Rightarrow>
          if run_status run \<noteq> RunActive then (ApiError 409 ''run_closed'', d)
          else (case decode_json (ac_lease codec) r of
              Inl response \<Rightarrow> (response, d)
            | Inr input \<Rightarrow>
                (let ttl = (if il_ttl input = 0 then default_ttl else il_ttl input)
                 in if ttl < 1 \<or> max_ttl < ttl then (invalid_request, d)
                    else (case parse_nonnegative_usd (default_string (il_ceiling input) ''0'') of
                        None \<Rightarrow> (invalid_request, d)
                      | Some cap \<Rightarrow>
                          (case normalize_providers (il_providers input) of
                             None \<Rightarrow> (invalid_request, d)
                           | Some scope \<Rightarrow>
                               (let lease = new_lease sha en (run_id run) scope cap ttl
                                in case ended (create_lease lease d) of
                                     Inl e \<Rightarrow> (store_failure e, d)
                                   | Inr d' \<Rightarrow>
                                       (ApiReply 201 (LeaseBody ((lease_response lease (ev_now en))
                                          \<lparr>ld_token := fst (new_lease_token sha (ev_token_bytes en))\<rparr>)), d')))))))"

definition list_leases_call :: "api_env \<Rightarrow> string \<Rightarrow> db \<Rightarrow> api_response" where
  "list_leases_call en i d =
     (case get_run d i of
        Inl e \<Rightarrow> store_failure e
      | Inr _ \<Rightarrow> ApiReply 200 (LeasesBody (map (\<lambda>l. lease_response l (ev_now en)) (list_leases_by_run d i))))"

definition revoke_lease_call :: "api_env \<Rightarrow> string \<Rightarrow> api_state \<Rightarrow> api_response \<times> api_state" where
  "revoke_lease_call en i st =
     (case kill_lease (ev_now en) i st of
        (Inl e, st') \<Rightarrow> (store_failure e, st')
      | (Inr l, st') \<Rightarrow> (ApiReply 200 (LeaseBody (lease_response l (ev_now en))), st'))"

definition no_filter :: ledger_filter where
  "no_filter = \<lparr>lf_run = [], lf_principal = [], lf_since = 0, lf_limit = 0\<rparr>"

definition verify_ledger_call :: "(string \<Rightarrow> string) \<Rightarrow> db \<Rightarrow> api_response" where
  "verify_ledger_call sha d =
     (let entries = ledger_entries d no_filter
      in case verify_chain sha entries of
           Inl _ \<Rightarrow> ApiError 409 ''ledger_invalid''
         | Inr _ \<Rightarrow>
             ApiReply 200 (VerifiedBody (length entries)
               (if entries = [] then genesis_hash else e_hash (last entries))
               (if entries = [] then None else Some (e_seq (last entries)))))"

definition export_ledger_call :: "api_request \<Rightarrow> db \<Rightarrow> api_response" where
  "export_ledger_call r d =
     (case query_ledger_filter r of
        None \<Rightarrow> invalid_request
      | Some f \<Rightarrow>
          (let entries = ledger_entries d f;
               format = to_lower (query_param r ''format'')
           in if format = [] \<or> format = ''json'' then ApiReply 200 (JsonExport (export_entries entries))
              else if format \<noteq> ''csv'' then invalid_request
              else ApiReply 200 (CsvExport (write_csv entries))))"

definition list_audit_call :: "operator_db \<Rightarrow> api_request \<Rightarrow> api_response" where
  "list_audit_call od r =
     (let raw = query_param r ''limit''
      in case (if raw = [] then Some 100 else parse_int raw) of
           None \<Rightarrow> invalid_request
         | Some limit \<Rightarrow>
             if raw \<noteq> [] \<and> (limit < 1 \<or> 1000 < limit) then invalid_request
             else (case query_since r of
                 None \<Rightarrow> invalid_request
               | Some since \<Rightarrow>
                   ApiReply 200 (AuditBody (list_operator_audit od
                     \<lparr>af_actor = query_param r ''actor_id'', af_action = query_param r ''action'',
                      af_since = since, af_limit = limit\<rparr>))))"

section \<open>Routes\<close>

datatype api_call =
    ListRuns string | CreateRun string | GetRun string | CloseRun string | GetBudget string
  | ListLeases string | IssueLease string | RevokeLease string | VerifyLedger | ExportLedger | ListAudit

fun call_pattern :: "api_call \<Rightarrow> string" where
  "call_pattern (ListRuns p) = ''GET /api/v1/principals/{principal}/runs''"
| "call_pattern (CreateRun p) = ''POST /api/v1/principals/{principal}/runs''"
| "call_pattern (GetRun i) = ''GET /api/v1/runs/{run}''"
| "call_pattern (CloseRun i) = ''POST /api/v1/runs/{run}/close''"
| "call_pattern (GetBudget i) = ''GET /api/v1/runs/{run}/budget''"
| "call_pattern (ListLeases i) = ''GET /api/v1/runs/{run}/leases''"
| "call_pattern (IssueLease i) = ''POST /api/v1/runs/{run}/leases''"
| "call_pattern (RevokeLease i) = ''POST /api/v1/leases/{lease}/revoke''"
| "call_pattern VerifyLedger = ''GET /api/v1/ledger/verify''"
| "call_pattern ExportLedger = ''GET /api/v1/ledger/export''"
| "call_pattern ListAudit = ''GET /api/v1/operator-audit''"

fun call_role :: "api_call \<Rightarrow> role" where
  "call_role (CreateRun p) = RoleOperator"
| "call_role (CloseRun i) = RoleOperator"
| "call_role (IssueLease i) = RoleOperator"
| "call_role (RevokeLease i) = RoleOperator"
| "call_role ListAudit = RoleAdmin"
| "call_role _ = RoleViewer"

text \<open>The methods a pattern accepts: a GET pattern accepts HEAD too.\<close>

definition call_accepts :: "api_call \<Rightarrow> string \<Rightarrow> bool" where
  "call_accepts c m \<longleftrightarrow> (if has_prefix (call_pattern c) ''GET '' then m \<in> {''GET'', ''HEAD''} else m = ''POST'')"

definition on_db :: "revocation_set \<Rightarrow> api_response \<times> db \<Rightarrow> api_response \<times> api_state" where
  "on_db revs res = (fst res, revs, snd res)"

fun api_handle ::
  "(string \<Rightarrow> string) \<Rightarrow> api_codec \<Rightarrow> api_env \<Rightarrow> api_request \<Rightarrow> operator_db \<Rightarrow> api_call \<Rightarrow> api_state \<Rightarrow> api_response \<times> api_state"
where
  "api_handle sha codec en r od (ListRuns p) (revs, d) = on_db revs (list_runs_call p d, d)"
| "api_handle sha codec en r od (CreateRun p) (revs, d) = on_db revs (create_run_call codec en r p d)"
| "api_handle sha codec en r od (GetRun i) (revs, d) = on_db revs (get_run_call i d, d)"
| "api_handle sha codec en r od (CloseRun i) (revs, d) = on_db revs (close_run_call en i d)"
| "api_handle sha codec en r od (GetBudget i) (revs, d) = on_db revs (get_budget_call i d, d)"
| "api_handle sha codec en r od (ListLeases i) (revs, d) = on_db revs (list_leases_call en i d, d)"
| "api_handle sha codec en r od (IssueLease i) (revs, d) = on_db revs (issue_lease_call sha codec en r i d)"
| "api_handle sha codec en r od (RevokeLease i) (revs, d) = revoke_lease_call en i (revs, d)"
| "api_handle sha codec en r od VerifyLedger (revs, d) = on_db revs (verify_ledger_call sha d, d)"
| "api_handle sha codec en r od ExportLedger (revs, d) = on_db revs (export_ledger_call r d, d)"
| "api_handle sha codec en r od ListAudit (revs, d) = on_db revs (list_audit_call od r, d)"

text \<open>
  One request through the guard to its endpoint. The audit trail an admin reads is the one at the time
  of the request, to which a read adds nothing.
\<close>

definition serve_api ::
  "(string \<Rightarrow> string) \<Rightarrow> (string \<Rightarrow> string option) \<Rightarrow> guard \<Rightarrow> audit_env \<Rightarrow> api_codec \<Rightarrow> api_env \<Rightarrow> api_call \<Rightarrow> api_request \<Rightarrow>
     operator_db \<times> api_state \<Rightarrow> int \<times> operator_db \<times> api_state" where
  "serve_api sha origin_host g aen codec en c r st =
     protect_role sha origin_host g aen (call_role c) (admin_request.truncate r)
       (\<lambda>i s. case api_handle sha codec en r (fst st) c s of (response, s') \<Rightarrow> (int (response_status response), s')) st"

section \<open>What a call does to the store\<close>

named_theorems api_calls \<open>the endpoints, for case analysis\<close>

lemmas [api_calls] = create_run_call_def close_run_call_def issue_lease_call_def revoke_lease_call_def
  get_run_call_def list_runs_call_def get_budget_call_def list_leases_call_def verify_ledger_call_def
  export_ledger_call_def list_audit_call_def

lemma store_failure_status: "400 \<le> response_status (store_failure e)"
  by (cases e) simp_all

lemma store_failure_reply [simp]: "store_failure e \<noteq> ApiReply status body"
  by (cases e) simp_all

lemma ended_Inr: "ended r = Inr x \<longleftrightarrow> r = Some (Inr x)"
  by (auto simp: ended_def split: option.splits)

lemma decode_json_status: "decode_json decoder r = Inl response \<Longrightarrow> 400 \<le> response_status response"
  by (auto simp: decode_json_def invalid_request_def split: if_splits option.splits)

lemma nonnegative_usd_typed: "parse_nonnegative_usd raw = Some v \<Longrightarrow> 0 \<le> v \<and> v \<le> max_i64"
  using parse_usd_in_i64 by (auto simp: parse_nonnegative_usd_def in_i64_def split: sum.splits if_splits)

lemma create_run_call_step:
  assumes "create_run_call codec en r p d = (response, d')"
  shows "400 \<le> response_status response \<and> d' = d \<or>
    response_status response < 300 \<and> (\<exists>run. create_run run d = Inr d' \<and> run_budget run \<le> max_i64)"
  using assms decode_json_status nonnegative_usd_typed
  by (fastforce simp: create_run_call_def store_failure_status invalid_request_def Let_def new_run_def
      split: sum.splits option.splits)

lemma close_run_call_step:
  assumes "close_run_call en i d = (response, d')"
  shows "400 \<le> response_status response \<and> d' = d \<or> close_run (ev_now en) i d = Inr d' \<and> response_status response < 300"
proof (cases "close_run (ev_now en) i d")
  case (Inl e)
  with assms show ?thesis by (auto simp: close_run_call_def store_failure_status)
next
  case (Inr d1)
  then have "i \<in> run_id ` set (d_runs d)" and d1: "d1 = d\<lparr>d_runs := map (close_row (ev_now en) i) (d_runs d)\<rparr>"
    by (auto simp: close_run_def find_run_None split: if_splits)
  moreover have "run_id (close_row (ev_now en) i r) = run_id r" for r by (simp add: close_row_def)
  ultimately have "i \<in> run_id ` set (d_runs d1)" by (simp add: image_image)
  then obtain run where "find_run (d_runs d1) i = Some run" using find_run_None [of "d_runs d1" i] by fastforce
  then show ?thesis using assms Inr by (auto simp: close_run_call_def get_run_call_def get_run_def)
qed

lemma issue_lease_call_step:
  assumes "issue_lease_call sha codec en r i d = (response, d')"
  shows "400 \<le> response_status response \<and> d' = d \<or>
    (\<exists>run cap raw scope ttl. get_run d i = Inr run \<and> run_status run = RunActive \<and> 0 \<le> cap \<and> 1 \<le> ttl \<and> ttl \<le> max_ttl \<and>
       normalize_providers raw = Some scope \<and>
       (let l = new_lease sha en (run_id run) scope cap ttl
        in create_lease l d = Some (Inr d') \<and>
           response = ApiReply 201 (LeaseBody ((lease_response l (ev_now en))
             \<lparr>ld_token := fst (new_lease_token sha (ev_token_bytes en))\<rparr>))))"
proof (cases "get_run d i")
  case (Inl e)
  with assms show ?thesis by (auto simp: issue_lease_call_def store_failure_status)
next
  case run: (Inr run)
  show ?thesis
  proof (cases "decode_json (ac_lease codec) r")
    case (Inl response')
    with assms run decode_json_status [OF this] show ?thesis by (auto simp: issue_lease_call_def split: if_splits)
  next
    case input: (Inr input)
    define ttl where "ttl = (if il_ttl input = 0 then default_ttl else il_ttl input)"
    show ?thesis
    proof (cases "run_status run = RunActive \<and> 1 \<le> ttl \<and> ttl \<le> max_ttl \<and>
        parse_nonnegative_usd (default_string (il_ceiling input) ''0'') \<noteq> None \<and> normalize_providers (il_providers input) \<noteq> None")
      case False
      with assms run input show ?thesis
        by (auto simp: issue_lease_call_def ttl_def [symmetric] invalid_request_def Let_def split: if_splits option.splits)
    next
      case True
      then obtain cap scope where cap: "parse_nonnegative_usd (default_string (il_ceiling input) ''0'') = Some cap"
        and scope: "normalize_providers (il_providers input) = Some scope" by blast
      define l where "l = new_lease sha en (run_id run) scope cap ttl"
      have res: "(case ended (create_lease l d) of
          Inl e \<Rightarrow> (store_failure e, d)
        | Inr d' \<Rightarrow> (ApiReply 201 (LeaseBody ((lease_response l (ev_now en))
            \<lparr>ld_token := fst (new_lease_token sha (ev_token_bytes en))\<rparr>)), d')) = (response, d')"
        using assms run input True cap scope
        by (simp add: issue_lease_call_def ttl_def [symmetric] Let_def l_def [symmetric])
      show ?thesis
      proof (cases "ended (create_lease l d)")
        case (Inl e)
        with res store_failure_status [of e] show ?thesis by simp
      next
        case (Inr d1)
        with res have "create_lease l d = Some (Inr d')" and "response = ApiReply 201 (LeaseBody ((lease_response l (ev_now en))
            \<lparr>ld_token := fst (new_lease_token sha (ev_token_bytes en))\<rparr>))"
          by (simp_all add: ended_Inr)
        then show ?thesis
          using True run scope nonnegative_usd_typed [OF cap]
          by (intro disjI2 exI [of _ run] exI [of _ cap] exI [of _ "il_providers input"] exI [of _ scope] exI [of _ ttl])
            (simp add: l_def Let_def)
      qed
    qed
  qed
qed

definition revoke_row :: "instant \<Rightarrow> string \<Rightarrow> lease \<Rightarrow> lease" where
  "revoke_row now i l = (if ls_id l = i \<and> ls_revoked l = None then l\<lparr>ls_revoked := Some now\<rparr> else l)"

lemma revoke_row_keeps [simp]: "ls_id (revoke_row now i l) = ls_id l" "ls_token_hash (revoke_row now i l) = ls_token_hash l"
  by (simp_all add: revoke_row_def)

lemma revoke_lease_rows:
  "find_lease d i = Some l \<Longrightarrow> revoke_lease now i d = Inr (d\<lparr>d_leases := map (revoke_row now i) (d_leases d)\<rparr>)"
  unfolding revoke_lease_def revoke_row_def by simp

lemma kill_lease_step:
  assumes "kill_lease now i (s, d) = (res, s', d')"
  shows "(\<exists>e. res = Inl e) \<and> s' = s \<and> d' = d \<or>
    (\<exists>l l'. find_lease d i = Some l \<and> s' = revoke_hash (ls_token_hash l) s \<and> revoke_lease now i d = Inr d' \<and>
       res = Inr l' \<and> find_lease d' i = Some l')"
proof (cases "find_lease d i")
  case None
  then show ?thesis using assms by (auto simp: kill_lease_def get_lease_def)
next
  case (Some l)
  let ?d = "d\<lparr>d_leases := map (revoke_row now i) (d_leases d)\<rparr>"
  have "find_lease ?d i = Some (revoke_row now i l)"
    using Some by (simp add: find_lease_def find_map_key)
  then show ?thesis using assms Some revoke_lease_rows [OF Some] by (auto simp: kill_lease_def get_lease_def Let_def)
qed

lemma revoke_hash_subset: "set s \<subseteq> set (revoke_hash h s)"
  by (auto simp: revoke_hash_def)

text \<open>Every endpoint changes nothing, or makes one store step and answers with success.\<close>

lemma revoke_lease_call_step:
  assumes "revoke_lease_call en i (revs, d) = (response, revs', d')"
  shows "400 \<le> response_status response \<and> revs' = revs \<and> d' = d \<or>
    response_status response < 300 \<and> revoke_lease (ev_now en) i d = Inr d' \<and> set revs \<subseteq> set revs'"
proof -
  obtain res s1 d1 where k: "kill_lease (ev_now en) i (revs, d) = (res, s1, d1)" by (metis surj_pair)
  from kill_lease_step [OF k] show ?thesis
  proof (elim disjE exE conjE)
    fix l l'
    assume "res = Inr l'" "s1 = revoke_hash (ls_token_hash l) revs" "revoke_lease (ev_now en) i d = Inr d1"
    then show ?thesis using assms k revoke_hash_subset by (auto simp: revoke_lease_call_def)
  qed (use assms k in \<open>auto simp: revoke_lease_call_def store_failure_status\<close>)
qed

lemma api_handle_step:
  assumes "api_handle sha codec en r od c (revs, d) = (response, revs', d')"
  shows "revs' = revs \<and> d' = d \<or>
    response_status response < 300 \<and> \<not> has_prefix (call_pattern c) ''GET '' \<and> set revs \<subseteq> set revs' \<and>
    (\<exists>op. store_step sha d op d' \<and> management_op op \<and> typed_op op)"
proof (cases c)
  case (CreateRun p)
  then have call: "create_run_call codec en r p d = (response, d')" and revs: "revs' = revs"
    using assms by (auto simp: on_db_def prod_eq_iff)
  show ?thesis
    using create_run_call_step [OF call] revs CreateRun step_create_run [of _ d d' sha] management_op.simps typed_op.simps(2)
    by fastforce
next
  case (CloseRun i)
  then have call: "close_run_call en i d = (response, d')" and revs: "revs' = revs"
    using assms by (auto simp: on_db_def prod_eq_iff)
  show ?thesis
    using close_run_call_step [OF call] revs CloseRun step_close_run [of "ev_now en" i d d' sha] by fastforce
next
  case (IssueLease i)
  then have call: "issue_lease_call sha codec en r i d = (response, d')" and revs: "revs' = revs"
    using assms by (auto simp: on_db_def prod_eq_iff)
  show ?thesis
    using issue_lease_call_step [OF call] revs IssueLease step_create_lease [of _ d d' sha] by (fastforce simp: Let_def)
next
  case (RevokeLease i)
  then have call: "revoke_lease_call en i (revs, d) = (response, revs', d')" using assms by simp
  show ?thesis
    using revoke_lease_call_step [OF call] RevokeLease step_revoke_lease [of "ev_now en" i d d' sha] by fastforce
qed (use assms in \<open>auto simp: on_db_def\<close>)

lemma protect_role_result:
  assumes "protect_role sha origin_host g en required r handler (od, s) = (status, od', s')"
  shows "s' = s \<and> status \<in> {401, 403, 503} \<or> (\<exists>i. handler i s = (status, s'))"
proof (cases "access sha origin_host g required r")
  case (Inl st)
  moreover have "st \<in> {401, 403, 503}"
    using Inl by (auto simp: access_def split: if_splits sum.splits bool.splits option.splits)
  ultimately show ?thesis using assms by (auto simp: protect_role_def)
next
  case (Inr i)
  show ?thesis
  proof (cases "safe_method (rq_method r) \<or> \<not> gd_audits g")
    case True
    with assms Inr show ?thesis by (auto simp: protect_role_def split: prod.splits)
  next
    case False
    with assms Inr have "audit_mutation en r i (handler i) (od, s) = (status, od', s')" by (simp add: protect_role_def)
    from audit_mutation_trace [OF this] show ?thesis by auto
  qed
qed

section \<open>The control API on the store's invariants\<close>

lemma serve_api_step:
  assumes "serve_api sha origin_host g aen codec en c r (od, revs, d) = (status, od', revs', d')"
    and "int (length (d_ledger d)) < max_i64"
  shows "evolves sha management_op d d' \<and> set revs \<subseteq> set revs' \<and>
    ((revs', d') = (revs, d) \<or> status < 300 \<and> \<not> has_prefix (call_pattern c) ''GET '')"
proof -
  let ?h = "\<lambda>(i :: identity) s. case api_handle sha codec en r od c s of (response, s') \<Rightarrow> (int (response_status response), s')"
  have "protect_role sha origin_host g aen (call_role c) (admin_request.truncate r) ?h (od, revs, d) = (status, od', revs', d')"
    using assms(1) by (simp add: serve_api_def)
  from protect_role_result [OF this] consider "(revs', d') = (revs, d)" | i where "?h i (revs, d) = (status, revs', d')"
    by blast
  then show ?thesis
  proof cases
    case 1
    then show ?thesis by (simp add: evolves_refl)
  next
    case 2
    then obtain response where "api_handle sha codec en r od c (revs, d) = (response, revs', d')"
      and status: "status = int (response_status response)" by (auto split: prod.splits)
    from api_handle_step [OF this(1)] show ?thesis
    proof (elim disjE conjE exE)
      fix op
      assume "store_step sha d op d'" "management_op op" "typed_op op"
      from evolves_step [where allowed = management_op, OF evolves_refl this(2,3) assms(2) this(1)]
      show "response_status response < 300 \<Longrightarrow> \<not> has_prefix (call_pattern c) ''GET '' \<Longrightarrow> set revs \<subseteq> set revs' \<Longrightarrow> ?thesis"
        by (simp add: status)
    qed (simp add: evolves_refl)
  qed
qed


section \<open>The life of an issued token\<close>

lemma find_snoc: "(\<forall>x \<in> set xs. \<not> P x) \<Longrightarrow> P y \<Longrightarrow> find P (xs @ [y]) = Some y"
  by (induction xs) simp_all

lemma normalize_from_names:
  "normalize_from seen raw = Some out \<Longrightarrow> [] \<notin> set seen \<Longrightarrow> distinct seen \<Longrightarrow> [] \<notin> set out \<and> distinct out"
  by (induction seen raw rule: normalize_from.induct) (auto simp: Let_def split: if_splits)

lemma normalize_providers_names: "normalize_providers raw = Some scope \<Longrightarrow> [] \<notin> set scope \<and> distinct scope"
  unfolding normalize_providers_def by (erule normalize_from_names) simp_all

lemma authenticate_stored_lease:
  assumes "get_lease_by_token_hash d (hash_secret sha token) = Inr l" and "lease_active l now"
    and "get_run d (ls_run l) = Inr r" and "run_status r = RunActive" and "get_principal d (run_principal r) = Inr p"
    and "credential_from (rq_header req) = Some token" and "looks_like_lease_token token"
    and "\<not> revoked revs (hash_secret sha token)" and "gw_leases_set g"
  shows "authenticate sha g now req revs d = (Inr \<lparr>au_principal = p, au_run = run_id r, au_lease = Some l\<rparr>, d)"
  using assms by (simp add: authenticate_def lease_auth_def split: option.splits)

text \<open>A lease as the store keeps it: its provider names went through the column's encoding.\<close>

definition stored_lease :: "lease \<Rightarrow> lease" where
  "stored_lease l = l\<lparr>ls_providers := decode_providers (encode_providers (ls_providers l))\<rparr>"

lemma inserted_lease_found:
  assumes "insert_lease l d = Inr d'"
  shows "d' = d\<lparr>d_leases := d_leases d @ [stored_lease l]\<rparr>"
    and "get_lease_by_token_hash d' (ls_token_hash l) = Inr (stored_lease l)"
proof -
  have rows: "d' = d\<lparr>d_leases := d_leases d @ [stored_lease l]\<rparr>" "\<forall>q \<in> set (d_leases d). ls_token_hash q \<noteq> ls_token_hash l"
    using assms by (auto simp: insert_lease_def stored_lease_def split: if_splits)
  show "d' = d\<lparr>d_leases := d_leases d @ [stored_lease l]\<rparr>" by (rule rows)
  show "get_lease_by_token_hash d' (ls_token_hash l) = Inr (stored_lease l)"
    using rows(2) by (simp add: get_lease_by_token_hash_def rows(1) find_snoc stored_lease_def)
qed

lemma stored_lease_names:
  assumes "normalize_providers raw = Some (ls_providers l)" and "\<forall>name \<in> set (ls_providers l). CHR '','' \<notin> set name"
  shows "ls_providers (stored_lease l) = ls_providers l"
  using normalize_providers_names [OF assms(1)] decode_encode_providers [OF assms(2)]
  by (simp add: stored_lease_def) (metis list.set_intros(1))

lemma run_has_owner:
  assumes "schema_ok d" and "get_run d i = Inr r"
  shows "\<exists>p. get_principal d (run_principal r) = Inr p"
proof -
  have "r \<in> set (d_runs d)" using assms(2) find_run_SomeD by (auto simp: get_run_def split: option.splits)
  then have "run_principal r \<in> pr_id ` set (d_principals d)" using assms(1) by (auto simp: schema_ok_def runs_ok_def)
  then show ?thesis
    by (cases "find_principal d (run_principal r)") (auto simp: get_principal_def find_principal_def find_None_iff)
qed

text \<open>
  C17. A token the API hands out works until it expires. The lease behind a 201 answer is for the named
  run, which is active, its ceiling is the
  answered one, and so is its scope when no name in it has a comma, it lives for at most thirty days;
  and a request that presents the returned token, at any time before the answered expiry and on a
  gateway that has not revoked it, is authenticated for that lease, that run and the run's owner.
\<close>

theorem issued_token_authenticates:
  assumes "issue_lease_call sha codec en r i d = (ApiReply 201 (LeaseBody dto), d')" and "schema_ok d"
    and "credential_from (rq_header req) = Some (ld_token dto)" and "later < ld_expires dto"
    and "\<not> revoked revs (hash_secret sha (ld_token dto))" and "gw_leases_set g"
  shows "\<exists>l p run. authenticate sha g later req revs d' =
      (Inr \<lparr>au_principal = p, au_run = i, au_lease = Some l\<rparr>, d') \<and>
    find_run (d_runs d) i = Some run \<and> run_status run = RunActive \<and> find_principal d (run_principal run) = Some p \<and>
    ls_id l = ld_id dto \<and> nanos_str (ls_ceiling l) = ld_ceiling dto \<and> 0 \<le> ls_ceiling l \<and>
    ((\<forall>name \<in> set (ld_providers dto). CHR '','' \<notin> set name) \<longrightarrow> ls_providers l = ld_providers dto) \<and>
    ls_expires l = ld_expires dto \<and> ld_expires dto \<le> ev_now en + max_ttl * ns_per_second"
proof -
  obtain run cap raw scope ttl where run: "get_run d i = Inr run" "run_status run = RunActive" and cap: "0 \<le> cap"
    and names: "normalize_providers raw = Some scope" and ttl: "1 \<le> ttl" "ttl \<le> max_ttl"
    and made: "create_lease (new_lease sha en (run_id run) scope cap ttl) d = Some (Inr d')"
    and dto: "dto = (lease_response (new_lease sha en (run_id run) scope cap ttl) (ev_now en))
      \<lparr>ld_token := fst (new_lease_token sha (ev_token_bytes en))\<rparr>"
    using issue_lease_call_step [OF assms(1)] by (auto simp: Let_def)
  let ?l = "new_lease sha en (run_id run) scope cap ttl"
  have row: "ls_token_hash ?l = hash_secret sha (ld_token dto)" "ls_id ?l = ld_id dto" "nanos_str (ls_ceiling ?l) = ld_ceiling dto"
    "ls_ceiling ?l = cap" "ls_expires ?l = ld_expires dto" "ls_revoked ?l = None" "ls_run ?l = run_id run" "ls_providers ?l = ld_providers dto"
    "ls_providers ?l = scope" "ls_expires ?l = ev_now en + i64 (ttl * ns_per_second)" "looks_like_lease_token (ld_token dto)"
    using new_secret_kind(2) [of sha "ev_token_bytes en"]
    by (simp_all add: dto lease_response_def new_lease_def new_lease_token_def new_secret_def Let_def)
  have ins: "insert_lease ?l d = Inr d'" using made by (auto simp: create_lease_def split: option.splits if_splits)
  have found: "find_run (d_runs d) i = Some run" and id: "run_id run = i"
    using run(1) find_run_SomeD by (auto simp: get_run_def split: option.splits)
  obtain p where p: "get_principal d (run_principal run) = Inr p" using run_has_owner [OF assms(2) run(1)] by blast
  have "authenticate sha g later req revs d' = (Inr \<lparr>au_principal = p, au_run = run_id run, au_lease = Some (stored_lease ?l)\<rparr>, d')"
  proof (rule authenticate_stored_lease)
    show "get_lease_by_token_hash d' (hash_secret sha (ld_token dto)) = Inr (stored_lease ?l)"
      using inserted_lease_found(2) [OF ins] row(1) by simp
    show "lease_active (stored_lease ?l) later" using assms(4) row(5,6) by (simp add: stored_lease_def lease_active_def)
    show "get_run d' (ls_run (stored_lease ?l)) = Inr run"
      using run(1) row(7) id inserted_lease_found(1) [OF ins] by (simp add: stored_lease_def get_run_def)
    show "get_principal d' (run_principal run) = Inr p"
      using p inserted_lease_found(1) [OF ins] by (simp add: get_principal_def find_principal_def)
  qed (use run(2) assms(3,5,6) row(11) in simp_all)
  moreover have "i64 (ttl * ns_per_second) = ttl * ns_per_second"
    using ttl by (intro i64_nonneg_id) (auto simp: ns_per_second_def max_ttl_def max_i64_def)
  then have "ld_expires dto \<le> ev_now en + max_ttl * ns_per_second" using ttl row(5,10) by (simp add: ns_per_second_def)
  moreover have "ls_providers (stored_lease ?l) = ld_providers dto" if "\<forall>name \<in> set (ld_providers dto). CHR '','' \<notin> set name"
    using stored_lease_names [of raw ?l] that names row(8,9) by simp
  moreover have "find_principal d (run_principal run) = Some p" using p by (simp add: get_principal_def split: option.splits)
  moreover have "ls_id (stored_lease ?l) = ld_id dto" "nanos_str (ls_ceiling (stored_lease ?l)) = ld_ceiling dto"
    "0 \<le> ls_ceiling (stored_lease ?l)" "ls_expires (stored_lease ?l) = ld_expires dto"
    using row(2-5) cap by (simp_all add: stored_lease_def)
  ultimately show ?thesis using found run(2) id by blast
qed

text \<open>
  C18. A revoked lease is refused everywhere. After a 200 answer to a revocation, the lease reads as
  revoked, this process refuses its token for good, whatever the database says, and any process that
  reads the database the call left behind, with whatever it holds in memory, refuses it too.
\<close>

theorem revoked_lease_is_refused:
  assumes "revoke_lease_call en i (revs, d) = (ApiReply 200 (LeaseBody dto), revs', d')" and "schema_ok d"
    and "find_lease d i = Some l" and "hash_secret sha token = ls_token_hash l" and "looks_like_lease_token token"
    and "credential_from (rq_header req) = Some token" and "gw_revocable g" and "set revs' \<subseteq> set revs2"
  shows "ld_status dto = ''revoked'' \<and>
    authenticate sha g later req revs2 any_db = (Inl (lease_rejected ''That lease has been revoked.''), any_db) \<and>
    (\<exists>message. authenticate sha g2 later req any_revs d' = (Inl (lease_rejected message), d'))"
proof -
  obtain res where kill: "kill_lease (ev_now en) i (revs, d) = (res, revs', d')"
    and res: "case res of Inl e \<Rightarrow> False | Inr l' \<Rightarrow> dto = lease_response l' (ev_now en)"
    using assms(1) by (auto simp: revoke_lease_call_def split: prod.splits sum.splits)
  from kill_lease_step [OF kill] res obtain l' where s': "revs' = revoke_hash (ls_token_hash l) revs"
    and rev: "revoke_lease (ev_now en) i d = Inr d'" and l': "find_lease d' i = Some l'" "dto = lease_response l' (ev_now en)"
    using assms(3) by auto
  have d': "d' = d\<lparr>d_leases := map (revoke_row (ev_now en) i) (d_leases d)\<rparr>"
    using rev revoke_lease_rows [OF assms(3)] by simp
  have l: "l \<in> set (d_leases d)" "ls_id l = i" using find_SomeD [OF assms(3) [unfolded find_lease_def]] by simp_all
  have dead: "ls_revoked (revoke_row (ev_now en) i l) \<noteq> None" using l(2) by (simp add: revoke_row_def)
  have "find_lease d' i = Some (revoke_row (ev_now en) i l)"
    using assms(3) by (simp add: find_lease_def d' find_map_key)
  then have status: "ld_status dto = ''revoked''" using l' dead by (simp add: lease_response_def)
  have "distinct (map ls_token_hash (d_leases d))" using assms(2) by (simp add: schema_ok_def leases_ok_def)
  then have "find (\<lambda>q. ls_token_hash q = ls_token_hash l) (d_leases d) = Some l" using l(1) by (rule find_distinct_key)
  then have "get_lease_by_token_hash d' (ls_token_hash l) = Inr (revoke_row (ev_now en) i l)"
    by (simp add: get_lease_by_token_hash_def d' find_map_key)
  then have "\<exists>message. authenticate sha g2 later req any_revs d' = (Inl (lease_rejected message), d')"
    using assms(4-6) dead by (auto simp: authenticate_def lease_auth_def lease_active_def)
  moreover have "revoked revs2 (hash_secret sha token)" using assms(4,8) s' by (auto simp: revoked_def revoke_hash_def split: if_splits)
  from stored.revoked_rejected [OF this] have
    "authenticate sha g later req revs2 any_db = (Inl (lease_rejected ''That lease has been revoked.''), any_db)"
    using assms(5-7) by (simp add: authenticate_def)
  ultimately show ?thesis using status by blast
qed

section \<open>Examples\<close>

definition sample_codec :: api_codec where
  "sample_codec = \<lparr>ac_run = \<lambda>_. None,
     ac_lease = \<lambda>_. Some (\<lparr>il_ttl = 0, il_providers = [''OpenAI''], il_ceiling = []\<rparr>, True)\<rparr>"

definition sample_api_env :: api_env where
  "sample_api_env = \<lparr>ev_now = 20, ev_id_bytes = [], ev_token_bytes = []\<rparr>"

definition local_api_request :: "string \<Rightarrow> api_request" where
  "local_api_request m = \<lparr>rq_method = m, rq_path = [], rq_header = [(''Content-Type'', [''application/json''])],
     aq_remote = ''127.0.0.1:9'', aq_host = ''localhost'', aq_pattern = [], aq_uri = [], ap_query = \<lambda>_. [], ap_body = []\<rparr>"

definition issued_request :: request where
  "issued_request = \<lparr>rq_method = ''POST'', rq_path = [], rq_header = [(''Authorization'', [''Bearer sll_''])]\<rparr>"

definition api_sample_audit :: audit_env where
  "api_sample_audit = \<lparr>ae_request_id = ''r'', ae_attempt_id = ''1'', ae_attempt_at = 1, ae_result_id = ''2'', ae_result_at = 2\<rparr>"


lemma sample_issue:
  "\<exists>dto d'. issue_lease_call drop_sha sample_codec sample_api_env (local_api_request ''POST'') ''run_a'' sample_db =
     (ApiReply 201 (LeaseBody dto), d') \<and> ld_token dto = ''sll_'' \<and> ld_expires dto = 900000000020"
proof -
  have scope: "normalize_providers [''OpenAI''] = Some [''openai'']" by code_simp
  have cap: "parse_nonnegative_usd (default_string [] ''0'') = Some 0" by code_simp
  have ctype: "header_get (rq_header (local_api_request m)) ''Content-Type'' = ''application/json''" for m
    by (simp add: local_api_request_def header_get_def)
  have low: "has_prefix (to_lower ''application/json'') ''application/json''" by code_simp
  have anc: "ancestors (d_runs sample_db) ''run_a'' = Some [sample_run ''run_a'' [] 100]"
    by (simp add: sample_db_def ancestors_def sample_run_def find_run_def numeral_eq_Suc)
  have b32: "base32 [] = []" by (simp add: base32_def quintets.simps)
  have body: "ap_body (local_api_request m) = []" for m by (simp add: local_api_request_def)
  have run: "get_run sample_db ''run_a'' = Inr (sample_run ''run_a'' [] 100)"
    by (simp add: get_run_def find_run_def sample_db_def sample_run_def)
  have fields: "run_id (sample_run ''run_a'' [] 100) = ''run_a''" "run_status (sample_run ''run_a'' [] 100) = RunActive"
    by (simp_all add: sample_run_def)
  define l where "l = new_lease drop_sha sample_api_env ''run_a'' [''openai''] 0 900"
  have l: "ls_run l = ''run_a''" "ls_ceiling l = 0" "ls_id l = ''lse_''" "ls_token_hash l = []"
    "ls_expires l = 900000000020"
    by (simp_all add: l_def new_lease_def new_lease_token_def new_secret_def lease_token_prefix_def
        sample_api_env_def b32 hash_secret_def drop_sha_def new_id_def lease_prefix_def i64_def ns_per_second_def)
  have "\<exists>d'. insert_lease l sample_db = Inr d'"
    by (simp add: insert_lease_def l) (simp add: sample_db_def sample_lease_def find_run_def sample_run_def)
  then obtain d' where "ended (create_lease l sample_db) = Inr d'"
    by (auto simp: create_lease_def l anc fields ended_def)
  moreover have "decode_json (ac_lease sample_codec) (local_api_request ''POST'') =
      Inr \<lparr>il_ttl = 0, il_providers = [''OpenAI''], il_ceiling = []\<rparr>"
    by (simp add: decode_json_def ctype low body sample_codec_def)
  moreover have "fst (new_lease_token drop_sha (ev_token_bytes sample_api_env)) = ''sll_''"
    by (simp add: new_lease_token_def new_secret_def lease_token_prefix_def sample_api_env_def b32 Let_def)
  ultimately show ?thesis
    by (simp add: issue_lease_call_def run fields default_ttl_def max_ttl_def cap scope Let_def l_def [symmetric])
      (simp add: lease_response_def l)
qed

lemma sample_db_schema: "schema_ok sample_db"
  using evolves_schema [OF sample_db_reachable [of id, unfolded reachable_def]]
  by (simp add: schema_ok_def tables_ok_def empty_db_def)

lemma issued_token_authenticates_witness:
  "\<exists>dto d' l p. issue_lease_call drop_sha sample_codec sample_api_env (local_api_request ''POST'') ''run_a'' sample_db =
      (ApiReply 201 (LeaseBody dto), d') \<and>
    authenticate drop_sha sample_gateway 30 issued_request [''t''] d' =
      (Inr \<lparr>au_principal = p, au_run = ''run_a'', au_lease = Some l\<rparr>, d') \<and> ls_expires l = 900000000020"
proof -
  obtain dto d' where run: "issue_lease_call drop_sha sample_codec sample_api_env (local_api_request ''POST'') ''run_a'' sample_db =
     (ApiReply 201 (LeaseBody dto), d')" and dto: "ld_token dto = ''sll_''" "ld_expires dto = 900000000020"
    using sample_issue by blast
  have "credential_from (rq_header issued_request) = Some (ld_token dto)" unfolding dto by code_simp
  moreover have "30 < ld_expires dto" by (simp add: dto)
  moreover have "\<not> revoked [''t''] (hash_secret drop_sha (ld_token dto))"
    by (simp add: dto revoked_def hash_secret_def drop_sha_def)
  moreover have "gw_leases_set sample_gateway" by (simp add: sample_gateway_def)
  ultimately obtain l p where "authenticate drop_sha sample_gateway 30 issued_request [''t''] d' =
      (Inr \<lparr>au_principal = p, au_run = ''run_a'', au_lease = Some l\<rparr>, d')" "ls_expires l = ld_expires dto"
    using issued_token_authenticates [OF run sample_db_schema] by blast
  then show ?thesis using run dto by metis
qed

lemma revoked_lease_is_refused_witness:
  "\<exists>dto revs' d' message. revoke_lease_call sample_api_env ''lse_a'' ([], sample_db) = (ApiReply 200 (LeaseBody dto), revs', d') \<and>
    ld_status dto = ''revoked'' \<and>
    authenticate drop_sha sample_gateway 30 lease_request [] d' = (Inl (lease_rejected message), d')"
proof -
  have found: "find_lease sample_db ''lse_a'' = Some sample_lease"
    by (simp add: find_lease_def sample_db_def sample_lease_def)
  obtain res revs' d' where kill: "kill_lease 20 ''lse_a'' ([], sample_db) = (res, revs', d')" by (metis surj_pair)
  from kill_lease_step [OF kill] kill found obtain l' where "res = Inr l'"
    by (auto simp: kill_lease_def get_lease_def revoke_lease_rows Let_def split: option.splits)
  then have call: "revoke_lease_call sample_api_env ''lse_a'' ([], sample_db) =
      (ApiReply 200 (LeaseBody (lease_response l' 20)), revs', d')"
    using kill by (simp add: revoke_lease_call_def sample_api_env_def)
  have facts: "hash_secret drop_sha ''sll_t'' = ls_token_hash sample_lease" "looks_like_lease_token ''sll_t''"
    "gw_revocable sample_gateway"
    by (simp_all add: hash_secret_def drop_sha_def sample_lease_def looks_like_lease_token_def lease_token_prefix_def sample_gateway_def)
  from revoked_lease_is_refused [OF call sample_db_schema found facts(1,2) lease_request_credential facts(3) subset_refl]
  show ?thesis using call by blast
qed

text \<open>
  A provider name with a comma in it passes the endpoint's check and is answered as one name, but the
  column it is stored in reads back as two.
\<close>

lemma comma_scope_is_split:
  "normalize_providers [''a,b''] = Some [''a,b'']" "decode_providers (encode_providers [''a,b'']) = [''a'', ''b'']"
  by code_simp+

end
