(* ===== verification/Management.thy ===== *)
theory Management
  imports Dashboard ControlPlane
begin

text \<open>
  The dashboard's handlers and its management workspace (\<open>internal/dashboard/dashboard.go\<close>,
  \<open>management.go\<close>): forms and their checks, guided onboarding, runs and leases, provider keys and the
  kill switch, over the store, the revocation set and the vault's credentials. A page is the view its
  template renders. Random bytes, clock readings and the AEAD are arguments; the form is \<open>None\<close> when its
  body is too long or cannot be parsed. The code snippets shown beside a token are in \<open>Onboarding\<close>.
\<close>

section \<open>Providers\<close>

record provider_status =
  pv_name :: string
  pv_label :: string
  pv_configured :: bool
  pv_endpoint :: string

definition provider_label :: "string \<Rightarrow> string" where
  "provider_label name =
     (if name = ''openai'' then ''OpenAI''
      else if name = ''anthropic'' then ''Anthropic''
      else if name = ''kimi'' then ''Kimi''
      else if name = ''deepseek'' then ''DeepSeek''
      else if name = ''xai'' then ''xAI''
      else if name = ''gemini'' then ''Gemini''
      else if name = ''zai'' then ''Z.AI''
      else name)"

definition provider_path :: "string \<Rightarrow> string" where
  "provider_path name =
     (if name = ''openai'' then ''/v1''
      else if name = ''anthropic'' then []
      else if name = ''kimi'' then ''/kimi/v1''
      else if name = ''deepseek'' then ''/deepseek/v1''
      else if name = ''xai'' then ''/xai/v1''
      else if name = ''gemini'' then ''/gemini/v1beta/openai''
      else if name = ''zai'' then ''/zai/api/paas/v4''
      else CHR ''/'' # name)"

definition configured_names :: "dashboard \<Rightarrow> credentials \<Rightarrow> string list" where
  "configured_names da creds = (if da_status da then list_credential_providers creds else [])"

definition status_of :: "string list \<Rightarrow> string \<Rightarrow> string \<Rightarrow> provider_status" where
  "status_of configured base name =
     \<lparr>pv_name = name, pv_label = provider_label name, pv_configured = name \<in> set configured,
      pv_endpoint = base @ provider_path name\<rparr>"

definition provider_statuses :: "dashboard \<Rightarrow> credentials \<Rightarrow> provider_status list" where
  "provider_statuses da creds = map (status_of (configured_names da creds) []) (da_providers da)"

text \<open>The base address is the request's host, over TLS or not.\<close>

definition base_url :: "bool \<Rightarrow> string \<Rightarrow> string" where
  "base_url tls host = (if tls then ''https://'' else ''http://'') @ host"

definition endpoint_statuses :: "dashboard \<Rightarrow> string \<Rightarrow> credentials \<Rightarrow> string list \<Rightarrow> provider_status list" where
  "endpoint_statuses da base creds names = map (status_of (configured_names da creds) base) names"

section \<open>Checking a form\<close>

type_synonym form = "(string \<times> string) list"

definition user_message :: "string \<Rightarrow> string" where
  "user_message err =
     (case trim_space err of
        [] \<Rightarrow> ''The form could not be read.''
      | c # rest \<Rightarrow> (if CHR ''a'' \<le> c \<and> c \<le> CHR ''z'' then char_of (of_char c - (32 :: nat)) else c) # rest @ ''.'')"

definition form_error :: string where
  "form_error = ''the form could not be read''"

text \<open>A control character: below the space, DEL, or one of U+0080 to U+009F, which UTF-8 encodes in two bytes.\<close>

fun has_control :: "string \<Rightarrow> bool" where
  "has_control [] = False"
| "has_control (c # s) =
     ((of_char c :: nat) < 32 \<or> c = CHR 0x7F \<or>
      (c = CHR 0xC2 \<and> (case s of [] \<Rightarrow> False | d # _ \<Rightarrow> 128 \<le> (of_char d :: nat) \<and> (of_char d :: nat) < 160)) \<or>
      has_control s)"

definition validate_agent_name :: "string \<Rightarrow> string option" where
  "validate_agent_name name =
     (if name = [] then Some ''agent name is required''
      else if 100 < length name then Some ''agent name must be 100 characters or fewer''
      else if has_control name then Some ''agent name cannot contain control characters''
      else None)"

definition positive_usd :: "string \<Rightarrow> string \<Rightarrow> string + nanos" where
  "positive_usd raw label =
     (case parse_usd raw of
        Inl _ \<Rightarrow> Inl (label @ '' must be a positive USD amount'')
      | Inr amount \<Rightarrow> if amount \<le> 0 then Inl (label @ '' must be a positive USD amount'') else Inr amount)"

definition nonnegative_usd :: "string \<Rightarrow> string \<Rightarrow> string + nanos" where
  "nonnegative_usd raw label =
     (if trim_space raw = [] then Inr 0
      else (case parse_usd raw of
          Inl _ \<Rightarrow> Inl (label @ '' must be a non-negative USD amount'')
        | Inr amount \<Rightarrow> if amount < 0 then Inl (label @ '' must be a non-negative USD amount'') else Inr amount))"

definition parse_ttl :: "string \<Rightarrow> string + int" where
  "parse_ttl raw =
     (case parse_int (trim_space raw) of
        None \<Rightarrow> Inl ''lease duration must be between one minute and 30 days''
      | Some seconds \<Rightarrow>
          if seconds < 60 \<or> max_ttl < seconds then Inl ''lease duration must be between one minute and 30 days''
          else Inr (i64 (seconds * ns_per_second)))"

definition selected_providers :: "dashboard \<Rightarrow> form \<Rightarrow> string + string list" where
  "selected_providers da form =
     (let selected = normalize_provider_names (form_values form ''providers'')
      in if selected = [] then Inl ''select at least one provider''
         else (case find (\<lambda>n. n \<notin> set (da_providers da)) selected of
             Some name \<Rightarrow> Inl (''provider '' @ go_quote name @ '' is not available on this gateway'')
           | None \<Rightarrow> Inr selected))"

section \<open>Pages\<close>

record access_lease =
  al_id :: string
  al_providers :: string
  al_ceiling :: string
  al_expires :: string
  al_status :: string
  al_active :: bool

record access_run =
  an_id :: string
  an_budget :: string
  an_status :: run_status
  an_created :: string
  an_active :: bool
  an_leases :: "access_lease list"

record issued_lease =
  is_token :: string
  is_run :: string
  is_expires :: string
  is_endpoints :: "provider_status list"

record access_view =
  av_error :: string
  av_notice :: string
  av_principal :: string
  av_name :: string
  av_runs :: "access_run list"
  av_providers :: "provider_status list"
  av_issued :: "issued_lease option"

record created_agent =
  ca_name :: string
  ca_principal :: string
  ca_run :: string
  ca_mode :: mode
  ca_budget :: string
  ca_token :: string
  ca_expires :: string
  ca_endpoints :: "provider_status list"

datatype page =
    ErrorPage
  | FullPage view "provider_status list"
  | TablePage view
  | AgentError string
  | AgentCreated created_agent
  | AccessPage access_view
  | ProviderPage "provider_status list" string string

record site =
  si_revs :: revocation_set
  si_db :: db
  si_creds :: credentials

record manage_env =
  mn_now :: instant
  mn_stored_now :: instant
  mn_who :: "identity option"
  mn_base :: string
  mn_principal_bytes :: "nat list"
  mn_key_bytes :: "nat list"
  mn_run_bytes :: "nat list"
  mn_lease_bytes :: "nat list"
  mn_token_bytes :: "nat list"
  mn_nonce :: string

type_synonym reply = "nat \<times> page"

definition store_page :: "store_error \<Rightarrow> reply" where
  "store_page e = (if e = ErrNotFound then 404 else 500, ErrorPage)"

definition scope_text :: "string list \<Rightarrow> string" where
  "scope_text names =
     (let scope = concat (case names of [] \<Rightarrow> [] | n # ns \<Rightarrow> n # map (\<lambda>m. '', '' @ m) ns)
      in if scope = [] then ''all providers'' else scope)"

definition access_lease_of :: "instant \<Rightarrow> lease \<Rightarrow> access_lease" where
  "access_lease_of now l =
     (let status = (if ls_revoked l \<noteq> None then ''revoked'' else if \<not> lease_active l now then ''expired'' else ''active'')
      in \<lparr>al_id = ls_id l, al_providers = scope_text (ls_providers l), al_ceiling = nanos_str (ls_ceiling l),
          al_expires = minute_stamp (ls_expires l), al_status = status, al_active = status = ''active''\<rparr>)"

definition access_run_of :: "db \<Rightarrow> instant \<Rightarrow> run \<Rightarrow> access_run" where
  "access_run_of d now r =
     \<lparr>an_id = run_id r, an_budget = nanos_str (run_budget r), an_status = run_status r, an_created = minute_stamp (run_created r),
      an_active = run_status r = RunActive, an_leases = map (access_lease_of now) (list_leases_by_run d (run_id r))\<rparr>"

text \<open>With no statuses to show, the fallback lists the gateway's providers, of which there are then none.\<close>

definition build_access :: "dashboard \<Rightarrow> instant \<Rightarrow> credentials \<Rightarrow> db \<Rightarrow> string \<Rightarrow> store_error + access_view" where
  "build_access da now creds d i =
     (case get_principal d i of
        Inl e \<Rightarrow> Inl e
      | Inr p \<Rightarrow>
          (let providers = provider_statuses da creds
           in Inr \<lparr>av_error = [], av_notice = [], av_principal = pr_id p, av_name = pr_name p,
                av_runs = map (access_run_of d now) (list_runs_by_principal d i),
                av_providers = (if providers = [] then map (status_of [] []) (da_providers da) else providers),
                av_issued = None\<rparr>))"

definition access_error :: "dashboard \<Rightarrow> manage_env \<Rightarrow> site \<Rightarrow> string \<Rightarrow> string \<Rightarrow> nat \<Rightarrow> reply" where
  "access_error da en st i message status =
     (case build_access da (mn_now en) (si_creds st) (si_db st) i of
        Inl e \<Rightarrow> store_page e
      | Inr v \<Rightarrow> (status, AccessPage (v\<lparr>av_error := message\<rparr>)))"

definition access_notice :: "dashboard \<Rightarrow> manage_env \<Rightarrow> site \<Rightarrow> string \<Rightarrow> string \<Rightarrow> reply" where
  "access_notice da en st i message =
     (case build_access da (mn_now en) (si_creds st) (si_db st) i of
        Inl e \<Rightarrow> store_page e
      | Inr v \<Rightarrow> (200, AccessPage (v\<lparr>av_notice := message\<rparr>)))"

section \<open>Handlers of the page\<close>

definition view_now :: "dashboard \<Rightarrow> manage_env \<Rightarrow> form \<Rightarrow> site \<Rightarrow> store_error + view" where
  "view_now da en form st = build_view da (mn_who en) form (mn_stored_now en) (mn_now en) (si_db st)"

definition handle_page :: "dashboard \<Rightarrow> manage_env \<Rightarrow> form \<Rightarrow> site \<Rightarrow> reply" where
  "handle_page da en form st =
     (case view_now da en form st of
        Inl _ \<Rightarrow> (500, ErrorPage)
      | Inr v \<Rightarrow> (200, FullPage v (if vw_onboard v \<or> vw_set_keys v then provider_statuses da (si_creds st) else [])))"

definition handle_table :: "dashboard \<Rightarrow> manage_env \<Rightarrow> form \<Rightarrow> site \<Rightarrow> reply" where
  "handle_table da en form st =
     (case view_now da en form st of Inl _ \<Rightarrow> (500, ErrorPage) | Inr v \<Rightarrow> (200, TablePage v))"

text \<open>A mode in a form is a string.\<close>

definition mode_of_text :: "string \<Rightarrow> mode" where
  "mode_of_text s = (if s = ''observe'' then ModeObserve else if s = ''enforce'' then ModeEnforce else ModeOther s)"

definition handle_set_mode :: "dashboard \<Rightarrow> manage_env \<Rightarrow> form \<Rightarrow> string \<Rightarrow> site \<Rightarrow> reply \<times> site" where
  "handle_set_mode da en form i st =
     (let m = mode_of_text (trim_space (form_value form ''mode''))
      in if \<not> mode_valid m then ((400, ErrorPage), st)
         else (case set_principal_mode i m (si_db st) of
             Inl _ \<Rightarrow> ((500, ErrorPage), st)
           | Inr d' \<Rightarrow> (let st' = st\<lparr>si_db := d'\<rparr> in (handle_table da en form st', st'))))"

definition handle_revoke :: "dashboard \<Rightarrow> manage_env \<Rightarrow> form \<Rightarrow> string \<Rightarrow> site \<Rightarrow> reply \<times> site" where
  "handle_revoke da en form i st =
     (case kill_principal (mn_now en) i (si_revs st, si_db st) of
        (n, revs', d') \<Rightarrow>
          (let st' = st\<lparr>si_revs := revs', si_db := d'\<rparr>
           in (case view_now da en form st' of
                 Inl _ \<Rightarrow> (500, ErrorPage)
               | Inr v \<Rightarrow> (200, TablePage (v\<lparr>vw_notice := ''Revoked '' @ nat_str n @ '' active '' @ plural_word n ''lease'' @
                   ''. New leases can still be issued.''\<rparr>)),
               st')))"

section \<open>Handlers of the workspace\<close>

definition agent_failure :: "string \<Rightarrow> nat \<Rightarrow> site \<Rightarrow> reply \<times> site" where
  "agent_failure message status st = ((status, AgentError message), st)"

record agent_input =
  ai_name :: string
  ai_mode :: mode
  ai_budget :: nanos
  ai_ttl :: int
  ai_providers :: "string list"

text \<open>The checks of \<open>handleCreateAgent\<close>, in their order; an error is the message shown.\<close>

definition check_agent :: "dashboard \<Rightarrow> form option \<Rightarrow> string + agent_input" where
  "check_agent da form =
     (case form of
        None \<Rightarrow> Inl (user_message form_error)
      | Some f \<Rightarrow>
          (let name = trim_space (form_value f ''name''); m = mode_of_text (trim_space (form_value f ''mode''))
           in case validate_agent_name name of
                Some err \<Rightarrow> Inl (user_message err)
              | None \<Rightarrow>
                  if \<not> mode_valid m then Inl ''Mode must be observe or enforce.''
                  else (case positive_usd (form_value f ''budget_usd'') ''budget'' of
                      Inl err \<Rightarrow> Inl (user_message err)
                    | Inr budget \<Rightarrow>
                        (case parse_ttl (form_value f ''ttl_seconds'') of
                           Inl err \<Rightarrow> Inl (user_message err)
                         | Inr ttl \<Rightarrow>
                             (case selected_providers da f of
                                Inl err \<Rightarrow> Inl (user_message err)
                              | Inr names \<Rightarrow>
                                  Inr \<lparr>ai_name = name, ai_mode = m, ai_budget = budget, ai_ttl = ttl, ai_providers = names\<rparr>)))))"

definition agent_principal :: "(string \<Rightarrow> string) \<Rightarrow> manage_env \<Rightarrow> agent_input \<Rightarrow> principal" where
  "agent_principal sha en a =
     \<lparr>pr_id = new_id principal_prefix (mn_principal_bytes en), pr_name = ai_name a,
      pr_key_hash = snd (new_principal_key sha (mn_key_bytes en)), pr_mode = ai_mode a, pr_created = mn_now en\<rparr>"

definition agent_run :: "manage_env \<Rightarrow> string \<Rightarrow> nanos \<Rightarrow> run" where
  "agent_run en i budget =
     \<lparr>run_id = new_id run_prefix (mn_run_bytes en), run_principal = i, run_parent = [], run_budget = budget,
      run_status = RunActive, run_created = mn_now en, run_closed = None\<rparr>"

definition agent_lease :: "(string \<Rightarrow> string) \<Rightarrow> manage_env \<Rightarrow> string \<Rightarrow> string list \<Rightarrow> nanos \<Rightarrow> int \<Rightarrow> lease" where
  "agent_lease sha en i names cap ttl =
     \<lparr>ls_id = new_id lease_prefix (mn_lease_bytes en), ls_run = i,
      ls_token_hash = snd (new_lease_token sha (mn_token_bytes en)), ls_providers = names, ls_ceiling = cap,
      ls_expires = mn_now en + ttl, ls_revoked = None, ls_created = mn_now en\<rparr>"

definition handle_create_agent ::
  "(string \<Rightarrow> string) \<Rightarrow> dashboard \<Rightarrow> manage_env \<Rightarrow> form option \<Rightarrow> site \<Rightarrow> reply \<times> site" where
  "handle_create_agent sha da en form st =
     (case check_agent da form of
        Inl message \<Rightarrow> agent_failure message 422 st
      | Inr a \<Rightarrow>
          (let p = agent_principal sha en a; r = agent_run en (pr_id p) (ai_budget a);
               l = agent_lease sha en (run_id r) (ai_providers a) 0 (ai_ttl a)
           in case create_principal_run_lease p r l (si_db st) of
                Inl e \<Rightarrow>
                  if e = ErrConflict then agent_failure ''An agent with that name already exists.'' 409 st
                  else agent_failure ''Could not create the agent. Try again.'' 500 st
              | Inr d' \<Rightarrow>
                  ((201, AgentCreated \<lparr>ca_name = ai_name a, ca_principal = pr_id p, ca_run = run_id r, ca_mode = ai_mode a,
                      ca_budget = nanos_str (ai_budget a), ca_token = fst (new_lease_token sha (mn_token_bytes en)),
                      ca_expires = minute_stamp (ls_expires l),
                      ca_endpoints = endpoint_statuses da (mn_base en) (si_creds st) (ai_providers a)\<rparr>),
                   st\<lparr>si_db := d'\<rparr>)))"

definition handle_access :: "dashboard \<Rightarrow> manage_env \<Rightarrow> string \<Rightarrow> site \<Rightarrow> reply" where
  "handle_access da en i st =
     (case build_access da (mn_now en) (si_creds st) (si_db st) i of
        Inl e \<Rightarrow> store_page e
      | Inr v \<Rightarrow> (200, AccessPage v))"

definition handle_new_run :: "dashboard \<Rightarrow> manage_env \<Rightarrow> form option \<Rightarrow> string \<Rightarrow> site \<Rightarrow> reply \<times> site" where
  "handle_new_run da en form i st =
     (case form of
        None \<Rightarrow> (access_error da en st i (user_message form_error) 422, st)
      | Some f \<Rightarrow>
          (case positive_usd (form_value f ''budget_usd'') ''budget'' of
             Inl err \<Rightarrow> (access_error da en st i (user_message err) 422, st)
           | Inr budget \<Rightarrow>
               (case get_principal (si_db st) i of
                  Inl e \<Rightarrow> (store_page e, st)
                | Inr _ \<Rightarrow>
                    (let r = agent_run en i budget
                     in case create_run r (si_db st) of
                          Inl _ \<Rightarrow> (access_error da en st i ''Could not create the run.'' 500, st)
                        | Inr d' \<Rightarrow>
                            (let st' = st\<lparr>si_db := d'\<rparr>
                             in (access_notice da en st' i
                                   (''Created run '' @ run_id r @ '' with a $'' @ nanos_str budget @ '' budget.''), st'))))))"

text \<open>The checks of \<open>handleIssueLease\<close> on its form.\<close>

definition check_lease :: "dashboard \<Rightarrow> form \<Rightarrow> string + int \<times> string list \<times> nanos" where
  "check_lease da f =
     (case parse_ttl (form_value f ''ttl_seconds'') of
        Inl err \<Rightarrow> Inl err
      | Inr ttl \<Rightarrow>
          (case selected_providers da f of
             Inl err \<Rightarrow> Inl err
           | Inr names \<Rightarrow>
               (case nonnegative_usd (form_value f ''ceiling_usd'') ''lease ceiling'' of
                  Inl err \<Rightarrow> Inl err
                | Inr cap \<Rightarrow> Inr (ttl, names, cap))))"

definition handle_issue ::
  "(string \<Rightarrow> string) \<Rightarrow> dashboard \<Rightarrow> manage_env \<Rightarrow> form option \<Rightarrow> string \<Rightarrow> site \<Rightarrow> reply \<times> site" where
  "handle_issue sha da en form i st =
     (case get_run (si_db st) i of
        Inl e \<Rightarrow> (store_page e, st)
      | Inr r \<Rightarrow>
          (case form of
             None \<Rightarrow> (access_error da en st (run_principal r) (user_message form_error) 422, st)
           | Some f \<Rightarrow>
               if run_status r \<noteq> RunActive
               then (access_error da en st (run_principal r) ''Closed runs cannot receive a new lease.'' 409, st)
               else (case check_lease da f of
                   Inl err \<Rightarrow> (access_error da en st (run_principal r) (user_message err) 422, st)
                 | Inr (ttl, names, cap) \<Rightarrow>
                     (let l = agent_lease sha en (run_id r) names cap ttl
                      in case ended (create_lease l (si_db st)) of
                           Inl _ \<Rightarrow> (access_error da en st (run_principal r) ''Could not issue the lease.'' 500, st)
                         | Inr d' \<Rightarrow>
                             (let st' = st\<lparr>si_db := d'\<rparr>
                              in (case build_access da (mn_now en) (si_creds st') d' (run_principal r) of
                                    Inl e \<Rightarrow> store_page e
                                  | Inr v \<Rightarrow> (201, AccessPage (v\<lparr>av_issued := Some \<lparr>
                                      is_token = fst (new_lease_token sha (mn_token_bytes en)), is_run = run_id r,
                                      is_expires = minute_stamp (ls_expires l),
                                      is_endpoints = endpoint_statuses da (mn_base en) (si_creds st) names\<rparr>\<rparr>)),
                                  st'))))))"

definition handle_close :: "dashboard \<Rightarrow> manage_env \<Rightarrow> string \<Rightarrow> site \<Rightarrow> reply \<times> site" where
  "handle_close da en i st =
     (case get_run (si_db st) i of
        Inl e \<Rightarrow> (store_page e, st)
      | Inr r \<Rightarrow>
          (case close_run (mn_now en) (run_id r) (si_db st) of
             Inl _ \<Rightarrow> (access_error da en st (run_principal r) ''Could not close the run.'' 500, st)
           | Inr d' \<Rightarrow>
               (let st' = st\<lparr>si_db := d'\<rparr>
                in (access_notice da en st' (run_principal r)
                      (''Closed run '' @ run_id r @ ''. Its leases can no longer spend.''), st'))))"

definition handle_revoke_lease :: "dashboard \<Rightarrow> manage_env \<Rightarrow> string \<Rightarrow> site \<Rightarrow> reply \<times> site" where
  "handle_revoke_lease da en i st =
     (case kill_lease (mn_now en) i (si_revs st, si_db st) of
        (res, revs', d') \<Rightarrow>
          (let st' = st\<lparr>si_revs := revs', si_db := d'\<rparr>
           in (case res of
                 Inl e \<Rightarrow> store_page e
               | Inr l \<Rightarrow>
                   (case get_run d' (ls_run l) of
                      Inl e \<Rightarrow> store_page e
                    | Inr r \<Rightarrow> access_notice da en st' (run_principal r) (''Revoked lease '' @ ls_id l @ ''.'')),
               st')))"

section \<open>Provider keys\<close>

definition provider_failure :: "dashboard \<Rightarrow> site \<Rightarrow> string \<Rightarrow> nat \<Rightarrow> reply" where
  "provider_failure da st message status = (status, ProviderPage (provider_statuses da (si_creds st)) [] message)"

definition provider_notice :: "dashboard \<Rightarrow> site \<Rightarrow> string \<Rightarrow> reply" where
  "provider_notice da st message = (200, ProviderPage (provider_statuses da (si_creds st)) message [])"

definition handle_set_provider ::
  "aead_seal \<Rightarrow> vault \<Rightarrow> dashboard \<Rightarrow> manage_env \<Rightarrow> form option \<Rightarrow> string \<Rightarrow> site \<Rightarrow> reply \<times> site" where
  "handle_set_provider seal va da en form raw st =
     (let name = to_lower (trim_space raw)
      in if name \<notin> set (da_providers da)
         then (provider_failure da st ''That provider is not available on this gateway.'' 404, st)
         else (case form of
             None \<Rightarrow> (provider_failure da st (user_message form_error) 422, st)
           | Some f \<Rightarrow>
               (let key = trim_space (form_value f ''api_key'')
                in if key = [] then (provider_failure da st ''API key is required.'' 422, st)
                   else (case vault_put put_credential seal va (mn_now en) (mn_nonce en) name key (si_creds st) of
                       Inl _ \<Rightarrow> (provider_failure da st ''Could not store the provider key.'' 500, st)
                     | Inr creds' \<Rightarrow>
                         (let st' = st\<lparr>si_creds := creds'\<rparr>
                          in (provider_notice da st'
                                (''Stored the '' @ provider_label name @ '' API key, encrypted at rest.''), st'))))))"

definition handle_delete_provider :: "dashboard \<Rightarrow> string \<Rightarrow> site \<Rightarrow> reply \<times> site" where
  "handle_delete_provider da raw st =
     (let name = to_lower (trim_space raw)
      in if name \<notin> set (da_providers da)
         then (provider_failure da st ''That provider is not available on this gateway.'' 404, st)
         else (case delete_credential name (si_creds st) of
             Inl _ \<Rightarrow> (provider_failure da st ''Could not remove the provider key.'' 500, st)
           | Inr creds' \<Rightarrow>
               (let st' = st\<lparr>si_creds := creds'\<rparr>
                in (provider_notice da st' (''Removed the '' @ provider_label name @ '' API key.''), st'))))"

section \<open>Routes\<close>

datatype dash_call =
    Page | Table | SetMode string | RevokePrincipal string
  | CreateAgent | Access string | NewRun string | NewLease string | EndRun string | EndLease string
  | SetProvider string | DeleteProvider string

fun dash_role :: "dash_call \<Rightarrow> role" where
  "dash_role Page = RoleViewer"
| "dash_role Table = RoleViewer"
| "dash_role (Access i) = RoleOperator"
| "dash_role (NewRun i) = RoleOperator"
| "dash_role (NewLease i) = RoleOperator"
| "dash_role (EndRun i) = RoleOperator"
| "dash_role (EndLease i) = RoleOperator"
| "dash_role _ = RoleAdmin"

fun dash_pattern :: "dash_call \<Rightarrow> string" where
  "dash_pattern Page = ''GET /{$}''"
| "dash_pattern Table = ''GET /table''"
| "dash_pattern (SetMode i) = ''POST /admin/principals/{id}/mode''"
| "dash_pattern (RevokePrincipal i) = ''POST /admin/principals/{id}/revoke''"
| "dash_pattern CreateAgent = ''POST /admin/agents''"
| "dash_pattern (Access i) = ''GET /admin/principals/{id}/access''"
| "dash_pattern (NewRun i) = ''POST /admin/principals/{id}/runs''"
| "dash_pattern (NewLease i) = ''POST /admin/runs/{id}/leases''"
| "dash_pattern (EndRun i) = ''POST /admin/runs/{id}/close''"
| "dash_pattern (EndLease i) = ''POST /admin/leases/{id}/revoke''"
| "dash_pattern (SetProvider n) = ''POST /admin/providers/{provider}''"
| "dash_pattern (DeleteProvider n) = ''DELETE /admin/providers/{provider}''"

text \<open>Which routes are registered.\<close>

fun dash_registered :: "dashboard \<Rightarrow> dash_call \<Rightarrow> bool" where
  "dash_registered da Page = True"
| "dash_registered da Table = True"
| "dash_registered da (SetMode i) = True"
| "dash_registered da (RevokePrincipal i) = da_revoker da"
| "dash_registered da (EndLease i) = (da_manager da \<and> da_lease_revoker da)"
| "dash_registered da (SetProvider n) = da_credentials da"
| "dash_registered da (DeleteProvider n) = da_credentials da"
| "dash_registered da _ = da_manager da"

text \<open>\<open>form\<close> is what the handlers with their own parsing get; the others read the values there are.\<close>

definition lax_form :: "form option \<Rightarrow> form" where
  "lax_form form = (case form of None \<Rightarrow> [] | Some f \<Rightarrow> f)"

fun dash_handle ::
  "(string \<Rightarrow> string) \<Rightarrow> aead_seal \<Rightarrow> vault \<Rightarrow> dashboard \<Rightarrow> manage_env \<Rightarrow> form option \<Rightarrow> dash_call \<Rightarrow> site \<Rightarrow> reply \<times> site"
where
  "dash_handle sha seal va da en form Page st = (handle_page da en (lax_form form) st, st)"
| "dash_handle sha seal va da en form Table st = (handle_table da en (lax_form form) st, st)"
| "dash_handle sha seal va da en form (SetMode i) st = handle_set_mode da en (lax_form form) i st"
| "dash_handle sha seal va da en form (RevokePrincipal i) st = handle_revoke da en (lax_form form) i st"
| "dash_handle sha seal va da en form CreateAgent st = handle_create_agent sha da en form st"
| "dash_handle sha seal va da en form (Access i) st = (handle_access da en i st, st)"
| "dash_handle sha seal va da en form (NewRun i) st = handle_new_run da en form i st"
| "dash_handle sha seal va da en form (NewLease i) st = handle_issue sha da en form i st"
| "dash_handle sha seal va da en form (EndRun i) st = handle_close da en i st"
| "dash_handle sha seal va da en form (EndLease i) st = handle_revoke_lease da en i st"
| "dash_handle sha seal va da en form (SetProvider n) st = handle_set_provider seal va da en form n st"
| "dash_handle sha seal va da en form (DeleteProvider n) st = handle_delete_provider da n st"

definition serve_dashboard ::
  "(string \<Rightarrow> string) \<Rightarrow> (string \<Rightarrow> string option) \<Rightarrow> guard \<Rightarrow> audit_env \<Rightarrow> aead_seal \<Rightarrow> vault \<Rightarrow> dashboard \<Rightarrow> manage_env \<Rightarrow>
     form option \<Rightarrow> dash_call \<Rightarrow> admin_request \<Rightarrow> operator_db \<times> site \<Rightarrow> int \<times> operator_db \<times> site" where
  "serve_dashboard sha origin_host g aen seal va da en form c r st =
     protect_role sha origin_host g aen (dash_role c) r
       (\<lambda>i s. case dash_handle sha seal va da (en\<lparr>mn_who := Some i\<rparr>) form c s of (reply, s') \<Rightarrow> (int (fst reply), s')) st"

section \<open>What a handler does to the site\<close>

definition one_step :: "(string \<Rightarrow> string) \<Rightarrow> site \<Rightarrow> reply \<Rightarrow> site \<Rightarrow> bool" where
  "one_step sha st reply st' \<longleftrightarrow> st' = st \<or>
     fst reply < 300 \<and> si_creds st' = si_creds st \<and> set (si_revs st) \<subseteq> set (si_revs st') \<and>
     (\<exists>op. store_step sha (si_db st) op (si_db st') \<and> management_op op \<and> typed_op op)"

lemma one_step_refl [simp]: "one_step sha st reply st"
  by (simp add: one_step_def)

lemma one_stepI:
  "store_step sha (si_db st) op d' \<Longrightarrow> management_op op \<Longrightarrow> typed_op op \<Longrightarrow> fst reply < 300 \<Longrightarrow>
     one_step sha st reply (st\<lparr>si_db := d'\<rparr>)"
  by (auto simp: one_step_def)

lemma view_now_ok: "sums_fit (si_db st) \<Longrightarrow> \<exists>v. view_now da en form st = Inr v"
  unfolding view_now_def by (rule build_view_ok)

lemma handle_table_ok: "sums_fit (si_db st) \<Longrightarrow> fst (handle_table da en form st) = 200"
  using view_now_ok [of st da en form] by (auto simp: handle_table_def)

lemma sums_fit_ledger: "d_ledger d' = d_ledger d \<Longrightarrow> sums_fit d' = sums_fit d"
  by (simp add: sums_fit_def charges_of_def charges_of_run_def)

lemma access_notice_ok:
  "find_principal (si_db st) i \<noteq> None \<Longrightarrow> fst (access_notice da en st i message) = 200"
  by (auto simp: access_notice_def build_access_def get_principal_def Let_def)

lemma run_owner_found:
  assumes "schema_ok d" "get_run d i = Inr r"
  shows "find_principal d (run_principal r) \<noteq> None" "run_id r = i"
proof -
  have found: "find_run (d_runs d) i = Some r" using assms(2) by (simp add: get_run_def split: option.splits)
  then show "run_id r = i" using find_run_SomeD by blast
  have "run_principal r \<in> pr_id ` set (d_principals d)"
    using assms(1) find_run_SomeD [OF found] by (auto simp: schema_ok_def runs_ok_def)
  then show "find_principal d (run_principal r) \<noteq> None" by (auto simp: find_principal_def find_None_iff)
qed

lemma principal_frame: "d_principals d' = d_principals d \<Longrightarrow> find_principal d' i = find_principal d i"
  by (simp add: find_principal_def)

lemma set_mode_step:
  assumes "handle_set_mode da en form i st = (reply, st')" and "sums_fit (si_db st)"
  shows "one_step sha st reply st'"
proof -
  define m where "m = mode_of_text (trim_space (form_value form ''mode''))"
  show ?thesis
  proof (cases "mode_valid m")
    case False
    then show ?thesis using assms(1) by (simp add: handle_set_mode_def m_def [symmetric] Let_def)
  next
    case valid: True
    show ?thesis
    proof (cases "set_principal_mode i m (si_db st)")
      case (Inl e)
      then show ?thesis using assms(1) valid by (simp add: handle_set_mode_def m_def [symmetric] Let_def)
    next
      case (Inr d')
      then have "d_ledger d' = d_ledger (si_db st)"
        by (auto simp: set_principal_mode_def split: if_splits sum.splits)
      then have "fst (handle_table da en form (st\<lparr>si_db := d'\<rparr>)) = 200"
        using sums_fit_ledger [of d' "si_db st"] assms(2) by (intro handle_table_ok) simp
      then show ?thesis
        using assms(1) valid Inr one_stepI [OF step_set_mode [OF Inr], of reply]
        by (auto simp: handle_set_mode_def m_def [symmetric] Let_def)
    qed
  qed
qed

lemma kill_principal_store:
  "kill_principal now i (s, d) = (n, s', d') \<Longrightarrow> revoke_leases_for_principal now i d = (n, d')"
  by (auto simp: kill_principal_def Let_def split: prod.splits)

lemma handle_revoke_step:
  assumes "handle_revoke da en form i st = (reply, st')" and "sums_fit (si_db st)"
  shows "one_step sha st reply st'"
proof -
  obtain n revs' d' where k: "kill_principal (mn_now en) i (si_revs st, si_db st) = (n, revs', d')" by (metis surj_pair)
  note rv = kill_principal_store [OF k]
  have "sums_fit d'" using rv assms(2) sums_fit_ledger [of d' "si_db st"] by (auto simp: revoke_leases_for_principal_def)
  then obtain v where "view_now da en form (st\<lparr>si_revs := revs', si_db := d'\<rparr>) = Inr v"
    using view_now_ok [of "st\<lparr>si_revs := revs', si_db := d'\<rparr>" da en form] by auto
  then have "fst reply = 200" "st' = st\<lparr>si_revs := revs', si_db := d'\<rparr>"
    using assms(1) k by (auto simp: handle_revoke_def Let_def)
  moreover have "set (si_revs st) \<subseteq> set revs'"
    using kill_principal_hashes [OF k] by (auto simp: revoked_def)
  moreover have "store_step sha (si_db st) (OpRevokePrincipal (mn_now en) i) d'" by (rule step_revoke_principal [OF rv])
  ultimately show ?thesis by (auto simp: one_step_def)
qed

lemma parse_ttl_bounds:
  "parse_ttl raw = Inr ttl \<Longrightarrow> 60 * ns_per_second \<le> ttl \<and> ttl \<le> max_ttl * ns_per_second"
proof -
  have "i64 (s * ns_per_second) = s * ns_per_second" if "60 \<le> s" "s \<le> max_ttl" for s
    using that by (intro i64_nonneg_id) (auto simp: ns_per_second_def max_ttl_def max_i64_def)
  then show "parse_ttl raw = Inr ttl \<Longrightarrow> 60 * ns_per_second \<le> ttl \<and> ttl \<le> max_ttl * ns_per_second"
    by (auto simp: parse_ttl_def ns_per_second_def split: option.splits if_splits)
qed

lemma selected_providers_known:
  "selected_providers da f = Inr names \<Longrightarrow> names \<noteq> [] \<and> set names \<subseteq> set (da_providers da)"
  by (auto simp: selected_providers_def Let_def find_None_iff split: if_splits option.splits)

lemma positive_usd_typed: "positive_usd raw label = Inr v \<Longrightarrow> 0 < v \<and> v \<le> max_i64"
  using parse_usd_in_i64 by (auto simp: positive_usd_def in_i64_def split: sum.splits if_splits)

lemma check_agent_typed:
  assumes "check_agent da form = Inr a"
  shows "mode_valid (ai_mode a) \<and> 0 < ai_budget a \<and> ai_budget a \<le> max_i64 \<and> ai_providers a \<noteq> [] \<and>
    set (ai_providers a) \<subseteq> set (da_providers da) \<and> 60 * ns_per_second \<le> ai_ttl a \<and> ai_ttl a \<le> max_ttl * ns_per_second"
  using assms positive_usd_typed parse_ttl_bounds selected_providers_known
  by (fastforce simp: check_agent_def Let_def split: option.splits if_splits sum.splits)

lemma create_agent_step:
  assumes "handle_create_agent sha da en form st = (reply, st')"
  shows "one_step sha st reply st'"
proof (cases "check_agent da form")
  case (Inl m)
  with assms show ?thesis by (simp add: handle_create_agent_def agent_failure_def)
next
  case (Inr a)
  define p where "p = agent_principal sha en a"
  define r where "r = agent_run en (pr_id p) (ai_budget a)"
  define l where "l = agent_lease sha en (run_id r) (ai_providers a) 0 (ai_ttl a)"
  show ?thesis
  proof (cases "create_principal_run_lease p r l (si_db st)")
    case e: (Inl e)
    with assms Inr show ?thesis
      by (auto simp: handle_create_agent_def agent_failure_def Let_def p_def [symmetric] r_def [symmetric] l_def [symmetric]
          split: if_splits)
  next
    case made: (Inr d')
    have "typed_op (OpOnboard p r l)" using check_agent_typed [OF Inr] by (simp add: r_def agent_run_def)
    then have "one_step sha st (201, x) (st\<lparr>si_db := d'\<rparr>)" for x
      by (intro one_stepI [OF step_onboard [OF made]]) simp_all
    then show ?thesis
      using assms Inr made
      by (auto simp: handle_create_agent_def Let_def p_def [symmetric] r_def [symmetric] l_def [symmetric])
  qed
qed

lemma create_run_principals: "create_run r d = Inr d' \<Longrightarrow> d_principals d' = d_principals d"
  by (auto simp: insert_run_def dest!: create_run_insert split: if_splits)

lemma new_run_step:
  assumes "handle_new_run da en form i st = (reply, st')"
  shows "one_step sha st reply st'"
proof (cases form)
  case None
  with assms show ?thesis by (simp add: handle_new_run_def)
next
  case (Some f)
  show ?thesis
  proof (cases "positive_usd (form_value f ''budget_usd'') ''budget''")
    case (Inl e)
    with assms Some show ?thesis by (simp add: handle_new_run_def)
  next
    case budget: (Inr budget)
    show ?thesis
    proof (cases "get_principal (si_db st) i")
      case (Inl e)
      with assms Some budget show ?thesis by (simp add: handle_new_run_def)
    next
      case (Inr p)
      define r where "r = agent_run en i budget"
      show ?thesis
      proof (cases "create_run r (si_db st)")
        case (Inl e)
        with assms Some budget Inr show ?thesis by (simp add: handle_new_run_def r_def [symmetric] Let_def)
      next
        case made: (Inr d')
        have "find_principal (si_db (st\<lparr>si_db := d'\<rparr>)) i \<noteq> None"
          using Inr principal_frame [OF create_run_principals [OF made], of i]
          by (simp add: get_principal_def split: option.splits)
        note ok = access_notice_ok [OF this]
        have "typed_op (OpCreateRun r)" using positive_usd_typed [OF budget] by (simp add: r_def agent_run_def)
        then have "fst reply < 300 \<Longrightarrow> one_step sha st reply (st\<lparr>si_db := d'\<rparr>)"
          by (intro one_stepI [OF step_create_run [OF made]]) simp_all
        then show ?thesis
          using assms Some budget Inr made ok by (auto simp: handle_new_run_def r_def [symmetric] Let_def)
      qed
    qed
  qed
qed

lemma create_lease_principals: "create_lease l d = Some (Inr d') \<Longrightarrow> d_principals d' = d_principals d \<and> d_runs d' = d_runs d"
  by (auto simp: create_lease_def insert_lease_def split: option.splits if_splits)

lemma handle_issue_step:
  assumes "handle_issue sha da en form i st = (reply, st')" and "schema_ok (si_db st)"
  shows "one_step sha st reply st'"
proof (cases "get_run (si_db st) i")
  case (Inl e)
  with assms(1) show ?thesis by (simp add: handle_issue_def)
next
  case run: (Inr r)
  show ?thesis
  proof (cases form)
    case None
    with assms(1) run show ?thesis by (simp add: handle_issue_def)
  next
    case (Some f)
    show ?thesis
    proof (cases "run_status r = RunActive \<and> (\<exists>x. check_lease da f = Inr x)")
      case False
      with assms(1) run Some show ?thesis
        by (cases "check_lease da f") (auto simp: handle_issue_def split: if_splits)
    next
      case True
      then obtain ttl names cap where checked: "check_lease da f = Inr (ttl, names, cap)" by (metis surj_pair)
      define l where "l = agent_lease sha en (run_id r) names cap ttl"
      show ?thesis
      proof (cases "ended (create_lease l (si_db st))")
        case (Inl e)
        with assms(1) run Some True checked show ?thesis by (simp add: handle_issue_def l_def [symmetric] Let_def)
      next
        case made: (Inr d')
        then have stored: "create_lease l (si_db st) = Some (Inr d')" by (simp add: ended_Inr)
        have "find_principal d' (run_principal r) \<noteq> None"
          using run_owner_found(1) [OF assms(2) run] principal_frame [OF create_lease_principals [OF stored, THEN conjunct1]]
          by simp
        then obtain v where "build_access da (mn_now en) (si_creds st) d' (run_principal r) = Inr v"
          by (auto simp: build_access_def get_principal_def Let_def)
        moreover have "fst reply < 300 \<Longrightarrow> one_step sha st reply (st\<lparr>si_db := d'\<rparr>)"
          by (intro one_stepI [OF step_create_lease [OF stored]]) simp_all
        ultimately show ?thesis
          using assms(1) run Some True checked made by (auto simp: handle_issue_def l_def [symmetric] Let_def)
      qed
    qed
  qed
qed

lemma handle_close_step:
  assumes "handle_close da en i st = (reply, st')" and "schema_ok (si_db st)"
  shows "one_step sha st reply st'"
proof (cases "get_run (si_db st) i")
  case (Inl e)
  with assms(1) show ?thesis by (simp add: handle_close_def)
next
  case run: (Inr r)
  show ?thesis
  proof (cases "close_run (mn_now en) (run_id r) (si_db st)")
    case (Inl e)
    with assms(1) run show ?thesis by (simp add: handle_close_def)
  next
    case made: (Inr d')
    then have same: "d_principals d' = d_principals (si_db st)" by (auto simp: close_run_def split: if_splits)
    have "find_principal (si_db (st\<lparr>si_db := d'\<rparr>)) (run_principal r) \<noteq> None"
      using run_owner_found(1) [OF assms(2) run] principal_frame [OF same] by simp
    note ok = access_notice_ok [OF this]
    have "fst reply < 300 \<Longrightarrow> one_step sha st reply (st\<lparr>si_db := d'\<rparr>)"
      by (intro one_stepI [OF step_close_run [OF made]]) simp_all
    then show ?thesis using assms(1) run made ok by (auto simp: handle_close_def Let_def)
  qed
qed

lemma handle_revoke_lease_step:
  assumes "handle_revoke_lease da en i st = (reply, st')" and "schema_ok (si_db st)"
  shows "one_step sha st reply st'"
proof -
  obtain res revs' d' where k: "kill_lease (mn_now en) i (si_revs st, si_db st) = (res, revs', d')" by (metis surj_pair)
  from kill_lease_step [OF k] show ?thesis
  proof (elim disjE exE conjE)
    fix e assume "res = Inl e" "revs' = si_revs st" "d' = si_db st"
    then show ?thesis using assms(1) k by (simp add: handle_revoke_lease_def Let_def)
  next
    fix l l'
    assume l: "find_lease (si_db st) i = Some l" "revs' = revoke_hash (ls_token_hash l) (si_revs st)"
      "revoke_lease (mn_now en) i (si_db st) = Inr d'" "res = Inr l'" "find_lease d' i = Some l'"
    have d': "d' = si_db st\<lparr>d_leases := map (revoke_row (mn_now en) i) (d_leases (si_db st))\<rparr>"
      using l(3) revoke_lease_rows [OF l(1)] by simp
    have "l' = revoke_row (mn_now en) i l"
      using l(1,5) by (simp add: d' find_lease_def find_map_key)
    then have "ls_run l' = ls_run l" by (simp add: revoke_row_def)
    moreover have "l \<in> set (d_leases (si_db st))" using find_SomeD [OF l(1) [unfolded find_lease_def]] by simp
    ultimately have "ls_run l' \<in> run_id ` set (d_runs (si_db st))"
      using assms(2) by (auto simp: schema_ok_def leases_ok_def)
    then obtain r where r: "get_run (si_db st) (ls_run l') = Inr r"
      using find_run_None [of "d_runs (si_db st)" "ls_run l'"] by (auto simp: get_run_def split: option.splits)
    have "find_principal (si_db (st\<lparr>si_revs := revs', si_db := d'\<rparr>)) (run_principal r) \<noteq> None"
      using run_owner_found(1) [OF assms(2) r] by (simp add: d' find_principal_def)
    note ok = access_notice_ok [OF this]
    have "get_run d' (ls_run l') = Inr r" using r by (simp add: d' get_run_def)
    then have "fst reply = 200" "st' = st\<lparr>si_revs := revs', si_db := d'\<rparr>"
      using assms(1) k l(4) ok by (auto simp: handle_revoke_lease_def Let_def)
    moreover have "store_step sha (si_db st) (OpRevokeLease (mn_now en) i) d'" by (rule step_revoke_lease [OF l(3)])
    moreover have "set (si_revs st) \<subseteq> set revs'" unfolding l(2) by (rule revoke_hash_subset)
    ultimately show ?thesis
      unfolding one_step_def by (intro disjI2 conjI exI [of _ "OpRevokeLease (mn_now en) i"]) simp_all
  qed
qed

lemma set_provider_step:
  assumes "handle_set_provider seal va da en form raw st = (reply, st')"
  shows "st' = st \<or> fst reply = 200 \<and> si_db st' = si_db st \<and> si_revs st' = si_revs st"
  using assms
  by (auto simp: handle_set_provider_def provider_notice_def Let_def split: if_splits option.splits sum.splits)

lemma delete_provider_step:
  assumes "handle_delete_provider da raw st = (reply, st')"
  shows "st' = st \<or> fst reply = 200 \<and> si_db st' = si_db st \<and> si_revs st' = si_revs st"
  using assms by (auto simp: handle_delete_provider_def provider_notice_def Let_def split: if_splits sum.splits)

fun changes_keys :: "dash_call \<Rightarrow> bool" where
  "changes_keys (SetProvider n) = True"
| "changes_keys (DeleteProvider n) = True"
| "changes_keys _ = False"

definition reads_only :: "dash_call \<Rightarrow> bool" where
  "reads_only c \<longleftrightarrow> has_prefix (dash_pattern c) ''GET ''"

lemma dash_handle_step:
  assumes "dash_handle sha seal va da en form c st = (reply, st')" and "schema_ok (si_db st)" and "sums_fit (si_db st)"
  shows "if changes_keys c then st' = st \<or> fst reply = 200 \<and> si_db st' = si_db st \<and> si_revs st' = si_revs st
    else one_step sha st reply st' \<and> (reads_only c \<longrightarrow> st' = st)"
  using assms set_provider_step delete_provider_step set_mode_step handle_revoke_step create_agent_step new_run_step
    handle_issue_step handle_close_step handle_revoke_lease_step
  by (cases c) (auto simp: reads_only_def)

section \<open>The dashboard on the store's invariants\<close>


section \<open>Onboarding\<close>

lemma onboard_rows:
  assumes "create_principal_run_lease p r l d = Inr d'" and "run_principal r = pr_id p" and "ls_run l = run_id r"
  shows "get_principal d' (pr_id p) = Inr p" and "get_run d' (run_id r) = Inr r"
    and "get_lease_by_token_hash d' (ls_token_hash l) = Inr (stored_lease l)"
proof -
  obtain d1 d2 where ins: "insert_principal p d = Inr d1" "insert_run r d1 = Inr d2" "insert_lease l d2 = Inr d'"
    using assms(1) by (auto simp: create_principal_run_lease_def split: if_splits sum.splits)
  have rows: "d_principals d' = d_principals d @ [p]" "\<forall>q \<in> set (d_principals d). pr_id q \<noteq> pr_id p"
    "d_runs d' = d_runs d @ [r]" "\<forall>q \<in> set (d_runs d). run_id q \<noteq> run_id r"
    using ins by (auto simp: insert_principal_def insert_run_def insert_lease_def split: if_splits)
  show "get_principal d' (pr_id p) = Inr p"
    using rows(2) by (simp add: get_principal_def find_principal_def rows(1) find_snoc)
  show "get_run d' (run_id r) = Inr r"
    using rows(4) by (simp add: get_run_def find_run_def rows(3) find_snoc)
  show "get_lease_by_token_hash d' (ls_token_hash l) = Inr (stored_lease l)" by (rule inserted_lease_found(2) [OF ins(3)])
qed

lemma normalize_names_nonempty: "[] \<notin> set seen \<Longrightarrow> [] \<notin> set (normalize_names seen raw)"
  by (induction seen raw rule: normalize_names.induct) (auto simp: Let_def)

lemma selected_providers_nonempty: "selected_providers da f = Inr names \<Longrightarrow> [] \<notin> set names"
  using normalize_names_nonempty [of "[]"]
  by (auto simp: selected_providers_def normalize_provider_names_def Let_def split: if_splits option.splits)

text \<open>
  Onboarding yields a working agent. After a 201 answer the shown token, presented to a gateway on
  the new database within the shortest lease there is, acts for the new principal under its name and
  mode, on the new run with its positive budget, and the lease lives for at most thirty days and is
  scoped to providers this gateway routes, never to all of them.
\<close>

theorem onboarded_token_authenticates:
  assumes "handle_create_agent sha da en form st = ((201, AgentCreated v), st')"
    and "credential_from (rq_header req) = Some (ca_token v)" and "later < mn_now en + 60 * ns_per_second"
    and "\<not> revoked revs (hash_secret sha (ca_token v))" and "gw_leases_set g"
    and "\<forall>name \<in> set (da_providers da). CHR '','' \<notin> set name"
  shows "\<exists>p run l. authenticate sha g later req revs (si_db st') =
      (Inr \<lparr>au_principal = p, au_run = ca_run v, au_lease = Some l\<rparr>, si_db st') \<and>
    pr_id p = ca_principal v \<and> pr_name p = ca_name v \<and> pr_mode p = ca_mode v \<and> mode_valid (ca_mode v) \<and>
    find_run (d_runs (si_db st')) (ca_run v) = Some run \<and> 0 < run_budget run \<and> nanos_str (run_budget run) = ca_budget v \<and>
    ls_expires l \<le> mn_now en + max_ttl * ns_per_second \<and> ls_providers l \<noteq> [] \<and> set (ls_providers l) \<subseteq> set (da_providers da)"
proof -
  obtain a where a: "check_agent da form = Inr a"
    using assms(1) by (cases "check_agent da form") (auto simp: handle_create_agent_def agent_failure_def)
  define p where "p = agent_principal sha en a"
  define r where "r = agent_run en (pr_id p) (ai_budget a)"
  define l where "l = agent_lease sha en (run_id r) (ai_providers a) 0 (ai_ttl a)"
  define l' where "l' = stored_lease l"
  have made: "create_principal_run_lease p r l (si_db st) = Inr (si_db st')"
    and v: "ca_name v = ai_name a" "ca_principal v = pr_id p" "ca_run v = run_id r" "ca_mode v = ai_mode a"
      "ca_budget v = nanos_str (ai_budget a)" "ca_token v = fst (new_lease_token sha (mn_token_bytes en))"
    using assms(1) a
    by (auto simp: handle_create_agent_def agent_failure_def Let_def p_def [symmetric] r_def [symmetric] l_def [symmetric]
        split: sum.splits if_splits)
  note facts = check_agent_typed [OF a]
  have own: "run_principal r = pr_id p" "ls_run l = run_id r" by (simp_all add: r_def agent_run_def l_def agent_lease_def)
  note rows = onboard_rows [OF made own]
  have token: "ls_token_hash l = hash_secret sha (ca_token v)" "looks_like_lease_token (ca_token v)"
    using new_secret_kind(2) [of sha "mn_token_bytes en"]
    by (simp_all add: l_def agent_lease_def v new_lease_token_def new_secret_def Let_def)
  have fields: "ls_run l' = run_id r" "ls_revoked l' = None" "ls_expires l' = mn_now en + ai_ttl a" "run_status r = RunActive"
    "run_budget r = ai_budget a"
    by (simp_all add: l'_def stored_lease_def l_def agent_lease_def r_def agent_run_def)
  have "authenticate sha g later req revs (si_db st') =
      (Inr \<lparr>au_principal = p, au_run = run_id r, au_lease = Some l'\<rparr>, si_db st')"
  proof (rule authenticate_stored_lease)
    show "get_lease_by_token_hash (si_db st') (hash_secret sha (ca_token v)) = Inr l'"
      using rows(3) token(1) by (simp add: l'_def)
    show "lease_active l' later" using assms(3) facts fields by (simp add: lease_active_def)
    show "get_run (si_db st') (ls_run l') = Inr r" using rows(2) fields by simp
    show "get_principal (si_db st') (run_principal r) = Inr p" using rows(1) own by simp
  qed (use assms(2,4,5) token fields in simp_all)
  moreover have "ls_providers l' = ai_providers a"
  proof -
    have "[] \<notin> set (ai_providers a)"
      using a selected_providers_nonempty
      by (fastforce simp: check_agent_def Let_def split: option.splits if_splits sum.splits)
    moreover have "\<forall>name \<in> set (ai_providers a). CHR '','' \<notin> set name" using facts assms(6) by blast
    moreover have "ai_providers a \<noteq> [[]]" using \<open>[] \<notin> set (ai_providers a)\<close> by auto
    ultimately show ?thesis
      using decode_encode_providers [of "ai_providers a"] by (simp add: l'_def stored_lease_def l_def agent_lease_def)
  qed
  moreover have "find_run (d_runs (si_db st')) (run_id r) = Some r"
    using rows(2) by (simp add: get_run_def split: option.splits)
  moreover have "pr_name p = ai_name a" "pr_mode p = ai_mode a" by (simp_all add: p_def agent_principal_def)
  ultimately show ?thesis
    using facts fields v by (intro exI [of _ p] exI [of _ r] exI [of _ l']) simp
qed

text \<open>
  A provider key set on the dashboard is the one the gateway sends. After a successful answer the
  vault opens exactly the trimmed key of the form for that provider, whatever was stored before, and
  every other provider's key is what it was, provided the cipher opens what it seals.
\<close>

theorem stored_provider_key_is_used:
  assumes "handle_set_provider seal va da en form raw st = ((200, pg), st')"
    and "\<And>plaintext ad. unseal (va_primary va) (mn_nonce en) (seal (va_primary va) (mn_nonce en) plaintext ad) ad = Some plaintext"
    and "va_readers va = va_primary va # others" and "one_row_each (si_creds st)"
  shows "\<exists>f. form = Some f \<and> to_lower (trim_space raw) \<in> set (da_providers da) \<and>
    vault_get get_credential unseal va (si_creds st') name =
      (if name = to_lower (trim_space raw) then Inr (trim_space (form_value f ''api_key''))
       else vault_get get_credential unseal va (si_creds st) name)"
proof -
  let ?n = "to_lower (trim_space raw)"
  obtain f creds' where f: "form = Some f" "?n \<in> set (da_providers da)"
    and put: "vault_put put_credential seal va (mn_now en) (mn_nonce en) ?n (trim_space (form_value f ''api_key'')) (si_creds st) = Inr creds'"
    and st': "si_creds st' = creds'"
    using assms(1)
    by (auto simp: handle_set_provider_def provider_failure_def provider_notice_def Let_def split: if_splits option.splits sum.splits)
  show ?thesis
    using f credentials.get_after_put [where aead_open = unseal, OF assms(4) put assms(2,3)] st' by blast
qed

section \<open>Examples\<close>

definition sample_manage_env :: manage_env where
  "sample_manage_env = \<lparr>mn_now = 20, mn_stored_now = 20, mn_who = None, mn_base = [], mn_principal_bytes = [],
     mn_key_bytes = [], mn_run_bytes = [], mn_lease_bytes = [], mn_token_bytes = [], mn_nonce = ''n''\<rparr>"

definition sample_site :: site where
  "sample_site = \<lparr>si_revs = [''h''], si_db = sample_db, si_creds = []\<rparr>"

definition sample_form :: form where
  "sample_form = [(''name'', ''bot''), (''mode'', ''observe''), (''budget_usd'', ''5''), (''ttl_seconds'', ''60''),
     (''providers'', ''openai''), (''api_key'', ''sk'')]"

definition tag_seal :: aead_seal where
  "tag_seal k n p ad = k @ n @ ad @ p"

definition tag_open :: aead_open where
  "tag_open k n c ad = (if has_prefix c (k @ n @ ad) then Some (drop (length (k @ n @ ad)) c) else None)"

lemma sample_site_ok: "schema_ok (si_db sample_site)" "sums_fit (si_db sample_site)"
  "int (length (d_ledger (si_db sample_site))) < max_i64"
  using sample_db_schema sample_db_sums by (simp_all add: sample_site_def sample_db_def max_i64_def)


lemma sample_providers: "da_providers sample_dashboard = [''openai'']"
proof -
  have "to_lower (trim_space ''openai'') = ''openai''" by code_simp
  then show ?thesis by (simp add: sample_dashboard_def new_dashboard_def normalize_provider_names_def Let_def)
qed

lemma sample_trimmed: "trim_space ''bot'' = ''bot''" "trim_space ''observe'' = ''observe''" "trim_space ''60'' = ''60''"
  "trim_space ''openai'' = ''openai''" "trim_space ''sk'' = ''sk''" "to_lower ''openai'' = ''openai''"
  by code_simp+

lemma sample_form_checked:
  "check_agent sample_dashboard (Some sample_form) = Inr \<lparr>ai_name = ''bot'', ai_mode = ModeObserve, ai_budget = 5000000000,
     ai_ttl = 60000000000, ai_providers = [''openai'']\<rparr>"
proof -
  have "validate_agent_name ''bot'' = None" by code_simp
  moreover have "positive_usd ''5'' ''budget'' = Inr 5000000000" by code_simp
  moreover have "parse_ttl ''60'' = Inr 60000000000"
    by (simp add: parse_ttl_def sample_trimmed parse_int_def Let_def is_digit_def less_eq_char_def digits_val_def digit_val_def
        in_i64_def min_i64_def max_i64_def max_ttl_def ns_per_second_def i64_def)
  moreover have "selected_providers sample_dashboard sample_form = Inr [''openai'']"
    by (simp add: selected_providers_def sample_providers sample_form_def form_values_def normalize_provider_names_def
        sample_trimmed Let_def)
  ultimately show ?thesis
    by (simp add: check_agent_def Let_def) (simp add: sample_form_def form_value_def sample_trimmed mode_of_text_def mode_valid_def)
qed

lemma onboarded_token_authenticates_witness:
  "\<exists>v st' p (run :: run) l. handle_create_agent drop_sha sample_dashboard sample_manage_env (Some sample_form) sample_site =
      ((201, AgentCreated v), st') \<and>
    authenticate drop_sha sample_gateway 30 issued_request [''t''] (si_db st') =
      (Inr \<lparr>au_principal = p, au_run = ca_run v, au_lease = Some l\<rparr>, si_db st') \<and>
    pr_name p = ''bot'' \<and> 0 < run_budget run \<and> ls_providers l \<noteq> []"
proof -
  define a where "a = \<lparr>ai_name = ''bot'', ai_mode = ModeObserve, ai_budget = (5000000000 :: int),
     ai_ttl = (60000000000 :: int), ai_providers = [''openai'']\<rparr>"
  define p where "p = agent_principal drop_sha sample_manage_env a"
  define r where "r = agent_run sample_manage_env (pr_id p) (ai_budget a)"
  define l where "l = agent_lease drop_sha sample_manage_env (run_id r) (ai_providers a) 0 (ai_ttl a)"
  have b32: "base32 [] = []" by (simp add: base32_def quintets.simps)
  note defs = p_def r_def l_def a_def agent_principal_def agent_run_def agent_lease_def sample_manage_env_def new_id_def
    new_principal_key_def new_lease_token_def new_secret_def Let_def b32 hash_secret_def drop_sha_def principal_prefix_def
    run_prefix_def lease_prefix_def principal_key_prefix_def lease_token_prefix_def
  have "\<exists>d'. create_principal_run_lease p r l (si_db sample_site) = Inr d'"
    by (simp add: create_principal_run_lease_def insert_principal_def insert_run_def insert_lease_def run_checks_def
        mode_valid_def run_status_valid_def find_principal_def find_run_def sample_site_def sample_db_def sample_principal_def
        sample_run_def sample_lease_def defs)
  then obtain d' where made: "create_principal_run_lease p r l (si_db sample_site) = Inr d'" by blast
  then obtain v st' where run: "handle_create_agent drop_sha sample_dashboard sample_manage_env (Some sample_form) sample_site =
      ((201, AgentCreated v), st')" and v: "ca_token v = fst (new_lease_token drop_sha (mn_token_bytes sample_manage_env))"
      "ca_name v = ''bot''"
    by (simp add: handle_create_agent_def sample_form_checked a_def [symmetric] Let_def p_def [symmetric] r_def [symmetric]
        l_def [symmetric]) (simp add: a_def)
  have token: "ca_token v = ''sll_''"
    by (simp add: v new_lease_token_def new_secret_def Let_def lease_token_prefix_def sample_manage_env_def b32)
  have cred: "credential_from (rq_header issued_request) = Some (ca_token v)" unfolding token by code_simp
  have soon: "30 < mn_now sample_manage_env + 60 * ns_per_second" by (simp add: sample_manage_env_def ns_per_second_def)
  have live: "\<not> revoked [''t''] (hash_secret drop_sha (ca_token v))"
    by (simp add: token revoked_def hash_secret_def drop_sha_def)
  have set: "gw_leases_set sample_gateway" by (simp add: sample_gateway_def)
  have plain: "\<forall>name \<in> set (da_providers sample_dashboard). CHR '','' \<notin> set name" by (simp add: sample_providers)
  obtain p' l' and run' :: run where "authenticate drop_sha sample_gateway 30 issued_request [''t''] (si_db st') =
      (Inr \<lparr>au_principal = p', au_run = ca_run v, au_lease = Some l'\<rparr>, si_db st')"
    and "pr_name p' = ca_name v" "0 < run_budget run'" "ls_providers l' \<noteq> []"
    using onboarded_token_authenticates [OF run cred soon live set plain] by (elim exE conjE) (rule that, assumption+)
  then show ?thesis using run v(2) by (intro exI conjI) simp_all
qed

lemma stored_provider_key_is_used_witness:
  "\<exists>pg st'. handle_set_provider tag_seal (new_vault ''k'') sample_dashboard sample_manage_env (Some sample_form) ''openai'' sample_site =
      ((200, pg), st') \<and>
    vault_get get_credential tag_open (new_vault ''k'') (si_creds st') ''openai'' = Inr ''sk''"
proof -
  have key: "form_value sample_form ''api_key'' = ''sk''" by (simp add: sample_form_def form_value_def)
  obtain pg st' where run: "handle_set_provider tag_seal (new_vault ''k'') sample_dashboard sample_manage_env (Some sample_form)
      ''openai'' sample_site = ((200, pg), st')"
    by (simp add: handle_set_provider_def sample_trimmed sample_providers key vault_put_def provider_notice_def Let_def)
  have law: "tag_open k n (tag_seal k n x ad) ad = Some x" for k n x ad
    by (simp add: tag_open_def tag_seal_def has_prefix_iff)
  have "one_row_each (si_creds sample_site)" by (simp add: one_row_each_def sample_site_def)
  from stored_provider_key_is_used [where unseal = tag_open, OF run law _ this, of "[]" "''openai''"] run key show ?thesis
    by (auto simp: sample_trimmed new_vault_def new_keyring_def)
qed

end
