(* ===== verification/Reconcile.thy ===== *)
theory Reconcile
  imports Ledger TimeParse
begin

text \<open>
  Reconciling the ledger with a vendor's statement (\<open>internal/reconcile/reconcile.go\<close>): the aggregates
  per provider and model with their overflow checks, the comparison, the statement's columns and the CSV
  rows of the report. The decoders of CSV and JSON and \<open>time.Parse\<close> are parameters. The keys of a Go
  map are visited in some order; the result does not depend on it but for the text of an error.
\<close>

section \<open>Rows and options\<close>

record statement_entry =
  se_provider :: string
  se_model :: string
  se_external :: string
  se_usage :: usage
  se_cost :: nanos
  se_at :: instant

record recon_options =
  ro_since :: instant
  ro_until :: instant
  ro_tolerance :: nanos

type_synonym group_key = "string \<times> string"

datatype recon_error =
    BadPeriod | NegativeTolerance | MissingKey | BadUsage billing_error | NegativeCost
  | CostOverflow group_key | UsageOverflow group_key string | DeltaCostOverflow group_key | DeltaUsageOverflow group_key string

record aggregate =
  ag_records :: int
  ag_cost :: nanos
  ag_usage :: usage
  ag_ids :: "string list"

definition empty_aggregate :: aggregate where
  "empty_aggregate = \<lparr>ag_records = 0, ag_cost = 0, ag_usage = [], ag_ids = []\<rparr>"

text \<open>What both sources give to \<open>add\<close>.\<close>

record line =
  ln_key :: group_key
  ln_usage :: usage
  ln_cost :: nanos
  ln_external :: string
  ln_at :: instant

definition ledger_line :: "entry \<Rightarrow> line" where
  "ledger_line e = \<lparr>ln_key = (e_provider e, e_model e), ln_usage = itemized_usage e, ln_cost = e_cost e,
     ln_external = e_external e, ln_at = e_created e\<rparr>"

definition statement_line :: "statement_entry \<Rightarrow> line" where
  "statement_line s = \<lparr>ln_key = (se_provider s, se_model s), ln_usage = se_usage s, ln_cost = se_cost s,
     ln_external = se_external s, ln_at = se_at s\<rparr>"

definition in_period :: "instant \<Rightarrow> recon_options \<Rightarrow> bool" where
  "in_period t opts \<longleftrightarrow> \<not> t < ro_since opts \<and> t < ro_until opts"

section \<open>Aggregates\<close>

fun add_quantities :: "group_key \<Rightarrow> usage \<Rightarrow> usage \<Rightarrow> recon_error + usage" where
  "add_quantities key acc [] = Inr acc"
| "add_quantities key acc ((name, quantity) # u) =
     (if max_i64 - quantity < get_or 0 acc name then Inl (UsageOverflow key name)
      else add_quantities key (put_key name (get_or 0 acc name + quantity) acc) u)"

definition add_to :: "aggregate \<Rightarrow> line \<Rightarrow> recon_error + aggregate" where
  "add_to agg l =
     (if max_i64 - ln_cost l < ag_cost agg then Inl (CostOverflow (ln_key l))
      else (case add_quantities (ln_key l) (ag_usage agg) (ln_usage l) of
          Inl e \<Rightarrow> Inl e
        | Inr u \<Rightarrow>
            (let i = trim_space (ln_external l)
             in Inr \<lparr>ag_records = ag_records agg + 1, ag_cost = ag_cost agg + ln_cost l, ag_usage = u,
                  ag_ids = (if i = [] \<or> i \<in> set (ag_ids agg) then ag_ids agg else i # ag_ids agg)\<rparr>)))"

definition add_line :: "(group_key, aggregate) go_map \<Rightarrow> line \<Rightarrow> recon_error + (group_key, aggregate) go_map" where
  "add_line groups l =
     (if trim_space (fst (ln_key l)) = [] \<or> trim_space (snd (ln_key l)) = [] then Inl MissingKey
      else (case usage_validate (ln_usage l) of
          Inl e \<Rightarrow> Inl (BadUsage e)
        | Inr _ \<Rightarrow>
            if ln_cost l < 0 then Inl NegativeCost
            else (case add_to (get_or empty_aggregate groups (ln_key l)) l of
                Inl e \<Rightarrow> Inl e
              | Inr agg \<Rightarrow> Inr (put_key (ln_key l) agg groups))))"

fun gather :: "recon_options \<Rightarrow> line list \<Rightarrow> (group_key, aggregate) go_map \<Rightarrow> recon_error + (group_key, aggregate) go_map" where
  "gather opts [] groups = Inr groups"
| "gather opts (l # ls) groups =
     (if \<not> in_period (ln_at l) opts then gather opts ls groups
      else (case add_line groups l of Inl e \<Rightarrow> Inl e | Inr groups' \<Rightarrow> gather opts ls groups'))"

section \<open>Comparing the aggregates\<close>

definition subtract_nanos :: "nanos \<Rightarrow> nanos \<Rightarrow> nanos option" where
  "subtract_nanos left right =
     (if 0 < right \<and> left < i64 (min_i64 + right) then None
      else if right < 0 \<and> i64 (max_i64 + right) < left then None
      else Some (i64 (left - right)))"

fun add_delta :: "usage \<Rightarrow> usage \<Rightarrow> string + usage" where
  "add_delta out [] = Inr out"
| "add_delta out ((name, quantity) # u) =
     (if max_i64 - quantity < get_or 0 out name then Inl name
      else add_delta (put_key name (get_or 0 out name + quantity) out) u)"

definition usage_delta :: "usage \<Rightarrow> usage \<Rightarrow> string + usage" where
  "usage_delta ledger_usage statement_usage =
     (case add_delta (map (\<lambda>(name, q). (name, i64 (- q))) ledger_usage) statement_usage of
        Inl name \<Rightarrow> Inl name
      | Inr out \<Rightarrow> Inr (filter (\<lambda>(_, q). q \<noteq> 0) out))"

definition abs_nanos :: "nanos \<Rightarrow> nanos" where
  "abs_nanos v = (if v < 0 then i64 (- v) else v)"

definition group_status :: "aggregate \<Rightarrow> aggregate \<Rightarrow> nanos \<Rightarrow> usage \<Rightarrow> nanos \<Rightarrow> string" where
  "group_status left right cost_delta delta tolerance =
     (if ag_records left = 0 then ''statement_only''
      else if ag_records right = 0 then ''ledger_only''
      else if tolerance < abs_nanos cost_delta then ''cost_mismatch''
      else if delta \<noteq> [] then ''usage_mismatch''
      else ''match'')"

definition intersection :: "string list \<Rightarrow> string list \<Rightarrow> int" where
  "intersection left right = int (length (filter (\<lambda>i. i \<in> set right) left))"

record side =
  sd_records :: int
  sd_cost :: string
  sd_usage :: usage
  sd_ids :: int

definition side_of :: "aggregate \<Rightarrow> side" where
  "side_of a = \<lparr>sd_records = ag_records a, sd_cost = nanos_str (ag_cost a), sd_usage = normalized (ag_usage a),
     sd_ids = int (length (ag_ids a))\<rparr>"

record recon_group =
  gr_provider :: string
  gr_model :: string
  gr_status :: string
  gr_ledger :: side
  gr_statement :: side
  gr_cost_delta :: string
  gr_usage_delta :: usage
  gr_matched :: int

record report =
  rp_version :: int
  rp_since :: instant
  rp_until :: instant
  rp_tolerance :: string
  rp_status :: string
  rp_groups :: "recon_group list"

definition mismatched :: "report \<Rightarrow> bool" where
  "mismatched r \<longleftrightarrow> rp_status r \<noteq> ''match''"

definition compare_group ::
  "recon_options \<Rightarrow> (group_key, aggregate) go_map \<Rightarrow> (group_key, aggregate) go_map \<Rightarrow> group_key \<Rightarrow> recon_error + recon_group" where
  "compare_group opts ledger_groups statement_groups key =
     (let left = get_or empty_aggregate ledger_groups key;
          right = get_or empty_aggregate statement_groups key
      in case subtract_nanos (ag_cost right) (ag_cost left) of
           None \<Rightarrow> Inl (DeltaCostOverflow key)
         | Some cost_delta \<Rightarrow>
             (case usage_delta (ag_usage left) (ag_usage right) of
                Inl name \<Rightarrow> Inl (DeltaUsageOverflow key name)
              | Inr delta \<Rightarrow>
                  Inr \<lparr>gr_provider = fst key, gr_model = snd key,
                    gr_status = group_status left right cost_delta delta (ro_tolerance opts),
                    gr_ledger = side_of left, gr_statement = side_of right, gr_cost_delta = nanos_str cost_delta,
                    gr_usage_delta = delta, gr_matched = intersection (ag_ids left) (ag_ids right)\<rparr>))"

fun compare_groups ::
  "recon_options \<Rightarrow> (group_key, aggregate) go_map \<Rightarrow> (group_key, aggregate) go_map \<Rightarrow> group_key list \<Rightarrow> recon_error + recon_group list" where
  "compare_groups opts lg sg [] = Inr []"
| "compare_groups opts lg sg (key # keys) =
     (case compare_group opts lg sg key of
        Inl e \<Rightarrow> Inl e
      | Inr g \<Rightarrow> (case compare_groups opts lg sg keys of Inl e \<Rightarrow> Inl e | Inr gs \<Rightarrow> Inr (g # gs)))"

definition key_le :: "group_key \<Rightarrow> group_key \<Rightarrow> bool" where
  "key_le j k \<longleftrightarrow> (if fst j = fst k then snd j \<le> snd k else fst j < fst k)"

interpretation key_order: comparison key_le
  by unfold_locales (auto simp: key_le_def split: if_splits)

definition group_keys :: "(group_key, aggregate) go_map \<Rightarrow> (group_key, aggregate) go_map \<Rightarrow> group_key list" where
  "group_keys lg sg = sort_by key_le (map fst lg @ filter (\<lambda>k. k \<notin> set (map fst lg)) (map fst sg))"

definition build :: "entry list \<Rightarrow> statement_entry list \<Rightarrow> recon_options \<Rightarrow> recon_error + report" where
  "build entries statement opts =
     (if time_is_zero (ro_since opts) \<or> time_is_zero (ro_until opts) \<or> \<not> ro_since opts < ro_until opts then Inl BadPeriod
      else if ro_tolerance opts < 0 then Inl NegativeTolerance
      else (case gather opts (map ledger_line entries) [] of
          Inl e \<Rightarrow> Inl e
        | Inr lg \<Rightarrow>
            (case gather opts (map statement_line statement) [] of
               Inl e \<Rightarrow> Inl e
             | Inr sg \<Rightarrow>
                 (case compare_groups opts lg sg (group_keys lg sg) of
                    Inl e \<Rightarrow> Inl e
                  | Inr gs \<Rightarrow>
                      Inr \<lparr>rp_version = 1, rp_since = ro_since opts, rp_until = ro_until opts,
                        rp_tolerance = nanos_str (ro_tolerance opts),
                        rp_status = (if list_ex (\<lambda>g. gr_status g \<noteq> ''match'') gs then ''mismatch'' else ''match''),
                        rp_groups = gs\<rparr>))))"

section \<open>Statements\<close>

text \<open>
  \<open>ParseUsageJSON\<close>: \<open>numbers\<close> is the decoder into a map of number literals, which fails on anything but
  one JSON object of numbers.
\<close>

datatype usage_error = UsageSyntax | NotInteger string | UsageInvalid billing_error

fun usage_numbers :: "(string \<times> string) list \<Rightarrow> usage_error + usage" where
  "usage_numbers [] = Inr []"
| "usage_numbers ((name, literal) # rest) =
     (case parse_int literal of
        None \<Rightarrow> Inl (NotInteger name)
      | Some q \<Rightarrow> (case usage_numbers rest of Inl e \<Rightarrow> Inl e | Inr u \<Rightarrow> Inr ((name, q) # u)))"

definition parse_usage_json :: "(string \<Rightarrow> (string \<times> string) list option) \<Rightarrow> string \<Rightarrow> usage_error + usage" where
  "parse_usage_json numbers raw =
     (case numbers raw of
        None \<Rightarrow> Inl UsageSyntax
      | Some values \<Rightarrow>
          (case usage_numbers values of
             Inl e \<Rightarrow> Inl e
           | Inr u \<Rightarrow> (case usage_validate u of Inl e \<Rightarrow> Inl (UsageInvalid e) | Inr _ \<Rightarrow> Inr (normalized u))))"

datatype statement_error =
    NoHeader | DuplicateColumn string | MissingColumn string | BadRow nat
  | RowUsage nat usage_error | RowCost nat string | RowTime nat | RowKey nat

fun read_columns :: "nat \<Rightarrow> string list \<Rightarrow> (string, nat) go_map \<Rightarrow> statement_error + (string, nat) go_map" where
  "read_columns i [] columns = Inr columns"
| "read_columns i (name # names) columns =
     (let name' = trim_space (to_lower name)
      in if map_of columns name' \<noteq> None then Inl (DuplicateColumn name')
         else read_columns (Suc i) names (put_key name' i columns))"

definition required_columns :: "string list" where
  "required_columns = [''provider'', ''model'', ''usage_json'', ''cost_usd'', ''occurred_at'']"

definition row_get :: "(string, nat) go_map \<Rightarrow> string list \<Rightarrow> string \<Rightarrow> string" where
  "row_get columns row name =
     (case map_of columns name of
        None \<Rightarrow> []
      | Some i \<Rightarrow> if length row \<le> i then [] else trim_space (row ! i))"

text \<open>One row.\<close>

definition read_row ::
  "(string \<Rightarrow> (string \<times> string) list option) \<Rightarrow> (string, nat) go_map \<Rightarrow> nat \<Rightarrow> string list \<Rightarrow>
     statement_error + statement_entry" where
  "read_row numbers columns n row =
     (case parse_usage_json numbers (row_get columns row ''usage_json'') of
        Inl e \<Rightarrow> Inl (RowUsage n e)
      | Inr u \<Rightarrow>
          (case parse_usd (row_get columns row ''cost_usd'') of
             Inl _ \<Rightarrow> Inl (RowCost n (row_get columns row ''cost_usd''))
           | Inr cost \<Rightarrow>
               if cost < 0 then Inl (RowCost n (row_get columns row ''cost_usd''))
               else (case parse_rfc3339 (row_get columns row ''occurred_at'') of
                   None \<Rightarrow> Inl (RowTime n)
                 | Some t \<Rightarrow>
                     if row_get columns row ''provider'' = [] \<or> row_get columns row ''model'' = [] then Inl (RowKey n)
                     else Inr \<lparr>se_provider = row_get columns row ''provider'', se_model = row_get columns row ''model'',
                       se_external = row_get columns row ''external_id'', se_usage = u, se_cost = cost, se_at = t\<rparr>)))"

fun read_rows ::
  "(string \<Rightarrow> (string \<times> string) list option) \<Rightarrow> (string, nat) go_map \<Rightarrow> nat \<Rightarrow>
     string list option list \<Rightarrow> statement_error + statement_entry list" where
  "read_rows numbers columns n [] = Inr []"
| "read_rows numbers columns n (None # rows) = Inl (BadRow n)"
| "read_rows numbers columns n (Some row # rows) =
     (case read_row numbers columns n row of
        Inl e \<Rightarrow> Inl e
      | Inr s \<Rightarrow> (case read_rows numbers columns (Suc n) rows of Inl e \<Rightarrow> Inl e | Inr ss \<Rightarrow> Inr (s # ss)))"

text \<open>\<open>ReadStatementCSV\<close> on what the CSV reader answers, call by call; \<open>None\<close> is a read error.\<close>

definition read_statement ::
  "(string \<Rightarrow> (string \<times> string) list option) \<Rightarrow> string list option list \<Rightarrow>
     statement_error + statement_entry list" where
  "read_statement numbers csv =
     (case csv of
        Some header # rows \<Rightarrow>
          (case read_columns 0 header [] of
             Inl e \<Rightarrow> Inl e
           | Inr columns \<Rightarrow>
               (case find (\<lambda>name. map_of columns name = None) required_columns of
                  Some name \<Rightarrow> Inl (MissingColumn name)
                | None \<Rightarrow> read_rows numbers columns 2 rows))
      | _ \<Rightarrow> Inl NoHeader)"

section \<open>The CSV report\<close>

definition report_header :: "string list" where
  "report_header = [''provider'', ''model'', ''status'', ''ledger_records'', ''statement_records'', ''ledger_cost_usd'',
     ''statement_cost_usd'', ''cost_delta_usd'', ''ledger_usage_json'', ''statement_usage_json'', ''usage_delta_json'',
     ''ledger_external_ids'', ''statement_external_ids'', ''matched_external_ids'']"

definition usage_text_or_empty :: "usage \<Rightarrow> string" where
  "usage_text_or_empty u = (case canonical_json u of Inl _ \<Rightarrow> [] | Inr text' \<Rightarrow> text')"

text \<open>\<open>json.Marshal\<close> of a map of integers, keys sorted; its unit names need no escape.\<close>

definition marshal_delta :: "usage \<Rightarrow> string" where
  "marshal_delta u = CHR ''{'' # join CHR '','' (map (json_member u) (sort_by (\<le>) (map fst u))) @ [CHR ''}'']"

definition report_row :: "recon_group \<Rightarrow> string list" where
  "report_row g =
     [gr_provider g, gr_model g, gr_status g, int_str (sd_records (gr_ledger g)), int_str (sd_records (gr_statement g)),
      sd_cost (gr_ledger g), sd_cost (gr_statement g), gr_cost_delta g,
      usage_text_or_empty (sd_usage (gr_ledger g)), usage_text_or_empty (sd_usage (gr_statement g)),
      marshal_delta (gr_usage_delta g), int_str (sd_ids (gr_ledger g)), int_str (sd_ids (gr_statement g)), int_str (gr_matched g)]"

definition report_csv :: "report \<Rightarrow> string list list" where
  "report_csv r = report_header # map report_row (rp_groups r)"

section \<open>The aggregates are exact\<close>

definition lines_of :: "recon_options \<Rightarrow> group_key \<Rightarrow> line list \<Rightarrow> line list" where
  "lines_of opts key ls = filter (\<lambda>l. in_period (ln_at l) opts \<and> ln_key l = key) ls"

definition total_cost :: "line list \<Rightarrow> int" where
  "total_cost ls = sum_list (map ln_cost ls)"

definition total_units :: "line list \<Rightarrow> string \<Rightarrow> int" where
  "total_units ls name = sum_list (map (\<lambda>l. get_or 0 (ln_usage l) name) ls)"

lemma lines_of_simps [simp]:
  "lines_of opts key [] = []"
  "lines_of opts key (l # ls) = (if in_period (ln_at l) opts \<and> ln_key l = key then l # lines_of opts key ls else lines_of opts key ls)"
  by (simp_all add: lines_of_def)

lemma totals_simps [simp]:
  "total_cost [] = 0" "total_cost (l # ls) = ln_cost l + total_cost ls"
  "total_units [] name = 0" "total_units (l # ls) name = get_or 0 (ln_usage l) name + total_units ls name"
  by (simp_all add: total_cost_def total_units_def)

text \<open>Aggregates hold int64 values that are not negative.\<close>

definition usage_ok :: "usage \<Rightarrow> bool" where
  "usage_ok u \<longleftrightarrow> wf_map u \<and> (\<forall>name. 0 \<le> get_or 0 u name \<and> get_or 0 u name \<le> max_i64)"

definition aggregate_ok :: "aggregate \<Rightarrow> bool" where
  "aggregate_ok a \<longleftrightarrow> 0 \<le> ag_records a \<and> 0 \<le> ag_cost a \<and> ag_cost a \<le> max_i64 \<and> usage_ok (ag_usage a)"

lemma empty_aggregate_ok [simp]: "aggregate_ok empty_aggregate"
  by (simp add: aggregate_ok_def usage_ok_def empty_aggregate_def wf_map_def max_i64_def)

lemma get_or_Cons: "get_or d ((k, v) # m) k' = (if k' = k then v else get_or d m k')"
  by (simp add: get_or_def)

lemma get_or_absent: "k \<notin> fst ` set m \<Longrightarrow> get_or d m k = d"
  by (auto simp: get_or_def split: option.splits dest: map_of_SomeD intro: rev_image_eqI)

lemma add_quantities_exact:
  "add_quantities key acc u = Inr acc' \<Longrightarrow> wf_map u \<Longrightarrow> \<forall>(name, q) \<in> set u. 0 \<le> q \<Longrightarrow> usage_ok acc \<Longrightarrow>
     usage_ok acc' \<and> (\<forall>name. get_or 0 acc' name = get_or 0 acc name + get_or 0 u name)"
proof (induction key acc u rule: add_quantities.induct)
  case (2 key acc name q u)
  let ?acc = "put_key name (get_or 0 acc name + q) acc"
  have fits: "get_or 0 acc name \<le> max_i64 - q" and rest: "add_quantities key ?acc u = Inr acc'"
    using 2(2) by (simp_all split: if_splits)
  have wf: "wf_map u" "name \<notin> fst ` set u" using 2(3) by (auto simp: wf_map_def)
  have "usage_ok ?acc" using 2(4,5) fits by (auto simp: usage_ok_def)
  then have ih: "usage_ok acc'" "\<forall>n. get_or 0 acc' n = get_or 0 ?acc n + get_or 0 u n"
    using 2(1) fits rest wf(1) 2(4) by auto
  have "get_or 0 u name = 0" using get_or_absent [OF wf(2)] .
  then show ?case using ih by (simp add: get_or_Cons)
qed simp

lemma add_delta_exact:
  "add_delta out u = Inr out' \<Longrightarrow> wf_map u \<Longrightarrow> wf_map out \<Longrightarrow>
     wf_map out' \<and> (\<forall>name. get_or 0 out' name = get_or 0 out name + get_or 0 u name)"
proof (induction out u rule: add_delta.induct)
  case (2 out name q u)
  let ?out = "put_key name (get_or 0 out name + q) out"
  have rest: "add_delta ?out u = Inr out'" "\<not> max_i64 - q < get_or 0 out name" using 2(2) by (simp_all split: if_splits)
  have wf: "wf_map u" "name \<notin> fst ` set u" using 2(3) by (auto simp: wf_map_def)
  have ih: "wf_map out'" "\<forall>n. get_or 0 out' n = get_or 0 ?out n + get_or 0 u n"
    using 2(1) [OF rest(2,1) wf(1)] 2(4) by simp_all
  then show ?case using get_or_absent [OF wf(2)] by (simp add: get_or_Cons)
qed simp

lemma add_line_exact:
  assumes "add_line groups l = Inr groups'" and "wf_map (ln_usage l)" and "aggregate_ok (get_or empty_aggregate groups (ln_key l))"
  obtains agg where "groups' = put_key (ln_key l) agg groups" "aggregate_ok agg"
    "ag_records agg = ag_records (get_or empty_aggregate groups (ln_key l)) + 1"
    "ag_cost agg = ag_cost (get_or empty_aggregate groups (ln_key l)) + ln_cost l"
    "\<And>name. get_or 0 (ag_usage agg) name = get_or 0 (ag_usage (get_or empty_aggregate groups (ln_key l))) name + get_or 0 (ln_usage l) name"
proof -
  let ?a = "get_or empty_aggregate groups (ln_key l)"
  obtain agg where agg: "add_to ?a l = Inr agg" "groups' = put_key (ln_key l) agg groups" "0 \<le> ln_cost l"
      "usage_validate (ln_usage l) = Inr ()"
    using assms(1) by (auto simp: add_line_def split: if_splits sum.splits)
  obtain u where u: "add_quantities (ln_key l) (ag_usage ?a) (ln_usage l) = Inr u" "ag_cost ?a \<le> max_i64 - ln_cost l"
      "ag_records agg = ag_records ?a + 1" "ag_cost agg = ag_cost ?a + ln_cost l" "ag_usage agg = u"
    using agg(1) by (auto simp: add_to_def Let_def split: if_splits sum.splits)
  have "\<forall>(name, q) \<in> set (ln_usage l). 0 \<le> q" using agg(4) by (auto simp: usage_validate_ok)
  from add_quantities_exact [OF u(1) assms(2) this] assms(3)
  have "usage_ok u" "\<forall>name. get_or 0 u name = get_or 0 (ag_usage ?a) name + get_or 0 (ln_usage l) name"
    by (simp_all add: aggregate_ok_def)
  then show thesis using that agg u assms(3) by (simp add: aggregate_ok_def)
qed

lemma gather_exact:
  assumes "gather opts ls groups = Inr groups'" and "\<forall>l \<in> set ls. wf_map (ln_usage l)"
    and "wf_map groups" and "\<forall>k. aggregate_ok (get_or empty_aggregate groups k)"
  shows "wf_map groups' \<and> (\<forall>k. aggregate_ok (get_or empty_aggregate groups' k)) \<and>
    (\<forall>k. k \<in> fst ` set groups' \<longleftrightarrow> k \<in> fst ` set groups \<or> lines_of opts k ls \<noteq> []) \<and>
    (\<forall>k. ag_records (get_or empty_aggregate groups' k) = ag_records (get_or empty_aggregate groups k) + int (length (lines_of opts k ls))) \<and>
    (\<forall>k. ag_cost (get_or empty_aggregate groups' k) = ag_cost (get_or empty_aggregate groups k) + total_cost (lines_of opts k ls)) \<and>
    (\<forall>k name. get_or 0 (ag_usage (get_or empty_aggregate groups' k)) name =
       get_or 0 (ag_usage (get_or empty_aggregate groups k)) name + total_units (lines_of opts k ls) name)"
  using assms
proof (induction ls arbitrary: groups)
  case (Cons l ls)
  show ?case
  proof (cases "in_period (ln_at l) opts")
    case False
    with Cons show ?thesis by simp
  next
    case True
    obtain groups1 where one: "add_line groups l = Inr groups1" and rest: "gather opts ls groups1 = Inr groups'"
      using Cons.prems(1) True by (auto split: sum.splits)
    obtain agg where agg: "groups1 = put_key (ln_key l) agg groups" "aggregate_ok agg"
      "ag_records agg = ag_records (get_or empty_aggregate groups (ln_key l)) + 1"
      "ag_cost agg = ag_cost (get_or empty_aggregate groups (ln_key l)) + ln_cost l"
      "\<And>name. get_or 0 (ag_usage agg) name = get_or 0 (ag_usage (get_or empty_aggregate groups (ln_key l))) name + get_or 0 (ln_usage l) name"
      using add_line_exact [OF one] Cons.prems(2,4) by auto
    have ok1: "wf_map groups1" "\<forall>k. aggregate_ok (get_or empty_aggregate groups1 k)"
      using agg(1,2) Cons.prems(3,4) by simp_all
    show ?thesis
      using Cons.IH [OF rest _ ok1] Cons.prems(2) agg True by auto
  qed
qed simp

lemma gather_from_nothing:
  assumes "gather opts ls [] = Inr groups" and "\<forall>l \<in> set ls. wf_map (ln_usage l)"
  shows "aggregate_ok (get_or empty_aggregate groups k)"
    and "k \<in> fst ` set groups \<longleftrightarrow> lines_of opts k ls \<noteq> []"
    and "ag_records (get_or empty_aggregate groups k) = int (length (lines_of opts k ls))"
    and "ag_cost (get_or empty_aggregate groups k) = total_cost (lines_of opts k ls)"
    and "\<forall>name. get_or 0 (ag_usage (get_or empty_aggregate groups k)) name = total_units (lines_of opts k ls) name"
proof -
  have start: "wf_map ([] :: (group_key, aggregate) go_map)" "\<forall>k. aggregate_ok (get_or empty_aggregate [] k)"
    by (simp_all add: wf_map_def)
  have zero: "ag_records empty_aggregate = 0" "ag_cost empty_aggregate = 0" "ag_usage empty_aggregate = []"
    by (simp_all add: empty_aggregate_def)
  note g = gather_exact [OF assms start]
  show "aggregate_ok (get_or empty_aggregate groups k)" using g by blast
  show "k \<in> fst ` set groups \<longleftrightarrow> lines_of opts k ls \<noteq> []"
    using g [THEN conjunct2, THEN conjunct2, THEN conjunct1, THEN spec [of _ k]] by simp
  show "ag_records (get_or empty_aggregate groups k) = int (length (lines_of opts k ls))"
    using g [THEN conjunct2, THEN conjunct2, THEN conjunct2, THEN conjunct1, THEN spec [of _ k]] by (simp add: zero)
  show "ag_cost (get_or empty_aggregate groups k) = total_cost (lines_of opts k ls)"
    using g [THEN conjunct2, THEN conjunct2, THEN conjunct2, THEN conjunct2, THEN conjunct1, THEN spec [of _ k]] by (simp add: zero)
  show "\<forall>name. get_or 0 (ag_usage (get_or empty_aggregate groups k)) name = total_units (lines_of opts k ls) name"
    using g [THEN conjunct2, THEN conjunct2, THEN conjunct2, THEN conjunct2, THEN conjunct2, THEN spec [of _ k]] by (simp add: zero)
qed

section \<open>A report that matches means what it says\<close>

lemma subtract_nanos_exact:
  "0 \<le> a \<Longrightarrow> a \<le> max_i64 \<Longrightarrow> 0 \<le> b \<Longrightarrow> b \<le> max_i64 \<Longrightarrow> subtract_nanos a b = Some (a - b)"
  by (simp add: subtract_nanos_def i64_def max_i64_def min_i64_def)

lemma abs_nanos_exact: "- max_i64 \<le> v \<Longrightarrow> v \<le> max_i64 \<Longrightarrow> abs_nanos v = \<bar>v\<bar>"
  by (simp add: abs_nanos_def i64_def max_i64_def)

lemma map_values: "map_of (map (\<lambda>(k, v). (k, f v)) m) k = map_option f (map_of m k)"
  by (induction m) auto

lemma nonzero_empty:
  assumes "wf_map (m :: usage)"
  shows "filter (\<lambda>(_, q). q \<noteq> 0) m = [] \<longleftrightarrow> (\<forall>k. get_or 0 m k = 0)"
proof -
  have "normalized m = [] \<longleftrightarrow> (\<forall>k. k \<notin> set (map fst (normalized m)))" by auto
  then show ?thesis using keys_normalized [OF assms] by (simp only: normalized_def) blast
qed

lemma usage_delta_exact:
  assumes "usage_delta u v = Inr delta" and "usage_ok u" and "usage_ok v"
  shows "delta = [] \<longleftrightarrow> (\<forall>name. get_or 0 u name = get_or 0 v name)"
proof -
  let ?neg = "map (\<lambda>(name, q). (name, i64 (- q))) u"
  obtain out where out: "add_delta ?neg v = Inr out" "delta = filter (\<lambda>(_, q). q \<noteq> 0) out"
    using assms(1) by (auto simp: usage_delta_def split: sum.splits)
  have wf: "wf_map u" "wf_map v" using assms(2,3) by (simp_all add: usage_ok_def)
  then have wf_neg: "wf_map ?neg" by (simp add: wf_map_def o_def case_prod_unfold)
  have neg: "get_or 0 ?neg name = - get_or 0 u name" for name
  proof -
    have "0 \<le> get_or 0 u name" "get_or 0 u name \<le> max_i64" using assms(2) by (simp_all add: usage_ok_def)
    then show ?thesis by (auto simp: get_or_def map_values i64_def max_i64_def split: option.splits)
  qed
  from add_delta_exact [OF out(1) wf(2) wf_neg]
  have "wf_map out" "\<forall>name. get_or 0 out name = get_or 0 v name - get_or 0 u name" by (simp_all add: neg)
  then show ?thesis using nonzero_empty [of out] out(2) by (auto simp: algebra_simps)
qed

lemma compare_groups_all:
  "compare_groups opts lg sg keys = Inr gs \<Longrightarrow>
     (\<forall>key \<in> set keys. \<exists>g. compare_group opts lg sg key = Inr g \<and> g \<in> set gs) \<and>
     (\<forall>g \<in> set gs. \<exists>key \<in> set keys. compare_group opts lg sg key = Inr g)"
proof (induction keys arbitrary: gs)
  case (Cons key keys)
  then obtain g rest where "compare_group opts lg sg key = Inr g" "compare_groups opts lg sg keys = Inr rest" "gs = g # rest"
    by (auto split: sum.splits)
  with Cons.IH [of rest] show ?case by auto
qed simp

lemma group_keys_set: "set (group_keys lg sg) = fst ` set lg \<union> fst ` set sg"
  by (auto simp: group_keys_def)

text \<open>When the two sides of one key agree.\<close>

definition sides_agree :: "recon_options \<Rightarrow> line list \<Rightarrow> line list \<Rightarrow> bool" where
  "sides_agree opts L S \<longleftrightarrow> (L = [] \<longleftrightarrow> S = []) \<and> \<bar>total_cost S - total_cost L\<bar> \<le> ro_tolerance opts \<and>
     (\<forall>name. total_units L name = total_units S name)"

lemma group_matches_iff:
  assumes "compare_group opts lg sg key = Inr g"
    and "aggregate_ok (get_or empty_aggregate lg key)" "aggregate_ok (get_or empty_aggregate sg key)"
    and "ag_records (get_or empty_aggregate lg key) = int (length L)" "ag_records (get_or empty_aggregate sg key) = int (length S)"
    and "ag_cost (get_or empty_aggregate lg key) = total_cost L" "ag_cost (get_or empty_aggregate sg key) = total_cost S"
    and "\<forall>name. get_or 0 (ag_usage (get_or empty_aggregate lg key)) name = total_units L name"
    and "\<forall>name. get_or 0 (ag_usage (get_or empty_aggregate sg key)) name = total_units S name"
    and "L \<noteq> [] \<or> S \<noteq> []"
  shows "gr_status g = ''match'' \<longleftrightarrow> sides_agree opts L S"
proof -
  let ?l = "get_or empty_aggregate lg key" and ?r = "get_or empty_aggregate sg key"
  have range: "0 \<le> total_cost L" "total_cost L \<le> max_i64" "0 \<le> total_cost S" "total_cost S \<le> max_i64"
    using assms(2,3,6,7) by (simp_all add: aggregate_ok_def)
  then have delta_cost: "subtract_nanos (ag_cost ?r) (ag_cost ?l) = Some (total_cost S - total_cost L)"
    using assms(6,7) by (simp add: subtract_nanos_exact)
  obtain delta where delta: "usage_delta (ag_usage ?l) (ag_usage ?r) = Inr delta"
    "gr_status g = group_status ?l ?r (total_cost S - total_cost L) delta (ro_tolerance opts)"
    using assms(1) delta_cost by (auto simp: compare_group_def Let_def split: sum.splits)
  have "delta = [] \<longleftrightarrow> (\<forall>name. total_units L name = total_units S name)"
    using usage_delta_exact [OF delta(1)] assms(2,3,8,9) by (simp add: aggregate_ok_def)
  moreover have "abs_nanos (total_cost S - total_cost L) = \<bar>total_cost S - total_cost L\<bar>"
    using range by (intro abs_nanos_exact) (simp_all add: max_i64_def)
  ultimately show ?thesis
    using delta(2) assms(4,5,10) by (auto simp: group_status_def sides_agree_def)
qed

text \<open>
  C36. A reconciliation that succeeds is exact: it reports \<open>match\<close> precisely when, for every provider and
  model, both sources have rows in the half-open period or neither has, their total costs differ by
  at most the tolerance, and their totals agree for every billable unit; no overflow can hide a
  difference, and rows outside the period do not count.
\<close>

theorem reconciliation_is_exact:
  assumes "build entries statement opts = Inr r"
    and "\<forall>e \<in> set entries. wf_map (itemized_usage e)" and "\<forall>s \<in> set statement. wf_map (se_usage s)"
  shows "rp_status r = ''match'' \<longleftrightarrow>
    (\<forall>key. sides_agree opts (lines_of opts key (map ledger_line entries)) (lines_of opts key (map statement_line statement)))"
proof -
  let ?L = "\<lambda>key. lines_of opts key (map ledger_line entries)" and ?S = "\<lambda>key. lines_of opts key (map statement_line statement)"
  obtain lg sg gs where run: "gather opts (map ledger_line entries) [] = Inr lg" "gather opts (map statement_line statement) [] = Inr sg"
    "compare_groups opts lg sg (group_keys lg sg) = Inr gs" "0 \<le> ro_tolerance opts"
    "rp_status r = (if list_ex (\<lambda>g. gr_status g \<noteq> ''match'') gs then ''mismatch'' else ''match'')"
    using assms(1) by (auto simp: build_def split: if_splits sum.splits)
  have wf: "\<forall>l \<in> set (map ledger_line entries). wf_map (ln_usage l)" "\<forall>l \<in> set (map statement_line statement). wf_map (ln_usage l)"
    using assms(2,3) by (auto simp: ledger_line_def statement_line_def)
  note L = gather_from_nothing [OF run(1) wf(1)] and S = gather_from_nothing [OF run(2) wf(2)]
  have keys: "key \<in> set (group_keys lg sg) \<longleftrightarrow> ?L key \<noteq> [] \<or> ?S key \<noteq> []" for key
    using L(2) [of key] S(2) [of key] by (simp add: group_keys_set)
  have matches: "gr_status g = ''match'' \<longleftrightarrow> sides_agree opts (?L key) (?S key)"
    if "key \<in> set (group_keys lg sg)" "compare_group opts lg sg key = Inr g" for key g
    by (rule group_matches_iff [OF that(2) L(1) S(1) L(3) S(3) L(4) S(4) L(5) S(5) keys [THEN iffD1, OF that(1)]])
  have "rp_status r = ''match'' \<longleftrightarrow> (\<forall>g \<in> set gs. gr_status g = ''match'')"
    using run(5) by (auto simp: list_ex_iff)
  also have "\<dots> \<longleftrightarrow> (\<forall>key \<in> set (group_keys lg sg). sides_agree opts (?L key) (?S key))"
    using compare_groups_all [OF run(3)] matches by metis
  also have "\<dots> \<longleftrightarrow> (\<forall>key. sides_agree opts (?L key) (?S key))"
  proof -
    have "sides_agree opts (?L key) (?S key)" if "key \<notin> set (group_keys lg sg)" for key
      using that run(4) by (simp add: keys sides_agree_def)
    then show ?thesis by blast
  qed
  finally show ?thesis .
qed

definition sample_statement :: "nanos \<Rightarrow> statement_entry" where
  "sample_statement cost = \<lparr>se_provider = ''openai'', se_model = ''m'', se_external = ''x'', se_usage = [(''tokens'', 5)],
     se_cost = cost, se_at = 15\<rparr>"

definition sample_options :: recon_options where
  "sample_options = \<lparr>ro_since = 10, ro_until = 20, ro_tolerance = 0\<rparr>"

lemma sample_build: "\<exists>r. build [] [sample_statement 7] sample_options = Inr r"
proof -
  have "trim_space ''openai'' = ''openai''" "trim_space ''m'' = ''m''" "trim_space ''tokens'' = ''tokens''" "trim_space ''x'' = ''x''"
    by (rule trim_space_id, simp add: space_byte_code go_spaces_def)+
  then show ?thesis
    by (simp add: build_def sample_options_def sample_statement_def time_is_zero_def statement_line_def in_period_def
        add_line_def valid_unit_def unit_byte_def less_eq_char_def add_to_def empty_aggregate_def Let_def group_keys_def
        compare_group_def subtract_nanos_def usage_delta_def max_i64_def min_i64_def i64_def get_or_def)
qed

lemma reconciliation_is_exact_witness:
  "\<exists>r. build [] [sample_statement 7] sample_options = Inr r \<and>
    (rp_status r = ''match'' \<longleftrightarrow>
      (\<forall>key. sides_agree sample_options (lines_of sample_options key (map ledger_line []))
        (lines_of sample_options key (map statement_line [sample_statement 7]))))"
proof -
  obtain r where r: "build [] [sample_statement 7] sample_options = Inr r" using sample_build by blast
  from reconciliation_is_exact [OF r] show ?thesis
    using r by (intro exI [of _ r] conjI) (simp_all add: sample_statement_def wf_map_def)
qed

end
