(* ===== verification/Cli.thy ===== *)
theory Cli
  imports Flags Management Reconcile
begin

text \<open>
  The command line that manages a deployment: where its master keys and its store come from
  (\<open>cmd/spendlease/config.go\<close>), the \<open>keys\<close> commands (\<open>keys.go\<close>, \<open>keys_lease.go\<close>, \<open>keys_operator.go\<close>) and
  the \<open>ledger\<close> commands (\<open>ledger.go\<close>). A command takes its arguments, the process environment and the
  persistent world, and answers what it printed or an error, with the world it leaves. Printed text is
  a constructor carrying the values in it.
\<close>

section \<open>The process and its world\<close>

text \<open>
  \<open>ce_lookup\<close> is the environment, \<open>ce_opens\<close> whether the store can be opened and migrated, \<open>ce_argv\<close> the
  JSON decoder of a command line and \<open>ce_command\<close> what running one prints; files are those of the world,
  \<open>ce_denied\<close> the ones that cannot be read and \<open>ce_readonly\<close> those that cannot be written.
\<close>

record cli_env =
  ce_now :: instant
  ce_lookup :: "string \<Rightarrow> string option"
  ce_opens :: "string \<Rightarrow> bool"
  ce_denied :: "string \<Rightarrow> bool"
  ce_readonly :: "string \<Rightarrow> bool"
  ce_argv :: "string \<Rightarrow> string list option"
  ce_command :: "string list \<Rightarrow> string option"
  ce_stdin :: "string option"
  ce_id_bytes :: "nat list"
  ce_secret_bytes :: "nat list"
  ce_audit_bytes :: "nat list"
  ce_request_bytes :: "nat list"
  ce_master_bytes :: string
  ce_nonce :: "string \<Rightarrow> string"

record cli_world =
  cw_db :: db
  cw_ops :: operator_db
  cw_creds :: credentials
  cw_files :: "(string, string) go_map"

text \<open>What a successful command prints.\<close>

datatype printed =
    CreatedPrincipal principal string | PrincipalList "(string \<times> string \<times> mode) list" | ModeChanged string mode
  | StoredKey string | KeyNames "string list" | RemovedKey string
  | GeneratedKey string | RotatedKeys nat | VerifiedKeys nat
  | CreatedOperator operator_row string | OperatorList "(string \<times> string \<times> role \<times> bool) list"
  | RoleChanged string role | RotatedOperator string string | RevokedOperator string | AuditList "audit_record list"
  | CreatedRun run string | IssuedLease lease string | RevokedLeases nat
  | LedgerHelp | LedgerVerified nat string | LedgerJson "export_entry list" | LedgerCsv "billing_error + string list list"
  | ReportJson report | ReportCsv "string list list"

text \<open>
  The errors. \<open>UsageError\<close> wraps the sentinel that makes the process exit with 2; \<open>Unending\<close> is a
  recursive query that would not end, under a context without a deadline;
  \<open>Differences\<close> comes after the report was printed.
\<close>

datatype cli_error =
    UsageError string | FlagFailed flag_error | StoreFailed store_error | VaultFailed vault_error | KeyFailed key_error
  | ChainFailed | StatementFailed statement_error | ReconFailed recon_error | CannotOpen | CannotRead string | CannotWrite string
  | Refusal string | Differences printed | Unending

type_synonym cli_result = "(cli_error + printed) \<times> cli_world"

definition getenv :: "cli_env \<Rightarrow> string \<Rightarrow> string" where
  "getenv en name = (case ce_lookup en name of None \<Rightarrow> [] | Some v \<Rightarrow> v)"

definition env_master_key :: string where "env_master_key = ''SPENDLEASE_MASTER_KEY''"
definition env_previous_key :: string where "env_previous_key = ''SPENDLEASE_PREVIOUS_MASTER_KEY''"
definition env_env :: string where "env_env = ''SPENDLEASE_ENV''"
definition env_admin_token :: string where "env_admin_token = ''SPENDLEASE_ADMIN_TOKEN''"
definition env_store :: string where "env_store = ''SPENDLEASE_STORE''"

definition default_store :: "cli_env \<Rightarrow> string" where
  "default_store en =
     (let target = trim_space (getenv en env_store) in if target \<noteq> [] then target else ''./spendlease.db'')"

definition resolve_admin_token :: "cli_env \<Rightarrow> string \<Rightarrow> string" where
  "resolve_admin_token en flag =
     (let v = trim_space flag in if v \<noteq> [] then v else trim_space (getenv en env_admin_token))"

definition is_postgres_dsn :: "string \<Rightarrow> bool" where
  "is_postgres_dsn target =
     (let lower = to_lower (trim_space target)
      in has_prefix lower ''postgres://'' \<or> has_prefix lower ''postgresql://'')"

definition in_production :: "cli_env \<Rightarrow> bool" where
  "in_production en = equal_fold (getenv en env_env) ''production''"

subsection \<open>The key file beside a database\<close>

text \<open>\<open>filepath.Clean\<close>, \<open>Dir\<close>, \<open>Base\<close>, \<open>Ext\<close> and \<open>Join\<close> of two elements, with the slash as separator.\<close>

definition clean_step :: "bool \<Rightarrow> string list \<Rightarrow> string \<Rightarrow> string list" where
  "clean_step rooted acc e =
     (if e = [] \<or> e = ''.'' then acc
      else if e = ''..'' then
        (if acc \<noteq> [] \<and> last acc \<noteq> ''..'' then butlast acc else if rooted then acc else acc @ [e])
      else acc @ [e])"

definition clean_path :: "string \<Rightarrow> string" where
  "clean_path p =
     (let rooted = has_prefix p ''/'';
          out = join CHR ''/'' (foldl (clean_step rooted) [] (split_at CHR ''/'' p))
      in if rooted then CHR ''/'' # out else if out = [] then ''.'' else out)"

definition dir_name :: "string \<Rightarrow> string" where
  "dir_name p = clean_path (rev (dropWhile (\<lambda>c. c \<noteq> CHR ''/'') (rev p)))"

definition file_ext :: "string \<Rightarrow> string" where
  "file_ext p =
     (let tail = takeWhile (\<lambda>c. c \<noteq> CHR ''/'' \<and> c \<noteq> CHR ''.'') (rev p)
      in if length tail < length p \<and> rev p ! length tail = CHR ''.'' then CHR ''.'' # rev tail else [])"

definition key_file_path :: "string \<Rightarrow> string" where
  "key_file_path store_path =
     (let base = trim_suffix (base_name store_path) (file_ext store_path);
          stem = (if base = [] then ''spendlease'' else base)
      in clean_path (dir_name store_path @ ''/'' @ stem @ ''.key''))"

subsection \<open>Master keys\<close>

record master_keys =
  mk_primary :: master_key
  mk_previous :: "master_key list"
  mk_explicit :: bool

definition primary_spec :: key_spec where
  "primary_spec = \<lparr>ks_value_env = env_master_key, ks_file_env = env_master_key @ ''_FILE'',
     ks_command_env = env_master_key @ ''_COMMAND'', ks_required = False, ks_label = ''master key''\<rparr>"

definition previous_spec :: key_spec where
  "previous_spec = \<lparr>ks_value_env = env_previous_key, ks_file_env = env_previous_key @ ''_FILE'',
     ks_command_env = env_previous_key @ ''_COMMAND'', ks_required = False, ks_label = ''previous master key''\<rparr>"

definition read_file :: "cli_env \<Rightarrow> cli_world \<Rightarrow> string \<Rightarrow> string option" where
  "read_file en w path = (if ce_denied en path then None else map_of (cw_files w) path)"

text \<open>The key file read, or generated and written when there is none: the key and the files left.\<close>

definition file_key :: "cli_env \<Rightarrow> string \<Rightarrow> cli_world \<Rightarrow> (cli_error + master_key) \<times> cli_world" where
  "file_key en store_path w =
     (let path = key_file_path store_path
      in if ce_denied en path then (Inl (CannotRead path), w)
         else (case map_of (cw_files w) path of
             Some raw \<Rightarrow>
               (case parse_master_key (trim_space raw) of
                  Inl _ \<Rightarrow> (Inl (KeyFailed KeyUnusable), w)
                | Inr k \<Rightarrow> (Inr k, w))
           | None \<Rightarrow>
               if ce_readonly en path then (Inl (CannotWrite path), w)
               else (Inr (ce_master_bytes en),
                     w\<lparr>cw_files := put_key path (hex_encode (ce_master_bytes en) @ [CHR 0x0A]) (cw_files w)\<rparr>)))"

definition resolve_master_keys :: "cli_env \<Rightarrow> string \<Rightarrow> cli_world \<Rightarrow> (cli_error + master_keys) \<times> cli_world" where
  "resolve_master_keys en store_path w =
     (let source = resolve_key (ce_lookup en) (read_file en w) (ce_argv en) (ce_command en)
      in case source primary_spec of
           Inl e \<Rightarrow> (Inl (KeyFailed e), w)
         | Inr primary \<Rightarrow>
             (case source previous_spec of
                Inl e \<Rightarrow> (Inl (KeyFailed e), w)
              | Inr previous \<Rightarrow>
                  if \<not> kr_present primary \<and> (in_production en \<or> is_postgres_dsn store_path)
                  then (Inl (Refusal ''a master key source is required for production or PostgreSQL storage''), w)
                  else (case (if kr_present primary then (Inr (kr_key primary), w) else file_key en store_path w) of
                      (Inl e, w') \<Rightarrow> (Inl e, w')
                    | (Inr key, w') \<Rightarrow>
                        if kr_present previous \<and> kr_key previous = key
                        then (Inl (Refusal ''previous master key must differ from the primary master key''), w')
                        else (Inr \<lparr>mk_primary = key, mk_previous = (if kr_present previous then [kr_key previous] else []),
                               mk_explicit = kr_present primary\<rparr>, w'))))"

text \<open>\<open>resolveMasterKey\<close>: the primary alone.\<close>

definition resolve_master_key :: "cli_env \<Rightarrow> string \<Rightarrow> cli_world \<Rightarrow> (cli_error + master_key) \<times> cli_world" where
  "resolve_master_key en store_path w =
     (case resolve_master_keys en store_path w of (r, w') \<Rightarrow> (map_sum id mk_primary r, w'))"

section \<open>What the commands share\<close>

definition store_flag :: "cli_env \<Rightarrow> flag_set" where
  "store_flag en = [(''store'', FlagText (default_store en))]"

text \<open>Parsing a command's flags, and opening the store its \<open>--store\<close> flag names.\<close>

definition with_flags ::
  "cli_env \<Rightarrow> flag_set \<Rightarrow> string list \<Rightarrow> (flag_set \<Rightarrow> string list \<Rightarrow> cli_world \<Rightarrow> cli_result) \<Rightarrow> cli_world \<Rightarrow> cli_result" where
  "with_flags en own args command w =
     (case parse_flags (store_flag en @ own) args of
        Inl e \<Rightarrow> (Inl (FlagFailed e), w)
      | Inr (fs, rest) \<Rightarrow> command fs rest w)"

definition with_store :: "cli_env \<Rightarrow> flag_set \<Rightarrow> (cli_world \<Rightarrow> cli_result) \<Rightarrow> cli_world \<Rightarrow> cli_result" where
  "with_store en fs command w = (if ce_opens en (text_flag fs ''store'') then command w else (Inl CannotOpen, w))"

text \<open>Resolving the master keys before the rest of a command, which finds the key file written.\<close>

definition with_keys :: "cli_env \<Rightarrow> flag_set \<Rightarrow> (master_keys \<Rightarrow> cli_world \<Rightarrow> cli_result) \<Rightarrow> cli_world \<Rightarrow> cli_result" where
  "with_keys en fs command w =
     (case resolve_master_keys en (text_flag fs ''store'') w of
        (Inl e, w') \<Rightarrow> (Inl e, w')
      | (Inr keys, w') \<Rightarrow> command keys w')"

text \<open>Committing what a store operation answers.\<close>

definition commit_db :: "cli_world \<Rightarrow> (store_error + db) \<Rightarrow> printed \<Rightarrow> cli_result" where
  "commit_db w r out = (case r of Inl e \<Rightarrow> (Inl (StoreFailed e), w) | Inr d \<Rightarrow> (Inr out, w\<lparr>cw_db := d\<rparr>))"

definition find_principal_named :: "db \<Rightarrow> string \<Rightarrow> cli_error + principal" where
  "find_principal_named d name =
     (if has_prefix name principal_prefix
      then (case get_principal d name of Inl e \<Rightarrow> Inl (StoreFailed e) | Inr p \<Rightarrow> Inr p)
      else (case find (\<lambda>p. pr_name p = name) (list_principals d) of
          None \<Rightarrow> Inl (Refusal ''no such principal'')
        | Some p \<Rightarrow> Inr p))"

section \<open>Principals\<close>

definition cli_principal :: "(string \<Rightarrow> string) \<Rightarrow> cli_env \<Rightarrow> string \<Rightarrow> mode \<Rightarrow> principal" where
  "cli_principal sha en name m =
     \<lparr>pr_id = new_id principal_prefix (ce_id_bytes en), pr_name = name,
      pr_key_hash = snd (new_principal_key sha (ce_secret_bytes en)), pr_mode = m, pr_created = ce_now en\<rparr>"

definition principal_create :: "(string \<Rightarrow> string) \<Rightarrow> cli_env \<Rightarrow> flag_set \<Rightarrow> cli_world \<Rightarrow> cli_result" where
  "principal_create sha en fs w =
     (if text_flag fs ''name'' = [] then (Inl (UsageError ''--name is required''), w)
      else (let m = mode_of_text (text_flag fs ''mode'')
            in if \<not> mode_valid m then (Inl (UsageError ''mode is not observe or enforce''), w)
               else (let p = cli_principal sha en (text_flag fs ''name'') m
                     in commit_db w (create_principal p (cw_db w))
                          (CreatedPrincipal p (fst (new_principal_key sha (ce_secret_bytes en)))))))"

definition principal_list :: "cli_world \<Rightarrow> cli_result" where
  "principal_list w = (Inr (PrincipalList (map (\<lambda>p. (pr_id p, pr_name p, pr_mode p)) (list_principals (cw_db w)))), w)"

definition principal_set_mode :: "flag_set \<Rightarrow> cli_world \<Rightarrow> cli_result" where
  "principal_set_mode fs w =
     (if text_flag fs ''name'' = [] then (Inl (UsageError ''--name is required''), w)
      else (let m = mode_of_text (text_flag fs ''mode'')
            in if \<not> mode_valid m then (Inl (UsageError ''mode is not observe or enforce''), w)
               else (case find (\<lambda>p. pr_name p = text_flag fs ''name'') (list_principals (cw_db w)) of
                   None \<Rightarrow> (Inl (Refusal ''no such principal''), w)
                 | Some p \<Rightarrow> commit_db w (set_principal_mode (pr_id p) m (cw_db w)) (ModeChanged (pr_name p) m))))"

definition keys_principal :: "(string \<Rightarrow> string) \<Rightarrow> cli_env \<Rightarrow> string list \<Rightarrow> cli_world \<Rightarrow> cli_result" where
  "keys_principal sha en args w =
     (case args of
        [] \<Rightarrow> (Inl (UsageError ''expected one of create, list, set-mode''), w)
      | action # rest \<Rightarrow>
          with_flags en [(''name'', FlagText []), (''mode'', FlagText ''observe'')] rest
            (\<lambda>fs _. with_store en fs (\<lambda>w.
               if action = ''create'' then principal_create sha en fs w
               else if action = ''list'' then principal_list w
               else if action = ''set-mode'' then principal_set_mode fs w
               else (Inl (UsageError ''unknown subcommand''), w))) w)"

section \<open>Vendor credentials\<close>

text \<open>A leading argument that is not a flag, lifted out before the flags are parsed.\<close>

definition take_positional :: "string list \<Rightarrow> string \<times> string list" where
  "take_positional args =
     (case args of
        a # rest \<Rightarrow> if a \<noteq> [] \<and> \<not> has_prefix a ''-'' then (a, rest) else ([], args)
      | [] \<Rightarrow> ([], []))"

text \<open>The local \<open>trimSpace\<close>: ASCII spaces, tabs and line ends.\<close>

definition ascii_trim :: "string \<Rightarrow> string" where
  "ascii_trim s = trim_set {CHR 0x20, CHR 0x09, CHR 0x0A, CHR 0x0D} s"

definition provider_set ::
  "aead_seal \<Rightarrow> cli_env \<Rightarrow> vault \<Rightarrow> string \<Rightarrow> string \<Rightarrow> cli_world \<Rightarrow> cli_result" where
  "provider_set seal en v name given w =
     (if name = [] then (Inl (UsageError ''expected a provider name''), w)
      else (case (if given = [] then map_option ascii_trim (ce_stdin en) else Some given) of
          None \<Rightarrow> (Inl (CannotRead ''stdin''), w)
        | Some secret \<Rightarrow>
            if secret = [] then (Inl (UsageError ''no key given''), w)
            else (case vault_put put_credential seal v (ce_now en) (ce_nonce en name) name secret (cw_creds w) of
                Inl e \<Rightarrow> (Inl (VaultFailed e), w)
              | Inr creds \<Rightarrow> (Inr (StoredKey name), w\<lparr>cw_creds := creds\<rparr>))))"

definition keys_provider :: "aead_seal \<Rightarrow> cli_env \<Rightarrow> string list \<Rightarrow> cli_world \<Rightarrow> cli_result" where
  "keys_provider seal en args w =
     (case args of
        [] \<Rightarrow> (Inl (UsageError ''expected one of set, list, rm''), w)
      | action # others \<Rightarrow>
          (case take_positional others of (positional, flag_args) \<Rightarrow>
            with_flags en [(''key'', FlagText [])] flag_args
              (\<lambda>fs rest. with_store en fs (with_keys en fs (\<lambda>keys w.
                 (let name = (if positional = [] then (case rest of [] \<Rightarrow> [] | a # _ \<Rightarrow> a) else positional);
                      v = new_keyring (mk_primary keys) (mk_previous keys)
                  in if action = ''set'' then provider_set seal en v name (text_flag fs ''key'') w
                     else if action = ''list'' then (Inr (KeyNames (list_credential_providers (cw_creds w))), w)
                     else if action = ''rm'' then
                       (if name = [] then (Inl (UsageError ''expected a provider name''), w)
                        else (case delete_credential name (cw_creds w) of
                            Inl e \<Rightarrow> (Inl (VaultFailed e), w)
                          | Inr creds \<Rightarrow> (Inr (RemovedKey name), w\<lparr>cw_creds := creds\<rparr>)))
                     else (Inl (UsageError ''unknown subcommand''), w))))) w))"

section \<open>The master key\<close>

definition master_rotate :: "aead_seal \<Rightarrow> aead_open \<Rightarrow> cli_env \<Rightarrow> flag_set \<Rightarrow> cli_world \<Rightarrow> cli_result" where
  "master_rotate seal unseal en fs w =
     (if \<not> bool_flag fs ''confirm'' then (Inl (UsageError ''--confirm is required for master-key rotation''), w)
      else with_keys en fs (\<lambda>keys w.
        if mk_previous keys = [] then (Inl (UsageError ''configure a previous master key before rotation''), w)
        else if \<not> mk_explicit keys then (Inl (UsageError ''rotation requires an explicit new primary''), w)
        else with_store en fs (\<lambda>w.
          (case vault_rotate seal unseal (new_keyring (mk_primary keys) (mk_previous keys)) (ce_now en) (ce_nonce en) (cw_creds w) of
             Inl e \<Rightarrow> (Inl (VaultFailed e), w)
           | Inr (n, creds) \<Rightarrow> (Inr (RotatedKeys n), w\<lparr>cw_creds := creds\<rparr>))) w) w)"

definition master_verify :: "aead_open \<Rightarrow> cli_env \<Rightarrow> flag_set \<Rightarrow> cli_world \<Rightarrow> cli_result" where
  "master_verify unseal en fs w =
     with_keys en fs (\<lambda>keys. with_store en fs (\<lambda>w.
       (case vault_verify unseal (new_keyring (mk_primary keys) (mk_previous keys)) (cw_creds w) of
          Inl e \<Rightarrow> (Inl (VaultFailed e), w)
        | Inr n \<Rightarrow> (Inr (VerifiedKeys n), w)))) w"

definition no_arguments :: "string list \<Rightarrow> (cli_world \<Rightarrow> cli_result) \<Rightarrow> cli_world \<Rightarrow> cli_result" where
  "no_arguments rest command w =
     (if rest \<noteq> [] then (Inl (UsageError ''takes no positional arguments''), w) else command w)"

definition keys_master :: "aead_seal \<Rightarrow> aead_open \<Rightarrow> cli_env \<Rightarrow> string list \<Rightarrow> cli_world \<Rightarrow> cli_result" where
  "keys_master seal unseal en args w =
     (case args of
        [] \<Rightarrow> (Inl (UsageError ''expected generate, verify or rotate''), w)
      | action # rest \<Rightarrow>
          if action = ''generate'' then
            (case parse_flags [] rest of
               Inl e \<Rightarrow> (Inl (FlagFailed e), w)
             | Inr (_, left_over) \<Rightarrow> no_arguments left_over (\<lambda>w. (Inr (GeneratedKey (hex_encode (ce_master_bytes en))), w)) w)
          else if action = ''rotate'' then
            with_flags en [(''confirm'', FlagBool False)] rest
              (\<lambda>fs left_over. no_arguments left_over (master_rotate seal unseal en fs)) w
          else if action = ''verify'' then
            with_flags en [] rest (\<lambda>fs left_over. no_arguments left_over (master_verify unseal en fs)) w
          else (Inl (UsageError ''unknown master-key action''), w))"

section \<open>Operators\<close>

definition role_of_text :: "string \<Rightarrow> role" where
  "role_of_text s =
     (if s = ''viewer'' then RoleViewer else if s = ''operator'' then RoleOperator
      else if s = ''admin'' then RoleAdmin else RoleOther s)"

definition cli_operator :: "(string \<Rightarrow> string) \<Rightarrow> cli_env \<Rightarrow> string \<Rightarrow> role \<Rightarrow> operator_row" where
  "cli_operator sha en name r =
     \<lparr>op_id = new_operator_id (ce_id_bytes en), op_name = trim_space name,
      op_token_hash = snd (new_operator_token sha (ce_secret_bytes en)), op_role = r, op_disabled = None,
      op_created = ce_now en, op_updated = ce_now en\<rparr>"

definition cli_audit :: "cli_env \<Rightarrow> string \<Rightarrow> string \<Rightarrow> audit_record" where
  "cli_audit en action resource =
     \<lparr>ar_id = new_audit_id (ce_audit_bytes en), ar_request = new_audit_id (ce_request_bytes en), ar_actor = ''local-cli'',
      ar_actor_name = ''local-cli'', ar_role = RoleAdmin, ar_phase = PhaseResult, ar_action = action,
      ar_resource = resource, ar_remote = [], ar_status = 200, ar_created = ce_now en\<rparr>"

text \<open>A change of the operator tables, then its audit record: the change stays when the record fails.\<close>

definition audited ::
  "cli_env \<Rightarrow> string \<Rightarrow> string \<Rightarrow> (store_error + operator_db) \<Rightarrow> printed \<Rightarrow> cli_world \<Rightarrow> cli_result" where
  "audited en action resource change out w =
     (case change of
        Inl e \<Rightarrow> (Inl (StoreFailed e), w)
      | Inr od \<Rightarrow>
          (case append_operator_audit (cli_audit en action resource) od of
             Inl e \<Rightarrow> (Inl (StoreFailed e), w\<lparr>cw_ops := od\<rparr>)
           | Inr od' \<Rightarrow> (Inr out, w\<lparr>cw_ops := od'\<rparr>)))"

definition operator_create :: "(string \<Rightarrow> string) \<Rightarrow> cli_env \<Rightarrow> flag_set \<Rightarrow> cli_world \<Rightarrow> cli_result" where
  "operator_create sha en fs w =
     (if trim_space (text_flag fs ''name'') = [] then (Inl (UsageError ''--name is required''), w)
      else (let r = role_of_text (text_flag fs ''role'')
            in if \<not> role_valid r then (Inl (UsageError ''role is not viewer, operator, or admin''), w)
               else (let op = cli_operator sha en (text_flag fs ''name'') r
                     in audited en ''create operator'' (op_id op) (create_operator (ce_now en) op (cw_ops w))
                          (CreatedOperator op (fst (new_operator_token sha (ce_secret_bytes en)))) w)))"

definition find_operator :: "operator_db \<Rightarrow> string \<Rightarrow> cli_error + operator_row" where
  "find_operator od wanted =
     (if wanted = [] then Inl (UsageError ''--name is required'')
      else (case find (\<lambda>op. op_id op = wanted \<or> op_name op = wanted) (list_operators od) of
          None \<Rightarrow> Inl (Refusal ''no such operator'')
        | Some op \<Rightarrow> Inr op))"

definition operator_change :: "(string \<Rightarrow> string) \<Rightarrow> cli_env \<Rightarrow> string \<Rightarrow> flag_set \<Rightarrow> cli_world \<Rightarrow> cli_result" where
  "operator_change sha en action fs w =
     (case find_operator (cw_ops w) (trim_space (text_flag fs ''name'')) of
        Inl e \<Rightarrow> (Inl e, w)
      | Inr op \<Rightarrow>
          if action = ''set-role'' then
            (let r = role_of_text (text_flag fs ''role'')
             in if \<not> role_valid r then (Inl (UsageError ''role is not viewer, operator, or admin''), w)
                else audited en ''set operator role'' (op_id op)
                       (set_operator_role (op_id op) r (ce_now en) (cw_ops w)) (RoleChanged (op_name op) r) w)
          else if action = ''rotate'' then
            (let (token, h) = new_operator_token sha (ce_secret_bytes en)
             in audited en ''rotate operator token'' (op_id op)
                  (rotate_operator_token (op_id op) h (ce_now en) (cw_ops w)) (RotatedOperator (op_name op) token) w)
          else audited en ''revoke operator'' (op_id op)
                 (disable_operator (op_id op) (ce_now en) (cw_ops w)) (RevokedOperator (op_name op)) w)"

definition operator_audit :: "flag_set \<Rightarrow> cli_world \<Rightarrow> cli_result" where
  "operator_audit fs w =
     (let limit = number_flag fs ''limit''; raw = trim_space (text_flag fs ''since'')
      in if limit < 1 \<or> 1000 < limit then (Inl (UsageError ''--limit must be between 1 and 1000''), w)
         else (case (if raw = [] then Some 0 else parse_rfc3339 raw) of
             None \<Rightarrow> (Inl (UsageError ''--since must be an RFC 3339 timestamp''), w)
           | Some since \<Rightarrow>
               (Inr (AuditList (list_operator_audit (cw_ops w)
                  \<lparr>af_actor = trim_space (text_flag fs ''actor''), af_action = trim_space (text_flag fs ''action''),
                   af_since = since, af_limit = limit\<rparr>)), w)))"

definition operator_flags :: flag_set where
  "operator_flags =
     [(''name'', FlagText []), (''role'', FlagText ''viewer''), (''actor'', FlagText []), (''action'', FlagText []),
      (''since'', FlagText []), (''limit'', FlagInt 100)]"

definition keys_operator :: "(string \<Rightarrow> string) \<Rightarrow> cli_env \<Rightarrow> string list \<Rightarrow> cli_world \<Rightarrow> cli_result" where
  "keys_operator sha en args w =
     (case args of
        [] \<Rightarrow> (Inl (UsageError ''expected one of create, list, set-role, rotate, revoke, audit''), w)
      | action # rest \<Rightarrow>
          with_flags en operator_flags rest
            (\<lambda>fs left_over. no_arguments left_over (with_store en fs (\<lambda>w.
               if action = ''create'' then operator_create sha en fs w
               else if action = ''list'' then
                 (Inr (OperatorList (map (\<lambda>op. (op_id op, op_name op, op_role op, op_active op)) (list_operators (cw_ops w)))), w)
               else if action \<in> {''set-role'', ''rotate'', ''revoke''} then operator_change sha en action fs w
               else if action = ''audit'' then operator_audit fs w
               else (Inl (UsageError ''unknown operator action''), w)))) w)"

section \<open>Runs and leases\<close>

definition cli_run :: "cli_env \<Rightarrow> string \<Rightarrow> string \<Rightarrow> nanos \<Rightarrow> run" where
  "cli_run en owner parent budget =
     \<lparr>run_id = new_id run_prefix (ce_id_bytes en), run_principal = owner, run_parent = parent, run_budget = budget,
      run_status = RunActive, run_created = ce_now en, run_closed = None\<rparr>"

definition keys_run :: "cli_env \<Rightarrow> string list \<Rightarrow> cli_world \<Rightarrow> cli_result" where
  "keys_run en args w =
     (case args of
        [] \<Rightarrow> (Inl (UsageError ''expected `keys run create`''), w)
      | action # rest \<Rightarrow>
          if action \<noteq> ''create'' then (Inl (UsageError ''expected `keys run create`''), w)
          else with_flags en [(''principal'', FlagText []), (''parent'', FlagText []), (''budget'', FlagText [])] rest
            (\<lambda>fs _ w.
               if text_flag fs ''principal'' = [] \<or> text_flag fs ''budget'' = []
               then (Inl (UsageError ''--principal and --budget are required''), w)
               else (case parse_nonnegative_usd (text_flag fs ''budget'') of
                   None \<Rightarrow> (Inl (UsageError ''invalid budget''), w)
                 | Some budget \<Rightarrow>
                     with_store en fs (\<lambda>w.
                       (case find_principal_named (cw_db w) (text_flag fs ''principal'') of
                          Inl e \<Rightarrow> (Inl e, w)
                        | Inr p \<Rightarrow>
                            (let r = cli_run en (pr_id p) (text_flag fs ''parent'') budget
                             in commit_db w (create_run r (cw_db w)) (CreatedRun r (pr_name p))))) w)) w)"

text \<open>The provider scope as written: trimmed, empty names left out.\<close>

definition cli_scope :: "string \<Rightarrow> string list" where
  "cli_scope raw = filter (\<lambda>p. p \<noteq> []) (map trim_space (split_at CHR '','' raw))"

definition cli_lease :: "(string \<Rightarrow> string) \<Rightarrow> cli_env \<Rightarrow> string \<Rightarrow> string list \<Rightarrow> nanos \<Rightarrow> int \<Rightarrow> lease" where
  "cli_lease sha en i scope cap ttl =
     \<lparr>ls_id = new_id lease_prefix (ce_id_bytes en), ls_run = i,
      ls_token_hash = snd (new_lease_token sha (ce_secret_bytes en)), ls_providers = scope, ls_ceiling = cap,
      ls_expires = ce_now en + ttl, ls_revoked = None, ls_created = ce_now en\<rparr>"

definition lease_flags :: flag_set where
  "lease_flags =
     [(''run'', FlagText []), (''ttl'', FlagDuration (15 * 60 * ns_per_second)), (''providers'', FlagText []), (''ceiling'', FlagText ''0'')]"

definition lease_issue :: "(string \<Rightarrow> string) \<Rightarrow> cli_env \<Rightarrow> flag_set \<Rightarrow> nanos \<Rightarrow> cli_world \<Rightarrow> cli_result" where
  "lease_issue sha en fs cap w =
     (case get_run (cw_db w) (text_flag fs ''run'') of
        Inl e \<Rightarrow> (Inl (StoreFailed e), w)
      | Inr r \<Rightarrow>
          if run_status r \<noteq> RunActive then (Inl (Refusal ''the run is closed''), w)
          else (let l = cli_lease sha en (run_id r) (cli_scope (text_flag fs ''providers'')) cap (number_flag fs ''ttl'')
                in case create_lease l (cw_db w) of
                     None \<Rightarrow> (Inl Unending, w)
                   | Some answer \<Rightarrow> commit_db w answer (IssuedLease l (fst (new_lease_token sha (ce_secret_bytes en))))))"

definition keys_lease :: "(string \<Rightarrow> string) \<Rightarrow> cli_env \<Rightarrow> string list \<Rightarrow> cli_world \<Rightarrow> cli_result" where
  "keys_lease sha en args w =
     (case args of
        [] \<Rightarrow> (Inl (UsageError ''expected `keys lease issue`''), w)
      | action # rest \<Rightarrow>
          if action \<noteq> ''issue'' then (Inl (UsageError ''expected `keys lease issue`''), w)
          else with_flags en lease_flags rest
            (\<lambda>fs _ w.
               if text_flag fs ''run'' = [] \<or> number_flag fs ''ttl'' \<le> 0
               then (Inl (UsageError ''--run and a positive --ttl are required''), w)
               else (case parse_nonnegative_usd (text_flag fs ''ceiling'') of
                   None \<Rightarrow> (Inl (UsageError ''invalid ceiling''), w)
                 | Some cap \<Rightarrow> with_store en fs (lease_issue sha en fs cap) w)) w)"

fun revoke_each :: "instant \<Rightarrow> principal list \<Rightarrow> db \<Rightarrow> nat \<times> db" where
  "revoke_each now [] d = (0, d)"
| "revoke_each now (p # ps) d =
     (case revoke_leases_for_principal now (pr_id p) d of (n, d') \<Rightarrow>
        (case revoke_each now ps d' of (m, d'') \<Rightarrow> (n + m, d'')))"

definition revoke_all :: "cli_env \<Rightarrow> flag_set \<Rightarrow> cli_world \<Rightarrow> cli_result" where
  "revoke_all en fs w =
     (case (if text_flag fs ''principal'' \<noteq> []
            then (case find_principal_named (cw_db w) (text_flag fs ''principal'') of Inl e \<Rightarrow> Inl e | Inr p \<Rightarrow> Inr [p])
            else Inr (list_principals (cw_db w))) of
        Inl e \<Rightarrow> (Inl e, w)
      | Inr ps \<Rightarrow> (case revoke_each (ce_now en) ps (cw_db w) of (n, d) \<Rightarrow> (Inr (RevokedLeases n), w\<lparr>cw_db := d\<rparr>)))"

definition keys_revoke :: "cli_env \<Rightarrow> string list \<Rightarrow> cli_world \<Rightarrow> cli_result" where
  "keys_revoke en args w =
     with_flags en [(''all'', FlagBool False), (''principal'', FlagText [])] args
       (\<lambda>fs _ w.
          if \<not> bool_flag fs ''all'' then (Inl (UsageError ''--all is required''), w)
          else with_store en fs (revoke_all en fs) w) w"

definition run_keys ::
  "(string \<Rightarrow> string) \<Rightarrow> aead_seal \<Rightarrow> aead_open \<Rightarrow> cli_env \<Rightarrow> string list \<Rightarrow> cli_world \<Rightarrow> cli_result" where
  "run_keys sha seal unseal en args w =
     (case args of
        [] \<Rightarrow> (Inl (UsageError ''expected one of principal, provider, master, operator, run, lease, revoke''), w)
      | sub # rest \<Rightarrow>
          if sub = ''principal'' then keys_principal sha en rest w
          else if sub = ''provider'' then keys_provider seal en rest w
          else if sub = ''master'' then keys_master seal unseal en rest w
          else if sub = ''operator'' then keys_operator sha en rest w
          else if sub = ''run'' then keys_run en rest w
          else if sub = ''lease'' then keys_lease sha en rest w
          else if sub = ''revoke'' then keys_revoke en rest w
          else (Inl (UsageError ''unknown subcommand''), w))"

section \<open>The ledger\<close>

definition parse_reconcile_time :: "string \<Rightarrow> cli_error + instant" where
  "parse_reconcile_time raw =
     (if trim_space raw = [] then Inl (UsageError ''a time is required'')
      else (case parse_rfc3339 (trim_space raw) of
          None \<Rightarrow> Inl (UsageError ''must be an RFC 3339 timestamp'')
        | Some t \<Rightarrow> Inr t))"

definition reconcile_flags :: flag_set where
  "reconcile_flags =
     [(''statement'', FlagText []), (''since'', FlagText []), (''until'', FlagText []), (''format'', FlagText ''json''),
      (''cost-tolerance'', FlagText ''0.01''), (''fail-on-mismatch'', FlagBool False)]"

text \<open>The report of the ledger against a statement that has been read.\<close>

definition reconcile_report :: "flag_set \<Rightarrow> statement_entry list \<Rightarrow> recon_options \<Rightarrow> cli_world \<Rightarrow> cli_result" where
  "reconcile_report fs statement opts w =
     (case build (ledger_entries (cw_db w) (no_filter\<lparr>lf_since := ro_since opts\<rparr>)) statement opts of
        Inl e \<Rightarrow> (Inl (ReconFailed e), w)
      | Inr r \<Rightarrow>
          (let format = to_lower (trim_space (text_flag fs ''format''))
           in if format \<noteq> ''json'' \<and> format \<noteq> ''csv'' then (Inl (UsageError ''--format must be json or csv''), w)
              else (let out = (if format = ''json'' then ReportJson r else ReportCsv (report_csv r))
                    in (if mismatched r \<and> bool_flag fs ''fail-on-mismatch'' then Inl (Differences out) else Inr out, w))))"

text \<open>\<open>csv\<close> is the CSV reader on a file's content and \<open>numbers\<close> the JSON decoder of its usage column.\<close>

definition ledger_reconcile ::
  "(string \<Rightarrow> (string \<times> string) list option) \<Rightarrow> (string \<Rightarrow> string list option list) \<Rightarrow> cli_env \<Rightarrow> string list \<Rightarrow>
     cli_world \<Rightarrow> cli_result" where
  "ledger_reconcile numbers csv en args w =
     with_flags en reconcile_flags args
       (\<lambda>fs _ w.
          if trim_space (text_flag fs ''statement'') = [] then (Inl (UsageError ''--statement is required''), w)
          else (case parse_reconcile_time (text_flag fs ''since'') of
              Inl e \<Rightarrow> (Inl e, w)
            | Inr since \<Rightarrow>
                (case parse_reconcile_time (text_flag fs ''until'') of
                   Inl e \<Rightarrow> (Inl e, w)
                 | Inr until \<Rightarrow>
                     (case parse_nonnegative_usd (text_flag fs ''cost-tolerance'') of
                        None \<Rightarrow> (Inl (UsageError ''--cost-tolerance must be a non-negative USD amount''), w)
                      | Some tolerance \<Rightarrow>
                          (case read_file en w (text_flag fs ''statement'') of
                             None \<Rightarrow> (Inl (CannotRead (text_flag fs ''statement'')), w)
                           | Some content \<Rightarrow>
                               (case read_statement numbers (csv content) of
                                  Inl e \<Rightarrow> (Inl (StatementFailed e), w)
                                | Inr statement \<Rightarrow>
                                    with_store en fs
                                      (reconcile_report fs statement
                                        \<lparr>ro_since = since, ro_until = until, ro_tolerance = tolerance\<rparr>) w)))))) w"

definition ledger_verify :: "(string \<Rightarrow> string) \<Rightarrow> cli_env \<Rightarrow> string list \<Rightarrow> cli_world \<Rightarrow> cli_result" where
  "ledger_verify sha en args w =
     with_flags en [] args
       (\<lambda>fs _. with_store en fs (\<lambda>w.
          (let entries = ledger_entries (cw_db w) no_filter
           in case verify_chain sha entries of
                Inl _ \<Rightarrow> (Inl ChainFailed, w)
              | Inr _ \<Rightarrow>
                  (Inr (LedgerVerified (length entries)
                     (if entries = [] then genesis_hash else e_hash (last entries))), w)))) w"

definition ledger_export :: "cli_env \<Rightarrow> string list \<Rightarrow> cli_world \<Rightarrow> cli_result" where
  "ledger_export en args w =
     with_flags en [(''format'', FlagText ''json''), (''run'', FlagText []), (''principal'', FlagText []), (''since'', FlagText [])] args
       (\<lambda>fs _ w.
          (let raw = trim_space (text_flag fs ''since'')
           in case (if raw = [] then Some 0 else parse_rfc3339 raw) of
                None \<Rightarrow> (Inl (UsageError ''--since must be an RFC 3339 timestamp''), w)
              | Some since \<Rightarrow>
                  with_store en fs (\<lambda>w.
                    (let entries = ledger_entries (cw_db w)
                           (no_filter\<lparr>lf_run := trim_space (text_flag fs ''run''),
                             lf_principal := trim_space (text_flag fs ''principal''), lf_since := since\<rparr>);
                         format = to_lower (trim_space (text_flag fs ''format''))
                     in if format = ''json'' then (Inr (LedgerJson (export_entries entries)), w)
                        else if format = ''csv'' then (Inr (LedgerCsv (write_csv entries)), w)
                        else (Inl (UsageError ''--format must be json or csv''), w))) w)) w"

definition run_ledger ::
  "(string \<Rightarrow> string) \<Rightarrow> (string \<Rightarrow> (string \<times> string) list option) \<Rightarrow> (string \<Rightarrow> string list option list) \<Rightarrow> cli_env \<Rightarrow>
     string list \<Rightarrow> cli_world \<Rightarrow> cli_result" where
  "run_ledger sha numbers csv en args w =
     (case args of
        [] \<Rightarrow> (Inl (UsageError ''expected verify or export''), w)
      | sub # rest \<Rightarrow>
          if sub \<in> {''help'', ''-h'', ''--help''} then (Inr LedgerHelp, w)
          else if sub = ''verify'' then ledger_verify sha en rest w
          else if sub = ''export'' then ledger_export en rest w
          else if sub = ''reconcile'' then ledger_reconcile numbers csv en rest w
          else (Inl (UsageError ''unknown ledger subcommand''), w))"

section \<open>Commands are steps of the store\<close>

text \<open>
  What a command may do to the world: the database evolves by the operations of the store, the operator
  tables by theirs, an error leaves the database and the credentials alone, and a usage error leaves the
  operators alone too. Only the key file of a development store may have been written.
\<close>

definition command_ok :: "(string \<Rightarrow> string) \<Rightarrow> cli_world \<Rightarrow> cli_result \<Rightarrow> bool" where
  "command_ok sha w res \<longleftrightarrow>
     evolves sha management_op (cw_db w) (cw_db (snd res)) \<and> operator_steps (cw_ops w) (cw_ops (snd res)) \<and>
     (\<not> is_ok (fst res) \<longrightarrow> cw_db (snd res) = cw_db w \<and> cw_creds (snd res) = cw_creds w) \<and>
     (\<forall>m. fst res = Inl (UsageError m) \<longrightarrow> cw_ops (snd res) = cw_ops w)"

definition same_tables :: "cli_world \<Rightarrow> cli_world \<Rightarrow> bool" where
  "same_tables w w' \<longleftrightarrow> cw_db w' = cw_db w \<and> cw_ops w' = cw_ops w \<and> cw_creds w' = cw_creds w"

lemma same_tables_refl [simp]: "same_tables w w"
  by (simp add: same_tables_def)

lemma command_ok_same: "same_tables w w' \<Longrightarrow> command_ok sha w (r, w')"
  by (simp add: command_ok_def same_tables_def evolves_refl steps_none)

lemma command_ok_idle [simp]: "command_ok sha w (r, w)"
  by (simp add: command_ok_same)

lemma command_ok_from: "same_tables w w1 \<Longrightarrow> command_ok sha w1 res \<Longrightarrow> command_ok sha w res"
  by (simp add: command_ok_def same_tables_def)

lemma command_ok_creds: "command_ok sha w (Inr out, w\<lparr>cw_creds := creds\<rparr>)"
  by (simp add: command_ok_def evolves_refl steps_none)

lemma with_flags_ok: "(\<And>fs rest. command_ok sha w (command fs rest w)) \<Longrightarrow> command_ok sha w (with_flags en own args command w)"
  by (auto simp: with_flags_def split: sum.split)

lemma with_store_ok: "command_ok sha w (command w) \<Longrightarrow> command_ok sha w (with_store en fs command w)"
  by (simp add: with_store_def)

lemma no_arguments_ok: "command_ok sha w (command w) \<Longrightarrow> command_ok sha w (no_arguments rest command w)"
  by (simp add: no_arguments_def)

lemma commit_db_ok:
  assumes "\<And>d. r = Inr d \<Longrightarrow> \<exists>op. store_step sha (cw_db w) op d \<and> management_op op \<and> typed_op op"
    and "int (length (d_ledger (cw_db w))) < max_i64"
  shows "command_ok sha w (commit_db w r out)"
proof (cases r)
  case (Inr d)
  with assms evolves_one [of sha "cw_db w" _ d management_op] show ?thesis
    by (auto simp: commit_db_def command_ok_def steps_none)
qed (simp add: commit_db_def)

lemma resolve_master_keys_tables:
  "resolve_master_keys en path w = (r, w') \<Longrightarrow> same_tables w w'"
  by (auto simp: resolve_master_keys_def file_key_def same_tables_def Let_def
      split: sum.splits if_splits prod.splits option.splits)

lemma principal_ok:
  assumes "int (length (d_ledger (cw_db w))) < max_i64"
  shows "command_ok sha w (keys_principal sha en args w)"
proof -
  have create: "command_ok sha w (principal_create sha en fs w)" for fs
    using assms by (fastforce simp: principal_create_def Let_def intro: commit_db_ok step_create_principal)
  have set_mode: "command_ok sha w (principal_set_mode fs w)" for fs
    using assms by (fastforce simp: principal_set_mode_def Let_def intro: commit_db_ok step_set_mode split: option.split)
  show ?thesis
    by (auto simp: keys_principal_def principal_list_def create set_mode intro!: with_flags_ok with_store_ok split: list.split)
qed

lemma with_keys_ok:
  assumes "\<And>keys w'. command_ok sha w' (command keys w')"
  shows "command_ok sha w (with_keys en fs command w)"
proof (cases "resolve_master_keys en (text_flag fs ''store'') w")
  case (Pair r w')
  note same = resolve_master_keys_tables [OF Pair]
  show ?thesis
    using command_ok_same [OF same] command_ok_from [OF same assms] by (cases r) (simp_all add: with_keys_def Pair)
qed

lemma provider_ok: "command_ok sha w (keys_provider seal en args w)"
proof -
  have set: "command_ok sha w (provider_set seal en v name given w)" for v name given w
    by (auto simp: provider_set_def command_ok_creds split: option.split sum.split)
  show ?thesis
    by (auto simp: keys_provider_def Let_def set command_ok_creds intro!: with_flags_ok with_store_ok with_keys_ok
        split: list.split prod.split sum.split)
qed

lemma master_ok: "command_ok sha w (keys_master seal unseal en args w)"
proof -
  have rotate: "command_ok sha w (master_rotate seal unseal en fs w)" for fs
    by (auto simp: master_rotate_def command_ok_creds intro!: with_keys_ok with_store_ok split: sum.split prod.split)
  have verify: "command_ok sha w (master_verify unseal en fs w)" for fs
    by (auto simp: master_verify_def intro!: with_keys_ok with_store_ok split: sum.split)
  show ?thesis
    by (auto simp: keys_master_def rotate verify intro!: with_flags_ok no_arguments_ok split: list.split sum.split prod.split)
qed

lemma audited_ok:
  assumes "\<And>od. change = Inr od \<Longrightarrow> operator_step (cw_ops w) od"
  shows "command_ok sha w (audited en action resource change out w)"
proof (cases change)
  case (Inr od)
  have one: "operator_steps (cw_ops w) od" using steps_more [OF steps_none assms [OF Inr]] .
  show ?thesis
    using one steps_more [OF one op_audit]
    by (auto simp: audited_def Inr command_ok_def evolves_refl split: sum.split)
qed (simp add: audited_def)

lemma operator_ok: "command_ok sha w (keys_operator sha en args w)"
proof -
  have create: "command_ok sha w (operator_create sha en fs w)" for fs
    by (auto simp: operator_create_def Let_def intro!: audited_ok op_create)
  have change: "command_ok sha w (operator_change sha en action fs w)" for action fs
    by (auto simp: operator_change_def Let_def intro!: audited_ok intro: op_role op_rotate op_disable split: sum.split prod.split)
  have audit: "command_ok sha w (operator_audit fs w)" for fs
    by (auto simp: operator_audit_def Let_def split: option.split)
  show ?thesis
    by (auto simp: keys_operator_def create change audit intro!: with_flags_ok no_arguments_ok with_store_ok split: list.split)
qed

lemma run_ok:
  assumes "int (length (d_ledger (cw_db w))) < max_i64"
  shows "command_ok sha w (keys_run en args w)"
proof -
  have "command_ok sha w (commit_db w (create_run (cli_run en owner parent budget) (cw_db w)) out)"
    if "parse_nonnegative_usd raw = Some budget" for owner parent raw budget out
    using assms nonnegative_usd_typed [OF that] step_create_run by (intro commit_db_ok) (fastforce simp: cli_run_def)+
  then show ?thesis
    by (auto simp: keys_run_def Let_def intro!: with_flags_ok with_store_ok split: list.split option.split sum.split)
qed

lemma lease_ok:
  assumes "int (length (d_ledger (cw_db w))) < max_i64"
  shows "command_ok sha w (keys_lease sha en args w)"
proof -
  have "command_ok sha w (lease_issue sha en fs cap w)" for fs cap
    using assms by (fastforce simp: lease_issue_def Let_def intro: commit_db_ok step_create_lease split: sum.split option.split)
  then show ?thesis
    by (auto simp: keys_lease_def intro!: with_flags_ok with_store_ok split: list.split option.split)
qed

lemma revoke_each_evolves:
  "int (length (d_ledger d)) < max_i64 \<Longrightarrow> revoke_each now ps d = (n, d') \<Longrightarrow> evolves sha management_op d d'"
proof (induction ps arbitrary: d n)
  case (Cons p ps)
  obtain k d1 where one: "revoke_leases_for_principal now (pr_id p) d = (k, d1)" by fastforce
  then have "int (length (d_ledger d1)) < max_i64" using Cons.prems(1) by (auto simp: revoke_leases_for_principal_def)
  moreover from Cons.prems(2) one obtain m where "revoke_each now ps d1 = (m, d')" by (auto split: prod.splits)
  ultimately have "evolves sha management_op d1 d'" by (rule Cons.IH)
  then show ?case
    using evolves_trans evolves_one [OF step_revoke_principal [OF one], of management_op] Cons.prems(1) by simp
qed (simp add: evolves_refl)

lemma revoke_ok:
  assumes "int (length (d_ledger (cw_db w))) < max_i64"
  shows "command_ok sha w (keys_revoke en args w)"
proof -
  have "command_ok sha w (revoke_all en fs w)" for fs
    using revoke_each_evolves [OF assms]
    by (auto simp: revoke_all_def command_ok_def steps_none evolves_refl simp del: revoke_each.simps split: sum.split prod.split)
  then show ?thesis by (auto simp: keys_revoke_def intro!: with_flags_ok with_store_ok)
qed

lemma keys_ok:
  assumes "int (length (d_ledger (cw_db w))) < max_i64"
  shows "command_ok sha w (run_keys sha seal unseal en args w)"
  using principal_ok [OF assms] provider_ok master_ok operator_ok run_ok [OF assms] lease_ok [OF assms] revoke_ok [OF assms]
  by (cases args) (simp_all add: run_keys_def)

lemma with_flags_idle: "(\<And>fs rest. snd (command fs rest w) = w) \<Longrightarrow> snd (with_flags en own args command w) = w"
  by (auto simp: with_flags_def split: sum.split)

lemma with_store_idle: "snd (command w) = w \<Longrightarrow> snd (with_store en fs command w) = w"
  by (simp add: with_store_def)

lemma ledger_idle: "snd (run_ledger sha numbers csv en args w) = w"
proof -
  have verify: "snd (ledger_verify sha en rest w) = w" for rest
    by (auto simp: ledger_verify_def Let_def intro!: with_flags_idle with_store_idle split: sum.split)
  have export: "snd (ledger_export en rest w) = w" for rest
    by (auto simp: ledger_export_def Let_def intro!: with_flags_idle with_store_idle split: option.split)
  have report: "snd (reconcile_report fs statement opts w) = w" for fs statement opts
    by (auto simp: reconcile_report_def Let_def split: sum.split)
  have reconcile: "snd (ledger_reconcile numbers csv en rest w) = w" for rest
    by (auto simp: ledger_reconcile_def report intro!: with_flags_idle with_store_idle split: sum.split option.split)
  show ?thesis by (cases args) (simp_all add: run_ledger_def verify export reconcile)
qed


section \<open>Revoking every lease\<close>

lemma revoke_each_rows:
  assumes "revoke_each now ps d = (n, d')"
  shows "d_runs d' = d_runs d \<and>
    d_leases d' = map (\<lambda>l. if \<exists>p \<in> set ps. revocable now (pr_id p) d l then l\<lparr>ls_revoked := Some now\<rparr> else l) (d_leases d)"
  using assms
proof (induction ps arbitrary: d n)
  case Nil
  then show ?case by simp
next
  case (Cons p ps)
  define d1 where "d1 = snd (revoke_leases_for_principal now (pr_id p) d)"
  let ?mark = "\<lambda>l. l\<lparr>ls_revoked := Some now\<rparr>"
  from Cons.prems obtain m where rest: "revoke_each now ps d1 = (m, d')"
    by (auto simp: d1_def split: prod.splits)
  have d1: "d_runs d1 = d_runs d" "d_leases d1 = map (\<lambda>l. if revocable now (pr_id p) d l then ?mark l else l) (d_leases d)"
    by (simp_all add: d1_def revoke_leases_for_principal_def)
  have still: "revocable now i d1 l = revocable now i d l" "\<not> revocable now i d (?mark l)" for i l
    by (simp_all add: revocable_def d1(1))
  show ?case using Cons.IH [OF rest] by (auto simp: d1 still)
qed

text \<open>
  After \<open>spendlease keys revoke --all\<close> no lease of the database can be used: each is revoked or was past
  its expiry already, whichever principal owns it, and nothing but revocation marks has changed.
\<close>

theorem revoke_all_leaves_none_live:
  assumes "schema_ok (cw_db w)" and "ce_opens en (default_store en)"
  shows "\<exists>n d'. run_keys sha seal unseal en [''revoke'', ''--all''] w = (Inr (RevokedLeases n), w\<lparr>cw_db := d'\<rparr>) \<and>
    list_all (\<lambda>l. ls_revoked l \<noteq> None \<or> \<not> time_less (ce_now en) (ls_expires l)) (d_leases d') \<and>
    map (ls_revoked_update (\<lambda>_. None)) (d_leases d') = map (ls_revoked_update (\<lambda>_. None)) (d_leases (cw_db w))"
proof -
  let ?d = "cw_db w" and ?ps = "list_principals (cw_db w)"
  obtain n d' where run: "revoke_each (ce_now en) ?ps ?d = (n, d')" by fastforce
  have "parse_flags (store_flag en @ [(''all'', FlagBool False), (''principal'', FlagText [])]) [''--all''] =
      Inr ([(''store'', FlagText (default_store en)), (''all'', FlagBool True), (''principal'', FlagText [])], [])"
    by (simp add: store_flag_def cut_def parse_bool_def)
  then have "run_keys sha seal unseal en [''revoke'', ''--all''] w = (Inr (RevokedLeases n), w\<lparr>cw_db := d'\<rparr>)"
    using assms(2) run
    by (simp add: run_keys_def keys_revoke_def with_flags_def with_store_def revoke_all_def text_flag_def bool_flag_def)
  moreover have "ls_revoked l \<noteq> None \<or> \<not> time_less (ce_now en) (ls_expires l)" if l: "l \<in> set (d_leases d')" for l
  proof -
    let ?mark = "\<lambda>l0. if \<exists>p \<in> set ?ps. revocable (ce_now en) (pr_id p) ?d l0 then l0\<lparr>ls_revoked := Some (ce_now en)\<rparr> else l0"
    from l revoke_each_rows [OF run] have "l \<in> ?mark ` set (d_leases ?d)" by simp
    then obtain l0 where l0: "l0 \<in> set (d_leases ?d)" "l = ?mark l0" by (rule imageE)
    have "ls_run l0 \<in> run_ids ?d" using assms(1) l0(1) by (auto simp: schema_ok_def leases_ok_def)
    then obtain r where r: "r \<in> set (d_runs ?d)" "run_id r = ls_run l0" by auto
    then have "run_principal r \<in> principal_ids ?d" using assms(1) by (auto simp: schema_ok_def runs_ok_def)
    then obtain p where "p \<in> set ?ps" "pr_id p = run_principal r" by (auto simp: list_principals_def)
    then have owned: "p \<in> set ?ps" "ls_run l0 \<in> set (map run_id (filter (\<lambda>r. run_principal r = pr_id p) (d_runs ?d)))"
      using r by force+
    show ?thesis
    proof (cases "\<exists>p \<in> set ?ps. revocable (ce_now en) (pr_id p) ?d l0")
      case False
      then have "\<not> revocable (ce_now en) (pr_id p) ?d l0" using owned(1) by blast
      with owned(2) have "ls_revoked l0 \<noteq> None \<or> \<not> time_less (ce_now en) (ls_expires l0)" by (simp add: revocable_def)
      with l0(2) False show ?thesis by simp
    qed (simp add: l0(2))
  qed
  moreover have "map (ls_revoked_update (\<lambda>_. None)) (d_leases d') = map (ls_revoked_update (\<lambda>_. None)) (d_leases ?d)"
    using revoke_each_rows [OF run] by simp
  ultimately show ?thesis by (fastforce simp: list_all_iff)
qed

section \<open>A scope is taken as written\<close>

text \<open>
  The control API and the dashboard lower the names of a scope; the command line does not, and the
  gateway compares them with the lower-case names of its providers.
\<close>

theorem cli_scope_keeps_case:
  "normalize_providers [''OpenAI''] = Some [''openai''] \<and> cli_scope ''OpenAI'' = [''OpenAI''] \<and>
   \<not> allows_provider (cli_lease sha en i (cli_scope ''OpenAI'') cap ttl) ''openai''"
proof -
  have trimmed: "trim_space ''OpenAI'' = ''OpenAI''" by code_simp
  then have "cli_scope ''OpenAI'' = [''OpenAI'']" by (simp add: cli_scope_def)
  moreover have "normalize_providers [''OpenAI''] = Some [''openai'']"
    by (simp add: normalize_providers_def trimmed) code_simp
  ultimately show ?thesis by (simp add: allows_provider_def cli_lease_def)
qed

section \<open>Witnesses\<close>

definition sample_cli :: cli_env where
  "sample_cli =
     \<lparr>ce_now = 0, ce_lookup = (\<lambda>_. None), ce_opens = (\<lambda>_. True), ce_denied = (\<lambda>_. False), ce_readonly = (\<lambda>_. False),
      ce_argv = (\<lambda>_. None), ce_command = (\<lambda>_. None), ce_stdin = None, ce_id_bytes = [], ce_secret_bytes = [],
      ce_audit_bytes = [], ce_request_bytes = [1], ce_master_bytes = replicate 32 (CHR ''k''), ce_nonce = (\<lambda>_. [])\<rparr>"

definition sample_world :: cli_world where
  "sample_world = \<lparr>cw_db = sample_db, cw_ops = \<lparr>od_operators = [], od_audit = []\<rparr>, cw_creds = [], cw_files = []\<rparr>"


lemma revoke_all_leaves_none_live_witness:
  "\<exists>n d'. run_keys sample_sha toy_seal toy_open sample_cli [''revoke'', ''--all''] sample_world =
       (Inr (RevokedLeases n), sample_world\<lparr>cw_db := d'\<rparr>) \<and>
     list_all (\<lambda>l. ls_revoked l \<noteq> None \<or> \<not> time_less 0 (ls_expires l)) (d_leases d')"
proof -
  have "schema_ok (cw_db sample_world)" by (simp add: sample_world_def sample_db_schema)
  from revoke_all_leaves_none_live [OF this, of sample_cli] show ?thesis by (fastforce simp: sample_cli_def)
qed

end
