(* ===== verification/Deployment.thy ===== *)
theory Deployment
  imports Cli Telemetry
begin

text \<open>
  A running deployment: gateway processes that share one store, each with its own revocation set, its
  own bound on the requests in flight and its own requests, at whatever stage each is
  (\<open>src/internal/gateway/gateway.go\<close>). Requests, the control API, the dashboard, the sweeper, commands
  and restarts interleave in any order; one step is one stage of one of them, made of the store's
  transactions. The theorems say what holds in every interleaving.
\<close>

section \<open>The gateway's assembly\<close>

text \<open>
  \<open>Options\<close> and \<open>New\<close>: a nil interface is \<open>False\<close> or \<open>None\<close>. The semaphore is its capacity, none when
  no bound is configured.
\<close>

record gateway_options =
  go_principals :: bool
  go_leases :: bool
  go_revocations :: bool
  go_credentials :: bool
  go_registry :: "registry option"
  go_recorder :: "recorder option"
  go_logger :: bool
  go_max_in_flight :: int

definition new_gateway :: "gateway_options \<Rightarrow> string + (gateway_config \<times> nat option)" where
  "new_gateway opts =
     (if \<not> go_principals opts then Inl ''gateway: Principals is required''
      else if \<not> go_credentials opts then Inl ''gateway: Credentials is required''
      else (case go_registry opts of
          None \<Rightarrow> Inl ''gateway: Registry is required''
        | Some registry \<Rightarrow>
            if \<not> go_logger opts then Inl ''gateway: Logger is required''
            else Inr (\<lparr>gw_registry = registry, gw_recorder = go_recorder opts, gw_leases_set = go_leases opts,
                       gw_revocable = go_revocations opts\<rparr>,
                      if 0 < go_max_in_flight opts then Some (nat (go_max_in_flight opts)) else None)))"

text \<open>
  \<open>Handler\<close>: the surface a request goes to. \<open>registered\<close> is what the registrar put on the mux, absent
  without one; a GET pattern takes HEAD too, and everything unclaimed is proxy traffic.
\<close>

datatype surface_route = HealthRoute | RootRoute | RegisteredRoute | ProxyRoute

definition reads :: "request \<Rightarrow> bool" where
  "reads req \<longleftrightarrow> rq_method req \<in> {''GET'', ''HEAD''}"

definition route_request :: "(request \<Rightarrow> bool) option \<Rightarrow> request \<Rightarrow> surface_route" where
  "route_request registered req =
     (if reads req \<and> rq_path req = ''/healthz'' then HealthRoute
      else (case registered of
          Some claims \<Rightarrow> if claims req then RegisteredRoute else ProxyRoute
        | None \<Rightarrow> if reads req \<and> rq_path req = ''/'' then RootRoute else ProxyRoute))"

text \<open>The answer of a full gateway: the header that \<open>limit\<close> sets and the error.\<close>

definition busy_answer :: "api_error \<Rightarrow> header \<times> api_error" where
  "busy_answer e = (header_set [] ''Retry-After'' ''1'', e)"

section \<open>A process and its requests\<close>

text \<open>The stages of a request between the semaphore and its last byte.\<close>

datatype exchange =
    Admitted request request_body
  | Identified request_env auth_context request request_body
  | AtVendor request_env auth_context forward

record replica =
  rp_revs :: revocation_set
  rp_slots :: nat
  rp_exchanges :: "nat \<rightharpoonup> exchange"

definition fresh_replica :: replica where
  "fresh_replica = \<lparr>rp_revs = [], rp_slots = 0, rp_exchanges = Map.empty\<rparr>"

record replica_config =
  pc_gateway :: gateway_config
  pc_capacity :: "nat option"
  pc_vault :: vault
  pc_open :: aead_open

record deployment =
  dp_db :: db
  dp_creds :: credentials
  dp_ops :: operator_db
  dp_replicas :: "nat \<Rightarrow> replica"

definition set_exchange :: "nat \<Rightarrow> exchange \<Rightarrow> replica \<Rightarrow> replica" where
  "set_exchange i x r = r\<lparr>rp_exchanges := (rp_exchanges r)(i \<mapsto> x)\<rparr>"

text \<open>The deferred receive of \<open>limit\<close>: the slot is given back however the handler returns.\<close>

definition leave :: "nat option \<Rightarrow> nat \<Rightarrow> replica \<Rightarrow> replica" where
  "leave capacity i r =
     r\<lparr>rp_slots := (if capacity = None then rp_slots r else rp_slots r - 1), rp_exchanges := (rp_exchanges r)(i := None)\<rparr>"

definition on_replica :: "nat \<Rightarrow> (replica \<Rightarrow> replica) \<Rightarrow> db \<Rightarrow> deployment \<Rightarrow> deployment" where
  "on_replica k f d s = s\<lparr>dp_db := d, dp_replicas := (dp_replicas s)(k := f (dp_replicas s k))\<rparr>"

section \<open>Steps\<close>

datatype deployment_event =
    Arrived nat nat
  | TurnedAway nat "header \<times> api_error"
  | Rejected nat nat api_error
  | Authenticated nat nat auth_context
  | Refused nat nat api_error
  | Forwarded nat nat auth_context forward
  | Finished nat nat "client_response option"
  | ApiServed nat api_call int
  | DashboardServed nat dash_call int
  | Swept nat "nat option"
  | CommandRun "string list"
  | Restarted nat

text \<open>
  The identifier of a reservation is drawn when the request is handled, its clock readings, codecs and
  the vendor's answer are free; the vendor keys are those of the shared vault at that moment.
\<close>

inductive deployment_step ::
  "(string \<Rightarrow> string) \<Rightarrow> (nat \<Rightarrow> replica_config) \<Rightarrow> deployment \<Rightarrow> deployment_event \<Rightarrow> deployment \<Rightarrow> bool" for sha cf where
  step_arrived:
    "rp_exchanges (dp_replicas s k) i = None \<Longrightarrow>
     admit (pc_capacity (cf k)) (rp_slots (dp_replicas s k)) = Inr n \<Longrightarrow>
     deployment_step sha cf s (Arrived k i)
       (on_replica k (\<lambda>r. (set_exchange i (Admitted req body) r)\<lparr>rp_slots := n\<rparr>) (dp_db s) s)"
| step_turned_away:
    "admit (pc_capacity (cf k)) (rp_slots (dp_replicas s k)) = Inl e \<Longrightarrow>
     deployment_step sha cf s (TurnedAway k (busy_answer e)) s"
| step_rejected:
    "rp_exchanges (dp_replicas s k) i = Some (Admitted req body) \<Longrightarrow>
     authenticate sha (pc_gateway (cf k)) now req (rp_revs (dp_replicas s k)) (dp_db s) = (Inl e, d') \<Longrightarrow>
     deployment_step sha cf s (Rejected k i e) (on_replica k (leave (pc_capacity (cf k)) i) d' s)"
| step_authenticated:
    "rp_exchanges (dp_replicas s k) i = Some (Admitted req body) \<Longrightarrow>
     authenticate sha (pc_gateway (cf k)) (en_now en) req (rp_revs (dp_replicas s k)) (dp_db s) = (Inr ctx, d') \<Longrightarrow>
     deployment_step sha cf s (Authenticated k i ctx) (on_replica k (set_exchange i (Identified en ctx req body)) d' s)"
| step_refused:
    "rp_exchanges (dp_replicas s k) i = Some (Identified en ctx req body) \<Longrightarrow>
     en' = en\<lparr>en_rid := new_id reservation_prefix bytes,
       en_credentials := vault_get get_credential (pc_open (cf k)) (pc_vault (cf k)) (dp_creds s)\<rparr> \<Longrightarrow>
     handle_proxy (pc_gateway (cf k)) en' ctx req body (dp_db s) = Some (Inl e, d') \<Longrightarrow>
     deployment_step sha cf s (Refused k i e) (on_replica k (leave (pc_capacity (cf k)) i) d' s)"
| step_forwarded:
    "rp_exchanges (dp_replicas s k) i = Some (Identified en ctx req body) \<Longrightarrow>
     en' = en\<lparr>en_rid := new_id reservation_prefix bytes,
       en_credentials := vault_get get_credential (pc_open (cf k)) (pc_vault (cf k)) (dp_creds s)\<rparr> \<Longrightarrow>
     handle_proxy (pc_gateway (cf k)) en' ctx req body (dp_db s) = Some (Inr fw, d') \<Longrightarrow>
     deployment_step sha cf s (Forwarded k i ctx fw) (on_replica k (set_exchange i (AtVendor en' ctx fw)) d' s)"
| step_finished:
    "rp_exchanges (dp_replicas s k) i = Some (AtVendor en ctx fw) \<Longrightarrow>
     finish_exchange sha (pc_gateway (cf k)) en ctx fw cl now at_store up (dp_db s) = (resp, d') \<Longrightarrow>
     deployment_step sha cf s (Finished k i resp) (on_replica k (leave (pc_capacity (cf k)) i) d' s)"
| step_api:
    "serve_api sha origin_host g aen codec aenv c r (dp_ops s, rp_revs (dp_replicas s k), dp_db s) = (status, od', revs', d') \<Longrightarrow>
     deployment_step sha cf s (ApiServed k c status)
       ((on_replica k (\<lambda>r. r\<lparr>rp_revs := revs'\<rparr>) d' s)\<lparr>dp_ops := od'\<rparr>)"
| step_dashboard:
    "serve_dashboard sha origin_host g aen seal va da men form c r
       (dp_ops s, \<lparr>si_revs = rp_revs (dp_replicas s k), si_db = dp_db s, si_creds = dp_creds s\<rparr>) = (status, od', st') \<Longrightarrow>
     deployment_step sha cf s (DashboardServed k c status)
       ((on_replica k (\<lambda>r. r\<lparr>rp_revs := si_revs st'\<rparr>) (si_db st') s)\<lparr>dp_ops := od', dp_creds := si_creds st'\<rparr>)"
| step_swept:
    "sweep now (dp_db s) = (logged, d') \<Longrightarrow>
     deployment_step sha cf s (Swept k logged) (s\<lparr>dp_db := d'\<rparr>)"
| step_command:
    "run_keys sha seal unseal cen args \<lparr>cw_db = dp_db s, cw_ops = dp_ops s, cw_creds = dp_creds s, cw_files = files\<rparr> = (res, w') \<Longrightarrow>
     deployment_step sha cf s (CommandRun args) (s\<lparr>dp_db := cw_db w', dp_ops := cw_ops w', dp_creds := cw_creds w'\<rparr>)"
| step_restarted:
    "deployment_step sha cf s (Restarted k) (on_replica k (\<lambda>_. fresh_replica) (dp_db s) s)"

text \<open>A run, with its events in order; as everywhere, the ledger has room for one more row at each step.\<close>

inductive deployment_run ::
  "(string \<Rightarrow> string) \<Rightarrow> (nat \<Rightarrow> replica_config) \<Rightarrow> deployment \<Rightarrow> deployment_event list \<Rightarrow> deployment \<Rightarrow> bool" for sha cf s0 where
  run_begins: "deployment_run sha cf s0 [] s0"
| run_goes_on: "deployment_run sha cf s0 tr s \<Longrightarrow> int (length (d_ledger (dp_db s))) < max_i64 \<Longrightarrow>
    deployment_step sha cf s ev s' \<Longrightarrow> deployment_run sha cf s0 (tr @ [ev]) s'"

definition at_rest :: "deployment \<Rightarrow> bool" where
  "at_rest s \<longleftrightarrow> (\<forall>k. dp_replicas s k = fresh_replica)"


section \<open>What a step does to a process\<close>

lemma on_replica_simps [simp]:
  "dp_db (on_replica k f d s) = d" "dp_creds (on_replica k f d s) = dp_creds s" "dp_ops (on_replica k f d s) = dp_ops s"
  "dp_replicas (on_replica k f d s) j = (if j = k then f (dp_replicas s k) else dp_replicas s j)"
  by (simp_all add: on_replica_def)

lemma set_exchange_simps [simp]:
  "rp_exchanges (set_exchange i x r) = (rp_exchanges r)(i \<mapsto> x)" "rp_slots (set_exchange i x r) = rp_slots r"
  "rp_revs (set_exchange i x r) = rp_revs r"
  by (simp_all add: set_exchange_def)

lemma leave_simps [simp]:
  "rp_exchanges (leave c i r) = (rp_exchanges r)(i := None)" "rp_revs (leave c i r) = rp_revs r"
  by (simp_all add: leave_def)

text \<open>
  An invariant of the processes that only looks at their requests: it is enough to keep it where a
  request arrives, moves on or leaves.
\<close>

definition every_exchange :: "(nat \<Rightarrow> exchange \<Rightarrow> bool) \<Rightarrow> deployment \<Rightarrow> bool" where
  "every_exchange P s \<longleftrightarrow> (\<forall>k i x. rp_exchanges (dp_replicas s k) i = Some x \<longrightarrow> P k x)"

lemma every_exchangeD: "every_exchange P s \<Longrightarrow> rp_exchanges (dp_replicas s k) i = Some x \<Longrightarrow> P k x"
  by (simp add: every_exchange_def)

lemma every_exchange_at_rest: "at_rest s \<Longrightarrow> every_exchange P s"
  by (simp add: every_exchange_def at_rest_def fresh_replica_def)

lemma every_exchange_step:
  assumes "deployment_step sha cf s ev s'" "every_exchange P s"
    and "\<And>req body. P (case ev of Arrived k i \<Rightarrow> k | _ \<Rightarrow> undefined) (Admitted req body)"
    and "\<And>k i en ctx req body. ev = Authenticated k i ctx \<Longrightarrow> P k (Identified en ctx req body)"
    and "\<And>k i en ctx req body fw bytes creds. ev = Forwarded k i ctx fw \<Longrightarrow> P k (Identified en ctx req body) \<Longrightarrow>
      handle_proxy (pc_gateway (cf k)) (en\<lparr>en_rid := new_id reservation_prefix bytes, en_credentials := creds\<rparr>) ctx req body
        (dp_db s) = Some (Inr fw, dp_db s') \<Longrightarrow>
      P k (AtVendor (en\<lparr>en_rid := new_id reservation_prefix bytes, en_credentials := creds\<rparr>) ctx fw)"
  shows "every_exchange P s'"
  using assms(1)
proof cases
  case (step_arrived k i n req body)
  then show ?thesis using assms(2) assms(3) [of req body] by (auto simp: every_exchange_def)
next
  case (step_authenticated k i req body en ctx d')
  then show ?thesis using assms(2) assms(4) [OF step_authenticated(1)] by (auto simp: every_exchange_def)
next
  case (step_forwarded k i en ctx req body en' bytes fw d')
  have "P k (AtVendor en' ctx fw)"
    using assms(5) [OF step_forwarded(1) every_exchangeD [OF assms(2) step_forwarded(3)]] step_forwarded by simp
  then show ?thesis using assms(2) step_forwarded(2) by (auto simp: every_exchange_def)
next
  case (step_restarted k)
  then show ?thesis using assms(2) by (auto simp: every_exchange_def fresh_replica_def)
qed (use assms(2) in \<open>auto simp: every_exchange_def split: if_splits\<close>)

section \<open>Slots\<close>

definition slots_ok :: "nat option \<Rightarrow> replica \<Rightarrow> bool" where
  "slots_ok capacity r \<longleftrightarrow> finite (dom (rp_exchanges r)) \<and>
     (case capacity of None \<Rightarrow> True | Some n \<Rightarrow> rp_slots r = card (dom (rp_exchanges r)) \<and> rp_slots r \<le> n)"

lemma slots_fresh [simp]: "slots_ok c fresh_replica"
  by (simp add: slots_ok_def fresh_replica_def split: option.split)

lemma slots_move: "rp_exchanges r i \<noteq> None \<Longrightarrow> slots_ok c r \<Longrightarrow> slots_ok c (set_exchange i x r)"
  by (auto simp: slots_ok_def insert_absorb domI split: option.splits)

lemma slots_leave: "rp_exchanges r i \<noteq> None \<Longrightarrow> slots_ok c r \<Longrightarrow> slots_ok c (leave c i r)"
  by (auto simp: slots_ok_def leave_def card_Diff_singleton domI split: option.splits)

lemma slots_arrive:
  assumes "slots_ok c r" "rp_exchanges r i = None" "admit c (rp_slots r) = Inr n"
  shows "slots_ok c ((set_exchange i x r)\<lparr>rp_slots := n\<rparr>)"
  using assms by (auto simp: slots_ok_def admit_def card_insert_if domIff split: option.splits if_splits)

lemma slots_revs [simp]: "slots_ok c (r\<lparr>rp_revs := v\<rparr>) = slots_ok c r"
  by (cases c) (simp_all add: slots_ok_def)

lemma slots_step:
  assumes "deployment_step sha cf s ev s'" "\<forall>k. slots_ok (pc_capacity (cf k)) (dp_replicas s k)"
  shows "slots_ok (pc_capacity (cf j)) (dp_replicas s' j)"
  using assms(1) by cases (use assms(2) in \<open>simp_all add: slots_arrive slots_move slots_leave\<close>)

text \<open>
  C9. The bound on requests in flight holds in every interleaving: a process never works on more proxy
  requests than its capacity, the semaphore counts exactly those it works on, so every slot is given
  back however the request ended, and a request is turned away exactly when the bound is reached.
\<close>

theorem in_flight_is_bounded:
  assumes "deployment_run sha cf s0 tr s" "at_rest s0" "pc_capacity (cf k) = Some n"
  shows "finite (dom (rp_exchanges (dp_replicas s k))) \<and>
    card (dom (rp_exchanges (dp_replicas s k))) \<le> n \<and>
    rp_slots (dp_replicas s k) = card (dom (rp_exchanges (dp_replicas s k))) \<and>
    (is_ok (admit (Some n) (rp_slots (dp_replicas s k))) \<longleftrightarrow> card (dom (rp_exchanges (dp_replicas s k))) < n)"
proof -
  from assms(1) have "\<forall>j. slots_ok (pc_capacity (cf j)) (dp_replicas s j)"
    by induction (use assms(2) slots_step in \<open>auto simp: at_rest_def\<close>)
  then have "slots_ok (Some n) (dp_replicas s k)" using assms(3) by metis
  then show ?thesis by (simp add: slots_ok_def admit_def)
qed


section \<open>What a step does to the store\<close>

text \<open>The dashboard's own steps of the store, whatever it answers.\<close>

lemma dash_store_step:
  assumes "dash_handle sha seal va da en form c st = (reply, st')" and "schema_ok (si_db st)"
  shows "si_db st' = si_db st \<or> (\<exists>op. store_step sha (si_db st) op (si_db st') \<and> management_op op \<and> typed_op op)"
proof -
  have one: "one_step sha st reply st' \<Longrightarrow> ?thesis" by (auto simp: one_step_def)
  consider (mode) i where "c = SetMode i" | (kill) i where "c = RevokePrincipal i" | (keys) "changes_keys c"
    | (rest) "one_step sha st reply st'"
    using assms create_agent_step new_run_step handle_issue_step handle_close_step handle_revoke_lease_step
    by (cases c) auto
  then show ?thesis
  proof cases
    case mode
    then show ?thesis
      using assms(1) step_set_mode [of i _ "si_db st" _ sha]
      by (fastforce simp: handle_set_mode_def Let_def split: if_splits sum.splits)
  next
    case kill
    obtain n revs' d' where k: "kill_principal (mn_now en) i (si_revs st, si_db st) = (n, revs', d')" by (metis surj_pair)
    then have "si_db st' = d'" using assms(1) kill by (auto simp: handle_revoke_def Let_def)
    then show ?thesis
      using step_revoke_principal [OF kill_principal_store [OF k], of sha]
      by (intro disjI2 exI [of _ "OpRevokePrincipal (mn_now en) i"]) simp
  next
    case keys
    then show ?thesis
      using assms(1) by (cases c) (auto dest!: set_provider_step delete_provider_step)
  next
    case rest
    then show ?thesis by (rule one)
  qed
qed

lemma serve_dashboard_evolves:
  assumes "serve_dashboard sha origin_host g aen seal va da en form c r (od, st) = (status, od', st')"
    and "schema_ok (si_db st)" and "int (length (d_ledger (si_db st))) < max_i64"
  shows "evolves sha management_op (si_db st) (si_db st')"
proof -
  let ?h = "\<lambda>i s. case dash_handle sha seal va da (en\<lparr>mn_who := Some i\<rparr>) form c s of (reply, s') \<Rightarrow> (int (fst reply), s')"
  have "protect_role sha origin_host g aen (dash_role c) r ?h (od, st) = (status, od', st')"
    using assms(1) by (simp add: serve_dashboard_def)
  from protect_role_result [OF this] consider "st' = st" | i where "?h i st = (status, st')" by blast
  then show ?thesis
  proof cases
    case 2
    then obtain reply where "dash_handle sha seal va da (en\<lparr>mn_who := Some i\<rparr>) form c st = (reply, st')"
      by (auto split: prod.splits)
    from dash_store_step [OF this assms(2)] show ?thesis
      using evolves_one [where allowed = management_op, OF _ _ _ assms(3)] by (auto simp: evolves_refl)
  qed (simp add: evolves_refl)
qed

lemma empty_schema: "schema_ok empty_db"
  by (simp add: schema_ok_def tables_ok_def empty_db_def)

text \<open>Management leaves the money alone.\<close>

lemma management_step_same_money: "store_step sha d op d' \<Longrightarrow> management_op op \<Longrightarrow> same_money d d'"
proof (cases rule: store_step.cases, assumption)
  fix r assume "create_run r d = Inr d'"
  then show ?thesis using create_run_frame by fastforce
next
  fix p r l assume "create_principal_run_lease p r l d = Inr d'"
  then show ?thesis
    using onboard_keeps_ledger
    by (auto simp: create_principal_run_lease_def insert_principal_def insert_run_def insert_lease_def split: if_splits sum.splits)
next
  fix l assume "create_lease l d = Some (Inr d')"
  then show ?thesis by (auto simp: create_lease_def insert_lease_def split: if_splits option.splits)
qed (auto simp: create_principal_def insert_principal_def set_principal_mode_def close_run_def revoke_lease_def
    revoke_leases_for_principal_def split: if_splits option.splits sum.splits)

lemma management_same_money: "evolves sha management_op d d' \<Longrightarrow> same_money d d'"
  by (induction rule: evolves.induct) (use management_step_same_money in fastforce)+

text \<open>A request at the vendor's carries what its end needs to stay within the permitted operations.\<close>

fun exchange_permitted :: "(store_op \<Rightarrow> bool) \<Rightarrow> gateway_config \<Rightarrow> exchange \<Rightarrow> bool" where
  "exchange_permitted allowed g (Admitted req body) \<longleftrightarrow> True"
| "exchange_permitted allowed g (Identified en ctx req body) \<longleftrightarrow> permits allowed (au_principal ctx)"
| "exchange_permitted allowed g (AtVendor en ctx fw) \<longleftrightarrow> permits allowed (au_principal ctx) \<and>
     (fw_metered fw \<longrightarrow> gw_recorder g = None \<or> fw_reservation fw \<noteq> [] \<or> (\<forall>op. allowed op))"

fun event_permitted :: "(store_op \<Rightarrow> bool) \<Rightarrow> deployment_event \<Rightarrow> bool" where
  "event_permitted allowed (Authenticated k i ctx) \<longleftrightarrow> permits allowed (au_principal ctx)"
| "event_permitted allowed _ \<longleftrightarrow> True"

lemma new_id_nonempty: "new_id reservation_prefix bytes \<noteq> []"
  by (simp add: new_id_def reservation_prefix_def)

lemma forward_permitted:
  assumes "handle_proxy g (en\<lparr>en_rid := new_id reservation_prefix bytes, en_credentials := creds\<rparr>) ctx req body d = Some (Inr fw, d')"
    and "permits allowed (au_principal ctx)"
  shows "exchange_permitted allowed g (AtVendor en' ctx fw)"
  using enforced_forward_held [OF assms(1)] assms(2) new_id_nonempty by (auto simp: permits_def)

lemma exchanges_permitted_step:
  assumes "deployment_step sha cf s ev s'" "event_permitted allowed ev"
    and "every_exchange (\<lambda>k. exchange_permitted allowed (pc_gateway (cf k))) s"
  shows "every_exchange (\<lambda>k. exchange_permitted allowed (pc_gateway (cf k))) s'"
  by (rule every_exchange_step [OF assms(1,3)]) (use assms(2) forward_permitted in auto)

definition recorders_typed :: "(nat \<Rightarrow> replica_config) \<Rightarrow> bool" where
  "recorders_typed cf \<longleftrightarrow> (\<forall>k rc. gw_recorder (pc_gateway (cf k)) = Some rc \<longrightarrow> rc_default_budget rc \<le> max_i64)"

lemma deployment_step_evolves:
  assumes "deployment_step sha cf s ev s'" "int (length (d_ledger (dp_db s))) < max_i64" "schema_ok (dp_db s)"
    and "recorders_typed cf" "\<forall>op. enforced_op op \<longrightarrow> allowed op"
    and "every_exchange (\<lambda>k. exchange_permitted allowed (pc_gateway (cf k))) s"
  shows "evolves sha allowed (dp_db s) (dp_db s')"
proof -
  have mono: "evolves sha enforced_op d d' \<Longrightarrow> evolves sha allowed d d'" for d d'
    using evolves_mono assms(5) by blast
  have managed: "evolves sha management_op d d' \<Longrightarrow> evolves sha allowed d d'" for d d'
    using evolves_mono [of sha management_op d d' enforced_op] management_enforced mono by blast
  have typed: "\<forall>rc. gw_recorder (pc_gateway (cf k)) = Some rc \<longrightarrow> rc_default_budget rc \<le> max_i64" for k
    using assms(4) by (simp add: recorders_typed_def)
  note fits = assms(2) and exchange = every_exchangeD [OF assms(6)]
  from assms(1) show ?thesis
  proof cases
    case (step_rejected k i req body now e d')
    then show ?thesis using mono [OF authenticate_evolves [OF step_rejected(4) typed fits]] by simp
  next
    case (step_authenticated k i req body en ctx d')
    then show ?thesis using mono [OF authenticate_evolves [OF step_authenticated(4) typed fits]] by simp
  next
    case (step_refused k i en ctx req body en' bytes e d')
    then show ?thesis
      using handle_proxy_evolves [OF step_refused(5) _ fits, of allowed sha] exchange [OF step_refused(3)] by simp
  next
    case (step_forwarded k i en ctx req body en' bytes fw d')
    then show ?thesis
      using handle_proxy_evolves [OF step_forwarded(5) _ fits, of allowed sha] exchange [OF step_forwarded(3)] by simp
  next
    case (step_finished k i en ctx fw cl now at_store up resp d')
    from exchange [OF step_finished(3)]
    have "permits allowed (au_principal ctx)"
      "fw_metered fw \<longrightarrow> gw_recorder (pc_gateway (cf k)) = None \<or> fw_reservation fw \<noteq> [] \<or> (\<forall>op. allowed op)" by simp_all
    from finish_evolves [OF step_finished(4) fits this] show ?thesis using step_finished(2) by simp
  next
    case (step_api origin_host g aen codec aenv c r k status od' revs' d')
    then show ?thesis using managed serve_api_step [OF step_api(3) fits] by simp
  next
    case (step_dashboard origin_host g aen seal va da men form c r k status od' st')
    have "evolves sha management_op (dp_db s) (si_db st')"
      using serve_dashboard_evolves [OF step_dashboard(3)] assms(3) fits by simp
    then show ?thesis using managed step_dashboard(2) by simp
  next
    case (step_swept now logged d' k)
    then obtain n where "expire_pending_reservations now (dp_db s) = (n, d')" by (auto simp: sweep_def split: prod.splits)
    then show ?thesis using mono [OF evolves_one [OF step_expire, of _ _ _ _ enforced_op]] fits step_swept by simp
  next
    case (step_command seal unseal cen args files res w')
    then show ?thesis
      using keys_ok [of "\<lparr>cw_db = dp_db s, cw_ops = dp_ops s, cw_creds = dp_creds s, cw_files = files\<rparr>" sha seal unseal cen args]
        fits managed by (simp add: command_ok_def)
  qed (simp_all add: evolves_refl)
qed

lemma deployment_run_evolves:
  assumes "deployment_run sha cf s0 tr s" "at_rest s0" "schema_ok (dp_db s0)" "recorders_typed cf"
    and "\<forall>op. enforced_op op \<longrightarrow> allowed op" "\<forall>ev \<in> set tr. event_permitted allowed ev"
  shows "evolves sha allowed (dp_db s0) (dp_db s) \<and> every_exchange (\<lambda>k. exchange_permitted allowed (pc_gateway (cf k))) s"
  using assms(1,6)
proof induction
  case run_begins
  then show ?case using every_exchange_at_rest [OF assms(2)] by (simp add: evolves_refl)
next
  case (run_goes_on tr s ev s')
  then have before: "evolves sha allowed (dp_db s0) (dp_db s)"
      "every_exchange (\<lambda>k. exchange_permitted allowed (pc_gateway (cf k))) s" and ev: "event_permitted allowed ev" by simp_all
  have "schema_ok (dp_db s)" using evolves_schema [OF before(1) assms(3)] .
  from deployment_step_evolves [OF run_goes_on.hyps(3,2) this assms(4,5) before(2)]
  show ?case using evolves_trans before(1) exchanges_permitted_step [OF run_goes_on.hyps(3) ev before(2)] by blast
qed

lemma enforced_run_evolves:
  assumes "deployment_run sha cf s0 tr s" "at_rest s0" "schema_ok (dp_db s0)" "recorders_typed cf"
    and "\<forall>k i ctx. Authenticated k i ctx \<in> set tr \<longrightarrow> pr_mode (au_principal ctx) = ModeEnforce"
  shows "evolves sha enforced_op (dp_db s0) (dp_db s)"
proof -
  have "\<forall>ev \<in> set tr. event_permitted enforced_op ev"
  proof
    show "event_permitted enforced_op ev" if "ev \<in> set tr" for ev
      using assms(5) that by (cases ev) simp_all
  qed
  from deployment_run_evolves [OF assms(1-4) _ this] show ?thesis by blast
qed



section \<open>Money held while a request is at the vendor's\<close>

text \<open>What forwarding a request adds to the reservations: nothing, or its own new pending row.\<close>

lemma forwarded_reservation:
  assumes "handle_proxy g en ctx req body d = Some (Inr fw, d')" and "runs_wf (d_runs d)" and "en_rid en \<noteq> []"
  shows "fw_reservation fw = [] \<and> d_reservations d' = d_reservations d \<or>
    (\<exists>rc lease_ctx. gw_recorder g = Some rc \<and> fw_reservation fw = en_rid en \<and>
       fw_reservation fw \<notin> rv_id ` set (d_reservations d) \<and>
       d_reservations d' = d_reservations d @ [new_reservation rc (en_priced en) (en_now en) (fw_reservation fw) (au_run ctx)
         lease_ctx (provider_name (fw_provider fw)) (fw_info fw)])"
proof -
  have hold: "take_hold (gw_recorder g) en ctx (provider_name (fw_provider fw)) (fw_info fw) (fw_metered fw) d =
      Some (Inr (fw_reservation fw), d')" by (rule forwarded_cases [OF assms(1)])
  show ?thesis
  proof (cases "gw_recorder g")
    case None
    with hold show ?thesis by (simp add: take_hold_def)
  next
    case (Some rc)
    show ?thesis
    proof (cases "fw_metered fw")
      case False
      with hold Some show ?thesis by (simp add: take_hold_def)
    next
      case True
      with hold Some have "take_hold (Some rc) en ctx (provider_name (fw_provider fw)) (fw_info fw) True d =
          Some (Inr (fw_reservation fw), d')" by simp
      then show ?thesis
      proof (cases rule: take_hold_cases)
        case unheld
        then show ?thesis by simp
      next
        case (held lease_ctx dec)
        let ?r = "new_reservation rc (en_priced en) (en_now en) (fw_reservation fw) (au_run ctx) lease_ctx
            (provider_name (fw_provider fw)) (fw_info fw)"
        from held(4) obtain d1 where d1: "try_reserve ?r (pr_mode (au_principal ctx) = ModeEnforce) d = Some (Inr (dec, d1))"
          "d' = d1 \<or> (\<exists>b. record_budget_event b d1 = Inr d')"
          by (cases rule: reserve_cases) auto
        have "d_reservations d1 = d_reservations d @ [?r] \<and> rv_id ?r \<notin> rv_id ` set (d_reservations d)"
          by (rule try_reserve_granted [OF assms(2) d1(1) held(2)]) simp
        then have "d_reservations d' = d_reservations d @ [?r]" "rv_id ?r \<notin> rv_id ` set (d_reservations d)"
          using d1(2) budget_event_frame by fastforce+
        then show ?thesis using Some held(1) by (auto simp: new_reservation_def)
      qed
    qed
  qed
qed

text \<open>A hold that can still be settled, and what keeps it.\<close>

definition open_hold :: "db \<Rightarrow> string \<Rightarrow> string \<Rightarrow> nanos \<Rightarrow> bool" where
  "open_hold d rid run amount \<longleftrightarrow> (\<exists>r. find_reservation d rid = Some r \<and> rv_run r = run \<and> rv_amount r = amount \<and>
     rv_status r \<in> {ReservationPending, ReservationExpired})"

lemma open_hold_same: "d_reservations d' = d_reservations d \<Longrightarrow> open_hold d' = open_hold d"
  by (intro ext) (simp add: open_hold_def find_reservation_def)

lemma open_hold_append:
  "open_hold d rid run amount \<Longrightarrow> d_reservations d' = d_reservations d @ rs \<Longrightarrow> open_hold d' rid run amount"
  by (auto simp: open_hold_def find_reservation_def find_append_some)

lemma open_hold_swept:
  "open_hold d rid run amount \<Longrightarrow> expire_pending_reservations now d = (n, d') \<Longrightarrow> open_hold d' rid run amount"
  by (auto simp: open_hold_def expire_pending_reservations_def find_reservation_set_status)

lemma other_reservation_set_status:
  "(\<And>q. P q \<Longrightarrow> rv_id q \<noteq> rid) \<Longrightarrow> find_reservation (set_status P st now d) rid = find_reservation d rid"
  using find_reservation_SomeD [of d rid]
  by (cases "find_reservation d rid") (auto simp: find_reservation_set_status)

lemma release_keeps_others:
  assumes "rid' \<noteq> rid"
  shows "find_reservation (release now rid' d) rid = find_reservation d rid"
proof -
  have "find_reservation d' rid = find_reservation d rid" if "resolve_reservation now rid' ReservationReleased d = Inr d'" for d'
    using resolve_ok [OF that] other_reservation_set_status [of "\<lambda>r. rv_id r = rid' \<and> rv_status r = ReservationPending" rid] assms
    by blast
  then show ?thesis by (simp add: release_def split: sum.split)
qed

lemma settle_keeps_others:
  assumes "settle_reservation sha now rid' e d = Inr (sealed, d')" "rows_ok sha d" "int (length (d_ledger d)) < max_i64" "rid' \<noteq> rid"
  shows "find_reservation d' rid = find_reservation d rid"
  using assms(1-3)
proof (cases rule: settle_cases)
  case (fresh r row)
  define d2 where "d2 = d\<lparr>d_ledger := d_ledger d @ [row],
    d_settlements := d_settlements d @ [\<lparr>st_reservation = rid', st_seq = e_seq sealed, st_created = now\<rparr>]\<rparr>"
  have "d' = (if rv_status r = ReservationPending then set_status (\<lambda>q. rv_id q = rid') ReservationSettled now d2 else d2)"
    using fresh(11) unfolding d2_def Let_def .
  moreover have "find_reservation d2 rid = find_reservation d rid" by (simp add: d2_def find_reservation_def)
  moreover have "find_reservation (set_status (\<lambda>q. rv_id q = rid') ReservationSettled now d2) rid = find_reservation d2 rid"
    by (rule other_reservation_set_status) (use assms(4) in blast)
  ultimately show ?thesis by simp
qed simp

lemma record_keeps_others:
  assumes "rows_ok sha d" "int (length (d_ledger d)) < max_i64" "ob_reservation ob \<noteq> rid"
  shows "find_reservation (record_spend sha rc now at_store ob d) rid = find_reservation d rid"
proof -
  have append: "find_reservation d' rid = find_reservation d rid" if "append_ledger sha at_store e d = Inr (sealed, d')" for e sealed d'
    by (rule append_ledger_tx_ok [OF that [unfolded append_ledger_def] _ assms(2)])
      (use assms(1) in \<open>simp_all add: rows_ok_def find_reservation_def\<close>)
  show ?thesis
    using settle_keeps_others [OF _ assms] append release_keeps_others [OF assms(3)]
    by (auto simp: record_spend_def split: sum.split)
qed

lemma finish_keeps_others:
  assumes "finish_exchange sha g en ctx fw cl now at_store up d = (resp, d')" "rows_ok sha d"
    and "int (length (d_ledger d)) < max_i64" "fw_reservation fw \<noteq> rid"
  shows "find_reservation d' rid = find_reservation d rid"
  using assms(1)
proof (cases rule: finish_cases)
  case (released rc)
  then show ?thesis using release_keeps_others [OF assms(4)] by simp
next
  case (recorded rc ob)
  then show ?thesis
    using record_keeps_others [OF assms(2,3), of ob rid] assms(4) by (auto simp: gateway_record_def recorded_by_def)
qed simp


text \<open>
  The hold of a request: its own open reservation for the amount it was priced at, and for a metered
  request of an enforced principal there is one.
\<close>

fun hold_of :: "exchange \<Rightarrow> string" where
  "hold_of (AtVendor en ctx fw) = fw_reservation fw"
| "hold_of _ = []"

fun exchange_held :: "db \<Rightarrow> gateway_config \<Rightarrow> exchange \<Rightarrow> bool" where
  "exchange_held d g (AtVendor en ctx fw) \<longleftrightarrow>
     (fw_reservation fw \<noteq> [] \<longrightarrow> (\<exists>rc. gw_recorder g = Some rc \<and> open_hold d (fw_reservation fw) (au_run ctx)
        (reservation_amount rc (en_priced en) (provider_name (fw_provider fw)) (fw_info fw)))) \<and>
     (fw_metered fw \<and> pr_mode (au_principal ctx) = ModeEnforce \<longrightarrow> gw_recorder g = None \<or> fw_reservation fw \<noteq> [])"
| "exchange_held d g _ \<longleftrightarrow> True"

definition holds_distinct :: "deployment \<Rightarrow> bool" where
  "holds_distinct s \<longleftrightarrow> (\<forall>k i x k' i' x'. rp_exchanges (dp_replicas s k) i = Some x \<longrightarrow>
     rp_exchanges (dp_replicas s k') i' = Some x' \<longrightarrow> hold_of x \<noteq> [] \<longrightarrow> hold_of x' = hold_of x \<longrightarrow> (k', i') = (k, i))"

definition all_held :: "(nat \<Rightarrow> replica_config) \<Rightarrow> deployment \<Rightarrow> bool" where
  "all_held cf s \<longleftrightarrow> every_exchange (\<lambda>k. exchange_held (dp_db s) (pc_gateway (cf k))) s \<and> holds_distinct s"

lemma exchange_held_mono:
  assumes "exchange_held d g x" "\<And>run amount. hold_of x \<noteq> [] \<Longrightarrow> open_hold d (hold_of x) run amount \<Longrightarrow> open_hold d' (hold_of x) run amount"
  shows "exchange_held d' g x"
  using assms by (cases x) auto

text \<open>A step that lets no new request out keeps the holds if it keeps the rows of those that stay.\<close>

lemma all_held_kept:
  assumes "all_held cf s"
    and "\<And>k i x. rp_exchanges (dp_replicas s' k) i = Some x \<Longrightarrow> rp_exchanges (dp_replicas s k) i = Some x \<or> hold_of x = [] \<and> exchange_held (dp_db s') (pc_gateway (cf k)) x"
    and "\<And>k i x run amount. rp_exchanges (dp_replicas s' k) i = Some x \<Longrightarrow> rp_exchanges (dp_replicas s k) i = Some x \<Longrightarrow> hold_of x \<noteq> [] \<Longrightarrow>
      open_hold (dp_db s) (hold_of x) run amount \<Longrightarrow> open_hold (dp_db s') (hold_of x) run amount"
  shows "all_held cf s'"
proof -
  have "exchange_held (dp_db s') (pc_gateway (cf k)) x" if x: "rp_exchanges (dp_replicas s' k) i = Some x" for k i x
    using assms(2) [OF x]
  proof
    assume old: "rp_exchanges (dp_replicas s k) i = Some x"
    then have "exchange_held (dp_db s) (pc_gateway (cf k)) x" using assms(1) by (simp add: all_held_def every_exchange_def)
    then show ?thesis using assms(3) [OF x old] by (rule exchange_held_mono)
  qed simp
  moreover have "holds_distinct s'"
    using assms(1,2) unfolding all_held_def holds_distinct_def by (metis (no_types, lifting))
  ultimately show ?thesis by (simp add: all_held_def every_exchange_def)
qed

lemma all_held_forward:
  assumes "all_held cf s" "rp_exchanges (dp_replicas s k) i = Some (Identified en ctx req body)" "runs_wf (d_runs (dp_db s))"
    and "handle_proxy (pc_gateway (cf k)) en' ctx req body (dp_db s) = Some (Inr fw, d')" "en_rid en' \<noteq> []"
  shows "all_held cf (on_replica k (set_exchange i (AtVendor en' ctx fw)) d' s)" (is "all_held cf ?s'")
proof -
  let ?x = "AtVendor en' ctx fw"
  note rows = forwarded_reservation [OF assms(4,3,5)]
  have kept: "open_hold (dp_db s) rid run amount \<Longrightarrow> open_hold d' rid run amount" for rid run amount
    using rows open_hold_same [of d' "dp_db s"] open_hold_append [of "dp_db s" rid run amount d'] by auto
  have held: "exchange_held (dp_db s) (pc_gateway (cf j)) x" if "rp_exchanges (dp_replicas s j) m = Some x" for j m x
    using assms(1) that by (simp add: all_held_def every_exchange_def)
  have mine: "exchange_held d' (pc_gateway (cf k)) ?x"
    using rows enforced_forward_held [OF assms(4) _ assms(5)]
    by (auto simp: open_hold_def find_reservation_def new_reservation_def find_append_none find_key_none)
  have fresh: "hold_of x \<noteq> fw_reservation fw" if old: "rp_exchanges (dp_replicas s j) m = Some x" and some: "fw_reservation fw \<noteq> []" for j m x
  proof
    assume same: "hold_of x = fw_reservation fw"
    obtain r where "find_reservation (dp_db s) (fw_reservation fw) = Some r"
      using held [OF old] same some by (cases x) (auto simp: open_hold_def)
    from find_reservation_SomeD [OF this] have "fw_reservation fw \<in> rv_id ` set (d_reservations (dp_db s))" by force
    then show False using rows some by blast
  qed
  have "exchange_held d' (pc_gateway (cf j)) x" if "rp_exchanges (dp_replicas ?s' j) m = Some x" for j m x
    using that mine exchange_held_mono [OF held kept] by (auto split: if_splits)
  moreover have "holds_distinct ?s'"
    using assms(1) unfolding all_held_def holds_distinct_def
    by (auto split: if_splits) (metis fresh)+
  ultimately show ?thesis by (simp add: all_held_def every_exchange_def)
qed


lemma all_held_step:
  assumes "deployment_step sha cf s ev s'" "int (length (d_ledger (dp_db s))) < max_i64" "schema_ok (dp_db s)"
    and "rows_ok sha (dp_db s)" "all_held cf s"
  shows "all_held cf s'"
proof -
  have same: "open_hold d' = open_hold (dp_db s)" if "same_money (dp_db s) d'" for d'
    using open_hold_same that by blast
  from assms(1) show ?thesis
  proof cases
    case (step_arrived k i n req body)
    then show ?thesis by (intro all_held_kept [OF assms(5)]) (auto split: if_splits)
  next
    case step_turned_away
    then show ?thesis using assms(5) by simp
  next
    case (step_rejected k i req body now e d')
    then show ?thesis
      using same [OF authenticate_same_money [OF step_rejected(4)]]
      by (intro all_held_kept [OF assms(5)]) (auto split: if_splits)
  next
    case (step_authenticated k i req body en ctx d')
    then show ?thesis
      using same [OF authenticate_same_money [OF step_authenticated(4)]]
      by (intro all_held_kept [OF assms(5)]) (auto split: if_splits)
  next
    case (step_refused k i en ctx req body en' bytes e d')
    then show ?thesis
      using same [OF refused_same_money [OF step_refused(5)]]
      by (intro all_held_kept [OF assms(5)]) (auto split: if_splits)
  next
    case (step_forwarded k i en ctx req body en' bytes fw d')
    have "runs_wf (d_runs (dp_db s))" using assms(4) by (simp add: rows_ok_def)
    from all_held_forward [OF assms(5) step_forwarded(3) this step_forwarded(5)] show ?thesis
      using step_forwarded(2,4) new_id_nonempty by simp
  next
    case (step_finished k i en ctx fw cl now at_store up resp d')
    have others: "hold_of x \<noteq> fw_reservation fw"
      if "rp_exchanges (dp_replicas s j) m = Some x" "(j, m) \<noteq> (k, i)" "hold_of x \<noteq> []" for j m x
      using assms(5) step_finished(3) that unfolding all_held_def holds_distinct_def by (metis hold_of.simps(1))
    have "open_hold d' (hold_of x) run amount"
      if "rp_exchanges (dp_replicas s j) m = Some x" "(j, m) \<noteq> (k, i)" "hold_of x \<noteq> []" "open_hold (dp_db s) (hold_of x) run amount"
      for j m x run amount
      using finish_keeps_others [OF step_finished(4) assms(4,2)] others [OF that(1-3)] that(4) by (auto simp: open_hold_def)
    then show ?thesis
      using step_finished(2) by (intro all_held_kept [OF assms(5)]) (auto split: if_splits)
  next
    case (step_api origin_host g aen codec aenv c r k status od' revs' d')
    then have "same_money (dp_db s) d'" using management_same_money serve_api_step [OF step_api(3) assms(2)] by blast
    from same [OF this] step_api(2) show ?thesis
      by (intro all_held_kept [OF assms(5)]) (auto split: if_splits)
  next
    case (step_dashboard origin_host g aen seal va da men form c r k status od' st')
    then have "same_money (dp_db s) (si_db st')"
      using management_same_money [OF serve_dashboard_evolves [OF step_dashboard(3)]] assms(2,3) by simp
    from same [OF this] step_dashboard(2) show ?thesis
      by (intro all_held_kept [OF assms(5)]) (auto split: if_splits)
  next
    case (step_swept now logged d' k)
    then obtain n where "expire_pending_reservations now (dp_db s) = (n, d')" by (auto simp: sweep_def split: prod.splits)
    from open_hold_swept [OF _ this] step_swept(2) show ?thesis
      by (intro all_held_kept [OF assms(5)]) auto
  next
    case (step_command seal unseal cen args files res w')
    then have "evolves sha management_op (dp_db s) (cw_db w')"
      using keys_ok [of "\<lparr>cw_db = dp_db s, cw_ops = dp_ops s, cw_creds = dp_creds s, cw_files = files\<rparr>"
        sha seal unseal cen args] assms(2) by (simp add: command_ok_def)
    from same [OF management_same_money [OF this]] step_command(2) show ?thesis
      by (intro all_held_kept [OF assms(5)]) auto
  next
    case (step_restarted k)
    then show ?thesis by (intro all_held_kept [OF assms(5)]) (auto simp: fresh_replica_def split: if_splits)
  qed
qed

lemma deployment_run_any:
  assumes "deployment_run sha cf s0 tr s" "schema_ok (dp_db s0)" "rows_ok sha (dp_db s0)" "recorders_typed cf"
  shows "evolves sha (\<lambda>_. True) (dp_db s0) (dp_db s) \<and> schema_ok (dp_db s) \<and> rows_ok sha (dp_db s)"
  using assms(1)
proof induction
  case run_begins
  then show ?case using assms(2,3) by (simp add: evolves_refl)
next
  case (run_goes_on tr s ev s')
  have "every_exchange (\<lambda>k. exchange_permitted (\<lambda>_. True) (pc_gateway (cf k))) s"
    unfolding every_exchange_def by (metis (full_types) exchange.exhaust exchange_permitted.simps permits_any)
  with deployment_step_evolves [OF run_goes_on.hyps(3,2) _ assms(4), of "\<lambda>_. True"] run_goes_on.IH
  have "evolves sha (\<lambda>_. True) (dp_db s) (dp_db s')" by simp
  then show ?case using run_goes_on.IH evolves_trans evolves_schema evolves_rows_ok by blast
qed

text \<open>
  C7. Money is held while a request is at the vendor's. In every interleaving, each metered request of an
  enforced principal that a process is waiting on has a reservation of its own in the store, on its own
  run and for the amount it was priced at, that no management, sweep, command, restart or other
  request can release, settle or take over: it is pending, or expired and still settled when the answer comes.
\<close>

theorem requests_at_vendor_are_held:
  assumes "deployment_run sha cf s0 tr s" "at_rest s0" "reachable sha allowed (dp_db s0)" "recorders_typed cf"
    and "rp_exchanges (dp_replicas s k) i = Some (AtVendor en ctx fw)" "gw_recorder (pc_gateway (cf k)) = Some rc"
    and "fw_metered fw" "pr_mode (au_principal ctx) = ModeEnforce"
  shows "\<exists>r. find_reservation (dp_db s) (fw_reservation fw) = Some r \<and> rv_run r = au_run ctx \<and>
    rv_amount r = reservation_amount rc (en_priced en) (provider_name (fw_provider fw)) (fw_info fw) \<and>
    rv_status r \<in> {ReservationPending, ReservationExpired} \<and>
    (\<forall>k' i' en' ctx' fw'. rp_exchanges (dp_replicas s k') i' = Some (AtVendor en' ctx' fw') \<longrightarrow>
       fw_reservation fw' = fw_reservation fw \<longrightarrow> (k', i') = (k, i))"
proof -
  have start: "schema_ok (dp_db s0)" "rows_ok sha (dp_db s0)"
    using assms(3) reachable_rows_ok evolves_schema [OF _ empty_schema] unfolding reachable_def by blast+
  from assms(1) have held: "all_held cf s"
  proof induction
    case run_begins
    then show ?case using assms(2) by (simp add: all_held_def every_exchange_def holds_distinct_def at_rest_def fresh_replica_def)
  next
    case (run_goes_on tr s ev s')
    then show ?case using all_held_step deployment_run_any [OF run_goes_on.hyps(1) start assms(4)] by blast
  qed
  then have "exchange_held (dp_db s) (pc_gateway (cf k)) (AtVendor en ctx fw)"
    using assms(5) unfolding all_held_def every_exchange_def by blast
  then have some: "fw_reservation fw \<noteq> []" and "open_hold (dp_db s) (fw_reservation fw) (au_run ctx)
      (reservation_amount rc (en_priced en) (provider_name (fw_provider fw)) (fw_info fw))"
    using assms(6-8) by simp_all
  moreover have "(k', i') = (k, i)"
    if "rp_exchanges (dp_replicas s k') i' = Some (AtVendor en' ctx' fw')" "fw_reservation fw' = fw_reservation fw"
    for k' i' en' ctx' fw'
  proof -
    have "hold_of (AtVendor en ctx fw) \<noteq> []" "hold_of (AtVendor en' ctx' fw') = hold_of (AtVendor en ctx fw)"
      using some that(2) by simp_all
    with held assms(5) that(1) show ?thesis unfolding all_held_def holds_distinct_def by blast
  qed
  ultimately show ?thesis unfolding open_hold_def by blast
qed

section \<open>Revocation across processes\<close>

definition dead_token :: "string \<Rightarrow> db \<Rightarrow> bool" where
  "dead_token h d \<longleftrightarrow> (\<exists>l \<in> set (d_leases d). ls_token_hash l = h \<and> ls_revoked l \<noteq> None)"

lemma dead_token_leases:
  "dead_token h d \<Longrightarrow> \<forall>l \<in> set (d_leases d). \<exists>l' \<in> set (d_leases d'). ls_token_hash l' = ls_token_hash l \<and>
     (ls_revoked l \<noteq> None \<longrightarrow> ls_revoked l' \<noteq> None) \<Longrightarrow> dead_token h d'"
  unfolding dead_token_def by blast

lemma dead_token_more: "dead_token h d \<Longrightarrow> set (d_leases d) \<subseteq> set (d_leases d') \<Longrightarrow> dead_token h d'"
  unfolding dead_token_def by blast

lemma dead_token_map:
  "dead_token h d \<Longrightarrow> d_leases d' = map f (d_leases d) \<Longrightarrow>
     (\<And>l. ls_token_hash (f l) = ls_token_hash l \<and> (ls_revoked l \<noteq> None \<longrightarrow> ls_revoked (f l) \<noteq> None)) \<Longrightarrow> dead_token h d'"
  unfolding dead_token_def by auto

lemma insert_leases:
  "insert_principal p d = Inr d' \<Longrightarrow> d_leases d' = d_leases d"
  "insert_run r d = Inr d' \<Longrightarrow> d_leases d' = d_leases d"
  "insert_lease l d = Inr d' \<Longrightarrow> set (d_leases d) \<subseteq> set (d_leases d')"
  "create_reservation v d = Inr d' \<Longrightarrow> d_leases d' = d_leases d"
  by (auto simp: insert_principal_def insert_run_def insert_lease_def create_reservation_def insert_reservation_def split: if_splits)

lemma settle_leases: "settle_reservation sha now i e d = Inr (sealed, d') \<Longrightarrow> d_leases d' = d_leases d"
  by (auto simp: settle_reservation_def append_ledger_tx_def insert_entry_def insert_settlement_def Let_def
      split: if_splits option.splits sum.splits prod.splits)

lemma dead_token_step:
  assumes "store_step sha d op d'" "dead_token h d"
  shows "dead_token h d'"
  using assms(1)
proof cases
  case (step_onboard p r l)
  then have "set (d_leases d) \<subseteq> set (d_leases d')"
    using insert_leases(1-3) by (fastforce simp: create_principal_run_lease_def split: if_splits sum.splits)
  with assms(2) show ?thesis by (rule dead_token_more)
next
  case (step_create_lease l)
  then have "set (d_leases d) \<subseteq> set (d_leases d')"
    using insert_leases(3) by (auto simp: create_lease_def split: if_splits option.splits)
  with assms(2) show ?thesis by (rule dead_token_more)
next
  case (step_revoke_lease now i)
  then have "d_leases d' = map (revoke_row now i) (d_leases d)"
    by (auto simp: revoke_lease_def revoke_row_def fun_eq_iff split: if_splits)
  with assms(2) show ?thesis by (rule dead_token_map) (simp add: revoke_row_def)
next
  case (step_revoke_principal now i n)
  then have "d_leases d' = map (\<lambda>l. if revocable now i d l then l\<lparr>ls_revoked := Some now\<rparr> else l) (d_leases d)"
    by (auto simp: revoke_leases_for_principal_def)
  with assms(2) show ?thesis by (rule dead_token_map) simp
next
  case (step_try_reserve r enforce dec)
  then have "d_leases d' = d_leases d" by (auto elim!: try_reserve_cases simp: insert_leases(4) split: if_splits)
  then show ?thesis using assms(2) by (simp add: dead_token_def)
next
  case (step_settle now i e sealed)
  then show ?thesis using assms(2) settle_leases by (fastforce simp: dead_token_def)
next
  case (step_append now e sealed)
  then have "d_leases d' = d_leases d"
    by (auto simp: append_ledger_def append_ledger_tx_def insert_entry_def Let_def split: if_splits option.splits sum.splits prod.splits)
  then show ?thesis using assms(2) by (simp add: dead_token_def)
next
  case (step_resolve now i s)
  then show ?thesis using assms(2) resolve_ok [OF step_resolve(2)] by (simp add: dead_token_def)
next
  case (step_create_run r)
  then have "d_leases d' = d_leases d" using insert_leases(2) create_run_insert by blast
  then show ?thesis using assms(2) by (simp add: dead_token_def)
next
  case (step_create_reservation r)
  then have "d_leases d' = d_leases d" using insert_leases(4) by blast
  then show ?thesis using assms(2) by (simp add: dead_token_def)
qed (use assms(2) in \<open>auto simp: dead_token_def create_principal_def insert_leases set_principal_mode_def close_run_def
    expire_pending_reservations_def record_budget_event_def split: if_splits option.splits sum.splits\<close>)

lemma dead_token_evolves: "evolves sha allowed d d' \<Longrightarrow> dead_token h d \<Longrightarrow> dead_token h d'"
  by (induction rule: evolves.induct) (use dead_token_step in blast)+

lemma dead_token_rejected:
  assumes "authenticate sha g now req revs d = (Inr ctx, d')" "au_lease ctx = Some l" "schema_ok d" "dead_token h d"
  shows "ls_token_hash l \<noteq> h"
proof
  assume h: "ls_token_hash l = h"
  obtain l0 where l0: "l0 \<in> set (d_leases d)" "ls_token_hash l0 = h" "ls_revoked l0 \<noteq> None"
    using assms(4) by (auto simp: dead_token_def)
  have l: "l \<in> set (d_leases d)" "lease_active l now" using authenticated_lease_facts [OF assms(1,2)] by simp_all
  have "distinct (map ls_token_hash (d_leases d))" using assms(3) by (simp add: schema_ok_def leases_ok_def)
  then have "l0 = l" using l0(1,2) l(1) h by (auto simp: distinct_map inj_on_def)
  then show False using l0(3) l(2) by (simp add: lease_active_def)
qed

text \<open>
  C8. Revocation reaches every process and is for good. From the moment a lease is revoked in the shared
  store, by whatever means, no request is authenticated by its token again: in no interleaving, by no
  process, and not after a restart, which forgets the set of revocations kept in memory.
\<close>

theorem revocation_is_permanent:
  assumes "deployment_run sha cf s0 tr s" "schema_ok (dp_db s0)" "rows_ok sha (dp_db s0)" "recorders_typed cf"
    and "l0 \<in> set (d_leases (dp_db s0))" "ls_revoked l0 \<noteq> None"
    and "Authenticated k i ctx \<in> set tr" "au_lease ctx = Some l"
  shows "ls_token_hash l \<noteq> ls_token_hash l0"
  using assms(1,7)
proof induction
  case (run_goes_on tr s ev s')
  show ?case
  proof (cases "Authenticated k i ctx \<in> set tr")
    case False
    then have "deployment_step sha cf s (Authenticated k i ctx) s'" using run_goes_on by simp
    then obtain req now d' where auth: "authenticate sha (pc_gateway (cf k)) now req (rp_revs (dp_replicas s k)) (dp_db s) = (Inr ctx, d')"
      by cases auto
    note any = deployment_run_any [OF run_goes_on.hyps(1) assms(2-4)]
    have "dead_token (ls_token_hash l0) (dp_db s0)" using assms(5,6) by (auto simp: dead_token_def)
    then have "dead_token (ls_token_hash l0) (dp_db s)" using dead_token_evolves any by blast
    then show ?thesis using dead_token_rejected [OF auth assms(8)] any by blast
  qed (use run_goes_on.IH in simp)
qed simp


section \<open>Two processes and one request\<close>

text \<open>
  Two processes of capacity one over the sample store: the first holds the sample request at the vendor's
  and turns the next one away, the second revokes the lease by its command line.
\<close>

definition sample_config :: "nat \<Rightarrow> replica_config" where
  "sample_config k = \<lparr>pc_gateway = cheap_gateway, pc_capacity = Some 1, pc_vault = new_keyring ''k'' [],
     pc_open = (\<lambda>k n c p. Some c)\<rparr>"

definition sample_deployment :: deployment where
  "sample_deployment = \<lparr>dp_db = sample_db,
     dp_creds = [\<lparr>cr_provider = ''openai'', cr_nonce = ''n'', cr_cipher = ''vendor'', cr_created = 1, cr_updated = 1\<rparr>],
     dp_ops = sample_operators, dp_replicas = (\<lambda>_. fresh_replica)\<rparr>"

definition vendor_env :: request_env where
  "vendor_env = sample_env\<lparr>en_rid := new_id reservation_prefix [],
     en_credentials := vault_get get_credential (pc_open (sample_config 0)) (pc_vault (sample_config 0)) (dp_creds sample_deployment)\<rparr>"

definition waiting_deployment :: deployment where
  "waiting_deployment = on_replica 0 (\<lambda>r. r\<lparr>rp_slots := 1, rp_exchanges := [0 \<mapsto> AtVendor vendor_env sample_ctx
     (chat_forward_as vendor_env ''vendor'')]\<rparr>) (chat_held_db_as (en_rid vendor_env)) sample_deployment"

abbreviation vendor_forward :: forward where "vendor_forward \<equiv> chat_forward_as vendor_env ''vendor''"

lemma sample_deployment_rest: "at_rest sample_deployment"
  by (simp add: at_rest_def sample_deployment_def)

lemma sample_config_typed: "recorders_typed sample_config"
  by (simp add: recorders_typed_def sample_config_def cheap_gateway_def cheap_recorder_def new_recorder_with_options_def max_i64_def)

lemma waiting_run:
  "deployment_run drop_sha sample_config sample_deployment
     [Arrived 0 0, Authenticated 0 0 sample_ctx, Forwarded 0 0 sample_ctx vendor_forward] waiting_deployment"
proof -
  let ?s1 = "on_replica 0 (\<lambda>r. (set_exchange 0 (Admitted lease_request (BodyBytes chat_body)) r)\<lparr>rp_slots := 1\<rparr>)
      (dp_db sample_deployment) sample_deployment"
  let ?s2 = "on_replica 0 (set_exchange 0 (Identified sample_env sample_ctx lease_request (BodyBytes chat_body))) sample_db ?s1"
  let ?s3 = "on_replica 0 (set_exchange 0 (AtVendor vendor_env sample_ctx vendor_forward)) (chat_held_db_as (en_rid vendor_env)) ?s2"
  note defs = sample_deployment_def fresh_replica_def sample_config_def
  have short: "int (length (d_ledger sample_db)) < max_i64" by (simp add: sample_db_def max_i64_def)
  have "deployment_step drop_sha sample_config sample_deployment (Arrived 0 0) ?s1"
    by (rule step_arrived) (simp_all add: defs admit_def)
  then have one: "deployment_run drop_sha sample_config sample_deployment [Arrived 0 0] ?s1"
    using run_goes_on [OF run_begins] short by (fastforce simp: sample_deployment_def)
  have "deployment_step drop_sha sample_config ?s1 (Authenticated 0 0 sample_ctx) ?s2"
    by (rule step_authenticated [where req = lease_request])
      (simp_all add: defs sample_env_def chat_authenticated)
  from run_goes_on [OF one _ this] have two: "deployment_run drop_sha sample_config sample_deployment
      [Arrived 0 0, Authenticated 0 0 sample_ctx] ?s2" using short by (simp add: sample_deployment_def)
  have creds: "en_credentials vendor_env ''openai'' = Inr ''vendor''"
    by (simp add: vendor_env_def vault_get_def get_credential_def vault_decrypt_def new_keyring_def defs)
  have "deployment_step drop_sha sample_config ?s2 (Forwarded 0 0 sample_ctx vendor_forward) ?s3"
    by (rule step_forwarded [where en' = vendor_env and en = sample_env and bytes = "[]" and req = lease_request
          and body = "BodyBytes chat_body"])
      (use chat_forwarded_as [of vendor_env "''vendor''"] creds in
        \<open>simp_all add: vendor_env_def sample_env_def sample_config_def sample_deployment_def\<close>)
  from run_goes_on [OF two _ this] have "deployment_run drop_sha sample_config sample_deployment
      [Arrived 0 0, Authenticated 0 0 sample_ctx, Forwarded 0 0 sample_ctx vendor_forward] ?s3"
    using short by simp
  moreover have "?s3 = waiting_deployment"
    by (simp add: waiting_deployment_def on_replica_def set_exchange_def defs fun_eq_iff)
  ultimately show ?thesis by simp
qed

lemma in_flight_is_bounded_witness:
  "card (dom (rp_exchanges (dp_replicas waiting_deployment 0))) \<le> 1 \<and> rp_slots (dp_replicas waiting_deployment 0) = 1 \<and>
   \<not> is_ok (admit (Some 1) (rp_slots (dp_replicas waiting_deployment 0)))"
  using in_flight_is_bounded [OF waiting_run sample_deployment_rest, of 0 1]
  by (simp add: sample_config_def waiting_deployment_def)


lemma requests_at_vendor_are_held_witness:
  "\<exists>r. find_reservation (dp_db waiting_deployment) (fw_reservation vendor_forward) = Some r \<and> rv_run r = ''run_a'' \<and>
     rv_status r \<in> {ReservationPending, ReservationExpired}"
proof -
  have "rp_exchanges (dp_replicas waiting_deployment 0) 0 = Some (AtVendor vendor_env sample_ctx vendor_forward)"
    "gw_recorder (pc_gateway (sample_config 0)) = Some cheap_recorder" "fw_metered vendor_forward"
    "pr_mode (au_principal sample_ctx) = ModeEnforce" "reachable drop_sha enforced_op (dp_db sample_deployment)"
    "au_run sample_ctx = ''run_a''"
    by (simp_all add: waiting_deployment_def sample_config_def cheap_gateway_def chat_forward_as_def sample_ctx_def
        sample_principal_def sample_deployment_def sample_db_reachable)
  from requests_at_vendor_are_held [OF waiting_run sample_deployment_rest this(5) sample_config_typed this(1-4)] this(6)
  show ?thesis by metis
qed

text \<open>The store with a second lease, which the command line has revoked.\<close>

definition second_lease :: lease where
  "second_lease = sample_lease\<lparr>ls_id := ''lse_b'', ls_token_hash := ''u''\<rparr>"

definition two_leases_db :: db where
  "two_leases_db = sample_db\<lparr>d_leases := [sample_lease, second_lease\<lparr>ls_revoked := Some 4\<rparr>]\<rparr>"

lemma two_leases_reachable: "evolves sha enforced_op sample_db two_leases_db"
proof -
  let ?d1 = "sample_db\<lparr>d_leases := [sample_lease, second_lease]\<rparr>"
  have "create_lease second_lease sample_db = Some (Inr ?d1)"
    by (simp add: create_lease_def insert_lease_def sample_db_def sample_lease_def second_lease_def sample_run_def
        ancestors_def find_run_def encode_providers_def decode_providers_def)
  then have one: "evolves sha enforced_op sample_db ?d1"
    using evolves_one [OF step_create_lease, of _ _ _ enforced_op] by (simp add: sample_db_def max_i64_def)
  have "revoke_lease 4 ''lse_b'' ?d1 = Inr two_leases_db"
    by (simp add: revoke_lease_def find_lease_def two_leases_db_def sample_lease_def second_lease_def)
  then have "evolves sha enforced_op ?d1 two_leases_db"
    using evolves_one [OF step_revoke_lease, of _ _ _ _ enforced_op] by (simp add: sample_db_def max_i64_def)
  with one show ?thesis using evolves_trans by blast
qed

lemma second_lease_dead: "authenticate drop_sha cheap_gateway 5 lease_request [] two_leases_db = (Inr sample_ctx, two_leases_db)"
  by (simp add: authenticate_def lease_request_credential looks_like_lease_token_def lease_token_prefix_def
      hash_secret_def drop_sha_def lease_auth_def cheap_gateway_def sample_gateway_def revoked_def two_leases_db_def
      get_lease_by_token_hash_def sample_db_def sample_lease_def lease_active_def get_run_def find_run_def
      sample_run_def get_principal_def find_principal_def sample_principal_def sample_ctx_def)

lemma revocation_is_permanent_witness: "ls_token_hash sample_lease \<noteq> ''u''"
proof -
  let ?s0 = "sample_deployment\<lparr>dp_db := two_leases_db\<rparr>"
  let ?s1 = "on_replica 0 (\<lambda>r. (set_exchange 0 (Admitted lease_request (BodyBytes chat_body)) r)\<lparr>rp_slots := 1\<rparr>) (dp_db ?s0) ?s0"
  let ?s2 = "on_replica 0 (set_exchange 0 (Identified sample_env sample_ctx lease_request (BodyBytes chat_body))) two_leases_db ?s1"
  note defs = sample_deployment_def fresh_replica_def sample_config_def
  have short: "int (length (d_ledger two_leases_db)) < max_i64" by (simp add: two_leases_db_def sample_db_def max_i64_def)
  have "deployment_step drop_sha sample_config ?s0 (Arrived 0 0) ?s1"
    by (rule step_arrived) (simp_all add: defs admit_def)
  from run_goes_on [OF run_begins _ this] have one: "deployment_run drop_sha sample_config ?s0 [Arrived 0 0] ?s1"
    using short by simp
  have "deployment_step drop_sha sample_config ?s1 (Authenticated 0 0 sample_ctx) ?s2"
    by (rule step_authenticated [where req = lease_request]) (simp_all add: defs sample_env_def second_lease_dead)
  from run_goes_on [OF one _ this] have run: "deployment_run drop_sha sample_config ?s0
      [Arrived 0 0, Authenticated 0 0 sample_ctx] ?s2" using short by simp
  have "schema_ok (dp_db ?s0)" "rows_ok drop_sha (dp_db ?s0)"
    using evolves_schema [OF two_leases_reachable sample_db_schema]
      evolves_rows_ok [OF two_leases_reachable reachable_rows_ok [OF sample_db_reachable]] by simp_all
  from revocation_is_permanent [OF run this sample_config_typed, of "second_lease\<lparr>ls_revoked := Some 4\<rparr>" 0 0 sample_ctx sample_lease]
  show ?thesis by (simp add: two_leases_db_def sample_ctx_def second_lease_def)
qed

end
