(* ===== verification/PricingCli.thy ===== *)
theory PricingCli
  imports Flags Dashboard
begin

text \<open>
  The \<open>pricing\<close> commands (\<open>cmd/spendlease/pricing_command.go\<close>) and the loading and summary of the price
  book at startup (\<open>pricing.go\<close>). Tables and JSON are the values they print.
\<close>

section \<open>Loading the book\<close>

text \<open>
  \<open>dirs\<close> is a directory given with \<open>--pricing\<close>, absent when it cannot be read; \<open>embedded\<close> the book linked
  into the binary.
\<close>

record price_sources =
  ps_dirs :: "string \<Rightarrow> dir_entry list option"
  ps_embedded :: "dir_entry list"
  ps_yaml :: "string \<Rightarrow> price_file option"

definition load_price_book :: "(string \<Rightarrow> string) \<Rightarrow> price_sources \<Rightarrow> instant \<Rightarrow> string \<Rightarrow> pricing_error + book" where
  "load_price_book sha ps now dir =
     load (ps_yaml ps) sha (if dir \<noteq> [] then ps_dirs ps dir else Some (ps_embedded ps)) now
       \<lparr>fb_input = 0, fb_output = 0, fb_default_max = 0\<rparr> False True"

definition count_models :: "book \<Rightarrow> instant \<Rightarrow> nat" where
  "count_models b now = sum_list (map (\<lambda>p. length (book_models b p now)) (book_providers b))"

text \<open>The line printed at startup: the total and the models of each provider.\<close>

definition summarise_price_book :: "book \<Rightarrow> instant \<Rightarrow> nat \<times> (string \<times> nat) list" where
  "summarise_price_book b now =
     (count_models b now, map (\<lambda>p. (p, length (book_models b p now))) (book_providers b))"

section \<open>Dates and ages\<close>

definition day_text :: "instant \<Rightarrow> string" where
  "day_text t = date_text (nat t div 1000000000 div 86400)"

datatype pricing_cli_error =
    PricingUsage string | PricingFlags flag_error | PricingLoad pricing_error | NoActivePrice string

text \<open>\<open>time.Parse\<close> with the layout of a date alone.\<close>

definition parse_day :: "string \<Rightarrow> instant option" where
  "parse_day s =
     (case parse_date s of
        Some ((y, m, d), []) \<Rightarrow> Some (date_days y m d * 86400 * ns_per_second)
      | _ \<Rightarrow> None)"

definition parse_pricing_date :: "instant \<Rightarrow> string \<Rightarrow> pricing_cli_error + instant" where
  "parse_pricing_date now raw =
     (if trim_space raw = [] then Inr now
      else (case parse_day (trim_space raw) of
          None \<Rightarrow> Inl (PricingUsage ''-at must be YYYY-MM-DD'')
        | Some t \<Rightarrow> Inr t))"

definition age_error :: pricing_cli_error where
  "age_error = PricingUsage ''-max-age must be a positive duration such as 45d''"

text \<open>The product of \<open>time.Duration(days) * 24 * time.Hour\<close> is int64 arithmetic.\<close>

definition parse_pricing_age :: "string \<Rightarrow> pricing_cli_error + int" where
  "parse_pricing_age raw0 =
     (let raw = to_lower (trim_space raw0)
      in if has_suffix raw ''d'' then
           (case parse_int (trim_suffix raw ''d'') of
              None \<Rightarrow> Inl age_error
            | Some days \<Rightarrow> if days \<le> 0 then Inl age_error else Inr (i64 (i64 (days * 24) * 3600000000000)))
         else (case parse_duration raw of
             None \<Rightarrow> Inl age_error
           | Some age \<Rightarrow> if age \<le> 0 then Inl age_error else Inr age))"

section \<open>What the commands print\<close>

record price_entry_output =
  pe_provider :: string
  pe_model :: string
  pe_input :: string
  pe_cached :: string
  pe_write5m :: string
  pe_write1h :: string
  pe_output :: string
  pe_long_threshold :: int
  pe_long_input :: string
  pe_long_cached :: string
  pe_long_write :: string
  pe_long_output :: string
  pe_default_max :: int
  pe_effective :: string
  pe_verified :: string
  pe_source :: string
  pe_free :: bool

definition pricing_output :: "price \<Rightarrow> price_entry_output" where
  "pricing_output p =
     (let long' = (\<lambda>v. if 0 < p_long_threshold p then nanos_str v else [])
      in \<lparr>pe_provider = p_provider p, pe_model = p_model p, pe_input = nanos_str (p_input p), pe_cached = nanos_str (p_cached p),
          pe_write5m = nanos_str (p_write5m p), pe_write1h = nanos_str (p_write1h p), pe_output = nanos_str (p_output p),
          pe_long_threshold = p_long_threshold p, pe_long_input = long' (p_long_input p), pe_long_cached = long' (p_long_cached p),
          pe_long_write = long' (p_long_write p), pe_long_output = long' (p_long_output p), pe_default_max = p_default_max p,
          pe_effective = day_text (p_effective p),
          pe_verified = (if time_is_zero (p_verified p) then [] else day_text (p_verified p)),
          pe_source = p_source p, pe_free = p_free p\<rparr>)"

record provider_verification =
  pv_provider :: string
  pv_models :: int
  pv_oldest :: string
  pv_unverified :: int
  pv_future :: int
  pv_stale :: bool

record verification_output =
  vo_status :: string
  vo_as_of :: string
  vo_max_age :: string
  vo_revision :: string
  vo_providers :: "provider_verification list"
  vo_stale_models :: int

text \<open>One entry of the loop of a provider: the provider's state and the report's count of stale models.\<close>

definition stale_entry :: "instant \<Rightarrow> int \<Rightarrow> price \<Rightarrow> bool" where
  "stale_entry moment age p \<longleftrightarrow> time_is_zero (p_verified p) \<or> p_verified p < moment - age \<or> moment < p_verified p"

definition verify_entry ::
  "instant \<Rightarrow> int \<Rightarrow> provider_verification \<times> int \<Rightarrow> price \<Rightarrow> provider_verification \<times> int" where
  "verify_entry moment age acc p =
     (case acc of (s, n) \<Rightarrow>
       (let s = s\<lparr>pv_models := pv_models s + 1\<rparr>;
            s = (if time_is_zero (p_verified p) then s\<lparr>pv_unverified := pv_unverified s + 1\<rparr>
                 else if moment < p_verified p then s\<lparr>pv_future := pv_future s + 1\<rparr>
                 else if pv_oldest s = [] \<or> day_text (p_verified p) < pv_oldest s then s\<lparr>pv_oldest := day_text (p_verified p)\<rparr>
                 else s)
        in if stale_entry moment age p then (s\<lparr>pv_stale := True\<rparr>, n + 1) else (s, n)))"

definition verify_provider ::
  "instant \<Rightarrow> int \<Rightarrow> price list \<Rightarrow> provider_verification list \<times> int \<Rightarrow> string \<Rightarrow> provider_verification list \<times> int" where
  "verify_provider moment age entries acc provider =
     (case acc of (out, n) \<Rightarrow>
       (case foldl (verify_entry moment age)
            (\<lparr>pv_provider = provider, pv_models = 0, pv_oldest = [], pv_unverified = 0, pv_future = 0, pv_stale = False\<rparr>, n)
            (filter (\<lambda>p. p_provider p = provider) entries) of
          (s, n') \<Rightarrow> (if 0 < pv_models s then out @ [s] else out, n')))"

definition build_pricing_verification ::
  "(string \<Rightarrow> string) \<Rightarrow> book \<Rightarrow> instant \<Rightarrow> int \<Rightarrow> string \<Rightarrow> verification_output" where
  "build_pricing_verification sha b moment age label =
     (case foldl (verify_provider moment age (book_entries b moment)) ([], 0) (book_providers b) of
        (providers, n) \<Rightarrow>
          \<lparr>vo_status = (if 0 < n then ''stale'' else ''current''), vo_as_of = day_text moment, vo_max_age = label,
           vo_revision = md_revision (metadata sha b moment), vo_providers = providers, vo_stale_models = n\<rparr>)"

text \<open>The status a provider has in the table of \<open>pricing verify\<close>.\<close>

definition provider_row_status :: "provider_verification \<Rightarrow> string" where
  "provider_row_status s =
     (if 0 < pv_unverified s then ''stale ('' @ int_str (pv_unverified s) @ '' unverified)''
      else if 0 < pv_future s then ''invalid ('' @ int_str (pv_future s) @ '' future-dated)''
      else if pv_stale s then ''stale'' else ''current'')"

datatype pricing_printed =
    PricingHelp
  | EntryJson "price_entry_output list" | EntryTable "(string \<times> string \<times> string \<times> string \<times> string) list"
  | OneJson price_entry_output | OneText price_entry_output
  | VerificationJson verification_output | VerificationText verification_output "(string \<times> int \<times> string \<times> string) list"

definition or_text :: "string \<Rightarrow> string \<Rightarrow> string" where
  "or_text v instead = (if v = [] then instead else v)"

definition price_row :: "price_entry_output \<Rightarrow> string \<times> string \<times> string \<times> string \<times> string" where
  "price_row p =
     (pe_provider p, pe_model p, CHR ''$'' # pe_input p, CHR ''$'' # pe_output p, or_text (pe_verified p) ''unverified'')"

definition verification_row :: "provider_verification \<Rightarrow> string \<times> int \<times> string \<times> string" where
  "verification_row s = (pv_provider s, pv_models s, or_text (pv_oldest s) ''missing'', provider_row_status s)"

section \<open>The commands\<close>

text \<open>
  A command answers what it printed and the error it returned, if any: \<open>pricing verify\<close> prints its
  report and then fails for stale entries.
\<close>

datatype pricing_outcome = PricingDone pricing_printed | PricingFailed pricing_cli_error | PricingStale pricing_printed int

definition pricing_flags :: flag_set where
  "pricing_flags = [(''at'', FlagText []), (''json'', FlagBool False), (''pricing'', FlagText [])]"

definition with_book ::
  "(string \<Rightarrow> string) \<Rightarrow> price_sources \<Rightarrow> instant \<Rightarrow> flag_set \<Rightarrow> (instant \<Rightarrow> book \<Rightarrow> pricing_outcome) \<Rightarrow> pricing_outcome" where
  "with_book sha ps now fs command =
     (case parse_pricing_date now (text_flag fs ''at'') of
        Inl e \<Rightarrow> PricingFailed e
      | Inr moment \<Rightarrow>
          (case load_price_book sha ps now (text_flag fs ''pricing'') of
             Inl e \<Rightarrow> PricingFailed (PricingLoad e)
           | Inr b \<Rightarrow> command moment b))"

definition run_pricing_list :: "(string \<Rightarrow> string) \<Rightarrow> price_sources \<Rightarrow> instant \<Rightarrow> string list \<Rightarrow> pricing_outcome" where
  "run_pricing_list sha ps now args =
     (case parse_flags ((''provider'', FlagText []) # pricing_flags) args of
        Inl e \<Rightarrow> PricingFailed (PricingFlags e)
      | Inr (fs, rest) \<Rightarrow>
          if rest \<noteq> [] then PricingFailed (PricingUsage ''pricing list takes no positional arguments'')
          else with_book sha ps now fs (\<lambda>moment b.
            (let wanted = to_lower (trim_space (text_flag fs ''provider''));
                 entries = (if wanted \<noteq> [] then filter (\<lambda>p. p_provider p = wanted) (book_entries b moment)
                            else book_entries b moment);
                 out = map pricing_output entries
             in if wanted \<noteq> [] \<and> entries = [] then PricingFailed (NoActivePrice wanted)
                else if bool_flag fs ''json'' then PricingDone (EntryJson out)
                else PricingDone (EntryTable (map price_row out)))))"

definition run_pricing_show :: "(string \<Rightarrow> string) \<Rightarrow> price_sources \<Rightarrow> instant \<Rightarrow> string list \<Rightarrow> pricing_outcome" where
  "run_pricing_show sha ps now args =
     (case parse_flags pricing_flags args of
        Inl e \<Rightarrow> PricingFailed (PricingFlags e)
      | Inr (fs, [name]) \<Rightarrow>
          (case cut CHR ''/'' name of (before', after', found) \<Rightarrow>
            (let provider = to_lower (trim_space before'); model = trim_space after'
             in if \<not> found \<or> provider = [] \<or> model = []
                then PricingFailed (PricingUsage ''model must be written as PROVIDER/MODEL'')
                else with_book sha ps now fs (\<lambda>moment b.
                  (case lookup_known b provider model moment of
                     None \<Rightarrow> PricingFailed (NoActivePrice name)
                   | Some p \<Rightarrow>
                       PricingDone (if bool_flag fs ''json'' then OneJson (pricing_output p) else OneText (pricing_output p))))))
      | Inr (fs, _) \<Rightarrow> PricingFailed (PricingUsage ''pricing show requires PROVIDER/MODEL''))"

definition run_pricing_verify :: "(string \<Rightarrow> string) \<Rightarrow> price_sources \<Rightarrow> instant \<Rightarrow> string list \<Rightarrow> pricing_outcome" where
  "run_pricing_verify sha ps now args =
     (case parse_flags ((''max-age'', FlagText ''45d'') # pricing_flags) args of
        Inl e \<Rightarrow> PricingFailed (PricingFlags e)
      | Inr (fs, rest) \<Rightarrow>
          if rest \<noteq> [] then PricingFailed (PricingUsage ''pricing verify takes no positional arguments'')
          else (case parse_pricing_age (text_flag fs ''max-age'') of
              Inl e \<Rightarrow> PricingFailed e
            | Inr age \<Rightarrow>
                with_book sha ps now fs (\<lambda>moment b.
                  (let report = build_pricing_verification sha b moment age (text_flag fs ''max-age'');
                       out = (if bool_flag fs ''json'' then VerificationJson report
                              else VerificationText report (map verification_row (vo_providers report)))
                   in if 0 < vo_stale_models report then PricingStale out (vo_stale_models report) else PricingDone out))))"

definition run_pricing :: "(string \<Rightarrow> string) \<Rightarrow> price_sources \<Rightarrow> instant \<Rightarrow> string list \<Rightarrow> pricing_outcome" where
  "run_pricing sha ps now args =
     (case args of
        [] \<Rightarrow> PricingFailed (PricingUsage ''expected list, show, or verify'')
      | sub # rest \<Rightarrow>
          if sub = ''list'' then run_pricing_list sha ps now rest
          else if sub = ''show'' then run_pricing_show sha ps now rest
          else if sub = ''verify'' then run_pricing_verify sha ps now rest
          else if sub \<in> {''help'', ''-h'', ''--help''} then PricingDone PricingHelp
          else PricingFailed (PricingUsage ''unknown pricing command''))"

section \<open>The verification is exact\<close>

lemma indicator_sum: "distinct xs \<Longrightarrow> sum_list (map (\<lambda>x. if y = x then 1 else 0) xs) = (if y \<in> set xs then 1 else 0 :: nat)"
  by (induction xs) auto

lemma count_by_key:
  assumes "distinct xs" "\<And>e. e \<in> set es \<Longrightarrow> k e \<in> set xs"
  shows "sum_list (map (\<lambda>x. length (filter (\<lambda>e. k e = x) es)) xs) = length es"
  using assms(2)
proof (induction es)
  case (Cons e es)
  have "sum_list (map (\<lambda>x. length (filter (\<lambda>e. k e = x) (e # es))) xs) =
      sum_list (map (\<lambda>x. (if k e = x then 1 else 0) + length (filter (\<lambda>e. k e = x) es)) xs)"
    by (rule arg_cong [of _ _ sum_list], rule map_cong) auto
  then show ?case using Cons indicator_sum [OF assms(1), of "k e"] by (simp add: sum_list_addf)
qed simp

lemma verify_entries:
  "foldl (verify_entry moment age) (s, n) es = (s', n') \<Longrightarrow>
     n' = n + int (length (filter (stale_entry moment age) es)) \<and> pv_models s' = pv_models s + int (length es) \<and>
     pv_provider s' = pv_provider s \<and> (pv_stale s' \<longleftrightarrow> pv_stale s \<or> list_ex (stale_entry moment age) es)"
proof (induction es arbitrary: s n)
  case (Cons e es)
  obtain s1 n1 where one: "verify_entry moment age (s, n) e = (s1, n1)" by fastforce
  from one have "n1 = n + (if stale_entry moment age e then 1 else 0)" "pv_models s1 = pv_models s + 1"
    "pv_provider s1 = pv_provider s" "pv_stale s1 \<longleftrightarrow> pv_stale s \<or> stale_entry moment age e"
    by (auto simp: verify_entry_def Let_def split: if_splits)
  with Cons.IH [of s1 n1] Cons.prems one show ?case by auto
qed simp

definition provider_ok :: "instant \<Rightarrow> int \<Rightarrow> price list \<Rightarrow> provider_verification \<Rightarrow> bool" where
  "provider_ok moment age entries s \<longleftrightarrow>
     (let mine = filter (\<lambda>p. p_provider p = pv_provider s) entries
      in mine \<noteq> [] \<and> pv_models s = int (length mine) \<and> (pv_stale s \<longleftrightarrow> list_ex (stale_entry moment age) mine))"

lemma verify_providers:
  assumes "foldl (verify_provider moment age entries) (out, n) ps = (out', n')"
  shows "n' = n + int (sum_list (map (\<lambda>x. length (filter (\<lambda>e. p_provider e = x) (filter (stale_entry moment age) entries))) ps)) \<and>
    (\<exists>fresh. out' = out @ fresh \<and> list_all (provider_ok moment age entries) fresh \<and>
       map pv_provider fresh = filter (\<lambda>x. \<exists>e \<in> set entries. p_provider e = x) ps)"
  using assms
proof (induction ps arbitrary: out n)
  case (Cons p ps)
  let ?mine = "filter (\<lambda>e. p_provider e = p) entries"
  let ?start = "\<lparr>pv_provider = p, pv_models = 0, pv_oldest = [], pv_unverified = 0, pv_future = 0, pv_stale = False\<rparr>"
  obtain s n1 where mine: "foldl (verify_entry moment age) (?start, n) ?mine = (s, n1)" by fastforce
  note facts = verify_entries [OF mine]
  have "filter (stale_entry moment age) ?mine = filter (\<lambda>e. p_provider e = p) (filter (stale_entry moment age) entries)"
    by (simp add: conj_commute)
  with facts have n1: "n1 = n + int (length (filter (\<lambda>e. p_provider e = p) (filter (stale_entry moment age) entries)))" by simp
  let ?out = "if ?mine \<noteq> [] then out @ [s] else out"
  have "verify_provider moment age entries (out, n) p = (?out, n1)"
    using mine facts by (auto simp: verify_provider_def)
  with Cons.prems have rest: "foldl (verify_provider moment age entries) (?out, n1) ps = (out', n')" by simp
  from Cons.IH [OF rest] obtain fresh where fresh: "out' = ?out @ fresh" "list_all (provider_ok moment age entries) fresh"
      "map pv_provider fresh = filter (\<lambda>x. \<exists>e \<in> set entries. p_provider e = x) ps"
    and n': "n' = n1 + int (sum_list (map (\<lambda>x. length (filter (\<lambda>e. p_provider e = x) (filter (stale_entry moment age) entries))) ps))"
    by blast
  have used: "?mine \<noteq> [] \<longleftrightarrow> (\<exists>e \<in> set entries. p_provider e = p)" by (auto simp: filter_empty_conv)
  show ?case
  proof (cases "?mine = []")
    case True
    with fresh n' n1 used show ?thesis by auto
  next
    case False
    with facts have "provider_ok moment age entries s" by (simp add: provider_ok_def)
    with False fresh n' n1 used facts show ?thesis by (intro conjI exI [of _ "s # fresh"]) auto
  qed
qed simp

lemma known_provider: "lookup_known b provider model moment = Some p \<Longrightarrow> p_provider p = provider"
proof -
  have "lookup_files provider model moment fs = Some p \<Longrightarrow> p_provider p = provider" for fs
    by (induction fs) (auto dest: file_price_effective split: if_splits option.splits)
  then show "lookup_known b provider model moment = Some p \<Longrightarrow> p_provider p = provider"
    by (auto simp: lookup_known_def split: option.splits)
qed

lemma book_entry_provider: "e \<in> set (book_entries b moment) \<Longrightarrow> p_provider e \<in> set (book_providers b)"
  by (fastforce simp: book_entries_def map_filter_def dest: known_provider)

lemma distinct_providers: "distinct (book_providers b)"
  by (auto simp: book_providers_def split: option.split)

text \<open>
  \<open>pricing verify\<close> counts exactly the active entries without a verification, verified longer ago than
  the age allowed or in the future; its status is current, and its exit is a success, when there are
  none. Each provider with active entries is reported once, in order, with all its entries counted and
  stale exactly when one of them is.
\<close>

theorem price_verification_is_exact:
  assumes "build_pricing_verification sha b moment age label = report"
  shows "vo_stale_models report = int (length (filter (stale_entry moment age) (book_entries b moment)))"
    and "vo_status report = ''current'' \<longleftrightarrow> list_all (\<lambda>p. \<not> stale_entry moment age p) (book_entries b moment)"
    and "map pv_provider (vo_providers report) =
      filter (\<lambda>x. \<exists>e \<in> set (book_entries b moment). p_provider e = x) (book_providers b)"
    and "list_all (provider_ok moment age (book_entries b moment)) (vo_providers report)"
proof -
  let ?entries = "book_entries b moment"
  obtain out n where run: "foldl (verify_provider moment age ?entries) ([], 0) (book_providers b) = (out, n)" by fastforce
  from verify_providers [OF run] have n: "n = int (sum_list (map (\<lambda>x. length (filter (\<lambda>e. p_provider e = x)
        (filter (stale_entry moment age) ?entries))) (book_providers b)))"
    and out: "list_all (provider_ok moment age ?entries) out"
      "map pv_provider out = filter (\<lambda>x. \<exists>e \<in> set ?entries. p_provider e = x) (book_providers b)" by auto
  have "sum_list (map (\<lambda>x. length (filter (\<lambda>e. p_provider e = x) (filter (stale_entry moment age) ?entries))) (book_providers b)) =
      length (filter (stale_entry moment age) ?entries)"
    by (rule count_by_key [OF distinct_providers]) (auto dest: book_entry_provider)
  then have count: "n = int (length (filter (stale_entry moment age) ?entries))" unfolding n by (rule arg_cong)
  have report: "vo_stale_models report = n" "vo_providers report = out" "vo_status report = (if 0 < n then ''stale'' else ''current'')"
    using assms run by (auto simp: build_pricing_verification_def)
  show "vo_stale_models report = int (length (filter (stale_entry moment age) ?entries))" using report count by simp
  show "vo_status report = ''current'' \<longleftrightarrow> list_all (\<lambda>p. \<not> stale_entry moment age p) ?entries"
    using report(3) count by (simp add: filter_empty_conv list_all_iff)
  show "map pv_provider (vo_providers report) = filter (\<lambda>x. \<exists>e \<in> set ?entries. p_provider e = x) (book_providers b)"
    using report out by simp
  show "list_all (provider_ok moment age ?entries) (vo_providers report)" using report out by simp
qed

text \<open>A book with one model whose file was never verified.\<close>

definition unverified_book :: book where
  "unverified_book = empty_book\<lparr>b_snapshot := Some \<lparr>sn_files = [sample_file 2], sn_loaded_at = 9\<rparr>\<rparr>"

lemma price_verification_is_exact_witness:
  "vo_status (build_pricing_verification id unverified_book 9 5 ''5ns'') \<noteq> ''current'' \<and>
   vo_stale_models (build_pricing_verification id unverified_book 9 5 ''5ns'') = 1"
proof -
  have "length (filter (stale_entry 9 5) (book_entries unverified_book 9)) = 1" by code_simp
  moreover have "\<not> list_all (\<lambda>p. \<not> stale_entry 9 5 p) (book_entries unverified_book 9)" by code_simp
  ultimately show ?thesis
    using price_verification_is_exact(1,2) [OF refl, of id unverified_book 9 5 "''5ns''"] by simp
qed

text \<open>An age beyond the range of a duration wraps: about 585 years come out as 25 minutes.\<close>

theorem long_ages_wrap: "parse_pricing_age ''213504d'' = Inr 1526290448384"
proof -
  have "trim_space ''213504d'' = ''213504d''" by code_simp
  then show ?thesis
    by (simp add: parse_pricing_age_def to_lower_def has_suffix_def trim_suffix_def parse_int_def digits_val_def
        is_digit_def digit_val_def in_i64_def max_i64_def min_i64_def i64_def Let_def)
qed

end
