(* ===== verification/Serve.thy ===== *)
theory Serve
  imports Cli PricingCli
begin

text \<open>
  Starting the gateway (\<open>cmd/spendlease/serve.go\<close>): the flags, the checks in their order, what each step
  touches, and what the operator is told; and the command table with its exit codes (\<open>main.go\<close>). The
  listener, signals and the shutdown are left out: \<open>startup\<close> ends where the server would listen.
\<close>

section \<open>Checks\<close>

definition parse_log_level :: "string \<Rightarrow> cli_error + log_level" where
  "parse_log_level s =
     (if s = ''debug'' then Inr LogDebug else if s = ''info'' then Inr LogInfo
      else if s = ''warn'' then Inr LogWarn else if s = ''error'' then Inr LogError
      else Inl (UsageError ''log level is not debug, info, warn or error''))"

text \<open>\<open>url.Parse\<close>: scheme, host and whether the URL has user information; absent on an error.\<close>

type_synonym url_parser = "string \<Rightarrow> (string \<times> string \<times> bool) option"

definition webhook_error :: cli_error where
  "webhook_error = UsageError ''alert webhook must be an http(s) URL without embedded credentials''"

definition validate_alert_webhook :: "url_parser \<Rightarrow> string \<Rightarrow> string \<Rightarrow> bool \<Rightarrow> cli_error + unit" where
  "validate_alert_webhook parse_url raw secret production =
     (if raw = [] then
        (if secret \<noteq> [] then Inl (Refusal ''an alert secret is set but the webhook is empty'') else Inr ())
      else (case parse_url raw of
          None \<Rightarrow> Inl webhook_error
        | Some (scheme, host, user) \<Rightarrow>
            if host = [] \<or> scheme \<notin> {''http'', ''https''} \<or> user then Inl webhook_error
            else if production \<and> scheme \<noteq> ''https'' then Inl (UsageError ''the webhook must use HTTPS in production'')
            else if production \<and> secret = [] then
              Inl (UsageError ''a secret is required when production alert delivery is enabled'')
            else Inr ()))"

text \<open>\<open>observability.New\<close>: the alert service, with a queue when there is a webhook.\<close>

definition new_telemetry :: "url_parser \<Rightarrow> string \<Rightarrow> cli_error + alert_service" where
  "new_telemetry parse_url raw =
     (if trim_space raw = [] then Inr (new_service False)
      else (case parse_url (trim_space raw) of
          None \<Rightarrow> Inl (Refusal ''observability: bad webhook'')
        | Some (scheme, host, user) \<Rightarrow>
            if scheme \<notin> {''http'', ''https''} \<or> host = [] \<or> user then Inl (Refusal ''observability: bad webhook'')
            else Inr (new_service True)))"

definition bound_to_loopback :: "string \<Rightarrow> bool" where
  "bound_to_loopback addr =
     (let host = (case split_host_port addr of None \<Rightarrow> addr | Some (h, _) \<Rightarrow> h)
      in host = ''localhost'' \<or> host = ''[::1]'' \<or>
         (case parse_ip (trim_set {CHR ''['', CHR '']''} host) of None \<Rightarrow> False | Some ip \<Rightarrow> ip_is_loopback ip))"

datatype access_warning = NoWarning | NetworkWarning | LegacyTokenWarning

definition operator_dashboard_warning :: "string \<Rightarrow> nat \<Rightarrow> string \<Rightarrow> access_warning" where
  "operator_dashboard_warning addr active admin_token =
     (if bound_to_loopback addr \<or> active = 0 \<and> admin_token = [] then NoWarning
      else if admin_token = [] then NetworkWarning else LegacyTokenWarning)"

datatype access_report = LocalOnly | NoOperatorYet | OperatorsRequired | LegacyTokenRequired

definition report_operator_access :: "string \<Rightarrow> nat \<Rightarrow> string \<Rightarrow> access_report" where
  "report_operator_access addr active admin_token =
     (if bound_to_loopback addr then LocalOnly
      else if active = 0 \<and> admin_token = [] then NoOperatorYet
      else if 0 < active then OperatorsRequired else LegacyTokenRequired)"

text \<open>The providers named at startup for having no key.\<close>

definition unconfigured :: "string list \<Rightarrow> string list \<Rightarrow> string list" where
  "unconfigured known_names configured = filter (\<lambda>n. n \<notin> set configured) known_names"

text \<open>\<open>redactStore\<close>, with \<open>strings.Cut\<close> at a separator of several bytes.\<close>

fun cut_text :: "string \<Rightarrow> string \<Rightarrow> (string \<times> string) option" where
  "cut_text sep [] = (if sep = [] then Some ([], []) else None)"
| "cut_text sep (c # s) =
     (if has_prefix (c # s) sep then Some ([], drop (length sep) (c # s))
      else map_option (\<lambda>(a, b). (c # a, b)) (cut_text sep s))"

definition redact_store :: "string \<Rightarrow> string" where
  "redact_store dsn =
     (case cut_text ''://'' dsn of
        None \<Rightarrow> dsn
      | Some (scheme, rest) \<Rightarrow>
          scheme @ ''://'' @ (case cut_last CHR ''@'' rest of None \<Rightarrow> rest | Some (_, after) \<Rightarrow> ''***@'' @ after))"

section \<open>Flags\<close>

definition minutes :: "int \<Rightarrow> int" where "minutes n = n * 60 * ns_per_second"

definition env_webhook :: string where "env_webhook = ''SPENDLEASE_ALERT_WEBHOOK''"
definition env_webhook_secret :: string where "env_webhook_secret = ''SPENDLEASE_ALERT_WEBHOOK_SECRET''"

text \<open>The timeouts, which must all be positive; a range over a Go map finds a bad one in any order.\<close>

definition timeout_flags :: flag_set where
  "timeout_flags =
     [(''request-read-timeout'', FlagDuration (30 * ns_per_second)),
      (''upstream-connect-timeout'', FlagDuration (10 * ns_per_second)),
      (''upstream-header-timeout'', FlagDuration (minutes 5)), (''upstream-timeout'', FlagDuration (minutes 10))]"

definition compatible_names :: "string list" where
  "compatible_names = [''kimi'', ''deepseek'', ''xai'', ''gemini'', ''zai'']"

definition url_flags :: flag_set where
  "url_flags =
     [(''openai-url'', FlagText ''https://api.openai.com''), (''anthropic-url'', FlagText ''https://api.anthropic.com''),
      (''kimi-url'', FlagText ''https://api.moonshot.ai''), (''deepseek-url'', FlagText ''https://api.deepseek.com''),
      (''xai-url'', FlagText ''https://api.x.ai''), (''gemini-url'', FlagText ''https://generativelanguage.googleapis.com''),
      (''zai-url'', FlagText ''https://api.z.ai'')]"

definition serve_flags :: "cli_env \<Rightarrow> flag_set" where
  "serve_flags en =
     [(''addr'', FlagText '':4000''), (''pricing'', FlagText []), (''enforcement-policy'', FlagText ''strict''),
      (''default-run-budget'', FlagText ''10.00''), (''reservation-ttl'', FlagDuration (minutes 15)),
      (''reservation-sweep-interval'', FlagDuration default_sweep_interval), (''admin-token'', FlagText []),
      (''alert-webhook'', FlagText (trim_space (getenv en env_webhook))), (''max-inflight'', FlagInt 256),
      (''log-level'', FlagText ''info'')] @ timeout_flags @ url_flags"

section \<open>Starting\<close>

record running =
  up_addr :: string
  up_level :: log_level
  up_registry :: registry
  up_recorder :: recorder
  up_sweep :: int
  up_inflight :: int
  up_keys :: master_keys
  up_verified :: nat
  up_admin_token :: string
  up_active_operators :: nat
  up_telemetry :: alert_service
  up_warning :: access_warning
  up_access :: access_report
  up_missing :: "string list"

fun compatible_adapters :: "(string \<Rightarrow> bool) \<Rightarrow> flag_set \<Rightarrow> string list \<Rightarrow> cli_error + provider list" where
  "compatible_adapters url_ok fs [] = Inr []"
| "compatible_adapters url_ok fs (name # names) =
     (case new_compatible url_ok name (text_flag fs (name @ ''-url'')) of
        Inl _ \<Rightarrow> Inl (Refusal (''invalid -'' @ name @ ''-url''))
      | Inr p \<Rightarrow> (case compatible_adapters url_ok fs names of Inl e \<Rightarrow> Inl e | Inr ps \<Rightarrow> Inr (p # ps)))"

definition serve_registry :: "(string \<Rightarrow> bool) \<Rightarrow> flag_set \<Rightarrow> cli_error + registry" where
  "serve_registry url_ok fs =
     (if \<not> url_ok (text_flag fs ''openai-url'') then Inl (Refusal ''invalid -openai-url'')
      else if \<not> url_ok (text_flag fs ''anthropic-url'') then Inl (Refusal ''invalid -anthropic-url'')
      else (case compatible_adapters url_ok fs compatible_names of
          Inl e \<Rightarrow> Inl e
        | Inr ps \<Rightarrow>
            (case new_registry (OpenAI ''openai'' (text_flag fs ''openai-url'') # Anthropic (text_flag fs ''anthropic-url'') # ps) of
               Inl _ \<Rightarrow> Inl (Refusal ''providers'')
             | Inr r \<Rightarrow> Inr r)))"

definition policy_of_text :: "string \<Rightarrow> enforcement_policy" where
  "policy_of_text s =
     (if s = ''strict'' then EnforcementStrict else if s = ''best-effort'' then EnforcementBestEffort else PolicyOther s)"

text \<open>What is checked before anything is touched: the configuration as far as it is known then.\<close>

record checked =
  ck_level :: log_level
  ck_registry :: registry
  ck_book :: book
  ck_policy :: enforcement_policy

definition check_serve ::
  "(string \<Rightarrow> string) \<Rightarrow> price_sources \<Rightarrow> url_parser \<Rightarrow> cli_env \<Rightarrow> flag_set \<Rightarrow> cli_error + checked" where
  "check_serve sha ps parse_url en fs =
     (case parse_log_level (text_flag fs ''log-level'') of
        Inl e \<Rightarrow> Inl e
      | Inr level \<Rightarrow>
          (case serve_registry (\<lambda>raw. parse_url raw \<noteq> None) fs of
             Inl e \<Rightarrow> Inl e
           | Inr reg \<Rightarrow>
               (case load_price_book sha ps (ce_now en) (text_flag fs ''pricing'') of
                  Inl _ \<Rightarrow> Inl (Refusal ''loading the price book'')
                | Inr b \<Rightarrow>
                    (let policy = policy_of_text (to_lower (trim_space (text_flag fs ''enforcement-policy'')))
                     in if \<not> policy_valid policy then
                          Inl (UsageError ''-enforcement-policy must be strict or best-effort'')
                        else if number_flag fs ''reservation-ttl'' \<le> 0 then Inl (UsageError ''-reservation-ttl must be positive'')
                        else if number_flag fs ''reservation-sweep-interval'' \<le> 0 then
                          Inl (UsageError ''-reservation-sweep-interval must be positive'')
                        else if number_flag fs ''max-inflight'' < 0 then Inl (UsageError ''-max-inflight cannot be negative'')
                        else if list_ex (\<lambda>(name, _). number_flag fs name \<le> 0) timeout_flags then
                          Inl (UsageError ''a timeout must be positive'')
                        else (case validate_alert_webhook parse_url (text_flag fs ''alert-webhook'')
                                 (trim_space (getenv en env_webhook_secret)) (in_production en) of
                            Inl e \<Rightarrow> Inl e
                          | Inr _ \<Rightarrow> Inr \<lparr>ck_level = level, ck_registry = reg, ck_book = b, ck_policy = policy\<rparr>)))))"

text \<open>What follows the opening of the store.\<close>

definition start_services ::
  "aead_open \<Rightarrow> url_parser \<Rightarrow> cli_env \<Rightarrow> flag_set \<Rightarrow> checked \<Rightarrow> master_keys \<Rightarrow> cli_world \<Rightarrow> cli_error + running" where
  "start_services unseal parse_url en fs ck keys w =
     (case vault_verify unseal (new_keyring (mk_primary keys) (mk_previous keys)) (cw_creds w) of
        Inl e \<Rightarrow> Inl (VaultFailed e)
      | Inr verified \<Rightarrow>
          (case parse_usd (text_flag fs ''default-run-budget'') of
             Inl _ \<Rightarrow> Inl (UsageError ''invalid -default-run-budget'')
           | Inr budget \<Rightarrow>
               (let token = resolve_admin_token en (text_flag fs ''admin-token'');
                    active = length (filter op_active (list_operators (cw_ops w)));
                    addr = text_flag fs ''addr''
                in case new_telemetry parse_url (text_flag fs ''alert-webhook'') of
                     Inl e \<Rightarrow> Inl e
                   | Inr telemetry \<Rightarrow>
                       Inr \<lparr>up_addr = addr, up_level = ck_level ck, up_registry = ck_registry ck,
                         up_recorder = new_recorder_with_options (ck_book ck) budget (number_flag fs ''reservation-ttl'') (ck_policy ck),
                         up_sweep = number_flag fs ''reservation-sweep-interval'', up_inflight = number_flag fs ''max-inflight'',
                         up_keys = keys, up_verified = verified, up_admin_token = token, up_active_operators = active,
                         up_telemetry = telemetry, up_warning = operator_dashboard_warning addr active token,
                         up_access = report_operator_access addr active token,
                         up_missing = unconfigured (registry_names (ck_registry ck)) (list_credential_providers (cw_creds w))\<rparr>)))"

text \<open>
  \<open>runServe\<close> up to the listener: the running gateway or the error, the world, and whether the store was
  opened, which migrates it.
\<close>

definition startup ::
  "(string \<Rightarrow> string) \<Rightarrow> aead_open \<Rightarrow> price_sources \<Rightarrow> url_parser \<Rightarrow> cli_env \<Rightarrow> string list \<Rightarrow> cli_world \<Rightarrow>
     (cli_error + running) \<times> cli_world \<times> bool" where
  "startup sha unseal ps parse_url en args w =
     (case parse_flags (store_flag en @ serve_flags en) args of
        Inl e \<Rightarrow> (Inl (FlagFailed e), w, False)
      | Inr (fs, _) \<Rightarrow>
          (case check_serve sha ps parse_url en fs of
             Inl e \<Rightarrow> (Inl e, w, False)
           | Inr ck \<Rightarrow>
               (case resolve_master_keys en (text_flag fs ''store'') w of
                  (Inl e, w') \<Rightarrow> (Inl e, w', False)
                | (Inr keys, w') \<Rightarrow>
                    if \<not> ce_opens en (text_flag fs ''store'') then (Inl CannotOpen, w', False)
                    else (start_services unseal parse_url en fs ck keys w', w', True))))"

section \<open>The command table\<close>

fun error_exit :: "cli_error \<Rightarrow> int" where
  "error_exit (UsageError _) = 2"
| "error_exit (FlagFailed e) = (if e = HelpWanted then 0 else 1)"
| "error_exit _ = 1"

definition pricing_exit :: "pricing_outcome \<Rightarrow> int" where
  "pricing_exit outcome =
     (case outcome of
        PricingDone _ \<Rightarrow> 0
      | PricingStale _ _ \<Rightarrow> 1
      | PricingFailed (PricingUsage _) \<Rightarrow> 2
      | PricingFailed (PricingFlags e) \<Rightarrow> (if e = HelpWanted then 0 else 1)
      | PricingFailed _ \<Rightarrow> 1)"

definition result_exit :: "cli_error + 'a \<Rightarrow> int" where
  "result_exit r = (case r of Inl e \<Rightarrow> error_exit e | Inr _ \<Rightarrow> 0)"

text \<open>
  \<open>run\<close>: the exit code and the world. The demo and a server that was started are arguments, for what
  happens once they run.
\<close>

record externals =
  ex_sha :: "string \<Rightarrow> string"
  ex_seal :: aead_seal
  ex_open :: aead_open
  ex_numbers :: "string \<Rightarrow> (string \<times> string) list option"
  ex_csv :: "string \<Rightarrow> string list option list"
  ex_prices :: price_sources
  ex_url :: url_parser
  ex_serve :: "running \<Rightarrow> cli_world \<Rightarrow> (cli_error + unit) \<times> cli_world"
  ex_demo :: "string list \<Rightarrow> cli_error + unit"

definition run_command :: "externals \<Rightarrow> cli_env \<Rightarrow> string list \<Rightarrow> cli_world \<Rightarrow> int \<times> cli_world" where
  "run_command ex en args w =
     (case args of
        [] \<Rightarrow> (2, w)
      | cmd # rest \<Rightarrow>
          if cmd = ''serve'' then
            (case startup (ex_sha ex) (ex_open ex) (ex_prices ex) (ex_url ex) en rest w of
               (Inl e, w', _) \<Rightarrow> (error_exit e, w')
             | (Inr up, w', _) \<Rightarrow> (case ex_serve ex up w' of (r, w'') \<Rightarrow> (result_exit r, w'')))
          else if cmd = ''demo'' then (result_exit (ex_demo ex rest), w)
          else if cmd = ''keys'' then
            (case run_keys (ex_sha ex) (ex_seal ex) (ex_open ex) en rest w of (r, w') \<Rightarrow> (result_exit r, w'))
          else if cmd = ''ledger'' then
            (case run_ledger (ex_sha ex) (ex_numbers ex) (ex_csv ex) en rest w of (r, w') \<Rightarrow> (result_exit r, w'))
          else if cmd = ''pricing'' then (pricing_exit (run_pricing (ex_sha ex) (ex_prices ex) (ce_now en) rest), w)
          else if cmd = ''version'' then (if rest = [] then 0 else 2, w)
          else if cmd \<in> {''help'', ''-h'', ''--help''} then (0, w)
          else (2, w))"

section \<open>What a start has checked\<close>

lemma verify_each_opens:
  "verify_each unseal v t names = Inr u \<Longrightarrow>
     \<forall>name \<in> set names. \<exists>c. get_credential t name = Inr c \<and> vault_decrypt unseal v c \<noteq> None"
  by (induction names) (auto split: sum.splits option.splits)

lemma verified_credentials:
  assumes "vault_verify unseal v t = Inr n" "one_row_each t"
  shows "n = length t \<and> list_all (\<lambda>c. vault_decrypt unseal v c \<noteq> None) t"
proof -
  let ?names = "list_credential_providers t"
  have n: "n = length ?names" and each: "verify_each unseal v t ?names = Inr ()"
    using assms(1) by (auto simp: vault_verify_def Let_def split: sum.splits)
  have "vault_decrypt unseal v c \<noteq> None" if c: "c \<in> set t" for c
  proof -
    have "cr_provider c \<in> set ?names" using c by (simp add: list_credential_providers_def)
    then obtain c' where c': "get_credential t (cr_provider c) = Inr c'" "vault_decrypt unseal v c' \<noteq> None"
      using verify_each_opens [OF each] by blast
    then have "c' \<in> set t" "cr_provider c' = cr_provider c"
      by (auto simp: get_credential_def dest!: find_SomeD split: option.splits)
    then have "c' = c" using assms(2) c by (auto simp: one_row_each_def distinct_map inj_on_def)
    with c'(2) show ?thesis by simp
  qed
  then show ?thesis using n by (auto simp: list_all_iff list_credential_providers_def)
qed

lemma resolved_keys:
  assumes "resolve_master_keys en path w = (Inr keys, w')"
  shows "mk_explicit keys \<and> w' = w \<or> \<not> mk_explicit keys \<and> \<not> in_production en \<and> \<not> is_postgres_dsn path"
  using assms by (auto simp: resolve_master_keys_def Let_def split: sum.splits if_splits prod.splits)

lemma startup_cases:
  assumes "startup sha unseal ps parse_url en args w = (r, w', opened)"
  obtains (flags) e where "parse_flags (store_flag en @ serve_flags en) args = Inl e" "r = Inl (FlagFailed e)" "w' = w" "\<not> opened"
    | (config) fs rest e where "parse_flags (store_flag en @ serve_flags en) args = Inr (fs, rest)"
        "check_serve sha ps parse_url en fs = Inl e" "r = Inl e" "w' = w" "\<not> opened"
    | (keys) fs rest ck e where "parse_flags (store_flag en @ serve_flags en) args = Inr (fs, rest)"
        "check_serve sha ps parse_url en fs = Inr ck" "resolve_master_keys en (text_flag fs ''store'') w = (Inl e, w')"
        "r = Inl e" "\<not> opened"
    | (store) fs rest ck keys where "parse_flags (store_flag en @ serve_flags en) args = Inr (fs, rest)"
        "check_serve sha ps parse_url en fs = Inr ck" "resolve_master_keys en (text_flag fs ''store'') w = (Inr keys, w')"
        "\<not> ce_opens en (text_flag fs ''store'')" "r = Inl CannotOpen" "\<not> opened"
    | (services) fs rest ck keys where "parse_flags (store_flag en @ serve_flags en) args = Inr (fs, rest)"
        "check_serve sha ps parse_url en fs = Inr ck" "resolve_master_keys en (text_flag fs ''store'') w = (Inr keys, w')"
        "ce_opens en (text_flag fs ''store'')" "r = start_services unseal parse_url en fs ck keys w'" opened
  using assms by (fastforce simp: startup_def split: sum.splits prod.splits if_splits)

lemma startup_tables: "startup sha unseal ps parse_url en args w = (r, w', opened) \<Longrightarrow> same_tables w w'"
  by (erule startup_cases) (auto dest: resolve_master_keys_tables)

lemma checked_config:
  assumes "check_serve sha ps parse_url en fs = Inr ck"
  shows "policy_valid (ck_policy ck) \<and> 0 < number_flag fs ''reservation-ttl'' \<and>
    validate_alert_webhook parse_url (text_flag fs ''alert-webhook'') (trim_space (getenv en env_webhook_secret)) (in_production en) = Inr ()"
  using assms by (auto simp: check_serve_def Let_def split: sum.splits if_splits)

text \<open>
  A start that is refused for its flags or its configuration touches nothing: no key file is
  generated and the store is not opened. Whatever the error, the tables are as they were, and anything
  else was only touched after the whole configuration of \<open>check_serve\<close> had been accepted.
\<close>

theorem refused_start_touches_nothing:
  assumes "startup sha unseal ps parse_url en args w = (Inl e, w', opened)"
  shows "same_tables w w' \<and>
    (w' = w \<and> \<not> opened \<or>
     (\<exists>fs rest ck. parse_flags (store_flag en @ serve_flags en) args = Inr (fs, rest) \<and>
        check_serve sha ps parse_url en fs = Inr ck))"
  using startup_tables [OF assms] assms by (elim startup_cases) auto

definition hardened :: "url_parser \<Rightarrow> cli_env \<Rightarrow> flag_set \<Rightarrow> bool" where
  "hardened parse_url en fs \<longleftrightarrow>
     (text_flag fs ''alert-webhook'' = [] \<or>
      (\<exists>host. parse_url (text_flag fs ''alert-webhook'') = Some (''https'', host, False) \<and> host \<noteq> [] \<and>
         trim_space (getenv en env_webhook_secret) \<noteq> []))"

text \<open>
  C34. A gateway that starts enforces a valid policy with a positive reservation lifetime and can decrypt
  every stored vendor credential. In production it runs under a master key that was supplied rather than
  generated, having written nothing, and sends alerts, if at all, over HTTPS and signed.
\<close>

theorem production_start_is_hardened:
  assumes "startup sha unseal ps parse_url en args w = (Inr up, w', opened)" and "one_row_each (cw_creds w)"
  shows "policy_valid (rc_policy (up_recorder up)) \<and> 0 < rc_ttl (up_recorder up) \<and>
    up_verified up = length (cw_creds w) \<and>
    list_all (\<lambda>c. vault_decrypt unseal (new_keyring (mk_primary (up_keys up)) (mk_previous (up_keys up))) c \<noteq> None) (cw_creds w) \<and>
    (in_production en \<longrightarrow> mk_explicit (up_keys up) \<and> w' = w \<and>
       (\<exists>fs rest. parse_flags (store_flag en @ serve_flags en) args = Inr (fs, rest) \<and> hardened parse_url en fs))"
  using assms(1)
proof (cases rule: startup_cases)
  case (services fs rest ck keys)
  let ?v = "new_keyring (mk_primary keys) (mk_previous keys)"
  from services(5) [symmetric] obtain verified budget where
    up: "vault_verify unseal ?v (cw_creds w') = Inr verified" "up_keys up = keys" "up_verified up = verified"
      "up_recorder up = new_recorder_with_options (ck_book ck) budget (number_flag fs ''reservation-ttl'') (ck_policy ck)"
    by (auto simp: start_services_def Let_def split: sum.splits)
  note config = checked_config [OF services(2)]
  have "cw_creds w' = cw_creds w" using startup_tables [OF assms(1)] by (simp add: same_tables_def)
  then have vault: "verified = length (cw_creds w) \<and> list_all (\<lambda>c. vault_decrypt unseal ?v c \<noteq> None) (cw_creds w)"
    using verified_credentials [OF up(1)] assms(2) by simp
  have hard: "hardened parse_url en fs" if "in_production en"
    using config that by (auto simp: hardened_def validate_alert_webhook_def split: if_splits option.splits)
  show ?thesis
    using config vault up(2-4) resolved_keys [OF services(3)] hard services(1)
    by (auto simp: new_recorder_with_options_def)
qed auto

section \<open>Usage errors\<close>

lemma usage_exit: "result_exit r = 2 \<longleftrightarrow> (\<exists>m. r = Inl (UsageError m))"
proof (cases r)
  case (Inl e)
  then show ?thesis by (cases e) (auto simp: result_exit_def)
qed (simp add: result_exit_def)

text \<open>
  A command that exits with 2, the code for a wrong invocation, has changed neither the database nor
  the operators nor the credentials; a command other than \<open>serve\<close> and \<open>keys\<close> changes nothing at all.
\<close>

theorem usage_errors_change_nothing:
  assumes "run_command ex en args w = (code, w')" and "int (length (d_ledger (cw_db w))) < max_i64"
    and "args = [] \<or> hd args \<noteq> ''serve''"
  shows "(code = 2 \<longrightarrow> same_tables w w') \<and> (args = [] \<or> hd args \<noteq> ''keys'' \<longrightarrow> w' = w)"
proof (cases args)
  case (Cons cmd rest)
  show ?thesis
  proof (cases "cmd = ''keys''")
    case True
    obtain r where run: "run_keys (ex_sha ex) (ex_seal ex) (ex_open ex) en rest w = (r, w')" "code = result_exit r"
      using assms(1) Cons True by (auto simp: run_command_def split: prod.splits)
    have "command_ok (ex_sha ex) w (r, w')" using keys_ok [OF assms(2), of "ex_sha ex" "ex_seal ex" "ex_open ex" en rest] run(1) by simp
    then have "same_tables w w'" if "code = 2"
      using that run(2) usage_exit [of r] by (auto simp: command_ok_def same_tables_def)
    then show ?thesis using Cons True by simp
  next
    case False
    have "snd (run_ledger (ex_sha ex) (ex_numbers ex) (ex_csv ex) en rest w) = w" by (rule ledger_idle)
    then show ?thesis
      using assms(1,3) Cons False by (auto simp: run_command_def split: prod.splits if_splits)
  qed
qed (use assms(1) in \<open>simp add: run_command_def\<close>)

section \<open>What does not hold\<close>

text \<open>A mistyped flag is reported as a failure of the command, not as a wrong invocation.\<close>

theorem mistyped_flag_exits_with_one:
  "run_command ex en [''ledger'', ''verify'', ''--stor'', ''x''] w = (1, w) \<and>
   run_command ex en [''ledger'', ''verfiy''] w = (2, w)"
  by (simp add: run_command_def run_ledger_def ledger_verify_def with_flags_def store_flag_def cut_def result_exit_def)

text \<open>The user information of a DSN does not show in its redacted form, but a password among its parameters does.\<close>

lemma cut_text_before:
  assumes "CHR '':'' \<notin> set scheme"
  shows "cut_text ''://'' (scheme @ ''://'' @ rest) = Some (scheme, rest)"
  using assms by (induction scheme) auto

lemma cut_last_after: "c \<notin> set rest \<Longrightarrow> cut_last c (user @ c # rest) = Some (user, rest)"
proof -
  assume c: "c \<notin> set rest"
  then have "takeWhile (\<lambda>x. x \<noteq> c) (rev rest @ c # rev user) = rev rest"
    "dropWhile (\<lambda>x. x \<noteq> c) (rev rest @ c # rev user) = c # rev user"
    by (induction rest rule: rev_induct) auto
  then show ?thesis by (simp add: cut_last_def)
qed

theorem redaction_hides_the_user:
  assumes "CHR '':'' \<notin> set scheme" "CHR ''@'' \<notin> set rest"
  shows "redact_store (scheme @ ''://'' @ user @ ''@'' @ rest) = scheme @ ''://***@'' @ rest"
  using cut_text_before [OF assms(1), of "user @ ''@'' @ rest"] cut_last_after [OF assms(2), of user]
  by (simp add: redact_store_def)

theorem redaction_keeps_parameters:
  "redact_store ''postgres://u:p@h/d'' = ''postgres://***@h/d'' \<and>
   redact_store ''postgres://h/d?password=p'' = ''postgres://h/d?password=p''"
  by code_simp

section \<open>A start, and a start refused late\<close>

definition sample_prices :: price_sources where
  "sample_prices = \<lparr>ps_dirs = (\<lambda>_. None), ps_embedded = [(''a.yaml'', False, Some ''xx'')], ps_yaml = sample_yaml\<rparr>"

definition sample_url :: url_parser where
  "sample_url raw = Some (''https'', ''h'', False)"

definition production_lookup :: "string \<Rightarrow> string option" where
  "production_lookup name =
     (if name = env_env then Some ''production''
      else if name = env_master_key then Some (concat (replicate 32 ''6b'')) else None)"

definition production_cli :: cli_env where
  "production_cli = sample_cli\<lparr>ce_lookup := production_lookup\<rparr>"

lemma sample_start:
  "\<exists>up w'. startup sample_sha toy_open sample_prices sample_url production_cli [] sample_world = (Inr up, w', True)"
proof -
  have "case startup sample_sha toy_open sample_prices sample_url production_cli [] sample_world of
      (r, w', opened) \<Rightarrow> is_ok r \<and> opened" by code_simp
  then show ?thesis by (auto simp: is_ok_iff split: prod.splits)
qed

text \<open>
  Outside production a budget that cannot be read is only refused after a key file has been generated
  and the store opened.
\<close>

lemma generated_key:
  "\<exists>keys w'. resolve_master_keys sample_cli ''./spendlease.db'' sample_world = (Inr keys, w') \<and>
     map fst (cw_files w') = [''spendlease.key''] \<and> cw_creds w' = []"
proof -
  have "key_file_path ''./spendlease.db'' = ''spendlease.key''" "\<not> in_production sample_cli" "\<not> is_postgres_dsn ''./spendlease.db''"
    by code_simp+
  then show ?thesis
    by (simp add: resolve_master_keys_def resolve_key_def configured_sources_def primary_spec_def previous_spec_def file_key_def
        sample_cli_def sample_world_def)
qed

theorem bad_budget_is_found_late:
  "\<exists>w'. startup sample_sha toy_open sample_prices sample_url sample_cli [''-default-run-budget'', ''x''] sample_world =
       (Inl (UsageError ''invalid -default-run-budget''), w', True) \<and>
     cw_files sample_world = [] \<and> map fst (cw_files w') = [''spendlease.key'']"
proof -
  have "case parse_flags (store_flag sample_cli @ serve_flags sample_cli) [''-default-run-budget'', ''x''] of
      Inl _ \<Rightarrow> False
    | Inr (fs, _) \<Rightarrow> text_flag fs ''store'' = ''./spendlease.db'' \<and> text_flag fs ''default-run-budget'' = ''x'' \<and>
        is_ok (check_serve sample_sha sample_prices sample_url sample_cli fs)" by code_simp
  then obtain fs rest ck where config: "parse_flags (store_flag sample_cli @ serve_flags sample_cli) [''-default-run-budget'', ''x''] = Inr (fs, rest)"
      "text_flag fs ''store'' = ''./spendlease.db''" "text_flag fs ''default-run-budget'' = ''x''"
      "check_serve sample_sha sample_prices sample_url sample_cli fs = Inr ck"
    by (auto simp: is_ok_iff split: sum.splits)
  obtain keys w' where keys: "resolve_master_keys sample_cli ''./spendlease.db'' sample_world = (Inr keys, w')"
      "map fst (cw_files w') = [''spendlease.key'']" "cw_creds w' = []"
    using generated_key by (elim exE conjE) (rule that)
  have "\<not> is_ok (parse_usd ''x'')" by code_simp
  then have "start_services toy_open sample_url sample_cli fs ck keys w' = Inl (UsageError ''invalid -default-run-budget'')"
    using config(3) keys(3) by (cases "parse_usd ''x''") (simp_all add: start_services_def vault_verify_def list_credential_providers_def)
  moreover have "ce_opens sample_cli path" for path by (simp add: sample_cli_def)
  ultimately show ?thesis using config keys by (simp add: startup_def sample_world_def)
qed

lemma production_start_is_hardened_witness:
  "\<exists>up w'. startup sample_sha toy_open sample_prices sample_url production_cli [] sample_world = (Inr up, w', True) \<and>
     mk_explicit (up_keys up) \<and> w' = sample_world \<and> 0 < rc_ttl (up_recorder up)"
proof -
  obtain up w' where start: "startup sample_sha toy_open sample_prices sample_url production_cli [] sample_world = (Inr up, w', True)"
    using sample_start by blast
  have "one_row_each (cw_creds sample_world)" "in_production production_cli"
    by (simp add: sample_world_def one_row_each_def, code_simp)
  with production_start_is_hardened [OF start] start show ?thesis by blast
qed

lemma refused_start_touches_nothing_witness:
  "same_tables sample_world
     (fst (snd (startup sample_sha toy_open sample_prices sample_url sample_cli [''-default-run-budget'', ''x''] sample_world)))"
proof -
  obtain w' where "startup sample_sha toy_open sample_prices sample_url sample_cli [''-default-run-budget'', ''x''] sample_world =
      (Inl (UsageError ''invalid -default-run-budget''), w', True)"
    using bad_budget_is_found_late by blast
  from refused_start_touches_nothing [OF this] this show ?thesis by simp
qed

definition sample_externals :: externals where
  "sample_externals =
     \<lparr>ex_sha = sample_sha, ex_seal = toy_seal, ex_open = toy_open, ex_numbers = (\<lambda>_. None), ex_csv = (\<lambda>_. []),
      ex_prices = sample_prices, ex_url = sample_url, ex_serve = (\<lambda>_ w. (Inr (), w)), ex_demo = (\<lambda>_. Inr ())\<rparr>"

lemma usage_errors_change_nothing_witness:
  "\<exists>w'. run_command sample_externals sample_cli [''keys'', ''revoke''] sample_world = (2, w') \<and> same_tables sample_world w'"
proof -
  obtain w' where run: "run_command sample_externals sample_cli [''keys'', ''revoke''] sample_world = (2, w')"
    by (simp add: run_command_def run_keys_def keys_revoke_def with_flags_def bool_flag_def store_flag_def result_exit_def)
  have "int (length (d_ledger (cw_db sample_world))) < max_i64"
    by (simp add: sample_world_def sample_db_def max_i64_def)
  with usage_errors_change_nothing [OF run] run show ?thesis by fastforce
qed

end
