(* ===== verification/Onboarding.thy ===== *)
theory Onboarding
  imports Management
begin

text \<open>
  The code examples shown beside a new token (\<open>internal/dashboard/onboarding_examples.go\<close>): one set per
  provider the gateway serves, which the pages of a created agent and of an issued lease show with the token
  (\<open>scope\<close> is \<open>created-\<close> or \<open>issued-\<close> and an identifier).
\<close>

record provider_example =
  pe_id_prefix :: string
  pe_name :: string
  pe_label :: string
  pe_model :: string
  pe_endpoint :: string
  pe_configured :: bool
  pe_primary :: bool
  pe_install :: string
  pe_environment :: string
  pe_python :: string
  pe_javascript :: string
  pe_curl :: string

record example_spec =
  xs_model :: string
  xs_python :: string
  xs_javascript :: string
  xs_anthropic :: bool

text \<open>Lines of text, and a text between double quotes.\<close>

fun text_lines :: "string list \<Rightarrow> string" where
  "text_lines [] = []"
| "text_lines [l] = l"
| "text_lines (l # ls) = l @ CHR 0x0A # text_lines ls"

definition dq :: "string \<Rightarrow> string" where
  "dq s = CHR 0x22 # s @ [CHR 0x22]"

definition backslash :: string where "backslash = [CHR 0x5C]"
definition apostrophe :: string where "apostrophe = [CHR 0x27]"

definition openai_spec :: "string \<Rightarrow> example_spec" where
  "openai_spec model = \<lparr>xs_model = model, xs_python = ''openai'', xs_javascript = ''openai'', xs_anthropic = False\<rparr>"

definition provider_example_specs :: "(string, example_spec) go_map" where
  "provider_example_specs =
     [(''openai'', openai_spec ''gpt-5.4-nano''),
      (''anthropic'', \<lparr>xs_model = ''claude-haiku-4-5-20251001'', xs_python = ''anthropic'',
         xs_javascript = ''@anthropic-ai/sdk'', xs_anthropic = True\<rparr>),
      (''kimi'', openai_spec ''kimi-k2.6''), (''deepseek'', openai_spec ''deepseek-v4-flash''),
      (''xai'', openai_spec ''grok-4.5''), (''gemini'', openai_spec ''gemini-3.5-flash-lite''),
      (''zai'', openai_spec ''glm-4.7-flash'')]"

section \<open>The examples\<close>

definition openai_compatible_python_example :: "string \<Rightarrow> string" where
  "openai_compatible_python_example model = text_lines
     [''import os'',
      ''from openai import OpenAI'',
      '''',
      ''client = OpenAI('',
      ''    api_key=os.environ['' @ dq ''SPENDLEASE_LEASE_TOKEN'' @ ''],'',
      ''    base_url=os.environ['' @ dq ''SPENDLEASE_BASE_URL'' @ ''],'',
      '')'',
      ''response = client.chat.completions.create('',
      ''    model='' @ go_quote model @ '','',
      ''    messages=[{'' @ dq ''role'' @ '': '' @ dq ''user'' @ '', '' @ dq ''content'' @ '': ''
         @ dq ''Say hello in one sentence.'' @ ''}],'',
      ''    max_tokens=64,'',
      '')'',
      ''print(response.choices[0].message.content)'']"

definition openai_compatible_javascript_example :: "string \<Rightarrow> string" where
  "openai_compatible_javascript_example model = text_lines
     [''import OpenAI from '' @ dq ''openai'' @ '';'',
      '''',
      ''const client = new OpenAI({'',
      ''  apiKey: process.env.SPENDLEASE_LEASE_TOKEN,'',
      ''  baseURL: process.env.SPENDLEASE_BASE_URL,'',
      ''});'',
      ''const response = await client.chat.completions.create({'',
      ''  model: '' @ go_quote model @ '','',
      ''  messages: [{ role: '' @ dq ''user'' @ '', content: '' @ dq ''Say hello in one sentence.'' @ '' }],'',
      ''  max_tokens: 64,'',
      ''});'',
      ''console.log(response.choices[0].message.content);'']"

definition curl_body :: "string \<Rightarrow> string" where
  "curl_body model =
     ''  -d '' @ apostrophe @ ''{'' @ dq ''model'' @ '':'' @ go_quote model @ '','' @ dq ''messages'' @ '':[{'' @ dq ''role'' @ '':''
       @ dq ''user'' @ '','' @ dq ''content'' @ '':'' @ dq ''Say hello in one sentence.'' @ ''}],'' @ dq ''max_tokens''
       @ '':64}'' @ apostrophe"

definition openai_compatible_curl_example :: "string \<Rightarrow> string" where
  "openai_compatible_curl_example model = text_lines
     [''curl '' @ dq ''$SPENDLEASE_BASE_URL/chat/completions'' @ '' '' @ backslash,
      ''  -H '' @ dq ''Authorization: Bearer $SPENDLEASE_LEASE_TOKEN'' @ '' '' @ backslash,
      ''  -H '' @ dq ''Content-Type: application/json'' @ '' '' @ backslash,
      curl_body model]"

definition anthropic_python_example :: "string \<Rightarrow> string" where
  "anthropic_python_example model = text_lines
     [''import os'',
      ''from anthropic import Anthropic'',
      '''',
      ''client = Anthropic('',
      ''    api_key=os.environ['' @ dq ''SPENDLEASE_LEASE_TOKEN'' @ ''],'',
      ''    base_url=os.environ['' @ dq ''SPENDLEASE_BASE_URL'' @ ''],'',
      '')'',
      ''message = client.messages.create('',
      ''    model='' @ go_quote model @ '','',
      ''    messages=[{'' @ dq ''role'' @ '': '' @ dq ''user'' @ '', '' @ dq ''content'' @ '': ''
         @ dq ''Say hello in one sentence.'' @ ''}],'',
      ''    max_tokens=64,'',
      '')'',
      ''print(message.content[0].text)'']"

definition anthropic_javascript_example :: "string \<Rightarrow> string" where
  "anthropic_javascript_example model = text_lines
     [''import Anthropic from '' @ dq ''@anthropic-ai/sdk'' @ '';'',
      '''',
      ''const client = new Anthropic({'',
      ''  apiKey: process.env.SPENDLEASE_LEASE_TOKEN,'',
      ''  baseURL: process.env.SPENDLEASE_BASE_URL,'',
      ''});'',
      ''const message = await client.messages.create({'',
      ''  model: '' @ go_quote model @ '','',
      ''  messages: [{ role: '' @ dq ''user'' @ '', content: '' @ dq ''Say hello in one sentence.'' @ '' }],'',
      ''  max_tokens: 64,'',
      ''});'',
      ''console.log(message.content[0].text);'']"

definition anthropic_curl_example :: "string \<Rightarrow> string" where
  "anthropic_curl_example model = text_lines
     [''curl '' @ dq ''$SPENDLEASE_BASE_URL/v1/messages'' @ '' '' @ backslash,
      ''  -H '' @ dq ''x-api-key: $SPENDLEASE_LEASE_TOKEN'' @ '' '' @ backslash,
      ''  -H '' @ dq ''anthropic-version: 2023-06-01'' @ '' '' @ backslash,
      ''  -H '' @ dq ''Content-Type: application/json'' @ '' '' @ backslash,
      curl_body model]"

definition example_for :: "string \<Rightarrow> string \<Rightarrow> bool \<Rightarrow> provider_status \<Rightarrow> example_spec \<Rightarrow> provider_example" where
  "example_for token scope primary st spec =
     \<lparr>pe_id_prefix = scope @ ''-'' @ pv_name st, pe_name = pv_name st, pe_label = pv_label st, pe_model = xs_model spec,
      pe_endpoint = pv_endpoint st, pe_configured = pv_configured st, pe_primary = primary,
      pe_install = text_lines [''python -m pip install '' @ xs_python spec, ''npm install '' @ xs_javascript spec],
      pe_environment = text_lines [''SPENDLEASE_LEASE_TOKEN='' @ go_quote token,
        ''SPENDLEASE_BASE_URL='' @ go_quote (pv_endpoint st)],
      pe_python = (if xs_anthropic spec then anthropic_python_example else openai_compatible_python_example) (xs_model spec),
      pe_javascript =
        (if xs_anthropic spec then anthropic_javascript_example else openai_compatible_javascript_example) (xs_model spec),
      pe_curl = (if xs_anthropic spec then anthropic_curl_example else openai_compatible_curl_example) (xs_model spec)\<rparr>"

text \<open>The loop over the statuses: a provider without a specification is skipped; the first status is primary.\<close>

fun examples_from :: "string \<Rightarrow> string \<Rightarrow> nat \<Rightarrow> provider_status list \<Rightarrow> provider_example list" where
  "examples_from token scope i [] = []"
| "examples_from token scope i (st # sts) =
     (case map_of provider_example_specs (pv_name st) of
        None \<Rightarrow> examples_from token scope (Suc i) sts
      | Some spec \<Rightarrow> example_for token scope (i = 0) st spec # examples_from token scope (Suc i) sts)"

definition provider_examples ::
    "dashboard \<Rightarrow> string \<Rightarrow> credentials \<Rightarrow> string list \<Rightarrow> string \<Rightarrow> string \<Rightarrow> provider_example list" where
  "provider_examples da base creds names token scope =
     examples_from token scope 0 (endpoint_statuses da base creds names)"

section \<open>What the examples show\<close>

text \<open>Which providers have an example, in the order given, each with its own endpoint on this gateway.\<close>

lemma status_of_fields [simp]:
  "pv_name (status_of configured base name) = name"
  "pv_endpoint (status_of configured base name) = base @ provider_path name"
  by (simp_all add: status_of_def)

lemma examples_from_names:
  "map pe_name (examples_from token scope i sts) =
     filter (\<lambda>n. map_of provider_example_specs n \<noteq> None) (map pv_name sts)"
  by (induction sts arbitrary: i) (auto simp: example_for_def split: option.splits)

lemma example_shows:
  "x \<in> set (examples_from token scope i sts) \<Longrightarrow> \<exists>st \<in> set sts. pe_name x = pv_name st \<and> pe_endpoint x = pv_endpoint st \<and>
     pe_environment x = ''SPENDLEASE_LEASE_TOKEN='' @ go_quote token @ CHR 0x0A # ''SPENDLEASE_BASE_URL='' @ go_quote (pv_endpoint st)"
  by (induction sts arbitrary: i) (fastforce simp: example_for_def split: option.splits)+

lemma examples_of_providers:
  "map pe_name (provider_examples da base creds names token scope) =
     filter (\<lambda>n. map_of provider_example_specs n \<noteq> None) names"
  by (simp add: provider_examples_def examples_from_names endpoint_statuses_def comp_def)

text \<open>
  The token stands in the environment of an example alone: the snippets read it from there, so they are the
  same whatever the token.
\<close>

lemma snippets_hide_the_token:
  "map (\<lambda>x. (pe_python x, pe_javascript x, pe_curl x, pe_install x)) (provider_examples da base creds names token scope) =
   map (\<lambda>x. (pe_python x, pe_javascript x, pe_curl x, pe_install x)) (provider_examples da base creds names token' scope)"
proof -
  have "map (\<lambda>x. (pe_python x, pe_javascript x, pe_curl x, pe_install x)) (examples_from token scope i sts) =
    map (\<lambda>x. (pe_python x, pe_javascript x, pe_curl x, pe_install x)) (examples_from token' scope i sts)" for i sts
    by (induction sts arbitrary: i) (auto simp: example_for_def split: option.splits)
  then show ?thesis by (simp add: provider_examples_def)
qed

end
