(* ===== verification/Demo.thy ===== *)
theory Demo
  imports Deployment Serve Onboarding
begin

text \<open>
  The demo command (\<open>cmd/spendlease/demo.go\<close>): its flags, the fleet it seeds, the gateway it puts over a mock
  vendor, and the loop of a simulated agent as a function of the answers it gets. The listener, the server,
  the tickers and the goroutines are left out: the requests the agents make are requests of \<open>Deployment\<close>.
\<close>

section \<open>Flags and addresses\<close>

record demo_url =
  du_scheme :: string
  du_host :: string
  du_path :: string
  du_hostname :: string
  du_port :: string

definition demo_flags :: flag_set where
  "demo_flags = [(''target'', FlagText ''http://localhost:4000''), (''duration'', FlagDuration (30 * ns_per_second))]"

text \<open>The checks before anything is listened to; \<open>parse_url\<close> is \<open>url.Parse\<close>.\<close>

definition check_demo ::
    "(string \<Rightarrow> demo_url option) \<Rightarrow> string list \<Rightarrow> cli_error + string \<times> demo_url \<times> int" where
  "check_demo parse_url args =
     (case parse_flags demo_flags args of
        Inl e \<Rightarrow> Inl (FlagFailed e)
      | Inr (fs, _) \<Rightarrow>
          (let target = text_flag fs ''target''; duration = number_flag fs ''duration'';
               bad = Inl (UsageError ''-target must be an http URL with no path'')
           in if duration < 0 then Inl (UsageError ''-duration must not be negative'')
              else (case parse_url target of
                  None \<Rightarrow> bad
                | Some u \<Rightarrow>
                    if du_scheme u \<noteq> ''http'' \<or> du_host u = [] \<or> du_path u \<noteq> [] \<and> du_path u \<noteq> ''/'' then bad
                    else Inr (target, u, duration))))"

text \<open>The address shown: \<open>bound\<close> is that of the listener.\<close>

definition actual_url :: "string \<Rightarrow> demo_url \<Rightarrow> string \<Rightarrow> string" where
  "actual_url target u bound =
     (if du_port u = ''0'' then ''http://'' @ bound
      else if du_hostname u = ''0.0.0.0'' \<or> du_hostname u = ''::'' then ''http://127.0.0.1:'' @ du_port u
      else target)"

text \<open>The kill switch fires after two seconds, or a third of a shorter run, but not within ten milliseconds.\<close>

definition kill_delay :: "int \<Rightarrow> int" where
  "kill_delay duration =
     (let delay = 2 * ns_per_second;
          delay1 = (if 0 < duration \<and> go_div duration 3 < delay then go_div duration 3 else delay)
      in if delay1 < 10000000 then 10000000 else delay1)"

definition demo_banner :: "string \<Rightarrow> string list" where
  "demo_banner url =
     [''spendlease demo dashboard: '' @ url,
      ''Simulating three agents. retry-loop has a $0.04 cap and retries every 50ms.'',
      ''The kill switch will fire automatically; press Ctrl+C to stop early.'']"

section \<open>The fleet\<close>

datatype demo_error = Panicked | Unending | StoreError store_error | KeyRefused vault_error | BadRegistry | BadBook | BadGateway string

definition must_parse_usd :: "string \<Rightarrow> demo_error + nanos" where
  "must_parse_usd s = (case parse_usd s of Inl _ \<Rightarrow> Inl Panicked | Inr n \<Rightarrow> Inr n)"

record demo_spec =
  ds_name :: string
  ds_budget :: string
  ds_ceiling :: string
  ds_interval :: int

record demo_agent =
  da_name :: string
  da_principal :: principal
  da_token :: string
  da_interval :: int

definition demo_specs :: "demo_spec list" where
  "demo_specs =
     [\<lparr>ds_name = ''research-agent'', ds_budget = ''0.20'', ds_ceiling = ''0.15'', ds_interval = 650000000\<rparr>,
      \<lparr>ds_name = ''support-agent'', ds_budget = ''0.20'', ds_ceiling = ''0.15'', ds_interval = 900000000\<rparr>,
      \<lparr>ds_name = ''retry-loop'', ds_budget = ''0.04'', ds_ceiling = ''0.04'', ds_interval = 50000000\<rparr>]"

text \<open>The random bytes drawn for one agent, in the order of the draws.\<close>

record demo_draws =
  dd_key :: "nat list"
  dd_principal :: "nat list"
  dd_run :: "nat list"
  dd_token :: "nat list"
  dd_lease :: "nat list"

definition demo_principal :: "(string \<Rightarrow> string) \<Rightarrow> instant \<Rightarrow> demo_draws \<Rightarrow> demo_spec \<Rightarrow> principal" where
  "demo_principal sha now b spec =
     \<lparr>pr_id = new_id principal_prefix (dd_principal b), pr_name = ds_name spec,
      pr_key_hash = snd (new_principal_key sha (dd_key b)), pr_mode = ModeEnforce, pr_created = now\<rparr>"

definition demo_run :: "instant \<Rightarrow> demo_draws \<Rightarrow> string \<Rightarrow> nanos \<Rightarrow> run" where
  "demo_run now b pid budget =
     \<lparr>run_id = new_id run_prefix (dd_run b), run_principal = pid, run_parent = [], run_budget = budget,
      run_status = RunActive, run_created = now, run_closed = None\<rparr>"

definition demo_lease :: "(string \<Rightarrow> string) \<Rightarrow> instant \<Rightarrow> demo_draws \<Rightarrow> string \<Rightarrow> nanos \<Rightarrow> lease" where
  "demo_lease sha now b rid most =
     \<lparr>ls_id = new_id lease_prefix (dd_lease b), ls_run = rid, ls_token_hash = snd (new_lease_token sha (dd_token b)),
      ls_providers = [openai_name], ls_ceiling = most, ls_expires = now + ns_per_hour, ls_revoked = None,
      ls_created = now\<rparr>"

definition seed_agent ::
    "(string \<Rightarrow> string) \<Rightarrow> instant \<Rightarrow> demo_draws \<Rightarrow> demo_spec \<Rightarrow> db \<Rightarrow> (demo_error + demo_agent) \<times> db" where
  "seed_agent sha now b spec d =
     (let p = demo_principal sha now b spec
      in case create_principal p d of
        Inl e \<Rightarrow> (Inl (StoreError e), d)
      | Inr d1 \<Rightarrow>
          (case must_parse_usd (ds_budget spec) of
             Inl e \<Rightarrow> (Inl e, d1)
           | Inr budget \<Rightarrow>
               (let r = demo_run now b (pr_id p) budget
                in case create_run r d1 of
                     Inl e \<Rightarrow> (Inl (StoreError e), d1)
                   | Inr d2 \<Rightarrow>
                       (case must_parse_usd (ds_ceiling spec) of
                          Inl e \<Rightarrow> (Inl e, d2)
                        | Inr most \<Rightarrow>
                            (case create_lease (demo_lease sha now b (run_id r) most) d2 of
                               None \<Rightarrow> (Inl Unending, d2)
                             | Some (Inl e) \<Rightarrow> (Inl (StoreError e), d2)
                             | Some (Inr d3) \<Rightarrow>
                                 (Inr \<lparr>da_name = ds_name spec, da_principal = p,
                                    da_token = fst (new_lease_token sha (dd_token b)), da_interval = ds_interval spec\<rparr>,
                                  d3))))))"

text \<open>\<open>seedDemoFleet\<close>: one agent after the other; rows of the agents before a failure stay.\<close>

fun seed_fleet ::
    "(string \<Rightarrow> string) \<Rightarrow> instant \<Rightarrow> (demo_draws \<times> demo_spec) list \<Rightarrow> db \<Rightarrow> (demo_error + demo_agent list) \<times> db" where
  "seed_fleet sha now [] d = (Inr [], d)"
| "seed_fleet sha now ((b, spec) # rest) d =
     (case seed_agent sha now b spec d of
        (Inl e, d') \<Rightarrow> (Inl e, d')
      | (Inr a, d') \<Rightarrow>
          (case seed_fleet sha now rest d' of
             (Inl e, d'') \<Rightarrow> (Inl e, d'')
           | (Inr as, d'') \<Rightarrow> (Inr (a # as), d'')))"

definition seed_demo_fleet ::
    "(string \<Rightarrow> string) \<Rightarrow> instant \<Rightarrow> demo_draws \<times> demo_draws \<times> demo_draws \<Rightarrow> db \<Rightarrow> (demo_error + demo_agent list) \<times> db" where
  "seed_demo_fleet sha now draws d =
     (case draws of (b1, b2, b3) \<Rightarrow> seed_fleet sha now (zip [b1, b2, b3] demo_specs) d)"

section \<open>The gateway and its vendor\<close>

definition mock_response :: string where
  "mock_response =
     ''{'' @ dq ''id'' @ '':'' @ dq ''demo-response'' @ '','' @ dq ''object'' @ '':'' @ dq ''chat.completion'' @ '',''
       @ dq ''choices'' @ '':[{'' @ dq ''message'' @ '':{'' @ dq ''role'' @ '':'' @ dq ''assistant'' @ '','' @ dq ''content''
       @ '':'' @ dq ''done'' @ ''}}],'' @ dq ''usage'' @ '':{'' @ dq ''prompt_tokens'' @ '':500,'' @ dq ''completion_tokens''
       @ '':500}}''"

definition demo_request_body :: string where
  "demo_request_body =
     ''{'' @ dq ''model'' @ '':'' @ dq ''gpt-4o'' @ '','' @ dq ''messages'' @ '':[{'' @ dq ''role'' @ '':'' @ dq ''user''
       @ '','' @ dq ''content'' @ '':'' @ dq ''Process the next queued task.'' @ ''}],'' @ dq ''max_tokens'' @ '':500}''"

text \<open>
  The assembly over the in-memory store: the vendor key in a vault under a generated key, one provider at
  the mock's address, the embedded price book and a recorder with a default budget of one dollar. \<open>key\<close> and
  \<open>nonce\<close> are random, \<open>mock\<close> is the address of the mock server.
\<close>

definition demo_gateway ::
    "(string \<Rightarrow> string) \<Rightarrow> aead_seal \<Rightarrow> price_sources \<Rightarrow> instant \<Rightarrow> master_key \<Rightarrow> string \<Rightarrow> string \<Rightarrow>
      demo_error + (gateway_config \<times> nat option) \<times> vault \<times> credentials" where
  "demo_gateway sha seal ps now key nonce mock =
     (case vault_put put_credential seal (new_vault key) now nonce openai_name ''demo-vendor-key'' [] of
        Inl e \<Rightarrow> Inl (KeyRefused e)
      | Inr creds \<Rightarrow>
          (case new_registry [OpenAI openai_name mock] of
             Inl _ \<Rightarrow> Inl BadRegistry
           | Inr registry \<Rightarrow>
               (case load_price_book sha ps now [] of
                  Inl _ \<Rightarrow> Inl BadBook
                | Inr book \<Rightarrow>
                    (case must_parse_usd ''1.00'' of
                       Inl e \<Rightarrow> Inl e
                     | Inr budget \<Rightarrow>
                         (case new_gateway \<lparr>go_principals = True, go_leases = True, go_revocations = True,
                              go_credentials = True, go_registry = Some registry,
                              go_recorder = Some (new_recorder book budget []), go_logger = True, go_max_in_flight = 0\<rparr> of
                            Inl e \<Rightarrow> Inl (BadGateway e)
                          | Inr gw \<Rightarrow> Inr (gw, new_vault key, creds))))))"

section \<open>An agent's loop\<close>

definition demo_request :: "string \<Rightarrow> request" where
  "demo_request token =
     \<lparr>rq_method = ''POST'', rq_path = ''/v1/chat/completions'',
      rq_header = header_set (header_set [] ''Authorization'' (''Bearer '' @ token)) ''Content-Type'' ''application/json''\<rparr>"

text \<open>What a tick brings: a failed request, with whether the context was done by then, or the status of an answer.\<close>

datatype demo_tick = TickFailed bool | TickAnswered int

datatype demo_line = RequestFailedLine | StatusLine int

text \<open>
  \<open>driveDemoAgent\<close>: the lines printed, and the number of requests made before the loop returned, by itself
  or with the context after the last tick.
\<close>

fun drive_demo_agent :: "int \<Rightarrow> demo_tick list \<Rightarrow> demo_line list \<times> nat" where
  "drive_demo_agent prior [] = ([], 0)"
| "drive_demo_agent prior (TickFailed cancelled # ticks) =
     (case drive_demo_agent prior ticks of
        (lines, n) \<Rightarrow> ((if cancelled then lines else RequestFailedLine # lines), Suc n))"
| "drive_demo_agent prior (TickAnswered status # ticks) =
     (let line = (if status \<noteq> 200 \<and> status \<noteq> prior then [StatusLine status] else [])
      in if status = 401 then (line, 1)
         else (case drive_demo_agent status ticks of (lines, n) \<Rightarrow> (line @ lines, Suc n)))"

text \<open>The kill switch of the demo: the principal of the agent called retry-loop, and what it reports.\<close>

fun demo_kill :: "instant \<Rightarrow> demo_agent list \<Rightarrow> revocation_set \<times> db \<Rightarrow> nat list \<times> revocation_set \<times> db" where
  "demo_kill now [] s = ([], s)"
| "demo_kill now (a # as) s =
     (if da_name a \<noteq> ''retry-loop'' then demo_kill now as s
      else (case kill_principal now (pr_id (da_principal a)) s of
          (n, s1) \<Rightarrow> (case demo_kill now as s1 of (ns, s2) \<Rightarrow> (n # ns, s2))))"

section \<open>What the seeding leaves\<close>

lemma demo_amounts:
  "must_parse_usd ''0.20'' = Inr 200000000" "must_parse_usd ''0.15'' = Inr 150000000" "must_parse_usd ''0.04'' = Inr 40000000"
proof -
  have digits: "digit 0 = CHR ''0''" "digit (Suc 0) = CHR ''1''" "digit 2 = CHR ''2''" "digit 4 = CHR ''4''" "digit 5 = CHR ''5''"
    by code_simp+
  have "fmt_09d 200000000 = ''200000000''" "fmt_09d 150000000 = ''150000000''" "fmt_09d 40000000 = ''040000000''"
    by (simp_all add: nat_str.simps digits fmt_09d_def pad_def)
  then have "nanos_str 200000000 = ''0.20''" "nanos_str 150000000 = ''0.15''" "nanos_str 40000000 = ''0.04''"
    by (simp_all add: nanos_str_def go_div_def go_rem_def dollar_def trim_right_def i64_def int_str_def nat_str.simps digits)
  then show "must_parse_usd ''0.20'' = Inr 200000000" "must_parse_usd ''0.15'' = Inr 150000000"
    "must_parse_usd ''0.04'' = Inr 40000000"
    using parse_usd_nanos_str_small [of 200000000] parse_usd_nanos_str_small [of 150000000]
      parse_usd_nanos_str_small [of 40000000] by (simp_all add: must_parse_usd_def)
qed

lemma openai_scope: "decode_providers (encode_providers [openai_name]) = [openai_name]"
  by code_simp

text \<open>A token has no space to trim: it is made of the prefix and letters and digits.\<close>

lemma bits_val_snoc: "bits_val (bs @ [b]) = 2 * bits_val bs + (if b then 1 else 0)"
  by (simp add: bits_val_def)

lemma bits_val_bound: "bits_val bs < 2 ^ length bs"
  by (induction bs rule: rev_induct) (auto simp: bits_val_snoc bits_val_def)

lemma quintets_bound: "list_all (\<lambda>q. q < 32) (quintets bs)"
proof (induction bs rule: quintets.induct)
  case (1 bs)
  have "length (take 5 bs @ replicate (5 - length bs) False) = 5" by simp
  then have "bits_val (take 5 bs @ replicate (5 - length bs) False) < 32"
    using bits_val_bound [of "take 5 bs @ replicate (5 - length bs) False"] by simp
  with 1 show ?case by (subst quintets.simps) auto
qed

lemma base32_plain: "list_all (\<lambda>c. 48 \<le> (of_char c :: nat) \<and> (of_char c :: nat) \<le> 122) (base32 bytes)"
proof -
  have "list_all (\<lambda>c. 48 \<le> (of_char c :: nat) \<and> (of_char c :: nat) \<le> 122) base32_alphabet" "length base32_alphabet = 32"
    by (simp_all add: base32_alphabet_def)
  then have "q < 32 \<Longrightarrow> 48 \<le> (of_char (base32_alphabet ! q) :: nat) \<and> (of_char (base32_alphabet ! q) :: nat) \<le> 122" for q
    by (simp add: list_all_length)
  then show ?thesis
    using quintets_bound [of "concat (map byte_bits bytes)"] by (auto simp: base32_def list_all_iff)
qed

lemma token_trimmed: "trim_space (fst (new_lease_token sha bytes)) = fst (new_lease_token sha bytes)"
  by (rule plain_trimmed)
    (use base32_plain [of "take 32 bytes"] in \<open>simp add: new_lease_token_def new_secret_def Let_def lease_token_prefix_def\<close>)

definition seeded :: "(string \<Rightarrow> string) \<Rightarrow> instant \<Rightarrow> demo_spec \<Rightarrow> demo_agent \<Rightarrow> db \<Rightarrow> bool" where
  "seeded sha now spec a d \<longleftrightarrow>
     da_name a = ds_name spec \<and> da_interval a = ds_interval spec \<and> da_principal a \<in> set (d_principals d) \<and>
     pr_name (da_principal a) = ds_name spec \<and> pr_mode (da_principal a) = ModeEnforce \<and>
     looks_like_lease_token (da_token a) \<and> trim_space (da_token a) = da_token a \<and>
     (\<exists>r \<in> set (d_runs d). \<exists>l \<in> set (d_leases d).
        run_principal r = pr_id (da_principal a) \<and> ls_run l = run_id r \<and> run_status r = RunActive \<and>
        must_parse_usd (ds_budget spec) = Inr (run_budget r) \<and> must_parse_usd (ds_ceiling spec) = Inr (ls_ceiling l) \<and>
        ls_token_hash l = hash_secret sha (da_token a) \<and> ls_providers l = [openai_name] \<and>
        ls_expires l = now + ns_per_hour \<and> ls_revoked l = None)"

definition grows :: "db \<Rightarrow> db \<Rightarrow> bool" where
  "grows d d' \<longleftrightarrow> set (d_principals d) \<subseteq> set (d_principals d') \<and> set (d_runs d) \<subseteq> set (d_runs d') \<and>
     set (d_leases d) \<subseteq> set (d_leases d') \<and> d_ledger d' = d_ledger d"

lemma grows_refl: "grows d d" and grows_trans: "grows d d1 \<Longrightarrow> grows d1 d2 \<Longrightarrow> grows d d2"
  by (auto simp: grows_def)

lemma seeded_rows:
  assumes "seeded sha now spec a d" "must_parse_usd (ds_budget spec) = Inr b" "must_parse_usd (ds_ceiling spec) = Inr c"
  shows "da_name a = ds_name spec \<and> pr_mode (da_principal a) = ModeEnforce \<and> da_principal a \<in> set (d_principals d) \<and>
    (\<exists>r \<in> set (d_runs d). \<exists>l \<in> set (d_leases d). run_principal r = pr_id (da_principal a) \<and> ls_run l = run_id r \<and>
       run_status r = RunActive \<and> run_budget r = b \<and> ls_ceiling l = c \<and>
       ls_token_hash l = hash_secret sha (da_token a) \<and> ls_providers l = [openai_name] \<and> ls_expires l = now + ns_per_hour)"
  using assms unfolding seeded_def by (metis sum.inject(2))

lemma seeded_grows: "seeded sha now spec a d \<Longrightarrow> grows d d' \<Longrightarrow> seeded sha now spec a d'"
  unfolding seeded_def grows_def by blast

lemma created_rows:
  "create_principal p d = Inr d' \<Longrightarrow> d' = d\<lparr>d_principals := d_principals d @ [p]\<rparr>"
  "create_run r d = Inr d' \<Longrightarrow> d' = d\<lparr>d_runs := d_runs d @ [r]\<rparr>"
  "create_lease l d = Some (Inr d') \<Longrightarrow>
     d' = d\<lparr>d_leases := d_leases d @ [l\<lparr>ls_providers := decode_providers (encode_providers (ls_providers l))\<rparr>]\<rparr>"
  by (auto simp: create_principal_def insert_principal_def create_lease_def insert_lease_def
      dest!: create_run_insert insert_run_ok split: if_splits option.splits)

text \<open>One agent, whether or not it succeeds: at most three operations that manage the store.\<close>

lemma seed_agent_steps:
  assumes seed: "seed_agent sha now b spec d = (res, d')" and bound: "int (length (d_ledger d)) < max_i64"
    and cap: "\<And>n. must_parse_usd (ds_budget spec) = Inr n \<Longrightarrow> n \<le> max_i64"
  shows "evolves sha management_op d d' \<and> grows d d' \<and> (\<forall>a. res = Inr a \<longrightarrow> seeded sha now spec a d')"
proof (cases "create_principal (demo_principal sha now b spec) d")
  case (Inl e)
  then show ?thesis using seed by (auto simp: seed_agent_def Let_def evolves_refl grows_refl)
next
  case p: (Inr d1)
  let ?p = "demo_principal sha now b spec"
  have s1: "evolves sha management_op d d1" using step_create_principal [OF p] bound by (rule_tac evolves_one) auto
  note r1 = created_rows(1) [OF p]
  have g1: "grows d d1" by (auto simp: r1 grows_def)
  show ?thesis
  proof (cases "must_parse_usd (ds_budget spec)")
    case (Inl e)
    then show ?thesis using seed p s1 g1 by (auto simp: seed_agent_def Let_def)
  next
    case budget: (Inr budget)
    let ?r = "demo_run now b (pr_id ?p) budget"
    show ?thesis
    proof (cases "create_run ?r d1")
      case (Inl e)
      then show ?thesis using seed p budget s1 g1 by (auto simp: seed_agent_def Let_def)
    next
      case r: (Inr d2)
      have "typed_op (OpCreateRun ?r)" using cap [OF budget] by (simp add: demo_run_def)
      then have s2: "evolves sha management_op d d2"
        using evolves_step [OF s1 _ _ _ step_create_run [OF r]] bound by (simp add: r1)
      note r2 = created_rows(2) [OF r]
      have g2: "grows d d2" by (auto simp: r1 r2 grows_def)
      show ?thesis
      proof (cases "must_parse_usd (ds_ceiling spec)")
        case (Inl e)
        then show ?thesis using seed p budget r s2 g2 by (auto simp: seed_agent_def Let_def)
      next
        case most: (Inr most)
        let ?l = "demo_lease sha now b (run_id ?r) most"
        show ?thesis
        proof (cases "\<exists>d3. create_lease ?l d2 = Some (Inr d3)")
          case False
          then show ?thesis using seed p budget r most s2 g2
            by (auto simp: seed_agent_def Let_def split: option.splits sum.splits)
        next
          case True
          then obtain d3 where l: "create_lease ?l d2 = Some (Inr d3)" by blast
          have s3: "evolves sha management_op d d3"
            using evolves_step [OF s2 _ _ _ step_create_lease [OF l]] bound by (simp add: r1 r2)
          note r3 = created_rows(3) [OF l]
          have "d' = d3" "res = Inr \<lparr>da_name = ds_name spec, da_principal = ?p,
              da_token = fst (new_lease_token sha (dd_token b)), da_interval = ds_interval spec\<rparr>"
            using seed p budget r most l by (simp_all add: seed_agent_def Let_def)
          moreover have "seeded sha now spec \<lparr>da_name = ds_name spec, da_principal = ?p,
              da_token = fst (new_lease_token sha (dd_token b)), da_interval = ds_interval spec\<rparr> d3"
            using budget most token_trimmed [of sha "dd_token b"]
            by (simp add: seeded_def r1 r2 r3 demo_principal_def demo_run_def demo_lease_def openai_scope
                new_lease_token_def new_secret_def Let_def looks_like_lease_token_def)
          moreover have "grows d d3" by (auto simp: r1 r2 r3 grows_def)
          ultimately show ?thesis using s3 by simp
        qed
      qed
    qed
  qed
qed

lemma seed_fleet_steps:
  assumes "seed_fleet sha now draws d = (res, d')" "int (length (d_ledger d)) < max_i64"
    and "\<forall>(b, spec) \<in> set draws. \<forall>n. must_parse_usd (ds_budget spec) = Inr n \<longrightarrow> n \<le> max_i64"
  shows "evolves sha management_op d d' \<and> grows d d' \<and>
    (\<forall>as. res = Inr as \<longrightarrow> list_all2 (\<lambda>(b, spec) a. seeded sha now spec a d') draws as)"
  using assms
proof (induction draws arbitrary: d d' res)
  case Nil
  then show ?case by (auto simp: evolves_refl grows_refl)
next
  case (Cons x rest)
  obtain b spec where x: "x = (b, spec)" by (cases x)
  obtain res1 d1 where one: "seed_agent sha now b spec d = (res1, d1)" by (cases "seed_agent sha now b spec d")
  have cap: "\<And>n. must_parse_usd (ds_budget spec) = Inr n \<Longrightarrow> n \<le> max_i64" using Cons.prems(3) x by simp
  note agent = seed_agent_steps [OF one Cons.prems(2) cap]
  show ?case
  proof (cases res1)
    case (Inl e)
    then show ?thesis using Cons.prems(1) x one agent by auto
  next
    case (Inr a)
    obtain res2 d2 where more: "seed_fleet sha now rest d1 = (res2, d2)" by (cases "seed_fleet sha now rest d1")
    have "int (length (d_ledger d1)) < max_i64" using agent Cons.prems(2) by (simp add: grows_def)
    moreover have "\<forall>(b, spec) \<in> set rest. \<forall>n. must_parse_usd (ds_budget spec) = Inr n \<longrightarrow> n \<le> max_i64"
      using Cons.prems(3) by simp
    ultimately have fleet: "evolves sha management_op d1 d2 \<and> grows d1 d2 \<and>
        (\<forall>as. res2 = Inr as \<longrightarrow> list_all2 (\<lambda>(b, spec) a. seeded sha now spec a d2) rest as)"
      using Cons.IH [OF more] by blast
    have "d' = d2" "res = (case res2 of Inl e \<Rightarrow> Inl e | Inr as \<Rightarrow> Inr (a # as))"
      using Cons.prems(1) x one Inr more by (auto split: sum.splits)
    then show ?thesis
      using fleet agent Inr x seeded_grows [of sha now spec a d1 d2] evolves_trans [of sha management_op d1 d2 d]
        grows_trans [of d d1 d2]
      by (cases res2) simp_all
  qed
qed

section \<open>An agent that is refused stops\<close>

text \<open>Whatever follows a 401, the loop has returned: nothing more is asked of the gateway.\<close>

lemma drive_stops:
  "drive_demo_agent prior (ticks @ TickAnswered 401 # rest) = drive_demo_agent prior (ticks @ [TickAnswered 401])"
  by (induction prior ticks rule: drive_demo_agent.induct) (simp_all add: Let_def)

lemma drive_bound: "snd (drive_demo_agent prior ticks) \<le> length ticks"
  by (induction prior ticks rule: drive_demo_agent.induct) (auto simp: Let_def split: prod.splits)

lemma demo_credential:
  assumes "looks_like_lease_token token" "trim_space token = token"
  shows "credential_from (rq_header (demo_request token)) = Some token"
  using assms
  by (auto simp: credential_from_def demo_request_def cut_prefix_def looks_like_lease_token_def lease_token_prefix_def Let_def)

section \<open>Properties of the demo\<close>

text \<open>
  The seeded fleet is the one described: when the seeding succeeds there are three agents, in order, all in
  enforce mode, each with an active run of its own that has its budget, and a token whose lease has its ceiling, is
  scoped to openai and expires in an hour; the retry loop has four cents of both. Seeding is a run of
  management operations of the store, whatever its outcome.
\<close>

theorem demo_fleet_is_seeded:
  assumes "seed_demo_fleet sha now draws d = (res, d')" "int (length (d_ledger d)) < max_i64"
  shows "evolves sha management_op d d' \<and>
    (\<forall>as. res = Inr as \<longrightarrow>
       list_all2 (\<lambda>(name, budget, most) a.
         da_name a = name \<and> pr_mode (da_principal a) = ModeEnforce \<and> da_principal a \<in> set (d_principals d') \<and>
         (\<exists>r \<in> set (d_runs d'). \<exists>l \<in> set (d_leases d'). run_principal r = pr_id (da_principal a) \<and> ls_run l = run_id r \<and>
            run_status r = RunActive \<and> run_budget r = budget \<and> ls_ceiling l = most \<and>
            ls_token_hash l = hash_secret sha (da_token a) \<and> ls_providers l = [openai_name] \<and> ls_expires l = now + ns_per_hour))
         [(''research-agent'', 200000000, 150000000), (''support-agent'', 200000000, 150000000),
          (''retry-loop'', 40000000, 40000000)] as)"
proof -
  obtain b1 b2 b3 where draws: "draws = (b1, b2, b3)" by (cases draws)
  have fleet: "seed_fleet sha now (zip [b1, b2, b3] demo_specs) d = (res, d')"
    using assms(1) by (simp add: seed_demo_fleet_def draws)
  have cap: "\<forall>(b, spec) \<in> set (zip [b1, b2, b3] demo_specs). \<forall>n. must_parse_usd (ds_budget spec) = Inr n \<longrightarrow> n \<le> max_i64"
    by (auto simp: demo_specs_def demo_amounts max_i64_def)
  note s = seed_fleet_steps [OF fleet assms(2) cap]
  have "list_all2 (\<lambda>spec a. seeded sha now spec a d') demo_specs as" if "res = Inr as" for as
    using s that by (auto simp: demo_specs_def list_all2_Cons1)
  then have "seeded sha now (demo_specs ! i) (as ! i) d'" "length as = 3" if "res = Inr as" "i < 3" for as i
    using that list_all2_nthD [of "\<lambda>spec a. seeded sha now spec a d'" demo_specs as i] list_all2_lengthD
    by (fastforce simp: demo_specs_def)+
  note each = this
  show ?thesis
  proof (intro conjI allI impI)
    show "evolves sha management_op d d'" using s by blast
    fix as assume as: "res = Inr as"
    obtain x y z where xyz: "as = [x, y, z]"
      using each(2) [OF as, of 0] by (auto simp: length_Suc_conv numeral_3_eq_3)
    show "list_all2 (\<lambda>(name, budget, most) a.
         da_name a = name \<and> pr_mode (da_principal a) = ModeEnforce \<and> da_principal a \<in> set (d_principals d') \<and>
         (\<exists>r \<in> set (d_runs d'). \<exists>l \<in> set (d_leases d'). run_principal r = pr_id (da_principal a) \<and> ls_run l = run_id r \<and>
            run_status r = RunActive \<and> run_budget r = budget \<and> ls_ceiling l = most \<and>
            ls_token_hash l = hash_secret sha (da_token a) \<and> ls_providers l = [openai_name] \<and> ls_expires l = now + ns_per_hour))
         [(''research-agent'', 200000000, 150000000), (''support-agent'', 200000000, 150000000),
          (''retry-loop'', 40000000, 40000000)] as"
      using seeded_rows [OF each(1) [OF as, of 0]] seeded_rows [OF each(1) [OF as, of 1]] seeded_rows [OF each(1) [OF as, of 2]]
      by (simp add: xyz demo_specs_def demo_amounts)
  qed
qed

text \<open>
  The demo's kill switch ends the retry loop: once it has fired, every request with the loop's token is
  answered 401, by whatever the process knows and the database holds from then on, and an agent that
  gets that answer makes no request after it.
\<close>

theorem demo_kill_stops_the_loop:
  assumes "seeded sha t0 spec a d" "da_name a = ''retry-loop''"
    and "demo_kill now [a] (s, d) = (ns, s', d')" "gw_revocable g" "set s' \<subseteq> set s''"
  shows "(\<exists>e. authenticate sha g later (demo_request (da_token a)) s'' any_db = (Inl e, any_db) \<and> ae_status e = 401) \<and>
    drive_demo_agent prior (ticks @ TickAnswered 401 # rest) = drive_demo_agent prior (ticks @ [TickAnswered 401])"
proof -
  obtain r l where rows: "r \<in> set (d_runs d)" "l \<in> set (d_leases d)" "run_principal r = pr_id (da_principal a)"
    "ls_run l = run_id r" "ls_token_hash l = hash_secret sha (da_token a)" and token: "looks_like_lease_token (da_token a)"
    and trimmed: "trim_space (da_token a) = da_token a"
    using assms(1) by (auto simp: seeded_def)
  have "snd (kill_principal now (pr_id (da_principal a)) (s, d)) = (s', d')"
    using assms(2,3) by (auto split: prod.splits)
  then obtain n where "kill_principal now (pr_id (da_principal a)) (s, d) = (n, s', d')" by (metis surjective_pairing)
  from kill_principal_hashes [OF this] rows have "revoked s' (ls_token_hash l)" by (auto 4 4)
  then have "revoked s'' (hash_secret sha (da_token a))" using assms(5) rows(5) by (auto simp: revoked_def)
  from stored.revoked_rejected [OF this]
  have "authenticate sha g later (demo_request (da_token a)) s'' any_db =
      (Inl (lease_rejected ''That lease has been revoked.''), any_db)"
    using assms(4) token demo_credential [OF token trimmed] by (simp add: authenticate_def)
  then show ?thesis using drive_stops by (simp add: lease_rejected_def api_failure_def)
qed

end
