(* ===== verification/Spec2Isabelle.thy ===== *)
theory Spec2Isabelle
  imports Signals Schema Migrations Isolation Estimation Demo
begin

text \<open>
  A verification library for SpendLease, a gateway that sits between AI agents and model vendors and
  authorises spend before a request leaves (Go, module \<open>github.com/premhiru/spendlease\<close>, sources under
  \<open>src/\<close>; paths below are relative to \<open>src/internal\<close> unless they start with \<open>cmd\<close>).

  \<^bold>\<open>The program.\<close> An operator creates principals, runs with budgets (a run may have a parent of the same
  principal) and leases, whose tokens agents present instead of a vendor key. For each request the gateway
  authenticates the token, finds the vendor that owns the path, estimates the cost from the price book, takes
  a hold on the budgets of the run and all its ancestors and on the lease's ceiling (\<open>TryReserve\<close>), swaps the
  credential for the vendor's own from the vault, forwards the request, observes the response for the usage
  it reports, and settles the hold with one charge in a hash-chained ledger. Holds that are never settled
  expire and are swept. A control API, a dashboard and a command line manage all of it, behind operator
  tokens with roles and an audit trail. The store is SQLite in one process or PostgreSQL shared by several.

  \<^bold>\<open>How it is modelled.\<close> Functions are HOL functions on records and datatypes that follow the Go types; int64
  arithmetic is \<open>int\<close> with the wrap-around \<open>i64\<close> written out; strings are lists of bytes; Go maps are
  association lists; an instant is the number of nanoseconds since Go's zero time, and the timestamp columns
  are compared as the RFC 3339 text they hold. A fallible function answers \<open>error + result\<close>. The store is a
  record of tables; an operation answers an error, which is the rollback, or the new database, and an outer
  \<open>None\<close> is a recursive query that would not end. What the code takes from outside is an argument: clock
  readings, random bytes, the SHA-256 digest, the AEAD cipher, the HMAC, the decoders of YAML, JSON and CSV,
  \<open>url.Parse\<close>, the request multiplexer's choice and path values, the parsed form, what a vendor answers,
  the effect of a migration's SQL, the server's \<open>hashtextextended\<close>, and files and commands on the host.
  A page or a command's output is the value that a template or a format string prints.

  \<^bold>\<open>Theories and sources.\<close>
  \<^item> Shared: \<open>Prelude\<close> (int64, association lists, sorting over the locale \<open>comparison\<close>), \<open>GoStrings\<close>, \<open>Json\<close>,
    \<open>Http\<close>, \<open>Net\<close>, \<open>TimeParse\<close>, \<open>Query\<close>, \<open>Flags\<close>: what the code uses of Go's standard library.
  \<^item> Values: \<open>Money\<close> (\<open>money/money.go\<close>), \<open>Billing\<close> (\<open>billing/usage.go\<close>), \<open>Clock\<close> (stored timestamps),
    \<open>Ledger\<close> (\<open>ledger/entry.go\<close>, \<open>export.go\<close>), \<open>Pricing\<close> (\<open>pricing/cost.go\<close>, \<open>estimate.go\<close>, \<open>book.go\<close>) and
    \<open>Estimation\<close> (the text estimator of \<open>estimate.go\<close>).
  \<^item> The store: \<open>StoreTypes\<close> (\<open>store/store.go\<close>, \<open>ids.go\<close>), \<open>Db\<close> (tables, constraints, the run hierarchy),
    \<open>Entities\<close>, \<open>Budget\<close>, \<open>LedgerStore\<close> (\<open>store/sqlite/sqlite.go\<close>), \<open>Reports\<close> (\<open>operational.go\<close>,
    \<open>summary.go\<close>), \<open>Enforcement\<close> (the budget invariant), \<open>StoreSystem\<close> (all operations as labelled steps,
    \<open>evolves\<close> and \<open>reachable\<close>), \<open>Schema\<close> (the migrations' constraints), \<open>Isolation\<close> (the statements of
    concurrent transactions), \<open>Migrations\<close> (\<open>store/sqlite/migrate.go\<close>, \<open>store/postgres\<close>).
  \<^item> The gateway: \<open>Providers\<close> (\<open>providers\<close>), \<open>Recorder\<close> (\<open>gateway/record.go\<close>), \<open>GatewayAuth\<close> (\<open>auth.go\<close>,
    \<open>revocation.go\<close>, \<open>errors.go\<close>), \<open>Observe\<close> (\<open>observe.go\<close>), \<open>Vault\<close> (\<open>vault\<close>, \<open>keysource\<close>,
    \<open>store/sqlite/credentials.go\<close>), \<open>Proxy\<close> (\<open>proxy.go\<close>), \<open>Exchange\<close> (a request from the semaphore to its last
    byte), \<open>Telemetry\<close> (\<open>observability\<close>, \<open>gateway/logging.go\<close>, \<open>sweeper.go\<close>), \<open>Signals\<close> (what a
    request tells the observer), \<open>Deployment\<close>
    (\<open>gateway.go\<close>: any number of processes whose requests interleave stage by stage over one store).
  \<^item> Operators and surfaces: \<open>Operators\<close> (\<open>operator\<close>, \<open>store/sqlite/operators.go\<close>), \<open>DashboardAuth\<close>
    (\<open>dashboard/auth.go\<close>), \<open>Dashboard\<close> (\<open>dashboard.go\<close>), \<open>Management\<close> (\<open>management.go\<close>), \<open>Onboarding\<close>
    (\<open>onboarding_examples.go\<close>), \<open>ControlPlane\<close> (\<open>controlplane\<close>), \<open>Reconcile\<close> (\<open>reconcile\<close>).
  \<^item> The command line: \<open>Cli\<close> (\<open>cmd/spendlease/config.go\<close>, \<open>keys*.go\<close>, \<open>ledger.go\<close>), \<open>PricingCli\<close>
    (\<open>pricing_command.go\<close>, \<open>pricing.go\<close>), \<open>Serve\<close> (\<open>serve.go\<close>, \<open>main.go\<close>), \<open>Demo\<close> (\<open>demo.go\<close>).

  \<^bold>\<open>Interfaces.\<close> The locales state what a component relies on, and each is interpreted on the model of the
  code that provides it: \<open>comparison\<close> (a sort's order; eleven orders of the code), \<open>lease_lookup\<close> (the lookups
  behind authentication; the store), \<open>observation\<close> (the response reader; streamed and plain bodies),
  \<open>credential_store\<close> (the vault's table; the SQL table), \<open>operator_lookup\<close> (the guard's view of operators; the
  operator tables), \<open>budget_observer\<close> (the gateway's observer; the observability service).

  \<^bold>\<open>What is shown.\<close>
  \<^item> Budgets: \<open>exposure\<close> is what a subtree has spent and holds less the part of its charges that no hold
    covered. No enforced operation raises it above a budget (\<open>Enforcement\<close>, \<open>StoreSystem\<close>); this remains true when
    the statements of concurrent \<open>TryReserve\<close> transactions interleave under the advisory lock (\<open>Isolation\<close>), and when
    requests on several processes interleave stage by stage with every management surface (\<open>Deployment\<close>).
    \<open>BudgetStatus\<close> agrees with the decision \<open>TryReserve\<close> would make.
  \<^item> Charges: the ledger only grows, is always a verified chain, and one reservation is charged once;
    every hold of an exchange is settled, released or reclaimed; refused requests change no money.
  \<^item> Access: a request only reaches a vendor under a live lease and an active line of runs, with the
    client's own credentials removed; a revocation is final in every process that knows it; mutations need
    the role of their route and leave an audit record; the last active admin cannot be removed.
  \<^item> Refinement: the proxy, the API, the dashboard, the commands and the demo's seeding are runs of the store's
    steps, those that manage it of \<open>management_op\<close> only, so the invariants of \<open>StoreSystem\<close> hold under all of them.
  \<^item> Data: money parses what it prints, costs are the exact sums rounded as documented below overflow, timestamps,
    keys and tokens survive their columns, and reconciliation reports exactly the differing groups.
  \<^item> Operation: migrations apply once and atomically, alerts are accounted for and drained at closing, every
    budget decision is signalled once and as it was answered, a start in production is refused unless it is hardened.
  \<^item> Some theorems record behaviour a reader of the code would not expect: \<open>settlement_revives_expired_hold\<close>,
    \<open>revoke_principal_misses_lease\<close>, \<open>comma_scope_is_split\<close>, \<open>cli_scope_keeps_case\<close>, \<open>redaction_keeps_parameters\<close>,
    \<open>long_ages_wrap\<close>, \<open>bad_budget_is_found_late\<close> and others beside the definitions they are about.

  \<^bold>\<open>Bounds and fuel.\<close> The recursive queries run with one more round than there are runs: a parent is always
  inserted before its child, so a chain is no longer than the table, and \<open>ancestors_total\<close> and \<open>subtree_total\<close> show
  that the fuel is never used up in a reachable database. \<open>ParseIP\<close> reads at most eight groups. A delivery
  makes at most three attempts and the alert queue holds 128, the constants of the code. A step of the store
  assumes fewer than \<open>2 ^ 63 - 1\<close> ledger rows, the range of the sequence column, and budgets that fit
  int64. Everything else terminates structurally or by a length.

  \<^bold>\<open>Atomicity.\<close> \<open>StoreSystem\<close> takes an operation as one step: on SQLite the mutexes of the store and its single
  connection make it one. On PostgreSQL several processes share the rows; \<open>Isolation\<close> refines \<open>TryReserve\<close>, the
  only operation that decides on several reads, into its statements, and \<open>CloseRun\<close>, \<open>CreateRun\<close> and \<open>CreateLease\<close>
  wait for the same lock. A settlement is taken as one step there. Its status read can be stale against an
  expiry in another process: \<open>settlement_revives_expired_hold\<close> is that interleaving.

  \<^bold>\<open>Not modelled.\<close> The HTML templates, styles and embedded files (text for a browser); help texts and error wording
  beyond the kind; listening, signals, shutdown, timers and the goroutines that call the modelled handlers; opening a
  database connection and the driver adapters that only pass calls on; the request context, whose values are arguments;
  the log writer and the encoders of JSON and CSV; vendored tables of the \<open>unicode\<close> package beyond the five scripts the
  estimator asks for. Failures of the database connection are the abandoned transactions of \<open>Isolation\<close> and the
  errors of the API, not a branch of every operation.
\<close>

section \<open>From the demo's seeding to its last request\<close>

text \<open>
  What the demo tells its reader, over the parts that make it: seeded into an empty store, and whatever then
  interleaves on the gateway, the run of the agent called retry-loop never has more than four cents spent
  and held, but for charges that their holds did not cover.
\<close>

theorem demo_loop_is_capped:
  assumes "seed_demo_fleet sha now draws empty_db = (Inr as, dp_db s0)"
    and "deployment_run sha cf s0 tr s" "at_rest s0" "recorders_typed cf"
    and "\<forall>k i ctx. Authenticated k i ctx \<in> set tr \<longrightarrow> pr_mode (au_principal ctx) = ModeEnforce"
  shows "\<exists>a \<in> set as. \<exists>r \<in> set (d_runs (dp_db s)). da_name a = ''retry-loop'' \<and> run_principal r = pr_id (da_principal a) \<and>
    spent_in (dp_db s) (run_id r) + held_in (dp_db s) (run_id r) \<le> 40000000 + overrun_in (dp_db s) (run_id r)"
proof -
  note fleet = demo_fleet_is_seeded [OF assms(1)]
  have start: "evolves sha enforced_op empty_db (dp_db s0)"
    using fleet evolves_weaken [of sha management_op empty_db "dp_db s0" enforced_op] management_enforced
    by (auto simp: empty_db_def max_i64_def)
  have "evolves sha enforced_op (dp_db s0) (dp_db s)"
    using enforced_run_evolves [OF assms(2,3) _ assms(4,5)] evolves_schema [OF start empty_schema] by blast
  then have kept: "runs_kept (dp_db s0) (dp_db s)" and reach: "reachable sha enforced_op (dp_db s)"
    using evolves_runs_kept evolves_trans [OF _ start] by (auto simp: reachable_def)
  obtain a r where a: "a \<in> set as" "da_name a = ''retry-loop''" and r: "r \<in> set (d_runs (dp_db s0))"
    "run_principal r = pr_id (da_principal a)" "run_budget r = 40000000"
    using fleet by (fastforce simp: empty_db_def max_i64_def list_all2_Cons1)
  obtain q where q: "q \<in> set (d_runs (dp_db s))" "run_principal q = run_principal r" "run_budget q = run_budget r"
    using kept r(1) by (auto simp: runs_kept_def)
  have "spent_in (dp_db s) (run_id q) + held_in (dp_db s) (run_id q) \<le> 40000000 + overrun_in (dp_db s) (run_id q)"
    using reachable_store_inv [OF reach] q r(3) by (auto simp: store_inv_def budgets_hold_def)
  then show ?thesis using a q r(2) by auto
qed

end
